(* ===== verification/Prelude.thy ===== *)
theory Prelude
  imports Main "HOL-Library.Word"
begin

text \<open>
  Shared foundation of the development: the machine integer types of the Rust
  sources, the three-valued outcome of a Rust call (\<open>Ok\<close>, \<open>Err\<close>, or a panic), the
  state-passing programs in which every operation on a mutable object is written, and the
  generic facts on byte lists, big-endian integers and list updates that the components
  use.

  Conventions. A \<open>usize\<close> is a \<^typ>\<open>nat\<close>: all sizes are lengths of slices or sums of two
  of them, which Rust bounds by \<open>isize::MAX\<close>, so sums never wrap; a subtraction that
  would go below zero, an index or a slice out of range, a failed \<open>unwrap\<close>, \<open>assert\<close> or
  \<open>debug_assert\<close> and an \<open>unimplemented!()\<close> are the outcome \<open>Panic\<close> (the behaviour of a
  build with debug assertions and overflow checks; where panic freedom is proved the
  release build computes the same). Casts \<open>as u8\<close>, \<open>as u16\<close> truncate and are
  written \<^const>\<open>of_nat\<close> into the word type.
\<close>

section \<open>Machine integers\<close>

type_synonym u8 = "8 word"
type_synonym u16 = "16 word"
type_synonym u32 = "32 word"
type_synonym u64 = "64 word"
type_synonym bytes = "8 word list"

named_theorems prog_simps \<open>how the program combinators compute\<close>
named_theorems bytes_simps \<open>big-endian encodings and slices\<close>
named_theorems codec_intros \<open>what an encoder appends and a parser accepts\<close>

section \<open>Outcomes and state-passing programs\<close>

datatype ('a, 'e) result = Ok 'a | Err 'e | Panic

type_synonym ('s, 'a, 'e) prog = "'s \<Rightarrow> ('a, 'e) result \<times> 's"

definition ret :: "'a \<Rightarrow> ('s, 'a, 'e) prog" where
  "ret a = (\<lambda>s. (Ok a, s))"

definition fail :: "'e \<Rightarrow> ('s, 'a, 'e) prog" where
  "fail e = (\<lambda>s. (Err e, s))"

definition panic :: "('s, 'a, 'e) prog" where
  "panic = (\<lambda>s. (Panic, s))"

text \<open>\<open>bnd m f\<close> is \<open>let x = m?; f(x)\<close>: an error or a panic of \<open>m\<close> ends the
  function, with the mutations made so far kept.\<close>

definition bnd :: "('s, 'a, 'e) prog \<Rightarrow> ('a \<Rightarrow> ('s, 'b, 'e) prog) \<Rightarrow> ('s, 'b, 'e) prog" where
  "bnd m f = (\<lambda>s. case m s of
      (Ok a, s') \<Rightarrow> f a s'
    | (Err e, s') \<Rightarrow> (Err e, s')
    | (Panic, s') \<Rightarrow> (Panic, s'))"

abbreviation seq :: "('s, 'a, 'e) prog \<Rightarrow> ('s, 'b, 'e) prog \<Rightarrow> ('s, 'b, 'e) prog" where
  "seq m n \<equiv> bnd m (\<lambda>_. n)"

text \<open>\<open>Result::map_err\<close>.\<close>

definition map_err :: "('e \<Rightarrow> 'f) \<Rightarrow> ('s, 'a, 'e) prog \<Rightarrow> ('s, 'a, 'f) prog" where
  "map_err g m = (\<lambda>s. case m s of
      (Ok a, s') \<Rightarrow> (Ok a, s')
    | (Err e, s') \<Rightarrow> (Err (g e), s')
    | (Panic, s') \<Rightarrow> (Panic, s'))"

text \<open>A call whose \<open>Result\<close> is inspected instead of propagated with \<open>?\<close>.\<close>

definition attempt :: "('s, 'a, 'e) prog \<Rightarrow> ('s, ('a, 'e) result, 'f) prog" where
  "attempt m = (\<lambda>s. case m s of
      (Panic, s') \<Rightarrow> (Panic, s')
    | (r, s') \<Rightarrow> (Ok r, s'))"

definition gets :: "('s \<Rightarrow> 'a) \<Rightarrow> ('s, 'a, 'e) prog" where
  "gets f = (\<lambda>s. (Ok (f s), s))"

definition modify :: "('s \<Rightarrow> 's) \<Rightarrow> ('s, unit, 'e) prog" where
  "modify f = (\<lambda>s. (Ok (), f s))"

definition from_result :: "('a, 'e) result \<Rightarrow> ('s, 'a, 'e) prog" where
  "from_result r = (\<lambda>s. (r, s))"

definition ok_or :: "'e \<Rightarrow> 'a option \<Rightarrow> ('s, 'a, 'e) prog" where
  "ok_or e x = (case x of None \<Rightarrow> fail e | Some a \<Rightarrow> ret a)"

text \<open>\<open>for x in xs { f(x)?; }\<close>\<close>

fun for_each :: "'x list \<Rightarrow> ('x \<Rightarrow> ('s, unit, 'e) prog) \<Rightarrow> ('s, unit, 'e) prog" where
  "for_each [] f = ret ()"
| "for_each (x # xs) f = seq (f x) (for_each xs f)"

lemma ret_apply [simp, prog_simps]: "ret a s = (Ok a, s)"
  by (simp add: ret_def)

lemma fail_apply [simp, prog_simps]: "fail e s = (Err e, s)"
  by (simp add: fail_def)

lemma panic_apply [simp, prog_simps]: "panic s = (Panic, s)"
  by (simp add: panic_def)

lemma bnd_ok [prog_simps]: "m s = (Ok a, s') \<Longrightarrow> bnd m f s = f a s'"
  by (simp add: bnd_def)

lemma bnd_err [prog_simps]: "m s = (Err e, s') \<Longrightarrow> bnd m f s = (Err e, s')"
  by (simp add: bnd_def)

lemma bnd_panic [prog_simps]: "m s = (Panic, s') \<Longrightarrow> bnd m f s = (Panic, s')"
  by (simp add: bnd_def)

lemma bnd_Ok_iff:
  "bnd m f s = (Ok b, t) \<longleftrightarrow> (\<exists>a s'. m s = (Ok a, s') \<and> f a s' = (Ok b, t))"
  by (auto simp: bnd_def split: prod.splits result.splits)

lemma snd_bnd_invariant:
  assumes "I s" and "\<And>s. I s \<Longrightarrow> I (snd (m s))" and "\<And>a s. I s \<Longrightarrow> I (snd (f a s))"
  shows "I (snd (bnd m f s))"
proof -
  obtain r t where m: "m s = (r, t)" by fastforce
  then have "I t" using assms(2) [OF assms(1)] by simp
  then show ?thesis using m assms(3) [of t] by (cases r) (simp_all add: bnd_def)
qed

lemma bnd_ret [simp]: "bnd (ret a) f = f a"
  by (simp add: bnd_def fun_eq_iff)

lemma bnd_fail [simp]: "bnd (fail e) f = fail e"
  by (simp add: bnd_def fun_eq_iff)

lemma bnd_gets [simp]: "bnd (gets g) f s = f (g s) s"
  by (simp add: bnd_def gets_def)

lemma gets_apply [simp, prog_simps]: "gets f s = (Ok (f s), s)"
  by (simp add: gets_def)

lemma modify_apply [simp, prog_simps]: "modify f s = (Ok (), f s)"
  by (simp add: modify_def)

lemma from_result_apply [simp, prog_simps]: "from_result r s = (r, s)"
  by (simp add: from_result_def)

lemma map_err_ok [prog_simps]: "m s = (Ok a, s') \<Longrightarrow> map_err g m s = (Ok a, s')"
  by (simp add: map_err_def)

lemma map_err_err [prog_simps]: "m s = (Err e, s') \<Longrightarrow> map_err g m s = (Err (g e), s')"
  by (simp add: map_err_def)

lemma map_err_Ok_iff: "map_err g m s = (Ok a, s') \<longleftrightarrow> m s = (Ok a, s')"
  by (auto simp: map_err_def split: prod.splits result.splits)

lemma map_err_Err_iff:
  "map_err g m s = (Err f, s') \<longleftrightarrow> (\<exists>e. m s = (Err e, s') \<and> f = g e)"
  by (auto simp: map_err_def split: prod.splits result.splits)

lemma map_err_Panic_iff: "map_err g m s = (Panic, s') \<longleftrightarrow> m s = (Panic, s')"
  by (auto simp: map_err_def split: prod.splits result.splits)

lemma ok_or_Ok_iff [simp]: "ok_or e x s = (Ok a, s') \<longleftrightarrow> x = Some a \<and> s' = s"
  by (auto simp: ok_or_def split: option.splits)

lemma ok_or_Some [simp]: "ok_or e (Some a) = ret a"
  by (simp add: ok_or_def)

lemma ok_or_None [simp]: "ok_or e None = fail e"
  by (simp add: ok_or_def)

text \<open>The same for functions that mutate nothing: \<open>let x = r?; f(x)\<close> on a plain \<open>Result\<close>.\<close>

fun and_then :: "('a, 'e) result \<Rightarrow> ('a \<Rightarrow> ('b, 'e) result) \<Rightarrow> ('b, 'e) result" where
  "and_then (Ok a) f = f a"
| "and_then (Err e) f = Err e"
| "and_then Panic f = Panic"

definition or_err :: "'e \<Rightarrow> 'a option \<Rightarrow> ('a, 'e) result" where
  "or_err e x = (case x of None \<Rightarrow> Err e | Some a \<Rightarrow> Ok a)"

fun res_map_err :: "('e \<Rightarrow> 'f) \<Rightarrow> ('a, 'e) result \<Rightarrow> ('a, 'f) result" where
  "res_map_err g (Ok a) = Ok a"
| "res_map_err g (Err e) = Err (g e)"
| "res_map_err g Panic = Panic"

lemma or_err_simps [simp]: "or_err e (Some a) = Ok a" "or_err e None = Err e"
  by (simp_all add: or_err_def)

lemma and_then_Ok_iff: "and_then r f = Ok b \<longleftrightarrow> (\<exists>a. r = Ok a \<and> f a = Ok b)"
  by (cases r) simp_all

lemma and_then_no_panic: "r \<noteq> Panic \<Longrightarrow> (\<And>a. f a \<noteq> Panic) \<Longrightarrow> and_then r f \<noteq> Panic"
  by (cases r) simp_all

section \<open>Big-endian integers\<close>

text \<open>\<open>to_be_bytes\<close> and \<open>from_be_bytes\<close> of the integer types; \<^const>\<open>of_nat\<close> into
  \<^typ>\<open>u8\<close> keeps the low eight bits.\<close>

definition u16_to_be_bytes :: "u16 \<Rightarrow> bytes" where
  "u16_to_be_bytes w = [of_nat (unat w div 256), of_nat (unat w)]"

definition u16_from_be_bytes :: "u8 \<Rightarrow> u8 \<Rightarrow> u16" where
  "u16_from_be_bytes a b = of_nat (unat a * 256 + unat b)"

definition u32_to_be_bytes :: "u32 \<Rightarrow> bytes" where
  "u32_to_be_bytes w =
     [of_nat (unat w div 16777216), of_nat (unat w div 65536), of_nat (unat w div 256),
      of_nat (unat w)]"

definition u32_from_be_bytes :: "u8 \<Rightarrow> u8 \<Rightarrow> u8 \<Rightarrow> u8 \<Rightarrow> u32" where
  "u32_from_be_bytes a b c d =
     of_nat (unat a * 16777216 + unat b * 65536 + unat c * 256 + unat d)"

definition u64_to_be_bytes :: "u64 \<Rightarrow> bytes" where
  "u64_to_be_bytes w = map (\<lambda>i. of_nat (unat w div 256 ^ i)) [7, 6, 5, 4, 3, 2, 1, 0]"

lemma length_u16_bytes [simp, bytes_simps]: "length (u16_to_be_bytes w) = 2"
  by (simp add: u16_to_be_bytes_def)

lemma length_u32_bytes [simp, bytes_simps]: "length (u32_to_be_bytes w) = 4"
  by (simp add: u32_to_be_bytes_def)

lemma length_u64_bytes [simp, bytes_simps]: "length (u64_to_be_bytes w) = 8"
  by (simp add: u64_to_be_bytes_def)

lemma unat_u8_less [simp]: "unat (w :: u8) < 256"
  using unsigned_less [of w, where ?'a = nat] by simp

lemma unat_u16_less [simp]: "unat (w :: u16) < 65536"
  using unsigned_less [of w, where ?'a = nat] by simp

lemma unat_u32_less [simp]: "unat (w :: u32) < 4294967296"
  using unsigned_less [of w, where ?'a = nat] by simp

lemma unat_of_nat_u8 [simp]: "unat (of_nat n :: u8) = n mod 256"
  by (simp add: unat_of_nat)

lemma unat_of_nat_u16 [simp]: "unat (of_nat n :: u16) = n mod 65536"
  by (simp add: unat_of_nat)

lemma unat_of_nat_u32 [simp]: "unat (of_nat n :: u32) = n mod 4294967296"
  by (simp add: unat_of_nat)

lemma unat_u16_from: "unat (u16_from_be_bytes a b) = unat a * 256 + unat b"
proof -
  have "unat a * 256 + unat b < 65536"
    using unat_u8_less [of a] unat_u8_less [of b] by linarith
  then show ?thesis
    by (simp add: u16_from_be_bytes_def unat_of_nat_u16 del: of_nat_add of_nat_mult)
qed

lemma unat_u32_from:
  "unat (u32_from_be_bytes a b c d) =
     unat a * 16777216 + unat b * 65536 + unat c * 256 + unat d"
proof -
  have "unat a * 16777216 + unat b * 65536 + unat c * 256 + unat d < 4294967296"
    using unat_u8_less [of a] unat_u8_less [of b] unat_u8_less [of c] unat_u8_less [of d]
    by linarith
  then show ?thesis
    by (simp add: u32_from_be_bytes_def unat_of_nat_u32 del: of_nat_add of_nat_mult)
qed

lemma unat_u24_from:
  "unat (u32_from_be_bytes 0 a b c) = unat a * 65536 + unat b * 256 + unat c"
  by (simp add: unat_u32_from)

lemma base256_digits:
  "(n :: nat) < 4294967296 \<Longrightarrow>
     n div 16777216 mod 256 * 16777216 + n div 65536 mod 256 * 65536 +
     n div 256 mod 256 * 256 + n mod 256 = n"
proof -
  assume n: "n < 4294967296"
  define m1 m2 m3 where "m1 = n div 256" and "m2 = m1 div 256" and "m3 = m2 div 256"
  have d: "n div 65536 = m2" "n div 16777216 = m3"
    by (simp_all add: m1_def m2_def m3_def flip: div_mult2_eq)
  have "m3 < 256" using n by (simp add: m1_def m2_def m3_def less_mult_imp_div_less)
  moreover have "n = m1 * 256 + n mod 256" "m1 = m2 * 256 + m1 mod 256"
    "m2 = m3 * 256 + m2 mod 256"
    by (simp_all add: m1_def m2_def m3_def)
  ultimately show ?thesis
    unfolding d m1_def [symmetric] by simp
qed

lemma u16_from_to: "u16_from_be_bytes (of_nat (unat w div 256)) (of_nat (unat w)) = w"
proof -
  have "unat w div 256 < 256"
    by (rule less_mult_imp_div_less) simp
  then show ?thesis
    by (simp only: word_unat_eq_iff unat_u16_from unat_of_nat_u8 mod_less div_mult_mod_eq)
qed

lemma u32_from_to:
  "u32_from_be_bytes (of_nat (unat w div 16777216)) (of_nat (unat w div 65536))
     (of_nat (unat w div 256)) (of_nat (unat w)) = w"
  by (simp only: word_unat_eq_iff unat_u32_from unat_of_nat_u8 base256_digits unat_u32_less)

lemma u24_from_to:
  assumes "unat w < 16777216"
  shows "u32_from_be_bytes 0 (of_nat (unat w div 65536)) (of_nat (unat w div 256))
     (of_nat (unat w)) = w"
  using base256_digits [of "unat w"] assms
  by (simp only: word_unat_eq_iff unat_u24_from unat_of_nat_u8) simp

lemma u16_to_from: "u16_to_be_bytes (u16_from_be_bytes a b) = [a, b]"
  by (simp only: u16_to_be_bytes_def unat_u16_from) (simp add: word_unat_eq_iff del: of_nat_add of_nat_mult)

lemma base256_to_from:
  fixes a b c d :: nat
  assumes "a < 256" "b < 256" "c < 256" "d < 256"
  shows "(a * 16777216 + b * 65536 + c * 256 + d) div 16777216 = a"
    and "(a * 16777216 + b * 65536 + c * 256 + d) div 65536 mod 256 = b"
    and "(a * 16777216 + b * 65536 + c * 256 + d) div 256 mod 256 = c"
    and "(a * 16777216 + b * 65536 + c * 256 + d) mod 256 = d"
proof -
  let ?n = "a * 16777216 + b * 65536 + c * 256 + d"
  have n1: "?n = d + (a * 65536 + b * 256 + c) * 256" by simp
  then have m1: "?n div 256 = a * 65536 + b * 256 + c" using assms by simp
  have m2: "?n div 65536 = a * 256 + b"
    using div_mult2_eq [of ?n 256 256] m1 assms(3) by simp
  show "?n div 16777216 = a"
    using div_mult2_eq [of ?n 65536 256] m2 assms(2) by simp
  have m1': "a * 65536 + b * 256 + c = c + (a * 256 + b) * 256" by simp
  show "?n mod 256 = d" unfolding n1 using assms by (simp only: mod_mult_self1 mod_less)
  show "?n div 256 mod 256 = c"
    unfolding m1 m1' using assms by (simp only: mod_mult_self1 mod_less)
  show "?n div 65536 mod 256 = b" unfolding m2 using assms by simp
qed

lemma u32_to_from: "u32_to_be_bytes (u32_from_be_bytes a b c d) = [a, b, c, d]"
  by (simp only: u32_to_be_bytes_def unat_u32_from)
    (simp add: word_unat_eq_iff base256_to_from del: of_nat_add of_nat_mult)

section \<open>Vectors of fixed capacity\<close>

text \<open>A \<open>heapless::Vec<T, N>\<close> is a list of at most \<open>N\<close> elements; \<open>push\<close> and
  \<open>extend_from_slice\<close> hand the vector back unchanged when the elements do not fit.\<close>

definition vec_push :: "nat \<Rightarrow> 'a list \<Rightarrow> 'a \<Rightarrow> 'a list option" where
  "vec_push N xs x = (if length xs < N then Some (xs @ [x]) else None)"

definition vec_extend :: "nat \<Rightarrow> 'a list \<Rightarrow> 'a list \<Rightarrow> 'a list option" where
  "vec_extend N xs ys = (if length xs + length ys \<le> N then Some (xs @ ys) else None)"

section \<open>Slices\<close>

text \<open>\<open>xs[a..b]\<close> as a value; every use states its bounds check separately.\<close>

definition slice_of :: "'a list \<Rightarrow> nat \<Rightarrow> nat \<Rightarrow> 'a list" where
  "slice_of xs a b = take (b - a) (drop a xs)"

lemma length_slice_of [simp]: "b \<le> length xs \<Longrightarrow> length (slice_of xs a b) = b - a"
  by (simp add: slice_of_def)

text \<open>\<open>xs[i..i + ys.len()].copy_from_slice(ys)\<close> for a range within bounds.\<close>

definition write_at :: "'a list \<Rightarrow> nat \<Rightarrow> 'a list \<Rightarrow> 'a list" where
  "write_at xs i ys = take i xs @ ys @ drop (i + length ys) xs"

lemma length_write_at [simp]: "i + length ys \<le> length xs \<Longrightarrow> length (write_at xs i ys) = length xs"
  by (simp add: write_at_def)

lemma write_at_Nil [simp]: "write_at xs i [] = xs"
  by (simp add: write_at_def)

lemma write_at_write_at:
  "i + length ys + length zs \<le> length xs \<Longrightarrow>
   write_at (write_at xs i ys) (i + length ys) zs = write_at xs i (ys @ zs)"
  by (simp add: write_at_def add_ac)

lemma write_at_overwrite:
  "length ys = length zs \<Longrightarrow> i + length ys \<le> length xs \<Longrightarrow>
   write_at (write_at xs i ys) i zs = write_at xs i zs"
  by (simp add: write_at_def)

lemma write_at_single: "i < length xs \<Longrightarrow> xs[i := x] = write_at xs i [x]"
  by (simp add: write_at_def upd_conv_take_nth_drop)

lemma take_write_at_le: "n \<le> i \<Longrightarrow> i + length ys \<le> length xs \<Longrightarrow> take n (write_at xs i ys) = take n xs"
  by (simp add: write_at_def)

lemma take_write_at:
  "i + length ys \<le> length xs \<Longrightarrow> take (i + length ys) (write_at xs i ys) = take i xs @ ys"
  by (simp add: write_at_def)

lemma slice_write_at:
  "i + length ys \<le> length xs \<Longrightarrow> slice_of (write_at xs i ys) i (i + length ys) = ys"
  by (simp add: write_at_def slice_of_def)

lemma drop_write_at:
  "i + length ys \<le> n \<Longrightarrow> i + length ys \<le> length xs \<Longrightarrow> drop n (write_at xs i ys) = drop n xs"
  by (simp add: write_at_def)

lemma take_drop_Suc:
  "i < length xs \<Longrightarrow> take (Suc n) (drop i xs) = xs ! i # take n (drop (Suc i) xs)"
  by (simp flip: Cons_nth_drop_Suc)

end
