(* ===== verification/Tls_Error.thy ===== *)
theory Tls_Error
  imports Prelude
begin

text \<open>
  The error values of the library: \<open>TlsError\<close> of \<open>src/src/lib.rs\<close>, \<open>ParseError\<close> of
  \<open>src/src/parse_buffer.rs\<close>, and the two alert enumerations of \<open>src/src/alert.rs\<close> that
  \<open>TlsError\<close> carries, with their numeric codes. \<open>embedded_io::ErrorKind\<close> is an external
  enumeration that the code only passes on: a kind is an opaque tag.
\<close>

section \<open>Alert levels and descriptions (alert.rs)\<close>

datatype AlertLevel = AL_Warning | AL_Fatal

fun AlertLevel_as_u8 :: "AlertLevel \<Rightarrow> u8" where
  "AlertLevel_as_u8 AL_Warning = 1"
| "AlertLevel_as_u8 AL_Fatal = 2"

definition AlertLevel_of :: "u8 \<Rightarrow> AlertLevel option" where
  "AlertLevel_of num =
     (if num = 1 then Some AL_Warning else if num = 2 then Some AL_Fatal else None)"

datatype AlertDescription =
    AD_CloseNotify
  | AD_UnexpectedMessage
  | AD_BadRecordMac
  | AD_RecordOverflow
  | AD_HandshakeFailure
  | AD_BadCertificate
  | AD_UnsupportedCertificate
  | AD_CertificateRevoked
  | AD_CertificateExpired
  | AD_CertificateUnknown
  | AD_IllegalParameter
  | AD_UnknownCa
  | AD_AccessDenied
  | AD_DecodeError
  | AD_DecryptError
  | AD_ProtocolVersion
  | AD_InsufficientSecurity
  | AD_InternalError
  | AD_InappropriateFallback
  | AD_UserCanceled
  | AD_MissingExtension
  | AD_UnsupportedExtension
  | AD_UnrecognizedName
  | AD_BadCertificateStatusResponse
  | AD_UnknownPskIdentity
  | AD_CertificateRequired
  | AD_NoApplicationProtocol

fun AlertDescription_as_u8 :: "AlertDescription \<Rightarrow> u8" where
  "AlertDescription_as_u8 AD_CloseNotify = 0"
| "AlertDescription_as_u8 AD_UnexpectedMessage = 10"
| "AlertDescription_as_u8 AD_BadRecordMac = 20"
| "AlertDescription_as_u8 AD_RecordOverflow = 22"
| "AlertDescription_as_u8 AD_HandshakeFailure = 40"
| "AlertDescription_as_u8 AD_BadCertificate = 42"
| "AlertDescription_as_u8 AD_UnsupportedCertificate = 43"
| "AlertDescription_as_u8 AD_CertificateRevoked = 44"
| "AlertDescription_as_u8 AD_CertificateExpired = 45"
| "AlertDescription_as_u8 AD_CertificateUnknown = 46"
| "AlertDescription_as_u8 AD_IllegalParameter = 47"
| "AlertDescription_as_u8 AD_UnknownCa = 48"
| "AlertDescription_as_u8 AD_AccessDenied = 49"
| "AlertDescription_as_u8 AD_DecodeError = 50"
| "AlertDescription_as_u8 AD_DecryptError = 51"
| "AlertDescription_as_u8 AD_ProtocolVersion = 70"
| "AlertDescription_as_u8 AD_InsufficientSecurity = 71"
| "AlertDescription_as_u8 AD_InternalError = 80"
| "AlertDescription_as_u8 AD_InappropriateFallback = 86"
| "AlertDescription_as_u8 AD_UserCanceled = 90"
| "AlertDescription_as_u8 AD_MissingExtension = 109"
| "AlertDescription_as_u8 AD_UnsupportedExtension = 110"
| "AlertDescription_as_u8 AD_UnrecognizedName = 112"
| "AlertDescription_as_u8 AD_BadCertificateStatusResponse = 113"
| "AlertDescription_as_u8 AD_UnknownPskIdentity = 115"
| "AlertDescription_as_u8 AD_CertificateRequired = 116"
| "AlertDescription_as_u8 AD_NoApplicationProtocol = 120"

definition AlertDescription_of :: "u8 \<Rightarrow> AlertDescription option" where
  "AlertDescription_of num =
    (if num = 0 then Some AD_CloseNotify
     else if num = 10 then Some AD_UnexpectedMessage
     else if num = 20 then Some AD_BadRecordMac
     else if num = 22 then Some AD_RecordOverflow
     else if num = 40 then Some AD_HandshakeFailure
     else if num = 42 then Some AD_BadCertificate
     else if num = 43 then Some AD_UnsupportedCertificate
     else if num = 44 then Some AD_CertificateRevoked
     else if num = 45 then Some AD_CertificateExpired
     else if num = 46 then Some AD_CertificateUnknown
     else if num = 47 then Some AD_IllegalParameter
     else if num = 48 then Some AD_UnknownCa
     else if num = 49 then Some AD_AccessDenied
     else if num = 50 then Some AD_DecodeError
     else if num = 51 then Some AD_DecryptError
     else if num = 70 then Some AD_ProtocolVersion
     else if num = 71 then Some AD_InsufficientSecurity
     else if num = 80 then Some AD_InternalError
     else if num = 86 then Some AD_InappropriateFallback
     else if num = 90 then Some AD_UserCanceled
     else if num = 109 then Some AD_MissingExtension
     else if num = 110 then Some AD_UnsupportedExtension
     else if num = 112 then Some AD_UnrecognizedName
     else if num = 113 then Some AD_BadCertificateStatusResponse
     else if num = 115 then Some AD_UnknownPskIdentity
     else if num = 116 then Some AD_CertificateRequired
     else if num = 120 then Some AD_NoApplicationProtocol
     else None)"

text \<open>The two functions are inverse to each other: a code determines the alert and every
  alert is read back from its code.\<close>

lemma AlertLevel_of_as_u8 [simp]: "AlertLevel_of (AlertLevel_as_u8 l) = Some l"
  by (cases l) (simp_all add: AlertLevel_of_def)

lemma AlertLevel_of_Some: "AlertLevel_of n = Some l \<Longrightarrow> AlertLevel_as_u8 l = n"
  by (auto simp: AlertLevel_of_def split: if_splits)

lemma AlertDescription_of_as_u8 [simp]:
  "AlertDescription_of (AlertDescription_as_u8 d) = Some d"
  by (cases d) (simp_all add: AlertDescription_of_def)

lemma AlertDescription_of_Some: "AlertDescription_of n = Some d \<Longrightarrow> AlertDescription_as_u8 d = n"
  by (auto simp: AlertDescription_of_def split: if_splits)

section \<open>Error values\<close>

type_synonym ErrorKind = nat

datatype ParseError = PE_InsufficientBytes | PE_InsufficientSpace | PE_InvalidData

datatype TlsError =
    ConnectionClosed
  | Unimplemented
  | MissingHandshake
  | HandshakeAborted AlertLevel AlertDescription
  | AbortHandshake AlertLevel AlertDescription
  | IoError
  | InternalError
  | InvalidRecord
  | UnknownContentType
  | InvalidNonceLength
  | InvalidTicketLength
  | UnknownExtensionType
  | InsufficientSpace
  | InvalidHandshake
  | InvalidCipherSuite
  | InvalidSignatureScheme
  | InvalidSignature
  | InvalidExtensionsLength
  | InvalidSessionIdLength
  | InvalidSupportedVersions
  | InvalidApplicationData
  | InvalidKeyShare
  | InvalidCertificate
  | InvalidCertificateEntry
  | InvalidCertificateRequest
  | InvalidPrivateKey
  | UnableToInitializeCryptoEngine
  | ParseError ParseError
  | OutOfMemory
  | CryptoError
  | EncodeError
  | DecodeError
  | Io ErrorKind

text \<open>\<open>embedded_io::Error::kind\<close> of a \<open>TlsError\<close>; the tag of \<open>ErrorKind::Other\<close> is the
  first argument.\<close>

fun TlsError_kind :: "ErrorKind \<Rightarrow> TlsError \<Rightarrow> ErrorKind" where
  "TlsError_kind other (Io k) = k"
| "TlsError_kind other e = other"

text \<open>\<open>From<ParseError> for TlsError\<close>, the conversion that \<open>?\<close> applies.\<close>

definition TlsError_from :: "ParseError \<Rightarrow> TlsError" where
  "TlsError_from e = ParseError e"

end
