(* ===== verification/Parse_Buffer.thy ===== *)
theory Parse_Buffer
  imports Tls_Error
begin

text \<open>
  The input cursor of \<open>src/src/parse_buffer.rs\<close>: a byte slice and a position, read by
  operations that advance the position on success and leave it on failure. The contract
  \<open>parses p bs v\<close> says that a parser reads exactly \<open>bs\<close>, wherever it stands in a larger
  buffer, and yields \<open>v\<close>; \<open>reads_only\<close> says that this is the only way it succeeds.
\<close>

record ParseBuffer =
  pos :: nat
  buffer :: bytes

definition pb_new :: "bytes \<Rightarrow> ParseBuffer" where
  "pb_new b = \<lparr>pos = 0, buffer = b\<rparr>"

definition pb_is_empty :: "ParseBuffer \<Rightarrow> bool" where
  "pb_is_empty b \<longleftrightarrow> pos b = length (buffer b)"

definition pb_remaining :: "ParseBuffer \<Rightarrow> (nat, 'e) result" where
  "pb_remaining b =
     (if pos b \<le> length (buffer b) then Ok (length (buffer b) - pos b) else Panic)"

definition pb_offset :: "ParseBuffer \<Rightarrow> nat" where
  "pb_offset b = pos b"

definition pb_as_slice :: "ParseBuffer \<Rightarrow> bytes" where
  "pb_as_slice b = buffer b"

text \<open>\<open>self.buffer[i]\<close> and \<open>self.buffer[i..j]\<close>: an index or a range outside the
  buffer is a panic, whatever check stands before it.\<close>

definition pb_index :: "nat \<Rightarrow> (ParseBuffer, u8, ParseError) prog" where
  "pb_index i = (\<lambda>b.
     if i < length (buffer b) then (Ok (buffer b ! i), b) else (Panic, b))"

definition pb_range :: "nat \<Rightarrow> nat \<Rightarrow> (ParseBuffer, bytes, ParseError) prog" where
  "pb_range i j = (\<lambda>b.
     if i \<le> j \<and> j \<le> length (buffer b) then (Ok (slice_of (buffer b) i j), b) else (Panic, b))"

definition pb_advance :: "nat \<Rightarrow> (ParseBuffer, unit, ParseError) prog" where
  "pb_advance n = modify (\<lambda>b. b\<lparr>pos := pos b + n\<rparr>)"

definition pb_slice :: "nat \<Rightarrow> (ParseBuffer, ParseBuffer, ParseError) prog" where
  "pb_slice len = (\<lambda>b.
     if pos b + len \<le> length (buffer b)
     then bnd (pb_range (pos b) (pos b + len)) (\<lambda>bs.
          seq (pb_advance len) (ret (pb_new bs))) b
     else fail PE_InsufficientBytes b)"

definition pb_read_u8 :: "(ParseBuffer, u8, ParseError) prog" where
  "pb_read_u8 = (\<lambda>b.
     if pos b < length (buffer b)
     then bnd (pb_index (pos b)) (\<lambda>value. seq (pb_advance 1) (ret value)) b
     else fail PE_InsufficientBytes b)"

definition pb_read_u16 :: "(ParseBuffer, u16, ParseError) prog" where
  "pb_read_u16 = (\<lambda>b.
     if pos b + 2 \<le> length (buffer b)
     then bnd (pb_index (pos b)) (\<lambda>x0. bnd (pb_index (pos b + 1)) (\<lambda>x1.
          seq (pb_advance 2) (ret (u16_from_be_bytes x0 x1)))) b
     else fail PE_InsufficientBytes b)"

definition pb_read_u24 :: "(ParseBuffer, u32, ParseError) prog" where
  "pb_read_u24 = (\<lambda>b.
     if pos b + 3 \<le> length (buffer b)
     then bnd (pb_index (pos b)) (\<lambda>x0. bnd (pb_index (pos b + 1)) (\<lambda>x1.
          bnd (pb_index (pos b + 2)) (\<lambda>x2.
          seq (pb_advance 3) (ret (u32_from_be_bytes 0 x0 x1 x2))))) b
     else fail PE_InsufficientBytes b)"

definition pb_read_u32 :: "(ParseBuffer, u32, ParseError) prog" where
  "pb_read_u32 = (\<lambda>b.
     if pos b + 4 \<le> length (buffer b)
     then bnd (pb_index (pos b)) (\<lambda>x0. bnd (pb_index (pos b + 1)) (\<lambda>x1.
          bnd (pb_index (pos b + 2)) (\<lambda>x2. bnd (pb_index (pos b + 3)) (\<lambda>x3.
          seq (pb_advance 4) (ret (u32_from_be_bytes x0 x1 x2 x3)))))) b
     else fail PE_InsufficientBytes b)"

text \<open>\<open>fill(dest)\<close> returns what it copies into the destination of \<open>n\<close> bytes.\<close>

definition pb_fill :: "nat \<Rightarrow> (ParseBuffer, bytes, ParseError) prog" where
  "pb_fill n = (\<lambda>b.
     if pos b + n \<le> length (buffer b)
     then bnd (pb_range (pos b) (pos b + n)) (\<lambda>bs. seq (pb_advance n) (ret bs)) b
     else fail PE_InsufficientBytes b)"

text \<open>\<open>copy\<close> extends a \<open>heapless::Vec\<close> of capacity \<open>cap\<close>, returned here; a
  \<open>heapless::Vec<T, N>\<close> is a list whose length never exceeds \<open>N\<close>. \<open>extend_from_slice\<close>
  fails when the elements do not fit.\<close>

definition pb_copy :: "nat \<Rightarrow> bytes \<Rightarrow> nat \<Rightarrow> (ParseBuffer, bytes, ParseError) prog" where
  "pb_copy cap dest num_bytes = (\<lambda>b.
     if cap < length dest then (Panic, b)
     else if cap - length dest < num_bytes then fail PE_InsufficientSpace b
     else if pos b + num_bytes \<le> length (buffer b)
     then bnd (pb_range (pos b) (pos b + num_bytes)) (\<lambda>bs.
          if length dest + length bs \<le> cap
          then seq (pb_advance num_bytes) (ret (dest @ bs))
          else fail PE_InsufficientSpace) b
     else fail PE_InsufficientBytes b)"

text \<open>The loop of \<open>read_list\<close>; \<open>room\<close> is the capacity the result vector has left. Every
  round fills one place of the vector, so the loop ends even for a reader that consumes
  nothing.\<close>

fun read_list_loop ::
  "nat \<Rightarrow> (ParseBuffer, 't, ParseError) prog \<Rightarrow> ParseBuffer \<Rightarrow> 't list \<Rightarrow> ('t list, ParseError) result" where
  "read_list_loop room rd data acc =
     (if pb_is_empty data then Ok acc
      else case rd data of
        (Err e, _) \<Rightarrow> Err e
      | (Panic, _) \<Rightarrow> Panic
      | (Ok v, data') \<Rightarrow>
          (case room of
             0 \<Rightarrow> Err PE_InsufficientSpace
           | Suc room' \<Rightarrow> read_list_loop room' rd data' (acc @ [v])))"

declare read_list_loop.simps [simp del]

definition pb_read_list ::
  "nat \<Rightarrow> nat \<Rightarrow> (ParseBuffer, 't, ParseError) prog \<Rightarrow> (ParseBuffer, 't list, ParseError) prog" where
  "pb_read_list N data_length rd =
     bnd (pb_slice data_length) (\<lambda>data. from_result (read_list_loop N rd data []))"

section \<open>The bounds checks cover the accesses\<close>

text \<open>Each primitive tests the length before it indexes, so the panics of the accesses
  are out of reach: the value of each call in terms of the two guarded branches. Later
  proofs use these equations and not the definitions.\<close>

lemma pb_index_value:
  "i < length (buffer b) \<Longrightarrow> pb_index i b = (Ok (buffer b ! i), b)"
  by (simp add: pb_index_def)

lemma pb_range_value:
  "i \<le> j \<Longrightarrow> j \<le> length (buffer b) \<Longrightarrow> pb_range i j b = (Ok (slice_of (buffer b) i j), b)"
  by (simp add: pb_range_def)

lemma pb_slice_value:
  "pb_slice len b =
     (if pos b + len \<le> length (buffer b)
      then (Ok (pb_new (slice_of (buffer b) (pos b) (pos b + len))), b\<lparr>pos := pos b + len\<rparr>)
      else (Err PE_InsufficientBytes, b))"
  by (simp add: pb_slice_def bnd_def pb_range_value pb_advance_def)

lemma pb_read_u8_value:
  "pb_read_u8 b =
     (if pos b < length (buffer b) then (Ok (buffer b ! pos b), b\<lparr>pos := pos b + 1\<rparr>)
      else (Err PE_InsufficientBytes, b))"
  by (simp add: pb_read_u8_def bnd_def pb_index_value pb_advance_def)

lemma pb_read_u16_value:
  "pb_read_u16 b =
     (if pos b + 2 \<le> length (buffer b)
      then (Ok (u16_from_be_bytes (buffer b ! pos b) (buffer b ! (pos b + 1))),
            b\<lparr>pos := pos b + 2\<rparr>)
      else (Err PE_InsufficientBytes, b))"
  by (simp add: pb_read_u16_def bnd_def pb_index_value pb_advance_def)

lemma pb_read_u24_value:
  "pb_read_u24 b =
     (if pos b + 3 \<le> length (buffer b)
      then (Ok (u32_from_be_bytes 0 (buffer b ! pos b) (buffer b ! (pos b + 1))
                  (buffer b ! (pos b + 2))),
            b\<lparr>pos := pos b + 3\<rparr>)
      else (Err PE_InsufficientBytes, b))"
  by (simp add: pb_read_u24_def bnd_def pb_index_value pb_advance_def)

lemma pb_read_u32_value:
  "pb_read_u32 b =
     (if pos b + 4 \<le> length (buffer b)
      then (Ok (u32_from_be_bytes (buffer b ! pos b) (buffer b ! (pos b + 1))
                  (buffer b ! (pos b + 2)) (buffer b ! (pos b + 3))),
            b\<lparr>pos := pos b + 4\<rparr>)
      else (Err PE_InsufficientBytes, b))"
  by (simp add: pb_read_u32_def bnd_def pb_index_value pb_advance_def)

lemma pb_fill_value:
  "pb_fill n b =
     (if pos b + n \<le> length (buffer b)
      then (Ok (slice_of (buffer b) (pos b) (pos b + n)), b\<lparr>pos := pos b + n\<rparr>)
      else (Err PE_InsufficientBytes, b))"
  by (simp add: pb_fill_def bnd_def pb_range_value pb_advance_def)

lemma pb_copy_value:
  "pb_copy cap dest n b =
     (if cap < length dest then (Panic, b)
      else if cap - length dest < n then (Err PE_InsufficientSpace, b)
      else if pos b + n \<le> length (buffer b)
      then (Ok (dest @ slice_of (buffer b) (pos b) (pos b + n)), b\<lparr>pos := pos b + n\<rparr>)
      else (Err PE_InsufficientBytes, b))"
  by (auto simp: pb_copy_def bnd_def pb_range_value pb_advance_def)

section \<open>The cursor invariant\<close>

definition pb_ok :: "ParseBuffer \<Rightarrow> bool" where
  "pb_ok b \<longleftrightarrow> pos b \<le> length (buffer b)"

text \<open>\<open>pb_advances b b'\<close>: the same buffer, at a later position within bounds.\<close>

definition pb_advances :: "ParseBuffer \<Rightarrow> ParseBuffer \<Rightarrow> bool" where
  "pb_advances b b' \<longleftrightarrow> buffer b' = buffer b \<and> pos b \<le> pos b' \<and> pos b' \<le> length (buffer b)"

lemma pb_ok_new [simp]: "pb_ok (pb_new b)"
  by (simp add: pb_ok_def pb_new_def)

lemma pb_advances_refl [simp]: "pb_ok b \<Longrightarrow> pb_advances b b"
  by (simp add: pb_ok_def pb_advances_def)

lemma pb_advances_trans: "pb_advances a b \<Longrightarrow> pb_advances b c \<Longrightarrow> pb_advances a c"
  by (auto simp: pb_advances_def)

lemma pb_advances_ok: "pb_advances b b' \<Longrightarrow> pb_ok b'"
  by (simp add: pb_advances_def pb_ok_def)

text \<open>A cursor program is safe when, from a cursor within bounds, it never panics and
  only moves the position forward within the same buffer.\<close>

definition pb_safe :: "(ParseBuffer, 'a, 'e) prog \<Rightarrow> bool" where
  "pb_safe p \<longleftrightarrow> (\<forall>b. pb_ok b \<longrightarrow> fst (p b) \<noteq> Panic \<and> pb_advances b (snd (p b)))"

named_theorems safe_intros \<open>cursor programs that never panic\<close>

lemma pb_safeD: "pb_safe p \<Longrightarrow> pb_ok b \<Longrightarrow> p b = (r, b') \<Longrightarrow> r \<noteq> Panic \<and> pb_advances b b'"
  by (force simp: pb_safe_def)

lemma pb_safe_ret [safe_intros]: "pb_safe (ret x)"
  by (simp add: pb_safe_def)

lemma pb_safe_fail [safe_intros]: "pb_safe (fail e)"
  by (simp add: pb_safe_def)

lemma pb_safe_bnd [safe_intros]:
  assumes "pb_safe m" and "\<And>a. pb_safe (f a)"
  shows "pb_safe (bnd m f)"
  unfolding pb_safe_def
proof (intro allI impI)
  fix b assume b: "pb_ok b"
  obtain r b' where m: "m b = (r, b')" by fastforce
  from pb_safeD [OF assms(1) b m] have r: "r \<noteq> Panic" and adv: "pb_advances b b'" by auto
  show "fst (bnd m f b) \<noteq> Panic \<and> pb_advances b (snd (bnd m f b))"
  proof (cases r)
    case (Ok a)
    obtain r2 b2 where f: "f a b' = (r2, b2)" by fastforce
    from pb_safeD [OF assms(2) pb_advances_ok [OF adv] f]
    show ?thesis using Ok m f adv by (auto simp: bnd_def intro: pb_advances_trans)
  qed (use m r adv in \<open>auto simp: bnd_def\<close>)
qed

lemma pb_safe_map_err [safe_intros]: "pb_safe m \<Longrightarrow> pb_safe (map_err g m)"
  by (auto simp: pb_safe_def map_err_def split: prod.splits result.splits)

lemma pb_safe_attempt [safe_intros]: "pb_safe m \<Longrightarrow> pb_safe (attempt m)"
  by (auto simp: pb_safe_def attempt_def split: prod.splits result.splits)

lemma pb_safe_gets [safe_intros]: "pb_safe (gets f)"
  by (simp add: pb_safe_def)

lemma pb_safe_if [safe_intros]: "pb_safe p \<Longrightarrow> pb_safe q \<Longrightarrow> pb_safe (if c then p else q)"
  by simp

lemma pb_safe_ok_or [safe_intros]: "pb_safe (ok_or e x)"
  by (cases x) (simp_all add: ok_or_def pb_safe_fail pb_safe_ret)

lemma pb_safe_from_result [safe_intros]: "r \<noteq> Panic \<Longrightarrow> pb_safe (from_result r)"
  by (simp add: pb_safe_def)

lemma pb_safe_slice [safe_intros]: "pb_safe (pb_slice n)"
  by (simp add: pb_safe_def pb_slice_value pb_advances_def pb_ok_def)

lemma pb_safe_read_u8 [safe_intros]: "pb_safe pb_read_u8"
  by (simp add: pb_safe_def pb_read_u8_value pb_advances_def pb_ok_def)

lemma pb_safe_read_u16 [safe_intros]: "pb_safe pb_read_u16"
  by (simp add: pb_safe_def pb_read_u16_value pb_advances_def pb_ok_def)

lemma pb_safe_read_u24 [safe_intros]: "pb_safe pb_read_u24"
  by (simp add: pb_safe_def pb_read_u24_value pb_advances_def pb_ok_def)

lemma pb_safe_read_u32 [safe_intros]: "pb_safe pb_read_u32"
  by (simp add: pb_safe_def pb_read_u32_value pb_advances_def pb_ok_def)

lemma pb_safe_fill [safe_intros]: "pb_safe (pb_fill n)"
  by (simp add: pb_safe_def pb_fill_value pb_advances_def pb_ok_def)

lemma read_list_loop_no_panic:
  assumes "pb_safe rd" and "pb_ok data"
  shows "read_list_loop room rd data acc \<noteq> Panic"
  using assms(2)
proof (induction room arbitrary: data acc)
  case 0
  then show ?case using pb_safeD [OF assms(1) 0]
    by (subst read_list_loop.simps) (auto split: prod.splits result.splits)
next
  case (Suc room)
  obtain r b' where rd: "rd data = (r, b')" by fastforce
  from pb_safeD [OF assms(1) Suc.prems rd] have "r \<noteq> Panic" and b': "pb_ok b'"
    by (auto dest: pb_advances_ok)
  then show ?case
    using rd Suc.IH [OF b'] by (subst read_list_loop.simps) (auto split: result.splits)
qed

lemma pb_slice_ok: "pb_slice n b = (Ok d, b') \<Longrightarrow> pb_ok d"
  by (auto simp: pb_slice_value split: if_splits)

lemma pb_safe_read_list [safe_intros]:
  assumes "pb_safe rd" shows "pb_safe (pb_read_list N n rd)"
  unfolding pb_safe_def pb_read_list_def
proof (intro allI impI)
  fix b assume b: "pb_ok b"
  obtain r b' where s: "pb_slice n b = (r, b')" by fastforce
  with pb_safeD [OF pb_safe_slice b s] pb_slice_ok read_list_loop_no_panic [OF assms]
  show "fst (bnd (pb_slice n) (\<lambda>data. from_result (read_list_loop N rd data [])) b) \<noteq> Panic \<and>
      pb_advances b (snd (bnd (pb_slice n) (\<lambda>data. from_result (read_list_loop N rd data [])) b))"
    by (cases r) (auto simp: bnd_def)
qed

section \<open>What a parser reads\<close>

text \<open>\<open>parses p bs v\<close>: at any position where the bytes \<open>bs\<close> stand, \<open>p\<close> returns \<open>v\<close> and
  stops right after them.\<close>

definition parses :: "(ParseBuffer, 'a, 'e) prog \<Rightarrow> bytes \<Rightarrow> 'a \<Rightarrow> bool" where
  "parses p bs v \<longleftrightarrow> (\<forall>pre post.
     p \<lparr>pos = length pre, buffer = pre @ bs @ post\<rparr> =
       (Ok v, \<lparr>pos = length pre + length bs, buffer = pre @ bs @ post\<rparr>))"

text \<open>\<open>took b bs b'\<close>: the cursor went from \<open>b\<close> to \<open>b'\<close> over exactly the bytes \<open>bs\<close>.\<close>

definition took :: "ParseBuffer \<Rightarrow> bytes \<Rightarrow> ParseBuffer \<Rightarrow> bool" where
  "took b bs b' \<longleftrightarrow> pb_ok b \<and> pos b + length bs \<le> length (buffer b) \<and>
     take (length bs) (drop (pos b) (buffer b)) = bs \<and> b' = b\<lparr>pos := pos b + length bs\<rparr>"

lemma tookE:
  assumes "took b bs b'"
  obtains pre post where "b = \<lparr>pos = length pre, buffer = pre @ bs @ post\<rparr>"
    and "b' = \<lparr>pos = length pre + length bs, buffer = pre @ bs @ post\<rparr>"
proof -
  define pre where "pre = take (pos b) (buffer b)"
  define post where "post = drop (pos b + length bs) (buffer b)"
  have "length pre = pos b"
    using assms by (simp add: took_def pb_ok_def pre_def)
  moreover have "buffer b = pre @ bs @ post"
    using assms unfolding took_def pre_def post_def
    by (metis append_take_drop_id drop_drop add.commute)
  ultimately show thesis
    using assms that [of pre post] by (cases b) (auto simp: took_def)
qed

lemma took_frame: "took \<lparr>pos = length pre, buffer = pre @ bs @ post\<rparr> bs
    \<lparr>pos = length pre + length bs, buffer = pre @ bs @ post\<rparr>"
  by (simp add: took_def pb_ok_def)

lemma parses_iff: "parses p bs v \<longleftrightarrow> (\<forall>b b'. took b bs b' \<longrightarrow> p b = (Ok v, b'))"
  by (auto simp: parses_def took_frame elim!: tookE)

lemma parsesD: "parses p bs v \<Longrightarrow> took b bs b' \<Longrightarrow> p b = (Ok v, b')"
  by (simp add: parses_iff)

lemma took_append: "took b (xs @ ys) b' \<longleftrightarrow> (\<exists>c. took b xs c \<and> took c ys b')"
proof
  assume l: "took b (xs @ ys) b'"
  then obtain pre post where b: "b = \<lparr>pos = length pre, buffer = pre @ (xs @ ys) @ post\<rparr>"
    and b': "b' = \<lparr>pos = length pre + length (xs @ ys), buffer = pre @ (xs @ ys) @ post\<rparr>"
    by (rule tookE)
  let ?c = "\<lparr>pos = length pre + length xs, buffer = pre @ xs @ ys @ post\<rparr>"
  have "took b xs ?c" using took_frame [of pre xs "ys @ post"] by (simp add: b)
  moreover have "took ?c ys b'" using took_frame [of "pre @ xs" ys post] by (simp add: b' add.assoc)
  ultimately show "\<exists>c. took b xs c \<and> took c ys b'" by blast
next
  assume "\<exists>c. took b xs c \<and> took c ys b'"
  then show "took b (xs @ ys) b'"
    by (auto simp: took_def pb_ok_def take_add drop_drop add_ac)
qed

lemma took_Nil [simp]: "took b [] b' \<longleftrightarrow> pb_ok b \<and> b' = b"
  by (auto simp: took_def pb_ok_def)

lemma took_advances: "took b bs b' \<Longrightarrow> pb_advances b b'"
  by (auto simp: took_def pb_advances_def pb_ok_def)

lemma took_whole: "took (pb_new bs) bs \<lparr>pos = length bs, buffer = bs\<rparr>"
  by (simp add: took_def pb_new_def pb_ok_def)

lemma parses_ret [codec_intros]: "parses (ret v) [] v"
  by (simp add: parses_iff)

lemma parses_bnd [codec_intros]:
  "parses m xs a \<Longrightarrow> parses (f a) ys v \<Longrightarrow> parses (bnd m f) (xs @ ys) v"
  by (auto simp: parses_iff took_append bnd_def)

lemma parses_map_err [codec_intros]: "parses m xs a \<Longrightarrow> parses (map_err g m) xs a"
  by (auto simp: parses_iff map_err_def)

lemma parses_u8 [codec_intros]: "parses pb_read_u8 [x] x"
  by (simp add: parses_def pb_read_u8_value nth_append)

lemma parses_u16 [codec_intros]: "parses pb_read_u16 (u16_to_be_bytes w) w"
  by (simp add: parses_def pb_read_u16_value u16_to_be_bytes_def nth_append u16_from_to [simplified])

lemma parses_u24 [codec_intros]:
  "unat w < 16777216 \<Longrightarrow> parses pb_read_u24 (tl (u32_to_be_bytes w)) w"
  by (simp add: parses_def pb_read_u24_value u32_to_be_bytes_def nth_append u24_from_to [simplified])

lemma parses_u32 [codec_intros]: "parses pb_read_u32 (u32_to_be_bytes w) w"
  by (simp add: parses_def pb_read_u32_value u32_to_be_bytes_def nth_append u32_from_to [simplified])

lemma parses_fill [codec_intros]: "n = length bs \<Longrightarrow> parses (pb_fill n) bs bs"
  by (simp add: parses_def pb_fill_value slice_of_def)

lemma parses_slice [codec_intros]: "n = length bs \<Longrightarrow> parses (pb_slice n) bs (pb_new bs)"
  by (simp add: parses_def pb_slice_value slice_of_def)

text \<open>The converse: which bytes a successful read went over.\<close>

lemma read_u8_took: "pb_ok b \<Longrightarrow> pb_read_u8 b = (Ok x, b') \<Longrightarrow> took b [x] b'"
  by (auto simp: pb_read_u8_value took_def take_drop_Suc split: if_splits)

lemma read_u16_took:
  "pb_ok b \<Longrightarrow> pb_read_u16 b = (Ok x, b') \<Longrightarrow> took b (u16_to_be_bytes x) b'"
  by (auto simp: pb_read_u16_value took_def take_drop_Suc u16_to_from numeral_2_eq_2
      split: if_splits)

lemma read_u24_took:
  "pb_ok b \<Longrightarrow> pb_read_u24 b = (Ok x, b') \<Longrightarrow>
     took b (tl (u32_to_be_bytes x)) b' \<and> unat x < 16777216"
  using unat_u8_less [of "buffer b ! pos b"] unat_u8_less [of "buffer b ! Suc (pos b)"]
    unat_u8_less [of "buffer b ! Suc (Suc (pos b))"]
  by (auto simp: pb_read_u24_value took_def take_drop_Suc u32_to_from numeral_2_eq_2
      numeral_3_eq_3 unat_u24_from simp del: unat_u8_less split: if_splits)

lemma read_u32_took:
  "pb_ok b \<Longrightarrow> pb_read_u32 b = (Ok x, b') \<Longrightarrow> took b (u32_to_be_bytes x) b'"
  by (auto simp: pb_read_u32_value took_def take_drop_Suc u32_to_from numeral_eq_Suc
      split: if_splits)

lemma slice_took:
  "pb_ok b \<Longrightarrow> pb_slice n b = (Ok d, b') \<Longrightarrow>
     took b (buffer d) b' \<and> d = pb_new (buffer d) \<and> length (buffer d) = n"
  by (auto simp: pb_slice_value took_def pb_new_def slice_of_def split: if_splits)

lemma fill_took:
  "pb_ok b \<Longrightarrow> pb_fill n b = (Ok x, b') \<Longrightarrow> took b x b' \<and> length x = n"
  by (auto simp: pb_fill_value took_def slice_of_def split: if_splits)

lemmas primitive_took = read_u8_took read_u16_took read_u24_took read_u32_took slice_took fill_took

lemma took_ok: "took b bs b' \<Longrightarrow> pb_ok b'"
  by (auto simp: took_def pb_ok_def)

end
