(* ===== verification/Crypto_Buffer.thy ===== *)
theory Crypto_Buffer
  imports Tls_Error
begin

text \<open>
  The output buffer of \<open>src/src/buffer.rs\<close>: a window of \<open>len\<close> bytes at \<open>offset\<close> of a
  fixed slice, grown by the push operations and moved by \<open>offset\<close>, \<open>forward\<close> and
  \<open>rewind\<close>. The contract \<open>appends f bs\<close> says that an encoder adds exactly \<open>bs\<close> behind
  the window when they fit and otherwise fails without touching what was there before.
\<close>

record CryptoBuffer =
  cb_buf :: bytes
  cb_offset :: nat
  cb_len :: nat

type_synonym 'a encoder = "(CryptoBuffer, 'a, TlsError) prog"

definition cb_empty :: CryptoBuffer where
  "cb_empty = \<lparr>cb_buf = [], cb_offset = 0, cb_len = 0\<rparr>"

definition cb_wrap :: "bytes \<Rightarrow> CryptoBuffer" where
  "cb_wrap buf = \<lparr>cb_buf = buf, cb_offset = 0, cb_len = 0\<rparr>"

definition cb_wrap_with_pos :: "bytes \<Rightarrow> nat \<Rightarrow> CryptoBuffer" where
  "cb_wrap_with_pos buf p = \<lparr>cb_buf = buf, cb_offset = 0, cb_len = p\<rparr>"

definition cb_capacity :: "CryptoBuffer \<Rightarrow> nat" where
  "cb_capacity b = length (cb_buf b)"

definition cb_is_empty :: "CryptoBuffer \<Rightarrow> bool" where
  "cb_is_empty b \<longleftrightarrow> cb_len b = 0"

definition cb_release :: "CryptoBuffer \<Rightarrow> bytes \<times> nat \<times> nat" where
  "cb_release b = (cb_buf b, cb_offset b, cb_len b)"

text \<open>\<open>space\<close>: the subtraction panics when the window reaches past the slice.\<close>

definition cb_space :: "CryptoBuffer \<Rightarrow> (nat, 'e) result" where
  "cb_space b =
     (if cb_offset b + cb_len b \<le> cb_capacity b
      then Ok (cb_capacity b - (cb_offset b + cb_len b)) else Panic)"

definition cb_as_slice :: "CryptoBuffer \<Rightarrow> (bytes, 'e) result" where
  "cb_as_slice b =
     (if cb_offset b + cb_len b \<le> cb_capacity b
      then Ok (slice_of (cb_buf b) (cb_offset b) (cb_offset b + cb_len b)) else Panic)"

definition cb_push :: "u8 \<Rightarrow> unit encoder" where
  "cb_push v = (\<lambda>b. case cb_space b of
      Ok sp \<Rightarrow>
        if 0 < sp
        then (Ok (), b\<lparr>cb_buf := (cb_buf b)[cb_offset b + cb_len b := v], cb_len := cb_len b + 1\<rparr>)
        else (Err InsufficientSpace, b)
    | Err e \<Rightarrow> (Err e, b)
    | Panic \<Rightarrow> (Panic, b))"

definition cb_extend_from_slice :: "bytes \<Rightarrow> unit encoder" where
  "cb_extend_from_slice other = (\<lambda>b. case cb_space b of
      Ok sp \<Rightarrow>
        if sp < length other then (Err InsufficientSpace, b)
        else (Ok (), b\<lparr>cb_buf := write_at (cb_buf b) (cb_offset b + cb_len b) other,
                       cb_len := cb_len b + length other\<rparr>)
    | Err e \<Rightarrow> (Err e, b)
    | Panic \<Rightarrow> (Panic, b))"

definition cb_push_u16 :: "u16 \<Rightarrow> unit encoder" where
  "cb_push_u16 num = cb_extend_from_slice (u16_to_be_bytes num)"

definition cb_push_u24 :: "u32 \<Rightarrow> unit encoder" where
  "cb_push_u24 num =
     (let data = u32_to_be_bytes num in cb_extend_from_slice [data ! 1, data ! 2, data ! 3])"

definition cb_push_u32 :: "u32 \<Rightarrow> unit encoder" where
  "cb_push_u32 num = cb_extend_from_slice (u32_to_be_bytes num)"

definition cb_set :: "nat \<Rightarrow> u8 \<Rightarrow> unit encoder" where
  "cb_set idx val = (\<lambda>b.
     if idx < cb_len b
     then if cb_offset b + idx < cb_capacity b
          then (Ok (), b\<lparr>cb_buf := (cb_buf b)[cb_offset b + idx := val]\<rparr>)
          else (Panic, b)
     else (Err InsufficientSpace, b))"

definition cb_set_u16 :: "nat \<Rightarrow> u16 \<Rightarrow> unit encoder" where
  "cb_set_u16 idx val =
     (let d = u16_to_be_bytes val in
      seq (cb_set idx (d ! 0)) (cb_set (idx + 1) (d ! 1)))"

definition cb_set_u24 :: "nat \<Rightarrow> u32 \<Rightarrow> unit encoder" where
  "cb_set_u24 idx val =
     (let d = u32_to_be_bytes val in
      seq (cb_set idx (d ! 1)) (seq (cb_set (idx + 1) (d ! 2)) (cb_set (idx + 2) (d ! 3))))"

definition cb_truncate :: "nat \<Rightarrow> unit encoder" where
  "cb_truncate len = (\<lambda>b.
     if cb_offset b \<le> cb_capacity b
     then (Ok (), if len \<le> cb_capacity b - cb_offset b then b\<lparr>cb_len := len\<rparr> else b)
     else (Panic, b))"

text \<open>\<open>offset\<close> consumes the buffer and returns it with the window start moved; the window
  end stays. A start beyond the end makes the subtraction panic.\<close>

definition cb_at_offset :: "nat \<Rightarrow> unit encoder" where
  "cb_at_offset new = (\<lambda>b.
     if new \<le> cb_len b + cb_offset b
     then (Ok (), b\<lparr>cb_len := cb_len b + cb_offset b - new, cb_offset := new\<rparr>)
     else (Panic, b))"

definition cb_forward :: "unit encoder" where
  "cb_forward = bnd (gets cb_len) (\<lambda>len. cb_at_offset len)"

definition cb_rewind :: "unit encoder" where
  "cb_rewind = cb_at_offset 0"

text \<open>The distance \<open>self.len() - start\<close> that the length prefixes record.\<close>

definition cb_len_since :: "nat \<Rightarrow> nat encoder" where
  "cb_len_since start = (\<lambda>b.
     if start \<le> cb_len b then (Ok (cb_len b - start), b) else (Panic, b))"

definition cb_with_u8_length :: "'r encoder \<Rightarrow> 'r encoder" where
  "cb_with_u8_length op =
     bnd (gets cb_len) (\<lambda>len_pos.
     seq (cb_push 0) (
     bnd (gets cb_len) (\<lambda>start.
     bnd op (\<lambda>r.
     bnd (cb_len_since start) (\<lambda>len.
     seq (cb_set len_pos (of_nat len)) (
     ret r))))))"

definition cb_with_u16_length :: "'r encoder \<Rightarrow> 'r encoder" where
  "cb_with_u16_length op =
     bnd (gets cb_len) (\<lambda>len_pos.
     seq (cb_push_u16 0) (
     bnd (gets cb_len) (\<lambda>start.
     bnd op (\<lambda>r.
     bnd (cb_len_since start) (\<lambda>len.
     seq (cb_set_u16 len_pos (of_nat len)) (
     ret r))))))"

definition cb_with_u24_length :: "'r encoder \<Rightarrow> 'r encoder" where
  "cb_with_u24_length op =
     bnd (gets cb_len) (\<lambda>len_pos.
     seq (cb_push_u24 0) (
     bnd (gets cb_len) (\<lambda>start.
     bnd op (\<lambda>r.
     bnd (cb_len_since start) (\<lambda>len.
     seq (cb_set_u24 len_pos (of_nat len)) (
     ret r))))))"

section \<open>The buffer invariant and the append contract\<close>

definition cb_ok :: "CryptoBuffer \<Rightarrow> bool" where
  "cb_ok b \<longleftrightarrow> cb_offset b + cb_len b \<le> length (cb_buf b)"

definition cb_view :: "CryptoBuffer \<Rightarrow> bytes" where
  "cb_view b = slice_of (cb_buf b) (cb_offset b) (cb_offset b + cb_len b)"

definition cb_free :: "CryptoBuffer \<Rightarrow> nat" where
  "cb_free b = length (cb_buf b) - (cb_offset b + cb_len b)"

definition cb_append :: "CryptoBuffer \<Rightarrow> bytes \<Rightarrow> CryptoBuffer" where
  "cb_append b bs = b\<lparr>cb_buf := write_at (cb_buf b) (cb_offset b + cb_len b) bs,
                      cb_len := cb_len b + length bs\<rparr>"

text \<open>\<open>cb_kept b b'\<close>: what a failed encoder leaves: the same window start and capacity, and
  every byte up to the old window end as it was.\<close>

definition cb_kept :: "CryptoBuffer \<Rightarrow> CryptoBuffer \<Rightarrow> bool" where
  "cb_kept b b' \<longleftrightarrow> cb_ok b' \<and> cb_offset b' = cb_offset b \<and> cb_len b \<le> cb_len b' \<and>
     length (cb_buf b') = length (cb_buf b) \<and>
     take (cb_offset b + cb_len b) (cb_buf b') = take (cb_offset b + cb_len b) (cb_buf b)"

definition enc_error :: "TlsError \<Rightarrow> bool" where
  "enc_error e \<longleftrightarrow> e = InsufficientSpace \<or> e = EncodeError"

definition appends :: "unit encoder \<Rightarrow> bytes \<Rightarrow> bool" where
  "appends f bs \<longleftrightarrow> (\<forall>b. cb_ok b \<longrightarrow>
     (if length bs \<le> cb_free b then f b = (Ok (), cb_append b bs)
      else \<exists>e b'. f b = (Err e, b') \<and> enc_error e \<and> cb_kept b b'))"

lemma enc_error_simps [simp]: "enc_error InsufficientSpace" "enc_error EncodeError"
  by (simp_all add: enc_error_def)

lemma cb_append_Nil [simp]: "cb_append b [] = b"
  by (simp add: cb_append_def)

lemma cb_append_ok [simp]: "cb_ok b \<Longrightarrow> length bs \<le> cb_free b \<Longrightarrow> cb_ok (cb_append b bs)"
  by (simp add: cb_ok_def cb_append_def cb_free_def)

lemma cb_free_append [simp]:
  "cb_ok b \<Longrightarrow> length bs \<le> cb_free b \<Longrightarrow> cb_free (cb_append b bs) = cb_free b - length bs"
  by (simp add: cb_ok_def cb_append_def cb_free_def)

lemma cb_append_append:
  "cb_ok b \<Longrightarrow> length xs + length ys \<le> cb_free b \<Longrightarrow>
     cb_append (cb_append b xs) ys = cb_append b (xs @ ys)"
  by (simp add: cb_append_def cb_ok_def cb_free_def add.assoc [symmetric] write_at_write_at)

lemma cb_append_sel [simp]:
  "cb_offset (cb_append b bs) = cb_offset b" "cb_len (cb_append b bs) = cb_len b + length bs"
  by (simp_all add: cb_append_def)

lemma cb_view_append:
  "cb_ok b \<Longrightarrow> length bs \<le> cb_free b \<Longrightarrow> cb_view (cb_append b bs) = cb_view b @ bs"
  by (simp add: cb_view_def cb_append_def cb_ok_def cb_free_def slice_of_def write_at_def
      take_drop add.commute)

lemma cb_kept_refl [simp]: "cb_ok b \<Longrightarrow> cb_kept b b"
  by (simp add: cb_kept_def)

lemma cb_kept_append:
  "cb_ok b \<Longrightarrow> length bs \<le> cb_free b \<Longrightarrow> cb_kept b (cb_append b bs)"
  by (simp add: cb_kept_def) (simp add: cb_append_def take_write_at_le cb_ok_def cb_free_def)

lemma cb_kept_trans: "cb_kept a b \<Longrightarrow> cb_kept b c \<Longrightarrow> cb_kept a c"
  unfolding cb_kept_def
  by (metis (no_types, lifting) add_le_mono1 add.commute le_trans min.absorb1 take_take)

lemma appendsI:
  assumes "\<And>b. cb_ok b \<Longrightarrow> length bs \<le> cb_free b \<Longrightarrow> f b = (Ok (), cb_append b bs)"
    and "\<And>b. cb_ok b \<Longrightarrow> cb_free b < length bs \<Longrightarrow>
           \<exists>e b'. f b = (Err e, b') \<and> enc_error e \<and> cb_kept b b'"
  shows "appends f bs"
  using assms by (simp add: appends_def not_le)

lemma appends_ok:
  "appends f bs \<Longrightarrow> cb_ok b \<Longrightarrow> length bs \<le> cb_free b \<Longrightarrow> f b = (Ok (), cb_append b bs)"
  by (simp add: appends_def)

lemma appends_err:
  assumes "appends f bs" "cb_ok b" "cb_free b < length bs"
  obtains e b' where "f b = (Err e, b')" "enc_error e" "cb_kept b b'"
proof -
  from assms(3) have "\<not> length bs \<le> cb_free b" by simp
  with assms(1,2) have "\<exists>e b'. f b = (Err e, b') \<and> enc_error e \<and> cb_kept b b'"
    unfolding appends_def by metis
  then show thesis using that by blast
qed

lemma appends_ret [codec_intros]: "appends (ret ()) []"
  by (simp add: appends_def)

lemma appends_seq [codec_intros]:
  assumes f: "appends f xs" and g: "appends g ys"
  shows "appends (seq f g) (xs @ ys)"
proof (rule appendsI)
  fix b assume b: "cb_ok b" and l: "length (xs @ ys) \<le> cb_free b"
  then have "f b = (Ok (), cb_append b xs)" by (intro appends_ok [OF f]) simp_all
  moreover have "g (cb_append b xs) = (Ok (), cb_append (cb_append b xs) ys)"
    using b l by (intro appends_ok [OF g]) simp_all
  ultimately show "seq f g b = (Ok (), cb_append b (xs @ ys))"
    using b l by (simp add: bnd_def cb_append_append)
next
  fix b assume b: "cb_ok b" and l: "cb_free b < length (xs @ ys)"
  show "\<exists>e b'. seq f g b = (Err e, b') \<and> enc_error e \<and> cb_kept b b'"
  proof (cases "length xs \<le> cb_free b")
    case True
    with b have fo: "f b = (Ok (), cb_append b xs)" by (intro appends_ok [OF f])
    have "cb_ok (cb_append b xs)" "cb_free (cb_append b xs) < length ys"
      using b l True by simp_all
    then obtain e b' where "g (cb_append b xs) = (Err e, b')" "enc_error e"
      "cb_kept (cb_append b xs) b'" by (rule appends_err [OF g])
    with fo cb_kept_append [OF b True] show ?thesis
      by (auto simp: bnd_def intro: cb_kept_trans)
  next
    case False
    then obtain e b' where "f b = (Err e, b')" "enc_error e" "cb_kept b b'"
      using appends_err [OF f b] by auto
    then show ?thesis by (auto simp: bnd_def)
  qed
qed

lemma appends_map_err [codec_intros]:
  assumes "appends f xs" and "\<And>e. enc_error e \<Longrightarrow> enc_error (g e)"
  shows "appends (map_err g f) xs"
  using assms unfolding appends_def by (auto simp: map_err_def split: prod.splits result.splits)

lemma cb_space_ok [simp]: "cb_ok b \<Longrightarrow> cb_space b = Ok (cb_free b)"
  by (simp add: cb_space_def cb_ok_def cb_free_def cb_capacity_def)

lemma cb_as_slice_ok [simp]: "cb_ok b \<Longrightarrow> cb_as_slice b = Ok (cb_view b)"
  by (simp add: cb_as_slice_def cb_ok_def cb_view_def cb_capacity_def)

lemma appends_extend [codec_intros]: "appends (cb_extend_from_slice bs) bs"
  by (rule appendsI) (simp_all add: cb_extend_from_slice_def cb_append_def)

lemma appends_push [codec_intros]: "appends (cb_push v) [v]"
proof (rule appendsI)
  fix b assume "cb_ok b" "length [v] \<le> cb_free b"
  then show "cb_push v b = (Ok (), cb_append b [v])"
    by (simp add: cb_push_def cb_append_def write_at_single cb_free_def)
qed (simp add: cb_push_def)

lemma appends_push_u16 [codec_intros]: "appends (cb_push_u16 w) (u16_to_be_bytes w)"
  by (simp add: cb_push_u16_def appends_extend)

lemma u32_bytes_tl: "[u32_to_be_bytes w ! 1, u32_to_be_bytes w ! 2, u32_to_be_bytes w ! 3] =
    tl (u32_to_be_bytes w)"
  by (simp add: u32_to_be_bytes_def)

lemma appends_push_u24 [codec_intros]: "appends (cb_push_u24 w) (tl (u32_to_be_bytes w))"
  unfolding cb_push_u24_def Let_def u32_bytes_tl by (rule appends_extend)

lemma appends_push_u32 [codec_intros]: "appends (cb_push_u32 w) (u32_to_be_bytes w)"
  by (simp add: cb_push_u32_def appends_extend)

section \<open>Length prefixes\<close>

lemma cb_set_append:
  assumes "cb_ok b" "length xs \<le> cb_free b" "i < length xs" "j = cb_len b + i"
  shows "cb_set j v (cb_append b xs) = (Ok (), cb_append b (xs[i := v]))"
proof -
  let ?p = "cb_offset b + cb_len b"
  have "?p + length xs \<le> length (cb_buf b)"
    using assms by (simp add: cb_ok_def cb_free_def)
  then have "(write_at (cb_buf b) ?p xs)[?p + i := v] = write_at (cb_buf b) ?p (xs[i := v])"
    using assms(3) by (simp add: write_at_def list_update_append)
  moreover have "?p + i < length (cb_buf b)"
    using assms by (simp add: cb_ok_def cb_free_def)
  ultimately show ?thesis
    using assms by (simp add: cb_set_def cb_append_def cb_capacity_def cb_ok_def cb_free_def add.assoc)
qed

text \<open>The three \<open>with_uN_length\<close> operations have one shape: push a placeholder, run the body,
  patch the placeholder with the length of what the body wrote.\<close>

lemma appends_prefixed:
  assumes pre: "appends push zs" and op: "appends op bs" and len: "length ws = length zs"
    and patch: "\<And>b. cb_ok b \<Longrightarrow> length zs + length bs \<le> cb_free b \<Longrightarrow>
      patch (cb_len b) (length bs) (cb_append b (zs @ bs)) = (Ok (), cb_append b (ws @ bs))"
  shows "appends (bnd (gets cb_len) (\<lambda>p. seq push (bnd (gets cb_len) (\<lambda>start. bnd op (\<lambda>r.
      bnd (cb_len_since start) (\<lambda>n. seq (patch p n) (ret r))))))) (ws @ bs)" (is "appends ?f _")
proof (rule appendsI)
  fix b assume b: "cb_ok b" and l: "length (ws @ bs) \<le> cb_free b"
  have "push b = (Ok (), cb_append b zs)"
    using b l len by (intro appends_ok [OF pre]) simp_all
  moreover have "op (cb_append b zs) = (Ok (), cb_append b (zs @ bs))"
    using b l len appends_ok [OF op, of "cb_append b zs"] by (simp add: cb_append_append)
  ultimately show "?f b = (Ok (), cb_append b (ws @ bs))"
    using patch [OF b] l len by (simp add: bnd_def cb_len_since_def)
next
  fix b assume b: "cb_ok b" and l: "cb_free b < length (ws @ bs)"
  show "\<exists>e b'. ?f b = (Err e, b') \<and> enc_error e \<and> cb_kept b b'"
  proof (cases "length zs \<le> cb_free b")
    case True
    with b have fo: "push b = (Ok (), cb_append b zs)" by (intro appends_ok [OF pre])
    have "cb_ok (cb_append b zs)" "cb_free (cb_append b zs) < length bs"
      using b l len True by simp_all
    then obtain e b' where "op (cb_append b zs) = (Err e, b')" "enc_error e"
      "cb_kept (cb_append b zs) b'" by (rule appends_err [OF op])
    with fo cb_kept_append [OF b True] show ?thesis
      by (auto simp: bnd_def intro: cb_kept_trans)
  next
    case False
    then obtain e b' where "push b = (Err e, b')" "enc_error e" "cb_kept b b'"
      using appends_err [OF pre b] by auto
    then show ?thesis by (auto simp: bnd_def)
  qed
qed

definition prefixed8 :: "bytes \<Rightarrow> bytes" where
  "prefixed8 bs = [of_nat (length bs)] @ bs"

definition prefixed16 :: "bytes \<Rightarrow> bytes" where
  "prefixed16 bs = u16_to_be_bytes (of_nat (length bs)) @ bs"

definition prefixed24 :: "bytes \<Rightarrow> bytes" where
  "prefixed24 bs = tl (u32_to_be_bytes (of_nat (length bs))) @ bs"

lemma length_prefixed [simp]:
  "length (prefixed8 bs) = length bs + 1" "length (prefixed16 bs) = length bs + 2"
  "length (prefixed24 bs) = length bs + 3"
  by (simp_all add: prefixed8_def prefixed16_def prefixed24_def)

lemma appends_with_u8 [codec_intros]:
  assumes "appends op bs"
  shows "appends (cb_with_u8_length op) (prefixed8 bs)"
  unfolding cb_with_u8_length_def prefixed8_def
  by (rule appends_prefixed [OF appends_push assms])
    (simp_all add: cb_set_append [where i = 0])

lemma appends_with_u16 [codec_intros]:
  assumes "appends op bs"
  shows "appends (cb_with_u16_length op) (prefixed16 bs)"
  unfolding cb_with_u16_length_def prefixed16_def
  by (rule appends_prefixed [OF appends_push_u16 assms])
    (simp_all add: cb_set_u16_def Let_def bnd_def cb_set_append [where i = 0]
      cb_set_append [where i = 1] u16_to_be_bytes_def)

lemma appends_with_u24 [codec_intros]:
  assumes "appends op bs"
  shows "appends (cb_with_u24_length op) (prefixed24 bs)"
  unfolding cb_with_u24_length_def prefixed24_def
  by (rule appends_prefixed [OF appends_push_u24 assms])
    (simp_all add: cb_set_u24_def Let_def bnd_def cb_set_append [where i = 0]
      cb_set_append [where i = 1] cb_set_append [where i = 2] u32_to_be_bytes_def)

text \<open>A list written element by element.\<close>

lemma appends_for_each:
  assumes "\<And>x. x \<in> set xs \<Longrightarrow> appends (f x) (w x)"
  shows "appends (for_each xs f) (concat (map w xs))"
  using assms by (induction xs) (auto intro!: appends_seq appends_ret)

end
