(* ===== verification/Wire_Codec.thy ===== *)
theory Wire_Codec
  imports Parse_Buffer Crypto_Buffer
begin

text \<open>
  The interface between the wire format and the two buffers. Every message part of the
  library has an \<open>encode\<close> on a \<^typ>\<open>CryptoBuffer\<close> and a \<open>parse\<close> on a
  \<^typ>\<open>ParseBuffer\<close>; the locales state what such a pair promises relative to the bytes
  \<open>wire x\<close> of a value \<open>x\<close>, and prove once what follows for lists, length prefixes and
  round trips. The message theories interpret them on their own operations.
\<close>

section \<open>Wrappers\<close>

lemma parses_wrap: "parses p w x \<Longrightarrow> y = c x \<Longrightarrow> parses (bnd p (\<lambda>x. ret (c x))) w y"
  using parses_bnd [of p w x "\<lambda>x. ret (c x)" "[]" y] by (simp add: parses_ret)

section \<open>Encoders\<close>

locale wire_encoder =
  fixes enc :: "'a \<Rightarrow> unit encoder"
    and wire :: "'a \<Rightarrow> bytes"
    and dom :: "'a \<Rightarrow> bool"
  assumes enc_appends: "dom x \<Longrightarrow> appends (enc x) (wire x)"
begin

lemma enc_list:
  "list_all dom xs \<Longrightarrow> appends (for_each xs enc) (concat (map wire xs))"
  by (rule appends_for_each) (auto simp: list_all_iff intro: enc_appends)

lemma enc_list_u8:
  "list_all dom xs \<Longrightarrow> appends (cb_with_u8_length (for_each xs enc))
     (prefixed8 (concat (map wire xs)))"
  by (rule appends_with_u8 [OF enc_list])

lemma enc_list_u16:
  "list_all dom xs \<Longrightarrow> appends (cb_with_u16_length (for_each xs enc))
     (prefixed16 (concat (map wire xs)))"
  by (rule appends_with_u16 [OF enc_list])

lemma enc_list_u24:
  "list_all dom xs \<Longrightarrow> appends (cb_with_u24_length (for_each xs enc))
     (prefixed24 (concat (map wire xs)))"
  by (rule appends_with_u24 [OF enc_list])

end

section \<open>Parsers\<close>

locale wire_parser =
  fixes par :: "(ParseBuffer, 'a, ParseError) prog"
    and wire :: "'a \<Rightarrow> bytes"
    and dom :: "'a \<Rightarrow> bool"
  assumes par_complete: "dom x \<Longrightarrow> parses par (wire x) x"
    and par_sound: "pb_ok b \<Longrightarrow> par b = (Ok x, b') \<Longrightarrow> dom x \<and> took b (wire x) b'"
    and par_safe: "pb_safe par"
    and wire_nonempty: "dom x \<Longrightarrow> wire x \<noteq> []"
begin

lemma read_list_loop_complete:
  assumes "list_all dom xs" and "length xs \<le> room"
    and "took b (concat (map wire xs)) b'" and "pb_is_empty b'"
  shows "read_list_loop room par b acc = Ok (acc @ xs)"
  using assms
proof (induction xs arbitrary: room b acc)
  case Nil
  then show ?case by (subst read_list_loop.simps) simp
next
  case (Cons x xs)
  then obtain c where c: "took b (wire x) c" "took c (concat (map wire xs)) b'"
    by (auto simp: took_append)
  with Cons.prems have p: "par b = (Ok x, c)" by (auto intro: parsesD [OF par_complete])
  have "\<not> pb_is_empty b"
    using c(1) wire_nonempty [of x] Cons.prems(1) by (auto simp: took_def pb_is_empty_def)
  moreover from Cons.prems(2) obtain r where "room = Suc r" "length xs \<le> r"
    by (cases room) auto
  ultimately show ?case
    using Cons.IH [of r c "acc @ [x]"] Cons.prems c p by (subst read_list_loop.simps) simp
qed

lemma read_list_complete:
  assumes "list_all dom xs" "length xs \<le> N" "n = length (concat (map wire xs))"
  shows "parses (pb_read_list N n par) (concat (map wire xs)) xs"
proof -
  let ?w = "concat (map wire xs)"
  have "read_list_loop N par (pb_new ?w) [] = Ok ([] @ xs)"
    by (rule read_list_loop_complete [OF assms(1,2) took_whole]) (simp add: pb_is_empty_def)
  then have "parses (bnd (pb_slice n) (\<lambda>d. from_result (read_list_loop N par d []))) (?w @ []) xs"
    using assms(3) by (intro parses_bnd [OF parses_slice]) (simp_all add: parses_iff)
  then show ?thesis by (simp add: pb_read_list_def)
qed

lemma read_list_loop_sound:
  assumes "read_list_loop room par b acc = Ok zs" and "pb_ok b"
  shows "\<exists>xs. zs = acc @ xs \<and> list_all dom xs \<and> length xs \<le> room \<and>
           took b (concat (map wire xs)) (b\<lparr>pos := length (buffer b)\<rparr>)"
  using assms
proof (induction room arbitrary: b acc)
  case 0
  then show ?case
    by (subst (asm) read_list_loop.simps)
      (auto simp: pb_is_empty_def split: if_splits prod.splits result.splits)
next
  case (Suc room)
  show ?case
  proof (cases "pb_is_empty b")
    case True
    with Suc.prems show ?thesis
      by (subst (asm) read_list_loop.simps) (auto simp: pb_is_empty_def)
  next
    case False
    with Suc.prems obtain x c where p: "par b = (Ok x, c)"
      and l: "read_list_loop room par c (acc @ [x]) = Ok zs"
      by (subst (asm) read_list_loop.simps) (auto split: prod.splits result.splits)
    from par_sound [OF Suc.prems(2) p] have x: "dom x" and t: "took b (wire x) c" by auto
    from Suc.IH [OF l took_ok [OF t]] obtain xs where zs: "zs = (acc @ [x]) @ xs"
      and xs: "list_all dom xs" "length xs \<le> room"
      and tc: "took c (concat (map wire xs)) (c\<lparr>pos := length (buffer c)\<rparr>)" by blast
    have "c\<lparr>pos := length (buffer c)\<rparr> = b\<lparr>pos := length (buffer b)\<rparr>"
      using t by (auto simp: took_def)
    with t tc have "took b (wire x @ concat (map wire xs)) (b\<lparr>pos := length (buffer b)\<rparr>)"
      by (auto simp: took_append)
    with zs xs x show ?thesis by (intro exI [of _ "x # xs"]) simp
  qed
qed

lemma read_list_sound:
  assumes "pb_ok b" and "pb_read_list N n par b = (Ok xs, b')"
  shows "list_all dom xs \<and> length xs \<le> N \<and> n = length (concat (map wire xs)) \<and>
    took b (concat (map wire xs)) b'"
proof -
  from assms(2) obtain d where sl: "pb_slice n b = (Ok d, b')"
    and l: "read_list_loop N par d [] = Ok xs"
    by (auto simp: pb_read_list_def bnd_Ok_iff)
  from slice_took [OF assms(1) sl] have t: "took b (buffer d) b'" and d: "d = pb_new (buffer d)"
    and n: "length (buffer d) = n" by auto
  have "pb_ok d" using d by (metis pb_ok_new)
  from read_list_loop_sound [OF l this] have xs: "list_all dom xs" "length xs \<le> N"
    and td: "took d (concat (map wire xs)) (d\<lparr>pos := length (buffer d)\<rparr>)" by auto
  have p0: "pos d = 0" by (subst d) (simp add: pb_new_def)
  then have "length (concat (map wire xs)) = length (buffer d)"
    using td by (auto simp: took_def dest: arg_cong [where f = pos])
  with td p0 have "buffer d = concat (map wire xs)" by (simp add: took_def)
  with xs t n show ?thesis by simp
qed

lemma list_u16_complete:
  assumes "list_all dom xs" "length xs \<le> N" "length (concat (map wire xs)) < 65536" "y = c xs"
  shows "parses (bnd pb_read_u16 (\<lambda>n. bnd (pb_read_list N (unat n) par) (\<lambda>xs. ret (c xs))))
    (prefixed16 (concat (map wire xs))) y"
  unfolding prefixed16_def assms(4)
  by (intro parses_bnd [OF parses_u16] parses_wrap [OF read_list_complete] refl)
    (use assms in simp_all)

lemma list_u8_complete:
  assumes "list_all dom xs" "length xs \<le> N" "length (concat (map wire xs)) < 256" "y = c xs"
  shows "parses (bnd pb_read_u8 (\<lambda>n. bnd (pb_read_list N (unat n) par) (\<lambda>xs. ret (c xs))))
    (prefixed8 (concat (map wire xs))) y"
  unfolding prefixed8_def assms(4)
  by (intro parses_bnd [OF parses_u8] parses_wrap [OF read_list_complete] refl)
    (use assms in simp_all)

lemma list_u16_sound:
  assumes "pb_ok b"
    and "bnd pb_read_u16 (\<lambda>n. bnd (pb_read_list N (unat n) par) (\<lambda>xs. ret (c xs))) b = (Ok y, b')"
  shows "\<exists>xs. y = c xs \<and> list_all dom xs \<and> length xs \<le> N \<and>
    took b (prefixed16 (concat (map wire xs))) b'"
proof -
  from assms(2) obtain n b1 xs where n: "pb_read_u16 b = (Ok n, b1)"
    and l: "pb_read_list N (unat n) par b1 = (Ok xs, b')" and y: "y = c xs"
    by (auto simp: bnd_Ok_iff)
  from read_u16_took [OF assms(1) n] have t: "took b (u16_to_be_bytes n) b1" .
  from read_list_sound [OF took_ok [OF t] l] have xs: "list_all dom xs" "length xs \<le> N"
    and len: "unat n = length (concat (map wire xs))"
    and t1: "took b1 (concat (map wire xs)) b'" by auto
  have "n = of_nat (length (concat (map wire xs)))" unfolding len [symmetric] by simp
  with t t1 have "took b (prefixed16 (concat (map wire xs))) b'"
    by (auto simp: prefixed16_def took_append)
  with xs y show ?thesis by blast
qed

text \<open>The wire format is uniquely decodable: no two values have encodings one of which is a
  prefix of the other.\<close>

lemma wire_prefix_free:
  assumes "dom x" "dom y" "wire x @ r = wire y @ r'"
  shows "x = y"
  using par_complete [OF assms(1)] par_complete [OF assms(2)] assms(3)
  unfolding parses_def by (metis append_Nil prod.inject result.inject(1))

end

section \<open>Round trips\<close>

text \<open>\<open>roundtrips e p x\<close>: the encoder \<open>e\<close> of a value \<open>x\<close> succeeds whenever the buffer has room
  for it, and only for want of room does it fail, leaving what was there before; when it
  succeeds, the parser \<open>p\<close> started where the encoder started returns \<open>x\<close> and stops where
  the encoder stopped.\<close>

definition roundtrips :: "unit encoder \<Rightarrow> (ParseBuffer, 'a, 'f) prog \<Rightarrow> 'a \<Rightarrow> bool" where
  "roundtrips e p x \<longleftrightarrow> (\<exists>n. \<forall>b. cb_ok b \<longrightarrow>
     (if n \<le> cb_free b
      then \<exists>b'. e b = (Ok (), b') \<and> cb_ok b' \<and> cb_len b' = cb_len b + n \<and>
             take (cb_len b) (cb_view b') = cb_view b \<and>
             p \<lparr>pos = cb_len b, buffer = cb_view b'\<rparr> =
               (Ok x, \<lparr>pos = cb_len b', buffer = cb_view b'\<rparr>)
      else \<exists>er b'. e b = (Err er, b') \<and> enc_error er \<and> cb_kept b b'))"

lemma cb_view_length [simp]: "cb_ok b \<Longrightarrow> length (cb_view b) = cb_len b"
  by (simp add: cb_view_def cb_ok_def)

lemma roundtripsI:
  assumes e: "appends e w" and p: "parses p w x"
  shows "roundtrips e p x"
  unfolding roundtrips_def
proof (intro exI [of _ "length w"] allI impI)
  fix b assume b: "cb_ok b"
  show "if length w \<le> cb_free b
      then \<exists>b'. e b = (Ok (), b') \<and> cb_ok b' \<and> cb_len b' = cb_len b + length w \<and>
             take (cb_len b) (cb_view b') = cb_view b \<and>
             p \<lparr>pos = cb_len b, buffer = cb_view b'\<rparr> =
               (Ok x, \<lparr>pos = cb_len b', buffer = cb_view b'\<rparr>)
      else \<exists>er b'. e b = (Err er, b') \<and> enc_error er \<and> cb_kept b b'"
  proof (cases "length w \<le> cb_free b")
    case True
    have v: "cb_view (cb_append b w) = cb_view b @ w @ []"
      using cb_view_append [OF b True] by simp
    have "p \<lparr>pos = length (cb_view b), buffer = cb_view b @ w @ []\<rparr> =
        (Ok x, \<lparr>pos = length (cb_view b) + length w, buffer = cb_view b @ w @ []\<rparr>)"
      using p unfolding parses_def by blast
    with v show ?thesis
      using True appends_ok [OF e b True] b by simp
  next
    case False
    then obtain er b' where "e b = (Err er, b')" "enc_error er" "cb_kept b b'"
      using appends_err [OF e b] by (auto simp: not_le)
    with False show ?thesis by auto
  qed
qed

locale wire_codec = wire_encoder enc wire dom + wire_parser par wire dom
  for enc :: "'a \<Rightarrow> unit encoder" and par :: "(ParseBuffer, 'a, ParseError) prog"
    and wire :: "'a \<Rightarrow> bytes" and dom :: "'a \<Rightarrow> bool"
begin

lemma codec_roundtrip: "dom x \<Longrightarrow> roundtrips (enc x) par x"
  by (rule roundtripsI [OF enc_appends par_complete])

end

section \<open>Enumerations with a numeric code\<close>

text \<open>A table of 16-bit codes: \<open>as_u16\<close> gives a variant's code, \<open>of_u16\<close> the variant of a code.\<close>

locale u16_code =
  fixes as_u16 :: "'a \<Rightarrow> u16" and of_u16 :: "u16 \<Rightarrow> 'a option"
  assumes of_as: "of_u16 (as_u16 x) = Some x"
    and as_of: "of_u16 v = Some x \<Longrightarrow> as_u16 x = v"

sublocale u16_code \<subseteq> wire_codec
  "\<lambda>x. map_err (\<lambda>_. EncodeError) (cb_push_u16 (as_u16 x))"
  "bnd pb_read_u16 (\<lambda>v. ok_or PE_InvalidData (of_u16 v))"
  "\<lambda>x. u16_to_be_bytes (as_u16 x)" "\<lambda>_. True"
proof (unfold_locales, goal_cases)
  case 1
  show ?case by (intro appends_map_err appends_push_u16) simp
next
  case (2 x)
  have "parses (bnd pb_read_u16 (\<lambda>v. ok_or PE_InvalidData (of_u16 v)))
      (u16_to_be_bytes (as_u16 x) @ []) x"
    by (intro parses_bnd [OF parses_u16]) (simp add: of_as parses_ret)
  then show ?case by simp
next
  case (3 b x b')
  then show ?case
    by (auto simp: bnd_Ok_iff dest!: as_of read_u16_took)
next
  case 4
  show ?case by (intro safe_intros)
qed (simp add: u16_to_be_bytes_def)

context u16_code
begin

lemma u16_codec:
  assumes "enc = (\<lambda>x. map_err (\<lambda>_. EncodeError) (cb_push_u16 (as_u16 x)))"
    and "par = bnd pb_read_u16 (\<lambda>v. ok_or PE_InvalidData (of_u16 v))"
    and "wire = (\<lambda>x. u16_to_be_bytes (as_u16 x))"
  shows "wire_codec enc par wire (\<lambda>_. True)"
  unfolding assms by (rule wire_codec_axioms)

end

locale u8_code =
  fixes as_u8 :: "'a \<Rightarrow> u8" and of_u8 :: "u8 \<Rightarrow> 'a option"
  assumes of_as: "of_u8 (as_u8 x) = Some x"
    and as_of: "of_u8 v = Some x \<Longrightarrow> as_u8 x = v"

sublocale u8_code \<subseteq> wire_codec
  "\<lambda>x. map_err (\<lambda>_. EncodeError) (cb_push (as_u8 x))"
  "bnd pb_read_u8 (\<lambda>v. ok_or PE_InvalidData (of_u8 v))"
  "\<lambda>x. [as_u8 x]" "\<lambda>_. True"
proof (unfold_locales, goal_cases)
  case 1
  show ?case by (intro appends_map_err appends_push) simp
next
  case (2 x)
  have "parses (bnd pb_read_u8 (\<lambda>v. ok_or PE_InvalidData (of_u8 v))) ([as_u8 x] @ []) x"
    by (intro parses_bnd [OF parses_u8]) (simp add: of_as parses_ret)
  then show ?case by simp
next
  case (3 b x b')
  then show ?case
    by (auto simp: bnd_Ok_iff dest!: as_of read_u8_took)
next
  case 4
  show ?case by (intro safe_intros)
qed simp

context u8_code
begin

lemma u8_codec:
  assumes "enc = (\<lambda>x. map_err (\<lambda>_. EncodeError) (cb_push (as_u8 x)))"
    and "par = bnd pb_read_u8 (\<lambda>v. ok_or PE_InvalidData (of_u8 v))"
    and "wire = (\<lambda>x. [as_u8 x])"
  shows "wire_codec enc par wire (\<lambda>_. True)"
  unfolding assms by (rule wire_codec_axioms)

end

end
