(* ===== verification/Extension_Data.thy ===== *)
theory Extension_Data
  imports Wire_Codec
begin

text \<open>
  The extension payloads of \<open>src/src/extensions/extension_data/\<close>, one group of definitions per
  source file: the data type, its \<open>parse\<close> and its \<open>encode\<close>, the bytes it stands for, and an
  interpretation of the codec interface of \<open>Wire_Codec\<close> on the two operations. In
  enumerations the \<open>match\<close> of \<open>parse\<close> over the code is the table \<open>_of_u16\<close> or \<open>_of_u8\<close>.
  The capacity \<open>N\<close> of a \<open>heapless::Vec<_, N>\<close> is an argument of the parser that fills it.
\<close>

section \<open>Named groups (supported\_groups.rs)\<close>

datatype NamedGroup =
    NG_Secp256r1
  | NG_Secp384r1
  | NG_Secp521r1
  | NG_X25519
  | NG_X448
  | NG_Ffdhe2048
  | NG_Ffdhe3072
  | NG_Ffdhe4096
  | NG_Ffdhe6144
  | NG_Ffdhe8192
  | NG_X25519MLKEM768
  | NG_SecP256r1MLKEM768
  | NG_SecP384r1MLKEM1024

fun NamedGroup_as_u16 :: "NamedGroup \<Rightarrow> u16" where
  "NamedGroup_as_u16 NG_Secp256r1 = 0x0017"
| "NamedGroup_as_u16 NG_Secp384r1 = 0x0018"
| "NamedGroup_as_u16 NG_Secp521r1 = 0x0019"
| "NamedGroup_as_u16 NG_X25519 = 0x001d"
| "NamedGroup_as_u16 NG_X448 = 0x001e"
| "NamedGroup_as_u16 NG_Ffdhe2048 = 0x0100"
| "NamedGroup_as_u16 NG_Ffdhe3072 = 0x0101"
| "NamedGroup_as_u16 NG_Ffdhe4096 = 0x0102"
| "NamedGroup_as_u16 NG_Ffdhe6144 = 0x0103"
| "NamedGroup_as_u16 NG_Ffdhe8192 = 0x0104"
| "NamedGroup_as_u16 NG_SecP256r1MLKEM768 = 0x11eb"
| "NamedGroup_as_u16 NG_X25519MLKEM768 = 0x11ec"
| "NamedGroup_as_u16 NG_SecP384r1MLKEM1024 = 0x11ed"

definition NamedGroup_of_u16 :: "u16 \<Rightarrow> NamedGroup option" where
  "NamedGroup_of_u16 v =
    (if v = 0x0017 then Some NG_Secp256r1
     else if v = 0x0018 then Some NG_Secp384r1
     else if v = 0x0019 then Some NG_Secp521r1
     else if v = 0x001d then Some NG_X25519
     else if v = 0x001e then Some NG_X448
     else if v = 0x0100 then Some NG_Ffdhe2048
     else if v = 0x0101 then Some NG_Ffdhe3072
     else if v = 0x0102 then Some NG_Ffdhe4096
     else if v = 0x0103 then Some NG_Ffdhe6144
     else if v = 0x0104 then Some NG_Ffdhe8192
     else if v = 0x11eb then Some NG_SecP256r1MLKEM768
     else if v = 0x11ec then Some NG_X25519MLKEM768
     else if v = 0x11ed then Some NG_SecP384r1MLKEM1024
     else None)"

definition NamedGroup_parse :: "(ParseBuffer, NamedGroup, ParseError) prog" where
  "NamedGroup_parse = bnd pb_read_u16 (\<lambda>v. ok_or PE_InvalidData (NamedGroup_of_u16 v))"

definition NamedGroup_encode :: "NamedGroup \<Rightarrow> unit encoder" where
  "NamedGroup_encode x = map_err (\<lambda>_. EncodeError) (cb_push_u16 (NamedGroup_as_u16 x))"

definition NamedGroup_wire :: "NamedGroup \<Rightarrow> bytes" where
  "NamedGroup_wire x = u16_to_be_bytes (NamedGroup_as_u16 x)"

lemma NamedGroup_code: "u16_code NamedGroup_as_u16 NamedGroup_of_u16"
proof
  show "NamedGroup_of_u16 (NamedGroup_as_u16 x) = Some x" for x
    by (cases x) (simp_all add: NamedGroup_of_u16_def)
  show "NamedGroup_of_u16 v = Some x \<Longrightarrow> NamedGroup_as_u16 x = v" for v x
    by (auto simp: NamedGroup_of_u16_def split: if_splits)
qed

interpretation named_group: wire_codec NamedGroup_encode NamedGroup_parse NamedGroup_wire "\<lambda>_. True"
  by (rule u16_code.u16_codec [OF NamedGroup_code])
    (simp_all add: fun_eq_iff NamedGroup_encode_def NamedGroup_parse_def NamedGroup_wire_def)

datatype SupportedGroups = SupportedGroups (supported_groups: "NamedGroup list")

definition SupportedGroups_parse :: "nat \<Rightarrow> (ParseBuffer, SupportedGroups, ParseError) prog" where
  "SupportedGroups_parse N =
     bnd pb_read_u16 (\<lambda>data_length.
     bnd (pb_read_list N (unat data_length) NamedGroup_parse) (\<lambda>xs.
     ret (SupportedGroups xs)))"

definition SupportedGroups_encode :: "SupportedGroups \<Rightarrow> unit encoder" where
  "SupportedGroups_encode x = cb_with_u16_length (for_each (supported_groups x) NamedGroup_encode)"

section \<open>Signature schemes (signature\_algorithms.rs, signature\_algorithms\_cert.rs)\<close>

datatype SignatureScheme =
    SS_RsaPkcs1Sha256
  | SS_RsaPkcs1Sha384
  | SS_RsaPkcs1Sha512
  | SS_EcdsaSecp256r1Sha256
  | SS_EcdsaSecp384r1Sha384
  | SS_EcdsaSecp521r1Sha512
  | SS_RsaPssRsaeSha256
  | SS_RsaPssRsaeSha384
  | SS_RsaPssRsaeSha512
  | SS_Ed25519
  | SS_Ed448
  | SS_RsaPssPssSha256
  | SS_RsaPssPssSha384
  | SS_RsaPssPssSha512
  | SS_Sha224Ecdsa
  | SS_Sha224Rsa
  | SS_Sha224Dsa
  | SS_RsaPkcs1Sha1
  | SS_EcdsaSha1
  | SS_Sha256BrainpoolP256r1
  | SS_Sha384BrainpoolP384r1
  | SS_Sha512BrainpoolP512r1
  | SS_MlDsa44
  | SS_MlDsa65
  | SS_MlDsa87

fun SignatureScheme_as_u16 :: "SignatureScheme \<Rightarrow> u16" where
  "SignatureScheme_as_u16 SS_RsaPkcs1Sha256 = 0x0401"
| "SignatureScheme_as_u16 SS_RsaPkcs1Sha384 = 0x0501"
| "SignatureScheme_as_u16 SS_RsaPkcs1Sha512 = 0x0601"
| "SignatureScheme_as_u16 SS_EcdsaSecp256r1Sha256 = 0x0403"
| "SignatureScheme_as_u16 SS_EcdsaSecp384r1Sha384 = 0x0503"
| "SignatureScheme_as_u16 SS_EcdsaSecp521r1Sha512 = 0x0603"
| "SignatureScheme_as_u16 SS_RsaPssRsaeSha256 = 0x0804"
| "SignatureScheme_as_u16 SS_RsaPssRsaeSha384 = 0x0805"
| "SignatureScheme_as_u16 SS_RsaPssRsaeSha512 = 0x0806"
| "SignatureScheme_as_u16 SS_Ed25519 = 0x0807"
| "SignatureScheme_as_u16 SS_Ed448 = 0x0808"
| "SignatureScheme_as_u16 SS_RsaPssPssSha256 = 0x0809"
| "SignatureScheme_as_u16 SS_RsaPssPssSha384 = 0x080a"
| "SignatureScheme_as_u16 SS_RsaPssPssSha512 = 0x080b"
| "SignatureScheme_as_u16 SS_Sha224Ecdsa = 0x0303"
| "SignatureScheme_as_u16 SS_Sha224Rsa = 0x0301"
| "SignatureScheme_as_u16 SS_Sha224Dsa = 0x0302"
| "SignatureScheme_as_u16 SS_RsaPkcs1Sha1 = 0x0201"
| "SignatureScheme_as_u16 SS_EcdsaSha1 = 0x0203"
| "SignatureScheme_as_u16 SS_Sha256BrainpoolP256r1 = 0x081a"
| "SignatureScheme_as_u16 SS_Sha384BrainpoolP384r1 = 0x081b"
| "SignatureScheme_as_u16 SS_Sha512BrainpoolP512r1 = 0x081c"
| "SignatureScheme_as_u16 SS_MlDsa44 = 0x0904"
| "SignatureScheme_as_u16 SS_MlDsa65 = 0x0905"
| "SignatureScheme_as_u16 SS_MlDsa87 = 0x0906"

definition SignatureScheme_of_u16 :: "u16 \<Rightarrow> SignatureScheme option" where
  "SignatureScheme_of_u16 v =
    (if v = 0x0401 then Some SS_RsaPkcs1Sha256
     else if v = 0x0501 then Some SS_RsaPkcs1Sha384
     else if v = 0x0601 then Some SS_RsaPkcs1Sha512
     else if v = 0x0403 then Some SS_EcdsaSecp256r1Sha256
     else if v = 0x0503 then Some SS_EcdsaSecp384r1Sha384
     else if v = 0x0603 then Some SS_EcdsaSecp521r1Sha512
     else if v = 0x0804 then Some SS_RsaPssRsaeSha256
     else if v = 0x0805 then Some SS_RsaPssRsaeSha384
     else if v = 0x0806 then Some SS_RsaPssRsaeSha512
     else if v = 0x0807 then Some SS_Ed25519
     else if v = 0x0808 then Some SS_Ed448
     else if v = 0x0809 then Some SS_RsaPssPssSha256
     else if v = 0x080a then Some SS_RsaPssPssSha384
     else if v = 0x080b then Some SS_RsaPssPssSha512
     else if v = 0x0303 then Some SS_Sha224Ecdsa
     else if v = 0x0301 then Some SS_Sha224Rsa
     else if v = 0x0302 then Some SS_Sha224Dsa
     else if v = 0x0201 then Some SS_RsaPkcs1Sha1
     else if v = 0x0203 then Some SS_EcdsaSha1
     else if v = 0x081a then Some SS_Sha256BrainpoolP256r1
     else if v = 0x081b then Some SS_Sha384BrainpoolP384r1
     else if v = 0x081c then Some SS_Sha512BrainpoolP512r1
     else if v = 0x0904 then Some SS_MlDsa44
     else if v = 0x0905 then Some SS_MlDsa65
     else if v = 0x0906 then Some SS_MlDsa87
     else None)"

definition SignatureScheme_parse :: "(ParseBuffer, SignatureScheme, ParseError) prog" where
  "SignatureScheme_parse = bnd pb_read_u16 (\<lambda>v. ok_or PE_InvalidData (SignatureScheme_of_u16 v))"

definition SignatureScheme_encode :: "SignatureScheme \<Rightarrow> unit encoder" where
  "SignatureScheme_encode x = map_err (\<lambda>_. EncodeError) (cb_push_u16 (SignatureScheme_as_u16 x))"

definition SignatureScheme_wire :: "SignatureScheme \<Rightarrow> bytes" where
  "SignatureScheme_wire x = u16_to_be_bytes (SignatureScheme_as_u16 x)"

lemma SignatureScheme_code: "u16_code SignatureScheme_as_u16 SignatureScheme_of_u16"
proof
  show "SignatureScheme_of_u16 (SignatureScheme_as_u16 x) = Some x" for x
    by (cases x) (simp_all add: SignatureScheme_of_u16_def)
  show "SignatureScheme_of_u16 v = Some x \<Longrightarrow> SignatureScheme_as_u16 x = v" for v x
    by (auto simp: SignatureScheme_of_u16_def split: if_splits)
qed

interpretation signature_scheme: wire_codec SignatureScheme_encode SignatureScheme_parse SignatureScheme_wire "\<lambda>_. True"
  by (rule u16_code.u16_codec [OF SignatureScheme_code])
    (simp_all add: fun_eq_iff SignatureScheme_encode_def SignatureScheme_parse_def SignatureScheme_wire_def)

datatype SignatureAlgorithms = SignatureAlgorithms (supported_signature_algorithms: "SignatureScheme list")

definition SignatureAlgorithms_parse :: "nat \<Rightarrow> (ParseBuffer, SignatureAlgorithms, ParseError) prog" where
  "SignatureAlgorithms_parse N =
     bnd pb_read_u16 (\<lambda>data_length.
     bnd (pb_read_list N (unat data_length) SignatureScheme_parse) (\<lambda>xs.
     ret (SignatureAlgorithms xs)))"

definition SignatureAlgorithms_encode :: "SignatureAlgorithms \<Rightarrow> unit encoder" where
  "SignatureAlgorithms_encode x = cb_with_u16_length (for_each (supported_signature_algorithms x) SignatureScheme_encode)"

datatype SignatureAlgorithmsCert = SignatureAlgorithmsCert (supported_signature_algorithms_cert: "SignatureScheme list")

definition SignatureAlgorithmsCert_parse :: "nat \<Rightarrow> (ParseBuffer, SignatureAlgorithmsCert, ParseError) prog" where
  "SignatureAlgorithmsCert_parse N =
     bnd pb_read_u16 (\<lambda>data_length.
     bnd (pb_read_list N (unat data_length) SignatureScheme_parse) (\<lambda>xs.
     ret (SignatureAlgorithmsCert xs)))"

definition SignatureAlgorithmsCert_encode :: "SignatureAlgorithmsCert \<Rightarrow> unit encoder" where
  "SignatureAlgorithmsCert_encode x = cb_with_u16_length (for_each (supported_signature_algorithms_cert x) SignatureScheme_encode)"

section \<open>Protocol versions (supported\_versions.rs)\<close>

datatype ProtocolVersion = ProtocolVersion (version_u16: u16)

definition ProtocolVersion_encode :: "ProtocolVersion \<Rightarrow> unit encoder" where
  "ProtocolVersion_encode v = map_err (\<lambda>_. EncodeError) (cb_push_u16 (version_u16 v))"

definition ProtocolVersion_parse :: "(ParseBuffer, ProtocolVersion, ParseError) prog" where
  "ProtocolVersion_parse = bnd pb_read_u16 (\<lambda>v. ret (ProtocolVersion v))"

definition ProtocolVersion_wire :: "ProtocolVersion \<Rightarrow> bytes" where
  "ProtocolVersion_wire v = u16_to_be_bytes (version_u16 v)"

definition TLS13 :: ProtocolVersion where
  "TLS13 = ProtocolVersion 0x0304"

interpretation protocol_version:
  wire_codec ProtocolVersion_encode ProtocolVersion_parse ProtocolVersion_wire "\<lambda>_. True"
proof (unfold_locales, goal_cases)
  case 1
  show ?case unfolding ProtocolVersion_encode_def ProtocolVersion_wire_def
    by (intro appends_map_err appends_push_u16) simp
next
  case (2 x)
  show ?case unfolding ProtocolVersion_parse_def ProtocolVersion_wire_def
    by (rule parses_wrap [OF parses_u16]) simp
next
  case (3 b x b')
  then show ?case
    by (auto simp: ProtocolVersion_parse_def ProtocolVersion_wire_def bnd_Ok_iff
        dest!: read_u16_took)
next
  case 4
  show ?case unfolding ProtocolVersion_parse_def by (intro safe_intros)
qed (simp add: ProtocolVersion_wire_def u16_to_be_bytes_def)

datatype SupportedVersionsClientHello = SupportedVersionsClientHello (versions: "ProtocolVersion list")

definition SupportedVersionsClientHello_parse :: "nat \<Rightarrow> (ParseBuffer, SupportedVersionsClientHello, ParseError) prog" where
  "SupportedVersionsClientHello_parse N =
     bnd pb_read_u8 (\<lambda>data_length.
     bnd (pb_read_list N (unat data_length) ProtocolVersion_parse) (\<lambda>xs.
     ret (SupportedVersionsClientHello xs)))"

definition SupportedVersionsClientHello_encode :: "SupportedVersionsClientHello \<Rightarrow> unit encoder" where
  "SupportedVersionsClientHello_encode x = cb_with_u8_length (for_each (versions x) ProtocolVersion_encode)"

datatype SupportedVersionsServerHello =
  SupportedVersionsServerHello (selected_version: ProtocolVersion)

definition SupportedVersionsServerHello_parse ::
  "(ParseBuffer, SupportedVersionsServerHello, ParseError) prog" where
  "SupportedVersionsServerHello_parse =
     bnd ProtocolVersion_parse (\<lambda>v. ret (SupportedVersionsServerHello v))"

definition SupportedVersionsServerHello_encode :: "SupportedVersionsServerHello \<Rightarrow> unit encoder" where
  "SupportedVersionsServerHello_encode x = ProtocolVersion_encode (selected_version x)"

section \<open>PSK key exchange modes (psk\_key\_exchange\_modes.rs)\<close>

datatype PskKeyExchangeMode = PKM_PskKe | PKM_PskDheKe

fun PskKeyExchangeMode_as_u8 :: "PskKeyExchangeMode \<Rightarrow> u8" where
  "PskKeyExchangeMode_as_u8 PKM_PskKe = 0"
| "PskKeyExchangeMode_as_u8 PKM_PskDheKe = 1"

definition PskKeyExchangeMode_of_u8 :: "u8 \<Rightarrow> PskKeyExchangeMode option" where
  "PskKeyExchangeMode_of_u8 v =
    (if v = 0 then Some PKM_PskKe
     else if v = 1 then Some PKM_PskDheKe
     else None)"

definition PskKeyExchangeMode_parse :: "(ParseBuffer, PskKeyExchangeMode, ParseError) prog" where
  "PskKeyExchangeMode_parse = bnd pb_read_u8 (\<lambda>v. ok_or PE_InvalidData (PskKeyExchangeMode_of_u8 v))"

definition PskKeyExchangeMode_encode :: "PskKeyExchangeMode \<Rightarrow> unit encoder" where
  "PskKeyExchangeMode_encode x = map_err (\<lambda>_. EncodeError) (cb_push (PskKeyExchangeMode_as_u8 x))"

definition PskKeyExchangeMode_wire :: "PskKeyExchangeMode \<Rightarrow> bytes" where
  "PskKeyExchangeMode_wire x = [PskKeyExchangeMode_as_u8 x]"

lemma PskKeyExchangeMode_code: "u8_code PskKeyExchangeMode_as_u8 PskKeyExchangeMode_of_u8"
proof
  show "PskKeyExchangeMode_of_u8 (PskKeyExchangeMode_as_u8 x) = Some x" for x
    by (cases x) (simp_all add: PskKeyExchangeMode_of_u8_def)
  show "PskKeyExchangeMode_of_u8 v = Some x \<Longrightarrow> PskKeyExchangeMode_as_u8 x = v" for v x
    by (auto simp: PskKeyExchangeMode_of_u8_def split: if_splits)
qed

interpretation psk_mode: wire_codec PskKeyExchangeMode_encode PskKeyExchangeMode_parse PskKeyExchangeMode_wire "\<lambda>_. True"
  by (rule u8_code.u8_codec [OF PskKeyExchangeMode_code])
    (simp_all add: fun_eq_iff PskKeyExchangeMode_encode_def PskKeyExchangeMode_parse_def PskKeyExchangeMode_wire_def)

datatype PskKeyExchangeModes = PskKeyExchangeModes (modes: "PskKeyExchangeMode list")

definition PskKeyExchangeModes_parse :: "nat \<Rightarrow> (ParseBuffer, PskKeyExchangeModes, ParseError) prog" where
  "PskKeyExchangeModes_parse N =
     bnd pb_read_u8 (\<lambda>data_length.
     bnd (pb_read_list N (unat data_length) PskKeyExchangeMode_parse) (\<lambda>xs.
     ret (PskKeyExchangeModes xs)))"

definition PskKeyExchangeModes_encode :: "PskKeyExchangeModes \<Rightarrow> unit encoder" where
  "PskKeyExchangeModes_encode x = cb_with_u8_length (for_each (modes x) PskKeyExchangeMode_encode)"

section \<open>Maximum fragment length (max\_fragment\_length.rs)\<close>

datatype MaxFragmentLength = MFL_Bits9 | MFL_Bits10 | MFL_Bits11 | MFL_Bits12

fun MaxFragmentLength_as_u8 :: "MaxFragmentLength \<Rightarrow> u8" where
  "MaxFragmentLength_as_u8 MFL_Bits9 = 1"
| "MaxFragmentLength_as_u8 MFL_Bits10 = 2"
| "MaxFragmentLength_as_u8 MFL_Bits11 = 3"
| "MaxFragmentLength_as_u8 MFL_Bits12 = 4"

definition MaxFragmentLength_of_u8 :: "u8 \<Rightarrow> MaxFragmentLength option" where
  "MaxFragmentLength_of_u8 v =
    (if v = 1 then Some MFL_Bits9
     else if v = 2 then Some MFL_Bits10
     else if v = 3 then Some MFL_Bits11
     else if v = 4 then Some MFL_Bits12
     else None)"

definition MaxFragmentLength_parse :: "(ParseBuffer, MaxFragmentLength, ParseError) prog" where
  "MaxFragmentLength_parse = bnd pb_read_u8 (\<lambda>v. ok_or PE_InvalidData (MaxFragmentLength_of_u8 v))"

definition MaxFragmentLength_encode :: "MaxFragmentLength \<Rightarrow> unit encoder" where
  "MaxFragmentLength_encode x = map_err (\<lambda>_. EncodeError) (cb_push (MaxFragmentLength_as_u8 x))"

definition MaxFragmentLength_wire :: "MaxFragmentLength \<Rightarrow> bytes" where
  "MaxFragmentLength_wire x = [MaxFragmentLength_as_u8 x]"

lemma MaxFragmentLength_code: "u8_code MaxFragmentLength_as_u8 MaxFragmentLength_of_u8"
proof
  show "MaxFragmentLength_of_u8 (MaxFragmentLength_as_u8 x) = Some x" for x
    by (cases x) (simp_all add: MaxFragmentLength_of_u8_def)
  show "MaxFragmentLength_of_u8 v = Some x \<Longrightarrow> MaxFragmentLength_as_u8 x = v" for v x
    by (auto simp: MaxFragmentLength_of_u8_def split: if_splits)
qed

interpretation max_fragment_length_codec: wire_codec MaxFragmentLength_encode MaxFragmentLength_parse MaxFragmentLength_wire "\<lambda>_. True"
  by (rule u8_code.u8_codec [OF MaxFragmentLength_code])
    (simp_all add: fun_eq_iff MaxFragmentLength_encode_def MaxFragmentLength_parse_def MaxFragmentLength_wire_def)

section \<open>Server name (server\_name.rs)\<close>

datatype NameType = NT_HostName

fun NameType_as_u8 :: "NameType \<Rightarrow> u8" where
  "NameType_as_u8 NT_HostName = 0"

definition NameType_of_u8 :: "u8 \<Rightarrow> NameType option" where
  "NameType_of_u8 v =
    (if v = 0 then Some NT_HostName
     else None)"

definition NameType_parse :: "(ParseBuffer, NameType, ParseError) prog" where
  "NameType_parse = bnd pb_read_u8 (\<lambda>v. ok_or PE_InvalidData (NameType_of_u8 v))"

definition NameType_encode :: "NameType \<Rightarrow> unit encoder" where
  "NameType_encode x = map_err (\<lambda>_. EncodeError) (cb_push (NameType_as_u8 x))"

definition NameType_wire :: "NameType \<Rightarrow> bytes" where
  "NameType_wire x = [NameType_as_u8 x]"

lemma NameType_code: "u8_code NameType_as_u8 NameType_of_u8"
proof
  show "NameType_of_u8 (NameType_as_u8 x) = Some x" for x
    by (cases x) (simp_all add: NameType_of_u8_def)
  show "NameType_of_u8 v = Some x \<Longrightarrow> NameType_as_u8 x = v" for v x
    by (auto simp: NameType_of_u8_def split: if_splits)
qed

interpretation name_type_codec: wire_codec NameType_encode NameType_parse NameType_wire "\<lambda>_. True"
  by (rule u8_code.u8_codec [OF NameType_code])
    (simp_all add: fun_eq_iff NameType_encode_def NameType_parse_def NameType_wire_def)

text \<open>A \<open>&str\<close> is the list of its UTF-8 bytes; \<open>is_ascii\<close> accepts the bytes below 128, and
  \<open>from_utf8\<close> accepts every ASCII string.\<close>

definition is_ascii :: "bytes \<Rightarrow> bool" where
  "is_ascii bs \<longleftrightarrow> list_all (\<lambda>b. b < 128) bs"

record ServerName =
  name_type :: NameType
  sn_name :: bytes

definition ServerName_parse :: "(ParseBuffer, ServerName, ParseError) prog" where
  "ServerName_parse =
     bnd NameType_parse (\<lambda>nt.
     bnd pb_read_u16 (\<lambda>name_len.
     bnd (pb_slice (unat name_len)) (\<lambda>sl.
     if is_ascii (pb_as_slice sl)
     then ret \<lparr>name_type = nt, sn_name = pb_as_slice sl\<rparr>
     else fail PE_InvalidData)))"

definition ServerName_encode :: "ServerName \<Rightarrow> unit encoder" where
  "ServerName_encode x =
     seq (NameType_encode (name_type x))
       (map_err (\<lambda>_. EncodeError) (cb_with_u16_length (cb_extend_from_slice (sn_name x))))"

definition ServerName_wire :: "ServerName \<Rightarrow> bytes" where
  "ServerName_wire x =
     NameType_wire (name_type x) @ u16_to_be_bytes (of_nat (length (sn_name x))) @ sn_name x"

definition ServerName_dom :: "ServerName \<Rightarrow> bool" where
  "ServerName_dom x \<longleftrightarrow> length (sn_name x) < 65536 \<and> is_ascii (sn_name x)"

datatype ServerNameList = ServerNameList (names: "ServerName list")

definition ServerNameList_parse :: "nat \<Rightarrow> (ParseBuffer, ServerNameList, ParseError) prog" where
  "ServerNameList_parse N =
     bnd pb_read_u16 (\<lambda>data_length.
     bnd (pb_read_list N (unat data_length) ServerName_parse) (\<lambda>xs.
     ret (ServerNameList xs)))"

definition ServerNameList_encode :: "ServerNameList \<Rightarrow> unit encoder" where
  "ServerNameList_encode x = cb_with_u16_length (for_each (names x) ServerName_encode)"

definition ServerNameList_single :: "bytes \<Rightarrow> ServerNameList" where
  "ServerNameList_single server_name =
     ServerNameList [\<lparr>name_type = NT_HostName, sn_name = server_name\<rparr>]"

datatype ServerNameResponse = ServerNameResponse

definition ServerNameResponse_parse :: "(ParseBuffer, ServerNameResponse, ParseError) prog" where
  "ServerNameResponse_parse =
     bnd (gets pb_is_empty) (\<lambda>empty. if empty then ret ServerNameResponse else fail PE_InvalidData)"

definition ServerNameResponse_encode :: "ServerNameResponse \<Rightarrow> unit encoder" where
  "ServerNameResponse_encode x = ret ()"

section \<open>Key shares (key\_share.rs)\<close>

record KeyShareEntry =
  group :: NamedGroup
  opaque :: bytes

definition KeyShareEntry_parse :: "(ParseBuffer, KeyShareEntry, ParseError) prog" where
  "KeyShareEntry_parse =
     bnd NamedGroup_parse (\<lambda>g.
     bnd pb_read_u16 (\<lambda>opaque_len.
     bnd (pb_slice (unat opaque_len)) (\<lambda>sl.
     ret \<lparr>group = g, opaque = pb_as_slice sl\<rparr>)))"

definition KeyShareEntry_encode :: "KeyShareEntry \<Rightarrow> unit encoder" where
  "KeyShareEntry_encode x =
     seq (NamedGroup_encode (group x))
       (map_err (\<lambda>_. EncodeError) (cb_with_u16_length (cb_extend_from_slice (opaque x))))"

definition KeyShareEntry_wire :: "KeyShareEntry \<Rightarrow> bytes" where
  "KeyShareEntry_wire x =
     NamedGroup_wire (group x) @ u16_to_be_bytes (of_nat (length (opaque x))) @ opaque x"

definition KeyShareEntry_dom :: "KeyShareEntry \<Rightarrow> bool" where
  "KeyShareEntry_dom x \<longleftrightarrow> length (opaque x) < 65536"

datatype KeyShareServerHello = KeyShareServerHello (server_share: KeyShareEntry)

definition KeyShareServerHello_parse :: "(ParseBuffer, KeyShareServerHello, ParseError) prog" where
  "KeyShareServerHello_parse = bnd KeyShareEntry_parse (\<lambda>e. ret (KeyShareServerHello e))"

definition KeyShareServerHello_encode :: "KeyShareServerHello \<Rightarrow> unit encoder" where
  "KeyShareServerHello_encode x = KeyShareEntry_encode (server_share x)"

datatype KeyShareClientHello = KeyShareClientHello (client_shares: "KeyShareEntry list")

definition KeyShareClientHello_parse :: "nat \<Rightarrow> (ParseBuffer, KeyShareClientHello, ParseError) prog" where
  "KeyShareClientHello_parse N =
     bnd pb_read_u16 (\<lambda>data_length.
     bnd (pb_read_list N (unat data_length) KeyShareEntry_parse) (\<lambda>xs.
     ret (KeyShareClientHello xs)))"

definition KeyShareClientHello_encode :: "KeyShareClientHello \<Rightarrow> unit encoder" where
  "KeyShareClientHello_encode x = cb_with_u16_length (for_each (client_shares x) KeyShareEntry_encode)"

datatype KeyShareHelloRetryRequest = KeyShareHelloRetryRequest (selected_group: NamedGroup)

definition KeyShareHelloRetryRequest_parse ::
  "(ParseBuffer, KeyShareHelloRetryRequest, ParseError) prog" where
  "KeyShareHelloRetryRequest_parse =
     bnd NamedGroup_parse (\<lambda>g. ret (KeyShareHelloRetryRequest g))"

definition KeyShareHelloRetryRequest_encode :: "KeyShareHelloRetryRequest \<Rightarrow> unit encoder" where
  "KeyShareHelloRetryRequest_encode x = NamedGroup_encode (selected_group x)"

section \<open>Pre-shared keys (pre\_shared\_key.rs)\<close>

record PreSharedKeyClientHello =
  identities :: "bytes list"
  hash_size :: nat

definition PreSharedKeyClientHello_parse ::
  "(ParseBuffer, PreSharedKeyClientHello, ParseError) prog" where
  "PreSharedKeyClientHello_parse = panic"

definition PskIdentity_encode :: "bytes \<Rightarrow> unit encoder" where
  "PskIdentity_encode identity =
     seq (map_err (\<lambda>_. EncodeError) (cb_with_u16_length (cb_extend_from_slice identity)))
       (map_err (\<lambda>_. EncodeError) (cb_push_u32 0))"

definition psk_binders_len :: "nat \<Rightarrow> nat \<Rightarrow> nat" where
  "psk_binders_len hash_len n = (1 + hash_len) * n"

definition PreSharedKeyClientHello_encode :: "PreSharedKeyClientHello \<Rightarrow> unit encoder" where
  "PreSharedKeyClientHello_encode x =
     seq (map_err (\<lambda>_. EncodeError)
           (cb_with_u16_length (for_each (identities x) PskIdentity_encode)))
     (let binders_len = psk_binders_len (hash_size x) (length (identities x)) in
      seq (map_err (\<lambda>_. EncodeError) (cb_push_u16 (of_nat binders_len)))
        (for_each [0..<binders_len] (\<lambda>_. map_err (\<lambda>_. EncodeError) (cb_push 0))))"

datatype PreSharedKeyServerHello = PreSharedKeyServerHello (selected_identity: u16)

definition PreSharedKeyServerHello_parse ::
  "(ParseBuffer, PreSharedKeyServerHello, ParseError) prog" where
  "PreSharedKeyServerHello_parse = bnd pb_read_u16 (\<lambda>i. ret (PreSharedKeyServerHello i))"

definition PreSharedKeyServerHello_encode :: "PreSharedKeyServerHello \<Rightarrow> unit encoder" where
  "PreSharedKeyServerHello_encode x =
     map_err (\<lambda>_. EncodeError) (cb_push_u16 (selected_identity x))"

section \<open>ALPN (alpn.rs)\<close>

datatype AlpnProtocolNameList = AlpnProtocolNameList (protocols: "bytes list")

text \<open>The loop over the list only validates: it reads a length byte, rejects zero, and skips
  the name.\<close>

function alpn_parse_loop :: "ParseBuffer \<Rightarrow> (unit, ParseError) result" where
  "alpn_parse_loop list_buf =
     (if pb_is_empty list_buf then Ok ()
      else case pb_read_u8 list_buf of
        (Ok name_len, b1) \<Rightarrow>
          if name_len = 0 then Err PE_InvalidData
          else (case pb_slice (unat name_len) b1 of
              (Ok _, b2) \<Rightarrow> alpn_parse_loop b2
            | (Err e, _) \<Rightarrow> Err e
            | (Panic, _) \<Rightarrow> Panic)
      | (Err e, _) \<Rightarrow> Err e
      | (Panic, _) \<Rightarrow> Panic)"
  by pat_completeness auto
termination
  by (relation "measure (\<lambda>b. length (buffer b) - pos b)")
    (auto simp: pb_read_u8_value pb_slice_value split: if_splits)

declare alpn_parse_loop.simps [simp del]

definition AlpnProtocolNameList_parse :: "(ParseBuffer, AlpnProtocolNameList, ParseError) prog" where
  "AlpnProtocolNameList_parse =
     bnd pb_read_u16 (\<lambda>list_len.
     bnd (pb_slice (unat list_len)) (\<lambda>list_buf.
     seq (from_result (alpn_parse_loop list_buf)) (
     ret (AlpnProtocolNameList []))))"

definition AlpnProtocol_encode :: "bytes \<Rightarrow> unit encoder" where
  "AlpnProtocol_encode protocol =
     seq (map_err (\<lambda>_. EncodeError) (cb_push (of_nat (length protocol))))
       (cb_extend_from_slice protocol)"

definition AlpnProtocolNameList_encode :: "AlpnProtocolNameList \<Rightarrow> unit encoder" where
  "AlpnProtocolNameList_encode x =
     cb_with_u16_length (for_each (protocols x) AlpnProtocol_encode)"

section \<open>Unimplemented extensions (unimplemented.rs)\<close>

datatype Unimplemented = UnimplementedData (unimplemented_data: bytes)

definition Unimplemented_parse :: "(ParseBuffer, Unimplemented, ParseError) prog" where
  "Unimplemented_parse = bnd (gets pb_as_slice) (\<lambda>d. ret (UnimplementedData d))"

definition Unimplemented_encode :: "Unimplemented \<Rightarrow> unit encoder" where
  "Unimplemented_encode x = cb_extend_from_slice (unimplemented_data x)"

section \<open>Wire formats of the payloads\<close>

text \<open>A byte string with a 16-bit length prefix, as names, key shares and identities have.\<close>

lemma appends_opaque16:
  "appends (map_err (\<lambda>_. EncodeError) (cb_with_u16_length (cb_extend_from_slice bs))) (prefixed16 bs)"
  by (intro codec_intros) simp

lemma parses_retI: "a = v \<Longrightarrow> parses (ret a) [] v"
  by (simp add: parses_ret)

lemma parses_opaque16:
  assumes "length bs < 65536" "parses (f (pb_new bs)) w v"
  shows "parses (bnd pb_read_u16 (\<lambda>n. bnd (pb_slice (unat n)) f)) (prefixed16 bs @ w) v"
  unfolding prefixed16_def append.assoc
  by (intro parses_bnd [OF parses_u16] parses_bnd [OF parses_slice] assms) (simp add: assms)

lemma opaque16_took:
  assumes "pb_ok b" "pb_read_u16 b = (Ok n, b1)" "pb_slice (unat n) b1 = (Ok d, b')"
  shows "took b (prefixed16 (buffer d)) b' \<and> length (buffer d) < 65536"
proof -
  have t: "took b (u16_to_be_bytes n) b1" using assms(1,2) by (rule read_u16_took)
  from slice_took [OF took_ok [OF t] assms(3)]
  have "took b1 (buffer d) b'" and n: "length (buffer d) = unat n" by auto
  moreover have "n = of_nat (length (buffer d))" unfolding n by simp
  ultimately show ?thesis using t by (auto simp: prefixed16_def took_append)
qed

interpretation server_name:
  wire_codec ServerName_encode ServerName_parse ServerName_wire ServerName_dom
proof (unfold_locales, goal_cases)
  case (1 x)
  show ?case
    unfolding ServerName_encode_def ServerName_wire_def prefixed16_def [symmetric]
    by (intro appends_seq appends_opaque16 name_type_codec.enc_appends) simp
next
  case (2 x)
  show ?case
    unfolding ServerName_parse_def ServerName_wire_def prefixed16_def [symmetric]
    by (intro parses_bnd [OF name_type_codec.par_complete]
        parses_opaque16 [where w = "[]", simplified append_Nil2])
      (use 2 in \<open>auto simp: ServerName_dom_def pb_as_slice_def pb_new_def intro!: parses_retI\<close>)
next
  case (3 b x b')
  then obtain nt b1 n b2 sl where nt: "NameType_parse b = (Ok nt, b1)"
    and n: "pb_read_u16 b1 = (Ok n, b2)" and sl: "pb_slice (unat n) b2 = (Ok sl, b')"
    and x: "is_ascii (buffer sl)" "x = \<lparr>name_type = nt, sn_name = buffer sl\<rparr>"
    by (auto simp: ServerName_parse_def bnd_Ok_iff pb_as_slice_def split: if_splits)
  from name_type_codec.par_sound [OF 3(1) nt] have t: "took b (NameType_wire nt) b1" by simp
  from opaque16_took [OF took_ok [OF t] n sl] t x show ?case
    by (auto simp: ServerName_wire_def ServerName_dom_def prefixed16_def [symmetric] took_append)
next
  case 4
  show ?case unfolding ServerName_parse_def by (intro safe_intros name_type_codec.par_safe)
qed (simp add: ServerName_wire_def u16_to_be_bytes_def)

interpretation key_share_entry:
  wire_codec KeyShareEntry_encode KeyShareEntry_parse KeyShareEntry_wire KeyShareEntry_dom
proof (unfold_locales, goal_cases)
  case (1 x)
  show ?case
    unfolding KeyShareEntry_encode_def KeyShareEntry_wire_def prefixed16_def [symmetric]
    by (intro appends_seq appends_opaque16 named_group.enc_appends) simp
next
  case (2 x)
  show ?case
    unfolding KeyShareEntry_parse_def KeyShareEntry_wire_def prefixed16_def [symmetric]
    by (intro parses_bnd [OF named_group.par_complete]
        parses_opaque16 [where w = "[]", simplified append_Nil2])
      (use 2 in \<open>auto simp: KeyShareEntry_dom_def pb_as_slice_def pb_new_def intro!: parses_retI\<close>)
next
  case (3 b x b')
  then obtain g b1 n b2 sl where g: "NamedGroup_parse b = (Ok g, b1)"
    and n: "pb_read_u16 b1 = (Ok n, b2)" and sl: "pb_slice (unat n) b2 = (Ok sl, b')"
    and x: "x = \<lparr>group = g, opaque = buffer sl\<rparr>"
    by (auto simp: KeyShareEntry_parse_def bnd_Ok_iff pb_as_slice_def)
  from named_group.par_sound [OF 3(1) g] have t: "took b (NamedGroup_wire g) b1" by simp
  from opaque16_took [OF took_ok [OF t] n sl] t x show ?case
    by (auto simp: KeyShareEntry_wire_def KeyShareEntry_dom_def prefixed16_def [symmetric] took_append)
next
  case 4
  show ?case unfolding KeyShareEntry_parse_def by (intro safe_intros named_group.par_safe)
qed (simp add: KeyShareEntry_wire_def u16_to_be_bytes_def)

lemma ServerName_appends [codec_intros]: "appends (ServerName_encode x) (ServerName_wire x)"
  unfolding ServerName_encode_def ServerName_wire_def prefixed16_def [symmetric]
  by (intro appends_seq appends_opaque16 name_type_codec.enc_appends) simp

lemma KeyShareEntry_appends [codec_intros]: "appends (KeyShareEntry_encode x) (KeyShareEntry_wire x)"
  unfolding KeyShareEntry_encode_def KeyShareEntry_wire_def prefixed16_def [symmetric]
  by (intro appends_seq appends_opaque16 named_group.enc_appends) simp

lemmas enum_appends [codec_intros] =
  named_group.enc_appends [OF TrueI] signature_scheme.enc_appends [OF TrueI]
  protocol_version.enc_appends [OF TrueI] psk_mode.enc_appends [OF TrueI]
  max_fragment_length_codec.enc_appends [OF TrueI] name_type_codec.enc_appends [OF TrueI]

definition SupportedGroups_wire :: "SupportedGroups \<Rightarrow> bytes" where
  "SupportedGroups_wire x = prefixed16 (concat (map NamedGroup_wire (supported_groups x)))"

lemma SupportedGroups_appends [codec_intros]: "appends (SupportedGroups_encode x) (SupportedGroups_wire x)"
  unfolding SupportedGroups_encode_def SupportedGroups_wire_def by (intro codec_intros appends_for_each)

lemma SupportedGroups_parses [codec_intros]:
  assumes "length (supported_groups x) \<le> N" "length (SupportedGroups_wire x) < 65536"
  shows "parses (SupportedGroups_parse N) (SupportedGroups_wire x) x"
  unfolding SupportedGroups_parse_def SupportedGroups_wire_def
  by (rule named_group.list_u16_complete) (use assms in \<open>simp_all add: SupportedGroups_wire_def list_all_iff\<close>)

definition SignatureAlgorithms_wire :: "SignatureAlgorithms \<Rightarrow> bytes" where
  "SignatureAlgorithms_wire x = prefixed16 (concat (map SignatureScheme_wire (supported_signature_algorithms x)))"

lemma SignatureAlgorithms_appends [codec_intros]: "appends (SignatureAlgorithms_encode x) (SignatureAlgorithms_wire x)"
  unfolding SignatureAlgorithms_encode_def SignatureAlgorithms_wire_def by (intro codec_intros appends_for_each)

lemma SignatureAlgorithms_parses [codec_intros]:
  assumes "length (supported_signature_algorithms x) \<le> N" "length (SignatureAlgorithms_wire x) < 65536"
  shows "parses (SignatureAlgorithms_parse N) (SignatureAlgorithms_wire x) x"
  unfolding SignatureAlgorithms_parse_def SignatureAlgorithms_wire_def
  by (rule signature_scheme.list_u16_complete) (use assms in \<open>simp_all add: SignatureAlgorithms_wire_def list_all_iff\<close>)

definition SignatureAlgorithmsCert_wire :: "SignatureAlgorithmsCert \<Rightarrow> bytes" where
  "SignatureAlgorithmsCert_wire x = prefixed16 (concat (map SignatureScheme_wire (supported_signature_algorithms_cert x)))"

lemma SignatureAlgorithmsCert_appends [codec_intros]: "appends (SignatureAlgorithmsCert_encode x) (SignatureAlgorithmsCert_wire x)"
  unfolding SignatureAlgorithmsCert_encode_def SignatureAlgorithmsCert_wire_def by (intro codec_intros appends_for_each)

lemma SignatureAlgorithmsCert_parses [codec_intros]:
  assumes "length (supported_signature_algorithms_cert x) \<le> N" "length (SignatureAlgorithmsCert_wire x) < 65536"
  shows "parses (SignatureAlgorithmsCert_parse N) (SignatureAlgorithmsCert_wire x) x"
  unfolding SignatureAlgorithmsCert_parse_def SignatureAlgorithmsCert_wire_def
  by (rule signature_scheme.list_u16_complete) (use assms in \<open>simp_all add: SignatureAlgorithmsCert_wire_def list_all_iff\<close>)

definition SupportedVersionsClientHello_wire :: "SupportedVersionsClientHello \<Rightarrow> bytes" where
  "SupportedVersionsClientHello_wire x = prefixed8 (concat (map ProtocolVersion_wire (versions x)))"

lemma SupportedVersionsClientHello_appends [codec_intros]: "appends (SupportedVersionsClientHello_encode x) (SupportedVersionsClientHello_wire x)"
  unfolding SupportedVersionsClientHello_encode_def SupportedVersionsClientHello_wire_def by (intro codec_intros appends_for_each)

lemma SupportedVersionsClientHello_parses [codec_intros]:
  assumes "length (versions x) \<le> N" "length (SupportedVersionsClientHello_wire x) < 256"
  shows "parses (SupportedVersionsClientHello_parse N) (SupportedVersionsClientHello_wire x) x"
  unfolding SupportedVersionsClientHello_parse_def SupportedVersionsClientHello_wire_def
  by (rule protocol_version.list_u8_complete) (use assms in \<open>simp_all add: SupportedVersionsClientHello_wire_def list_all_iff\<close>)

definition PskKeyExchangeModes_wire :: "PskKeyExchangeModes \<Rightarrow> bytes" where
  "PskKeyExchangeModes_wire x = prefixed8 (concat (map PskKeyExchangeMode_wire (modes x)))"

lemma PskKeyExchangeModes_appends [codec_intros]: "appends (PskKeyExchangeModes_encode x) (PskKeyExchangeModes_wire x)"
  unfolding PskKeyExchangeModes_encode_def PskKeyExchangeModes_wire_def by (intro codec_intros appends_for_each)

lemma PskKeyExchangeModes_parses [codec_intros]:
  assumes "length (modes x) \<le> N" "length (PskKeyExchangeModes_wire x) < 256"
  shows "parses (PskKeyExchangeModes_parse N) (PskKeyExchangeModes_wire x) x"
  unfolding PskKeyExchangeModes_parse_def PskKeyExchangeModes_wire_def
  by (rule psk_mode.list_u8_complete) (use assms in \<open>simp_all add: PskKeyExchangeModes_wire_def list_all_iff\<close>)

definition ServerNameList_wire :: "ServerNameList \<Rightarrow> bytes" where
  "ServerNameList_wire x = prefixed16 (concat (map ServerName_wire (names x)))"

lemma ServerNameList_appends [codec_intros]: "appends (ServerNameList_encode x) (ServerNameList_wire x)"
  unfolding ServerNameList_encode_def ServerNameList_wire_def by (intro codec_intros appends_for_each)

lemma ServerNameList_parses [codec_intros]:
  assumes "list_all ServerName_dom (names x)" "length (names x) \<le> N" "length (ServerNameList_wire x) < 65536"
  shows "parses (ServerNameList_parse N) (ServerNameList_wire x) x"
  unfolding ServerNameList_parse_def ServerNameList_wire_def
  by (rule server_name.list_u16_complete) (use assms in \<open>simp_all add: ServerNameList_wire_def list_all_iff\<close>)

definition KeyShareClientHello_wire :: "KeyShareClientHello \<Rightarrow> bytes" where
  "KeyShareClientHello_wire x = prefixed16 (concat (map KeyShareEntry_wire (client_shares x)))"

lemma KeyShareClientHello_appends [codec_intros]: "appends (KeyShareClientHello_encode x) (KeyShareClientHello_wire x)"
  unfolding KeyShareClientHello_encode_def KeyShareClientHello_wire_def by (intro codec_intros appends_for_each)

lemma KeyShareClientHello_parses [codec_intros]:
  assumes "list_all KeyShareEntry_dom (client_shares x)" "length (client_shares x) \<le> N" "length (KeyShareClientHello_wire x) < 65536"
  shows "parses (KeyShareClientHello_parse N) (KeyShareClientHello_wire x) x"
  unfolding KeyShareClientHello_parse_def KeyShareClientHello_wire_def
  by (rule key_share_entry.list_u16_complete) (use assms in \<open>simp_all add: KeyShareClientHello_wire_def list_all_iff\<close>)

definition PskIdentity_wire :: "bytes \<Rightarrow> bytes" where
  "PskIdentity_wire i = prefixed16 i @ [0, 0, 0, 0]"

definition PreSharedKeyClientHello_wire :: "PreSharedKeyClientHello \<Rightarrow> bytes" where
  "PreSharedKeyClientHello_wire x =
     prefixed16 (concat (map PskIdentity_wire (identities x))) @
     u16_to_be_bytes (of_nat (psk_binders_len (hash_size x) (length (identities x)))) @
     replicate (psk_binders_len (hash_size x) (length (identities x))) 0"

lemma PskIdentity_appends [codec_intros]: "appends (PskIdentity_encode i) (PskIdentity_wire i)"
proof -
  have z: "u32_to_be_bytes 0 = [0, 0, 0, 0]" by (simp add: u32_to_be_bytes_def)
  show ?thesis
    unfolding PskIdentity_encode_def PskIdentity_wire_def z [symmetric]
    by (intro codec_intros; simp)
qed

lemma PreSharedKeyClientHello_appends [codec_intros]:
  "appends (PreSharedKeyClientHello_encode x) (PreSharedKeyClientHello_wire x)"
proof -
  let ?n = "psk_binders_len (hash_size x) (length (identities x))"
  have "appends (for_each [0..<?n] (\<lambda>_. map_err (\<lambda>_. EncodeError) (cb_push 0)))
      (concat (map (\<lambda>_. [0]) [0..<?n]))"
    by (intro appends_for_each codec_intros) simp
  moreover have "concat (map (\<lambda>_. [0]) [0..<n]) = replicate n (0 :: u8)" for n
    by (induction n) (simp_all flip: replicate_append_same)
  ultimately show ?thesis
    unfolding PreSharedKeyClientHello_encode_def PreSharedKeyClientHello_wire_def Let_def
    by (intro codec_intros appends_for_each; simp)
qed

definition AlpnProtocol_wire :: "bytes \<Rightarrow> bytes" where
  "AlpnProtocol_wire p = prefixed8 p"

definition AlpnProtocolNameList_wire :: "AlpnProtocolNameList \<Rightarrow> bytes" where
  "AlpnProtocolNameList_wire x = prefixed16 (concat (map AlpnProtocol_wire (protocols x)))"

lemma AlpnProtocol_appends [codec_intros]: "appends (AlpnProtocol_encode p) (AlpnProtocol_wire p)"
  unfolding AlpnProtocol_encode_def AlpnProtocol_wire_def prefixed8_def
  by (intro codec_intros) simp

lemma AlpnProtocolNameList_appends [codec_intros]:
  "appends (AlpnProtocolNameList_encode x) (AlpnProtocolNameList_wire x)"
  unfolding AlpnProtocolNameList_encode_def AlpnProtocolNameList_wire_def
  by (intro codec_intros appends_for_each)

lemma Unimplemented_appends [codec_intros]: "appends (Unimplemented_encode x) (unimplemented_data x)"
  unfolding Unimplemented_encode_def by (rule appends_extend)

text \<open>The validation loop accepts a list of protocol names of 1 to 255 bytes and stops at the
  end of the buffer.\<close>

lemma alpn_parse_loop_accepts:
  assumes "list_all (\<lambda>p. 0 < length p \<and> length p < 256) ps"
    and "took b (concat (map AlpnProtocol_wire ps)) b'" and "pb_is_empty b'"
  shows "alpn_parse_loop b = Ok ()"
  using assms
proof (induction ps arbitrary: b)
  case Nil
  then show ?case by (subst alpn_parse_loop.simps) simp
next
  case (Cons p ps)
  have "concat (map AlpnProtocol_wire (p # ps)) =
      [of_nat (length p)] @ p @ concat (map AlpnProtocol_wire ps)"
    by (simp add: AlpnProtocol_wire_def prefixed8_def)
  with Cons.prems(2) obtain c d where c: "took b [of_nat (length p)] c" and d: "took c p d"
    and r: "took d (concat (map AlpnProtocol_wire ps)) b'"
    by (auto simp only: took_append)
  have "pb_read_u8 b = (Ok (of_nat (length p)), c)" by (rule parsesD [OF parses_u8 c])
  moreover have "pb_slice (length p) c = (Ok (pb_new p), d)" by (rule parsesD [OF parses_slice d]) simp
  moreover have "\<not> pb_is_empty b" using c by (auto simp: took_def pb_is_empty_def)
  moreover have "(of_nat (length p) :: u8) \<noteq> 0"
    using Cons.prems(1) by (simp add: word_unat_eq_iff)
  ultimately show ?case
    using Cons.IH [OF _ r Cons.prems(3)] Cons.prems(1) by (subst alpn_parse_loop.simps) simp
qed

lemma AlpnProtocolNameList_parses:
  assumes "list_all (\<lambda>p. 0 < length p \<and> length p < 256) (protocols x)"
    and "length (AlpnProtocolNameList_wire x) < 65536"
  shows "parses AlpnProtocolNameList_parse (AlpnProtocolNameList_wire x) (AlpnProtocolNameList [])"
proof -
  let ?w = "concat (map AlpnProtocol_wire (protocols x))"
  have "alpn_parse_loop (pb_new ?w) = Ok ()"
    by (rule alpn_parse_loop_accepts [OF assms(1) took_whole]) (simp add: pb_is_empty_def)
  then show ?thesis
    unfolding AlpnProtocolNameList_parse_def AlpnProtocolNameList_wire_def
    by (intro parses_opaque16 [where w = "[]", simplified append_Nil2])
      (use assms(2) in \<open>simp_all add: AlpnProtocolNameList_wire_def parses_iff bnd_def\<close>)
qed

lemma alpn_parse_loop_no_panic: "alpn_parse_loop b \<noteq> Panic"
proof (induction b rule: alpn_parse_loop.induct)
  case (1 b)
  then show ?case
    by (subst alpn_parse_loop.simps)
      (auto simp: pb_read_u8_value pb_slice_value split: prod.splits result.splits if_splits)
qed

section \<open>Panic freedom of the payload parsers\<close>

lemmas enum_safe [safe_intros] =
  named_group.par_safe signature_scheme.par_safe protocol_version.par_safe psk_mode.par_safe
  max_fragment_length_codec.par_safe name_type_codec.par_safe server_name.par_safe
  key_share_entry.par_safe

lemma payload_safe [safe_intros]:
  "pb_safe (SupportedGroups_parse N)" "pb_safe (SignatureAlgorithms_parse N)"
  "pb_safe (SignatureAlgorithmsCert_parse N)" "pb_safe (SupportedVersionsClientHello_parse N)"
  "pb_safe SupportedVersionsServerHello_parse" "pb_safe (PskKeyExchangeModes_parse N)"
  "pb_safe (ServerNameList_parse N)" "pb_safe ServerNameResponse_parse"
  "pb_safe KeyShareServerHello_parse" "pb_safe (KeyShareClientHello_parse N)"
  "pb_safe KeyShareHelloRetryRequest_parse" "pb_safe PreSharedKeyServerHello_parse"
  "pb_safe AlpnProtocolNameList_parse" "pb_safe Unimplemented_parse"
  unfolding SupportedGroups_parse_def SignatureAlgorithms_parse_def
    SignatureAlgorithmsCert_parse_def SupportedVersionsClientHello_parse_def
    SupportedVersionsServerHello_parse_def PskKeyExchangeModes_parse_def
    ServerNameList_parse_def ServerNameResponse_parse_def KeyShareServerHello_parse_def
    KeyShareClientHello_parse_def KeyShareHelloRetryRequest_parse_def
    PreSharedKeyServerHello_parse_def AlpnProtocolNameList_parse_def Unimplemented_parse_def
  by (intro safe_intros alpn_parse_loop_no_panic)+

end
