(* ===== verification/Extensions.thy ===== *)
theory Extensions
  imports Extension_Data
begin

text \<open>
  Extension types and extension blocks: \<open>ExtensionType\<close> of \<open>src/src/extensions/mod.rs\<close>, the
  \<open>extension_group!\<close> macro of \<open>extension_group_macro.rs\<close> as functions over a table of payload
  parsers, and its seven instances in \<open>messages.rs\<close>. The locale \<open>ext_group\<close> states what a group
  promises and proves once that blocks are read back, that unknown types are skipped and
  that a type the group does not admit aborts the handshake.
\<close>

section \<open>Extension types (mod.rs)\<close>

datatype ExtensionType =
    ET_ServerName
  | ET_MaxFragmentLength
  | ET_StatusRequest
  | ET_SupportedGroups
  | ET_SignatureAlgorithms
  | ET_UseSrtp
  | ET_Heartbeat
  | ET_ApplicationLayerProtocolNegotiation
  | ET_SignedCertificateTimestamp
  | ET_ClientCertificateType
  | ET_ServerCertificateType
  | ET_Padding
  | ET_CompressCertificate
  | ET_PreSharedKey
  | ET_EarlyData
  | ET_SupportedVersions
  | ET_Cookie
  | ET_PskKeyExchangeModes
  | ET_CertificateAuthorities
  | ET_OidFilters
  | ET_PostHandshakeAuth
  | ET_SignatureAlgorithmsCert
  | ET_KeyShare

fun ExtensionType_as_u16 :: "ExtensionType \<Rightarrow> u16" where
  "ExtensionType_as_u16 ET_ServerName = 0"
| "ExtensionType_as_u16 ET_MaxFragmentLength = 1"
| "ExtensionType_as_u16 ET_StatusRequest = 5"
| "ExtensionType_as_u16 ET_SupportedGroups = 10"
| "ExtensionType_as_u16 ET_SignatureAlgorithms = 13"
| "ExtensionType_as_u16 ET_UseSrtp = 14"
| "ExtensionType_as_u16 ET_Heartbeat = 15"
| "ExtensionType_as_u16 ET_ApplicationLayerProtocolNegotiation = 16"
| "ExtensionType_as_u16 ET_SignedCertificateTimestamp = 18"
| "ExtensionType_as_u16 ET_ClientCertificateType = 19"
| "ExtensionType_as_u16 ET_ServerCertificateType = 20"
| "ExtensionType_as_u16 ET_Padding = 21"
| "ExtensionType_as_u16 ET_CompressCertificate = 27"
| "ExtensionType_as_u16 ET_PreSharedKey = 41"
| "ExtensionType_as_u16 ET_EarlyData = 42"
| "ExtensionType_as_u16 ET_SupportedVersions = 43"
| "ExtensionType_as_u16 ET_Cookie = 44"
| "ExtensionType_as_u16 ET_PskKeyExchangeModes = 45"
| "ExtensionType_as_u16 ET_CertificateAuthorities = 47"
| "ExtensionType_as_u16 ET_OidFilters = 48"
| "ExtensionType_as_u16 ET_PostHandshakeAuth = 49"
| "ExtensionType_as_u16 ET_SignatureAlgorithmsCert = 50"
| "ExtensionType_as_u16 ET_KeyShare = 51"

definition ExtensionType_of_u16 :: "u16 \<Rightarrow> ExtensionType option" where
  "ExtensionType_of_u16 v =
    (if v = 0 then Some ET_ServerName
     else if v = 1 then Some ET_MaxFragmentLength
     else if v = 5 then Some ET_StatusRequest
     else if v = 10 then Some ET_SupportedGroups
     else if v = 13 then Some ET_SignatureAlgorithms
     else if v = 14 then Some ET_UseSrtp
     else if v = 15 then Some ET_Heartbeat
     else if v = 16 then Some ET_ApplicationLayerProtocolNegotiation
     else if v = 18 then Some ET_SignedCertificateTimestamp
     else if v = 19 then Some ET_ClientCertificateType
     else if v = 20 then Some ET_ServerCertificateType
     else if v = 21 then Some ET_Padding
     else if v = 27 then Some ET_CompressCertificate
     else if v = 41 then Some ET_PreSharedKey
     else if v = 42 then Some ET_EarlyData
     else if v = 43 then Some ET_SupportedVersions
     else if v = 44 then Some ET_Cookie
     else if v = 45 then Some ET_PskKeyExchangeModes
     else if v = 47 then Some ET_CertificateAuthorities
     else if v = 48 then Some ET_OidFilters
     else if v = 49 then Some ET_PostHandshakeAuth
     else if v = 50 then Some ET_SignatureAlgorithmsCert
     else if v = 51 then Some ET_KeyShare
     else None)"

definition ExtensionType_parse :: "(ParseBuffer, ExtensionType, ParseError) prog" where
  "ExtensionType_parse = bnd pb_read_u16 (\<lambda>v. ok_or PE_InvalidData (ExtensionType_of_u16 v))"

definition ExtensionType_encode :: "ExtensionType \<Rightarrow> unit encoder" where
  "ExtensionType_encode x = map_err (\<lambda>_. EncodeError) (cb_push_u16 (ExtensionType_as_u16 x))"

definition ExtensionType_wire :: "ExtensionType \<Rightarrow> bytes" where
  "ExtensionType_wire x = u16_to_be_bytes (ExtensionType_as_u16 x)"

lemma ExtensionType_code: "u16_code ExtensionType_as_u16 ExtensionType_of_u16"
proof
  show "ExtensionType_of_u16 (ExtensionType_as_u16 x) = Some x" for x
    by (cases x) (simp_all add: ExtensionType_of_u16_def)
  show "ExtensionType_of_u16 v = Some x \<Longrightarrow> ExtensionType_as_u16 x = v" for v x
    by (auto simp: ExtensionType_of_u16_def split: if_splits)
qed

interpretation extension_type: wire_codec ExtensionType_encode ExtensionType_parse ExtensionType_wire "\<lambda>_. True"
  by (rule u16_code.u16_codec [OF ExtensionType_code])
    (simp_all add: fun_eq_iff ExtensionType_encode_def ExtensionType_parse_def ExtensionType_wire_def)

section \<open>The extension group macro (extension\_group\_macro.rs)\<close>

type_synonym 'x ext_table = "ExtensionType \<Rightarrow> (ParseBuffer, 'x, ParseError) prog option"

text \<open>\<open>encode\<close>: type, then the payload under a 16-bit length.\<close>

definition ext_encode :: "ExtensionType \<Rightarrow> unit encoder \<Rightarrow> unit encoder" where
  "ext_encode t payload = seq (ExtensionType_encode t) (cb_with_u16_length payload)"

text \<open>\<open>parse\<close>: the extension data is consumed even when the type is not recognised. A payload
  parser runs on a buffer of its own; its position afterwards is dropped.\<close>

definition ext_parse :: "'x ext_table \<Rightarrow> (ParseBuffer, 'x, TlsError) prog" where
  "ext_parse table =
     bnd (attempt ExtensionType_parse) (\<lambda>extension_type.
     bnd (map_err (\<lambda>_. DecodeError) pb_read_u16) (\<lambda>data_len.
     bnd (map_err (\<lambda>_. DecodeError) (pb_slice (unat data_len))) (\<lambda>ext_data.
     case extension_type of
       Err e \<Rightarrow> fail (if e = PE_InvalidData then UnknownExtensionType else DecodeError)
     | Panic \<Rightarrow> panic
     | Ok ext_type \<Rightarrow>
         (case table ext_type of
            None \<Rightarrow> fail (AbortHandshake AL_Fatal AD_IllegalParameter)
          | Some payload_parse \<Rightarrow>
              (case payload_parse ext_data of
                 (Ok v, _) \<Rightarrow> ret v
               | (Err _, _) \<Rightarrow> fail DecodeError
               | (Panic, _) \<Rightarrow> panic)))))"

text \<open>Every round of the \<open>parse_vector\<close> loop that does not end it consumes at least the four bytes of
  type and length.\<close>

lemma ext_parse_consumes:
  assumes "ext_parse table b = (r, b')" and "r \<noteq> Err DecodeError" and "r \<noteq> Panic"
  shows "buffer b' = buffer b \<and> pos b + 4 \<le> pos b' \<and> pos b' \<le> length (buffer b)"
proof -
  have *: "attempt ExtensionType_parse b =
      (if pos b + 2 \<le> length (buffer b)
       then (Ok (case ExtensionType_of_u16 (u16_from_be_bytes (buffer b ! pos b) (buffer b ! (pos b + 1))) of
               Some t \<Rightarrow> Ok t | None \<Rightarrow> Err PE_InvalidData), b\<lparr>pos := pos b + 2\<rparr>)
       else (Ok (Err PE_InsufficientBytes), b))"
    by (auto simp: attempt_def ExtensionType_parse_def bnd_def pb_read_u16_value ok_or_def
        split: option.splits)
  show ?thesis
    using assms
    by (auto simp: ext_parse_def bnd_def * map_err_def pb_read_u16_value pb_slice_value
        split: if_splits option.splits result.splits prod.splits)
qed

function ext_vector_loop ::
  "'x ext_table \<Rightarrow> nat \<Rightarrow> ParseBuffer \<Rightarrow> 'x list \<Rightarrow> ('x list, TlsError) result" where
  "ext_vector_loop table N ext_buf extensions =
     (if pb_is_empty ext_buf then Ok extensions
      else case ext_parse table ext_buf of
        (Ok extension, b) \<Rightarrow>
          if length extensions < N then ext_vector_loop table N b (extensions @ [extension])
          else Err DecodeError
      | (Err e, b) \<Rightarrow>
          if e = UnknownExtensionType then ext_vector_loop table N b extensions else Err e
      | (Panic, b) \<Rightarrow> Panic)"
  by pat_completeness auto
termination
proof (relation "measure (\<lambda>(table, N, b, xs). length (buffer b) - pos b)", goal_cases)
  case (2 table N b xs r b' e)
  then show ?case using ext_parse_consumes [of table b "Ok e" b'] by auto
next
  case (3 table N b xs r b' e)
  then show ?case using ext_parse_consumes [of table b "Err e" b'] by auto
qed simp

declare ext_vector_loop.simps [simp del]

definition ext_parse_vector :: "'x ext_table \<Rightarrow> nat \<Rightarrow> (ParseBuffer, 'x list, TlsError) prog" where
  "ext_parse_vector table N =
     bnd (map_err (\<lambda>_. InvalidExtensionsLength) pb_read_u16) (\<lambda>extensions_len.
     bnd (map_err TlsError_from (pb_slice (unat extensions_len))) (\<lambda>ext_buf.
     from_result (ext_vector_loop table N ext_buf [])))"

section \<open>What a group promises\<close>

text \<open>One entry of an extension block: an extension of the group, or a type code the library does
  not know with its opaque data.\<close>

datatype 'x ext_item = Known 'x | Unknown u16 bytes

definition ext_wire :: "u16 \<Rightarrow> bytes \<Rightarrow> bytes" where
  "ext_wire code data = u16_to_be_bytes code @ prefixed16 data"

fun known_items :: "'x ext_item list \<Rightarrow> 'x list" where
  "known_items [] = []"
| "known_items (Known x # is) = x # known_items is"
| "known_items (Unknown c d # is) = known_items is"

lemma known_items_append [simp]: "known_items (xs @ ys) = known_items xs @ known_items ys"
  by (induction xs rule: known_items.induct) simp_all

definition item_wire :: "('x \<Rightarrow> ExtensionType) \<Rightarrow> ('x \<Rightarrow> bytes) \<Rightarrow> 'x ext_item \<Rightarrow> bytes" where
  "item_wire ext_type payload i = (case i of
     Known x \<Rightarrow> ext_wire (ExtensionType_as_u16 (ext_type x)) (payload x)
   | Unknown c d \<Rightarrow> ext_wire c d)"

definition item_ok :: "('x \<Rightarrow> bool) \<Rightarrow> 'x ext_item \<Rightarrow> bool" where
  "item_ok ok i \<longleftrightarrow> (case i of
     Known x \<Rightarrow> ok x
   | Unknown c d \<Rightarrow> ExtensionType_of_u16 c = None \<and> length d < 65536)"

text \<open>What \<open>parse\<close> computes when the three fields of an extension stand at the cursor.\<close>

lemma ext_parse_fields:
  assumes "took b (ext_wire code data) b'" "length data < 65536"
  shows "ext_parse table b =
    (case ExtensionType_of_u16 code of
       None \<Rightarrow> (Err UnknownExtensionType, b')
     | Some t \<Rightarrow> (case table t of
          None \<Rightarrow> (Err (AbortHandshake AL_Fatal AD_IllegalParameter), b')
        | Some p \<Rightarrow> (case fst (p (pb_new data)) of
             Ok v \<Rightarrow> (Ok v, b') | Err _ \<Rightarrow> (Err DecodeError, b') | Panic \<Rightarrow> (Panic, b'))))"
proof -
  from assms(1) obtain c where c: "took b (u16_to_be_bytes code) c" and d: "took c (prefixed16 data) b'"
    by (auto simp: ext_wire_def took_append)
  from d obtain e where e: "took c (u16_to_be_bytes (of_nat (length data))) e" and f: "took e data b'"
    by (auto simp: prefixed16_def took_append)
  have t: "attempt ExtensionType_parse b = (Ok (case ExtensionType_of_u16 code of
      Some t \<Rightarrow> Ok t | None \<Rightarrow> Err PE_InvalidData), c)"
    using parsesD [OF parses_u16 c]
    by (auto simp: attempt_def ExtensionType_parse_def bnd_def ok_or_def split: option.splits)
  have l: "pb_read_u16 c = (Ok (of_nat (length data)), e)" by (rule parsesD [OF parses_u16 e])
  have s: "pb_slice (length data) e = (Ok (pb_new data), b')" by (rule parsesD [OF parses_slice f]) simp
  show ?thesis
    unfolding ext_parse_def using assms(2)
    by (auto simp: bnd_def t l s map_err_def split: option.splits result.splits prod.splits)
qed

lemma took_nonempty: "took b (ext_wire c d @ w) b' \<Longrightarrow> \<not> pb_is_empty b"
  by (auto simp: took_def pb_is_empty_def ext_wire_def prefixed16_def)

locale ext_group =
  fixes table :: "'x ext_table"
    and ext_type :: "'x \<Rightarrow> ExtensionType"
    and payload_enc :: "'x \<Rightarrow> unit encoder"
    and payload :: "'x \<Rightarrow> bytes"
    and dom :: "'x \<Rightarrow> bool"
  assumes payload_appends: "dom x \<Longrightarrow> appends (payload_enc x) (payload x)"
    and payload_read: "dom x \<Longrightarrow> \<exists>p. table (ext_type x) = Some p \<and> fst (p (pb_new (payload x))) = Ok x"
    and payload_short: "dom x \<Longrightarrow> length (payload x) < 65536"
begin

abbreviation wire_of :: "'x ext_item \<Rightarrow> bytes" where
  "wire_of \<equiv> item_wire ext_type payload"

abbreviation ok_item :: "'x ext_item \<Rightarrow> bool" where
  "ok_item \<equiv> item_ok dom"

lemma ext_appends:
  "dom x \<Longrightarrow> appends (ext_encode (ext_type x) (payload_enc x)) (wire_of (Known x))"
  unfolding ext_encode_def item_wire_def ext_wire_def ext_item.case
    ExtensionType_wire_def [symmetric]
  by (intro appends_seq appends_with_u16 extension_type.enc_appends payload_appends TrueI)

lemma item_parse:
  assumes "ok_item i" "took b (wire_of i @ w) b'"
  shows "\<exists>c. took c w b' \<and> \<not> pb_is_empty b \<and>
    ext_parse table b = (case i of Known x \<Rightarrow> (Ok x, c) | Unknown _ _ \<Rightarrow> (Err UnknownExtensionType, c))"
proof -
  obtain code data where w: "wire_of i = ext_wire code data" and l: "length data < 65536"
    using assms(1) payload_short by (cases i) (auto simp: item_wire_def item_ok_def)
  from assms(2) obtain c where c: "took b (ext_wire code data) c" "took c w b'"
    by (auto simp: took_append w)
  have "ext_parse table b = (case i of Known x \<Rightarrow> (Ok x, c) | Unknown _ _ \<Rightarrow> (Err UnknownExtensionType, c))"
  proof (cases i)
    case (Known x)
    with assms(1) have x: "dom x" by (simp add: item_ok_def)
    obtain p where "table (ext_type x) = Some p" "fst (p (pb_new (payload x))) = Ok x"
      using payload_read [OF x] by blast
    then show ?thesis
      using ext_parse_fields [of b "ExtensionType_as_u16 (ext_type x)" "payload x" c table] c(1) w Known
        payload_short [OF x] ExtensionType_code
      by (simp add: item_wire_def u16_code_def)
  next
    case (Unknown code' data')
    then show ?thesis
      using ext_parse_fields [of b code' data' c table] c(1) w assms(1)
      by (simp add: item_wire_def item_ok_def)
  qed
  with c assms(2) w show ?thesis using took_nonempty [of b code data w b'] by auto
qed

lemma vector_loop_items:
  assumes "list_all ok_item is" "length acc + length (known_items is) \<le> N"
    and "took b (concat (map wire_of is) @ w) b'"
  shows "\<exists>c. took c w b' \<and> ext_vector_loop table N b acc = ext_vector_loop table N c (acc @ known_items is)"
  using assms
proof (induction "is" arbitrary: b acc)
  case Nil
  then show ?case by auto
next
  case (Cons i "is")
  then have i: "ok_item i" and t: "took b (wire_of i @ concat (map wire_of is) @ w) b'" by simp_all
  obtain c where c: "took c (concat (map wire_of is) @ w) b'" "\<not> pb_is_empty b"
    and p: "ext_parse table b = (case i of Known x \<Rightarrow> (Ok x, c) | Unknown _ _ \<Rightarrow> (Err UnknownExtensionType, c))"
    using item_parse [OF i t] by blast
  show ?case
  proof (cases i)
    case (Known x)
    with Cons.prems(2) have "length (acc @ [x]) + length (known_items is) \<le> N" by simp
    from Cons.IH [OF _ this c(1)] Cons.prems(1) obtain d where "took d w b'"
      "ext_vector_loop table N c (acc @ [x]) = ext_vector_loop table N d ((acc @ [x]) @ known_items is)"
      by auto
    moreover have "ext_vector_loop table N b acc = ext_vector_loop table N c (acc @ [x])"
      using c p Known Cons.prems(2) by (subst ext_vector_loop.simps) simp
    ultimately show ?thesis using Known by auto
  next
    case (Unknown code data)
    with Cons.prems(2) have "length acc + length (known_items is) \<le> N" by simp
    from Cons.IH [OF _ this c(1)] Cons.prems(1) obtain d where "took d w b'"
      "ext_vector_loop table N c acc = ext_vector_loop table N d (acc @ known_items is)"
      by auto
    moreover have "ext_vector_loop table N b acc = ext_vector_loop table N c acc"
      using c p Unknown by (subst ext_vector_loop.simps) simp
    ultimately show ?thesis using Unknown by auto
  qed
qed

text \<open>A block is read back as its recognised extensions, in order.\<close>

lemma block_parses:
  assumes "list_all ok_item is" "length (known_items is) \<le> N"
    and len: "length (concat (map wire_of is)) < 65536"
  shows "parses (ext_parse_vector table N) (prefixed16 (concat (map wire_of is))) (known_items is)"
proof -
  let ?w = "concat (map wire_of is)"
  obtain c where c: "took c [] \<lparr>pos = length ?w, buffer = ?w\<rparr>"
    and l: "ext_vector_loop table N (pb_new ?w) [] = ext_vector_loop table N c ([] @ known_items is)"
    using vector_loop_items [OF assms(1), of "[]" N "pb_new ?w" "[]"] assms(2) took_whole by auto
  have "ext_vector_loop table N (pb_new ?w) [] = Ok (known_items is)"
    using l c by (subst (asm) (2) ext_vector_loop.simps) (auto simp: pb_is_empty_def)
  then have "parses (bnd (map_err TlsError_from (pb_slice (length ?w)))
      (\<lambda>d. from_result (ext_vector_loop table N d []))) (?w @ []) (known_items is)"
    by (intro parses_bnd [OF parses_map_err [OF parses_slice]]) (simp_all add: parses_iff)
  then show ?thesis
    unfolding ext_parse_vector_def prefixed16_def
    by (intro parses_bnd [OF parses_map_err [OF parses_u16]]) (use len in simp)
qed

lemma block_roundtrips:
  assumes "list_all dom xs" "length xs \<le> N"
    and "length (concat (map (wire_of \<circ> Known) xs)) < 65536"
  shows "roundtrips (cb_with_u16_length (for_each xs (\<lambda>x. ext_encode (ext_type x) (payload_enc x))))
           (ext_parse_vector table N) xs"
proof (rule roundtripsI)
  let ?w = "concat (map (wire_of \<circ> Known) xs)"
  show "appends (cb_with_u16_length (for_each xs (\<lambda>x. ext_encode (ext_type x) (payload_enc x))))
      (prefixed16 ?w)"
    unfolding comp_def
    by (intro appends_with_u16 appends_for_each ext_appends) (use assms(1) in \<open>auto simp: list_all_iff\<close>)
  have "known_items (map Known xs) = xs" by (induction xs) simp_all
  moreover have "list_all ok_item (map Known xs)"
    using assms(1) by (simp add: list_all_iff item_ok_def)
  ultimately show "parses (ext_parse_vector table N) (prefixed16 ?w) xs"
    using block_parses [of "map Known xs" N] assms(2,3) by simp
qed

text \<open>A recognised type that the group does not admit ends the block with the alert.\<close>

lemma block_rejects:
  assumes "list_all ok_item is" "length (known_items is) \<le> N" "length d < 65536"
    and "table t = None"
    and len: "length (concat (map wire_of is) @ ext_wire (ExtensionType_as_u16 t) d @ rest) < 65536"
    and b: "took b (prefixed16 (concat (map wire_of is) @ ext_wire (ExtensionType_as_u16 t) d @ rest)) b'"
  shows "ext_parse_vector table N b = (Err (AbortHandshake AL_Fatal AD_IllegalParameter), b')"
proof -
  let ?r = "ext_wire (ExtensionType_as_u16 t) d @ rest"
  let ?w = "concat (map wire_of is) @ ?r"
  obtain c where c: "took c ?r \<lparr>pos = length ?w, buffer = ?w\<rparr>"
    and l: "ext_vector_loop table N (pb_new ?w) [] = ext_vector_loop table N c ([] @ known_items is)"
    using vector_loop_items [OF assms(1) _ took_whole, of "[]" N ?r] assms(2) by auto
  from c obtain e where e: "took c (ext_wire (ExtensionType_as_u16 t) d) e" by (auto simp: took_append)
  have "ext_parse table c = (Err (AbortHandshake AL_Fatal AD_IllegalParameter), e)"
    using ext_parse_fields [OF e assms(3), of table] assms(4) ExtensionType_code
    by (simp add: u16_code_def)
  then have v: "ext_vector_loop table N (pb_new ?w) [] = Err (AbortHandshake AL_Fatal AD_IllegalParameter)"
    unfolding l using took_nonempty [OF c] by (subst ext_vector_loop.simps) simp
  from b obtain f where f: "took b (u16_to_be_bytes (of_nat (length ?w))) f" "took f ?w b'"
    unfolding prefixed16_def took_append by blast
  have "pb_read_u16 b = (Ok (of_nat (length ?w)), f)" by (rule parsesD [OF parses_u16 f(1)])
  moreover have "pb_slice (length ?w) f = (Ok (pb_new ?w), b')" by (rule parsesD [OF parses_slice f(2)]) simp
  moreover have "length ?w mod 65536 = length ?w" using len by (rule mod_less)
  ultimately show ?thesis
    using v by (simp add: ext_parse_vector_def bnd_def map_err_def unat_of_nat_u16 del: length_append)
qed

end

text \<open>A group all of whose payload parsers are safe never makes the block parser panic.\<close>

locale safe_ext_group = ext_group +
  assumes payload_safe: "table t = Some p \<Longrightarrow> pb_safe p"
begin

lemma ext_parse_no_panic: "pb_ok b \<Longrightarrow> fst (ext_parse table b) \<noteq> Panic"
proof -
  have 1: "fst (p (pb_new d)) \<noteq> Panic" if "table t = Some p" for t p d
    using payload_safe [OF that] pb_ok_new by (simp add: pb_safe_def)
  have 2: "buffer d = x \<Longrightarrow> pos d = 0 \<Longrightarrow> d = pb_new x" for d :: ParseBuffer and x
    by (simp add: pb_new_def)
  have 3: "ExtensionType_parse b \<noteq> (Panic, c)" for b c
    by (auto simp: ExtensionType_parse_def bnd_def pb_read_u16_value ok_or_def split: option.splits)
  show ?thesis
    unfolding ext_parse_def
    by (auto simp: bnd_def map_err_def pb_read_u16_value pb_slice_value attempt_def 3
        split: prod.splits result.splits option.splits if_splits dest: 1 [unfolded fst_def])
      (metis 1 fst_conv)+
qed

lemma ext_parse_advances: "pb_ok b \<Longrightarrow> ext_parse table b = (r, b') \<Longrightarrow> pb_ok b'"
  unfolding ext_parse_def
  by (auto simp: bnd_def map_err_def pb_read_u16_value pb_slice_value attempt_def pb_ok_def
      ExtensionType_parse_def ok_or_def
      split: prod.splits result.splits option.splits if_splits)

lemma vector_loop_no_panic: "pb_ok b \<Longrightarrow> ext_vector_loop table N b acc \<noteq> Panic"
proof (induction "length (buffer b) - pos b" arbitrary: b acc rule: less_induct)
  case less
  obtain r b' where p: "ext_parse table b = (r, b')" by fastforce
  have r: "r \<noteq> Panic" and b': "pb_ok b'"
    using ext_parse_no_panic [OF less.prems] ext_parse_advances [OF less.prems p] p by auto
  have "length (buffer b') - pos b' < length (buffer b) - pos b" if "r \<noteq> Err DecodeError"
    using ext_parse_consumes [OF p that r] by auto
  then show ?case
    using less.hyps [OF _ b'] p r by (subst ext_vector_loop.simps) (auto split: result.splits)
qed

lemma block_no_panic: "pb_ok b \<Longrightarrow> fst (ext_parse_vector table N b) \<noteq> Panic"
  unfolding ext_parse_vector_def
  by (auto simp: bnd_def map_err_def pb_read_u16_value pb_slice_value vector_loop_no_panic [OF pb_ok_new]
      split: prod.splits result.splits if_splits)

lemma block_safe: "pb_safe (ext_parse_vector table N)"
proof -
  have "pb_advances b (snd (ext_parse_vector table N b))" if "pb_ok b" for b
    using that unfolding ext_parse_vector_def
    by (auto simp: bnd_def map_err_def pb_read_u16_value pb_slice_value pb_advances_def pb_ok_def
        split: prod.splits result.splits if_splits)
  then show ?thesis using block_no_panic by (simp add: pb_safe_def)
qed

end

end
