(* ===== verification/Extension_Messages.thy ===== *)
theory Extension_Messages
  imports Extensions
begin

text \<open>
  The seven extension groups of \<open>src/src/extensions/messages.rs\<close>. Each use of the
  \<open>extension_group!\<close> macro gives a datatype with one constructor per admitted extension, its
  \<open>extension_type\<close>, the \<open>match\<close> of \<open>encode\<close> over the payloads, the \<open>match\<close> of \<open>parse\<close> as a
  table, and \<open>encode\<close>, \<open>parse\<close>, \<open>parse_vector\<close>. Every group interprets \<open>ext_group\<close>. The
  \<open>_dom\<close> predicates name the values that the parser gives back: lists within the capacity of
  their vector, the empty protocol list (ALPN is validated and dropped), and no client
  \<open>pre_shared_key\<close>, whose parser is \<open>unimplemented!()\<close>.
\<close>

section \<open>The groups\<close>

subsection \<open>ClientHelloExtension\<close>

datatype ClientHelloExtension =
    CHE_ServerName ServerNameList
  | CHE_SupportedVersions SupportedVersionsClientHello
  | CHE_SignatureAlgorithms SignatureAlgorithms
  | CHE_SupportedGroups SupportedGroups
  | CHE_KeyShare KeyShareClientHello
  | CHE_PreSharedKey PreSharedKeyClientHello
  | CHE_PskKeyExchangeModes PskKeyExchangeModes
  | CHE_SignatureAlgorithmsCert SignatureAlgorithmsCert
  | CHE_MaxFragmentLength MaxFragmentLength
  | CHE_StatusRequest Unimplemented
  | CHE_UseSrtp Unimplemented
  | CHE_Heartbeat Unimplemented
  | CHE_ApplicationLayerProtocolNegotiation AlpnProtocolNameList
  | CHE_SignedCertificateTimestamp Unimplemented
  | CHE_ClientCertificateType Unimplemented
  | CHE_ServerCertificateType Unimplemented
  | CHE_Padding Unimplemented
  | CHE_EarlyData Unimplemented
  | CHE_Cookie Unimplemented
  | CHE_CertificateAuthorities Unimplemented
  | CHE_OidFilters Unimplemented
  | CHE_PostHandshakeAuth Unimplemented

fun ClientHelloExtension_type :: "ClientHelloExtension \<Rightarrow> ExtensionType" where
  "ClientHelloExtension_type (CHE_ServerName _) = ET_ServerName"
| "ClientHelloExtension_type (CHE_SupportedVersions _) = ET_SupportedVersions"
| "ClientHelloExtension_type (CHE_SignatureAlgorithms _) = ET_SignatureAlgorithms"
| "ClientHelloExtension_type (CHE_SupportedGroups _) = ET_SupportedGroups"
| "ClientHelloExtension_type (CHE_KeyShare _) = ET_KeyShare"
| "ClientHelloExtension_type (CHE_PreSharedKey _) = ET_PreSharedKey"
| "ClientHelloExtension_type (CHE_PskKeyExchangeModes _) = ET_PskKeyExchangeModes"
| "ClientHelloExtension_type (CHE_SignatureAlgorithmsCert _) = ET_SignatureAlgorithmsCert"
| "ClientHelloExtension_type (CHE_MaxFragmentLength _) = ET_MaxFragmentLength"
| "ClientHelloExtension_type (CHE_StatusRequest _) = ET_StatusRequest"
| "ClientHelloExtension_type (CHE_UseSrtp _) = ET_UseSrtp"
| "ClientHelloExtension_type (CHE_Heartbeat _) = ET_Heartbeat"
| "ClientHelloExtension_type (CHE_ApplicationLayerProtocolNegotiation _) = ET_ApplicationLayerProtocolNegotiation"
| "ClientHelloExtension_type (CHE_SignedCertificateTimestamp _) = ET_SignedCertificateTimestamp"
| "ClientHelloExtension_type (CHE_ClientCertificateType _) = ET_ClientCertificateType"
| "ClientHelloExtension_type (CHE_ServerCertificateType _) = ET_ServerCertificateType"
| "ClientHelloExtension_type (CHE_Padding _) = ET_Padding"
| "ClientHelloExtension_type (CHE_EarlyData _) = ET_EarlyData"
| "ClientHelloExtension_type (CHE_Cookie _) = ET_Cookie"
| "ClientHelloExtension_type (CHE_CertificateAuthorities _) = ET_CertificateAuthorities"
| "ClientHelloExtension_type (CHE_OidFilters _) = ET_OidFilters"
| "ClientHelloExtension_type (CHE_PostHandshakeAuth _) = ET_PostHandshakeAuth"

fun ClientHelloExtension_payload_encode :: "ClientHelloExtension \<Rightarrow> unit encoder" where
  "ClientHelloExtension_payload_encode (CHE_ServerName ext_data) = ServerNameList_encode ext_data"
| "ClientHelloExtension_payload_encode (CHE_SupportedVersions ext_data) = SupportedVersionsClientHello_encode ext_data"
| "ClientHelloExtension_payload_encode (CHE_SignatureAlgorithms ext_data) = SignatureAlgorithms_encode ext_data"
| "ClientHelloExtension_payload_encode (CHE_SupportedGroups ext_data) = SupportedGroups_encode ext_data"
| "ClientHelloExtension_payload_encode (CHE_KeyShare ext_data) = KeyShareClientHello_encode ext_data"
| "ClientHelloExtension_payload_encode (CHE_PreSharedKey ext_data) = PreSharedKeyClientHello_encode ext_data"
| "ClientHelloExtension_payload_encode (CHE_PskKeyExchangeModes ext_data) = PskKeyExchangeModes_encode ext_data"
| "ClientHelloExtension_payload_encode (CHE_SignatureAlgorithmsCert ext_data) = SignatureAlgorithmsCert_encode ext_data"
| "ClientHelloExtension_payload_encode (CHE_MaxFragmentLength ext_data) = MaxFragmentLength_encode ext_data"
| "ClientHelloExtension_payload_encode (CHE_StatusRequest ext_data) = Unimplemented_encode ext_data"
| "ClientHelloExtension_payload_encode (CHE_UseSrtp ext_data) = Unimplemented_encode ext_data"
| "ClientHelloExtension_payload_encode (CHE_Heartbeat ext_data) = Unimplemented_encode ext_data"
| "ClientHelloExtension_payload_encode (CHE_ApplicationLayerProtocolNegotiation ext_data) = AlpnProtocolNameList_encode ext_data"
| "ClientHelloExtension_payload_encode (CHE_SignedCertificateTimestamp ext_data) = Unimplemented_encode ext_data"
| "ClientHelloExtension_payload_encode (CHE_ClientCertificateType ext_data) = Unimplemented_encode ext_data"
| "ClientHelloExtension_payload_encode (CHE_ServerCertificateType ext_data) = Unimplemented_encode ext_data"
| "ClientHelloExtension_payload_encode (CHE_Padding ext_data) = Unimplemented_encode ext_data"
| "ClientHelloExtension_payload_encode (CHE_EarlyData ext_data) = Unimplemented_encode ext_data"
| "ClientHelloExtension_payload_encode (CHE_Cookie ext_data) = Unimplemented_encode ext_data"
| "ClientHelloExtension_payload_encode (CHE_CertificateAuthorities ext_data) = Unimplemented_encode ext_data"
| "ClientHelloExtension_payload_encode (CHE_OidFilters ext_data) = Unimplemented_encode ext_data"
| "ClientHelloExtension_payload_encode (CHE_PostHandshakeAuth ext_data) = Unimplemented_encode ext_data"

definition ClientHelloExtension_table :: "ClientHelloExtension ext_table" where
  "ClientHelloExtension_table t = (case t of
       ET_ServerName \<Rightarrow> Some (bnd (ServerNameList_parse 1) (\<lambda>d. ret (CHE_ServerName d)))
     | ET_SupportedVersions \<Rightarrow> Some (bnd (SupportedVersionsClientHello_parse 1) (\<lambda>d. ret (CHE_SupportedVersions d)))
     | ET_SignatureAlgorithms \<Rightarrow> Some (bnd (SignatureAlgorithms_parse 25) (\<lambda>d. ret (CHE_SignatureAlgorithms d)))
     | ET_SupportedGroups \<Rightarrow> Some (bnd (SupportedGroups_parse 13) (\<lambda>d. ret (CHE_SupportedGroups d)))
     | ET_KeyShare \<Rightarrow> Some (bnd (KeyShareClientHello_parse 1) (\<lambda>d. ret (CHE_KeyShare d)))
     | ET_PreSharedKey \<Rightarrow> Some (bnd PreSharedKeyClientHello_parse (\<lambda>d. ret (CHE_PreSharedKey d)))
     | ET_PskKeyExchangeModes \<Rightarrow> Some (bnd (PskKeyExchangeModes_parse 4) (\<lambda>d. ret (CHE_PskKeyExchangeModes d)))
     | ET_SignatureAlgorithmsCert \<Rightarrow> Some (bnd (SignatureAlgorithmsCert_parse 25) (\<lambda>d. ret (CHE_SignatureAlgorithmsCert d)))
     | ET_MaxFragmentLength \<Rightarrow> Some (bnd MaxFragmentLength_parse (\<lambda>d. ret (CHE_MaxFragmentLength d)))
     | ET_StatusRequest \<Rightarrow> Some (bnd Unimplemented_parse (\<lambda>d. ret (CHE_StatusRequest d)))
     | ET_UseSrtp \<Rightarrow> Some (bnd Unimplemented_parse (\<lambda>d. ret (CHE_UseSrtp d)))
     | ET_Heartbeat \<Rightarrow> Some (bnd Unimplemented_parse (\<lambda>d. ret (CHE_Heartbeat d)))
     | ET_ApplicationLayerProtocolNegotiation \<Rightarrow> Some (bnd AlpnProtocolNameList_parse (\<lambda>d. ret (CHE_ApplicationLayerProtocolNegotiation d)))
     | ET_SignedCertificateTimestamp \<Rightarrow> Some (bnd Unimplemented_parse (\<lambda>d. ret (CHE_SignedCertificateTimestamp d)))
     | ET_ClientCertificateType \<Rightarrow> Some (bnd Unimplemented_parse (\<lambda>d. ret (CHE_ClientCertificateType d)))
     | ET_ServerCertificateType \<Rightarrow> Some (bnd Unimplemented_parse (\<lambda>d. ret (CHE_ServerCertificateType d)))
     | ET_Padding \<Rightarrow> Some (bnd Unimplemented_parse (\<lambda>d. ret (CHE_Padding d)))
     | ET_EarlyData \<Rightarrow> Some (bnd Unimplemented_parse (\<lambda>d. ret (CHE_EarlyData d)))
     | ET_Cookie \<Rightarrow> Some (bnd Unimplemented_parse (\<lambda>d. ret (CHE_Cookie d)))
     | ET_CertificateAuthorities \<Rightarrow> Some (bnd Unimplemented_parse (\<lambda>d. ret (CHE_CertificateAuthorities d)))
     | ET_OidFilters \<Rightarrow> Some (bnd Unimplemented_parse (\<lambda>d. ret (CHE_OidFilters d)))
     | ET_PostHandshakeAuth \<Rightarrow> Some (bnd Unimplemented_parse (\<lambda>d. ret (CHE_PostHandshakeAuth d)))
     | _ \<Rightarrow> None)"

definition ClientHelloExtension_encode :: "ClientHelloExtension \<Rightarrow> unit encoder" where
  "ClientHelloExtension_encode x = ext_encode (ClientHelloExtension_type x) (ClientHelloExtension_payload_encode x)"

definition ClientHelloExtension_parse :: "(ParseBuffer, ClientHelloExtension, TlsError) prog" where
  "ClientHelloExtension_parse = ext_parse ClientHelloExtension_table"

definition ClientHelloExtension_parse_vector :: "nat \<Rightarrow> (ParseBuffer, ClientHelloExtension list, TlsError) prog" where
  "ClientHelloExtension_parse_vector = ext_parse_vector ClientHelloExtension_table"

fun ClientHelloExtension_payload :: "ClientHelloExtension \<Rightarrow> bytes" where
  "ClientHelloExtension_payload (CHE_ServerName d) = ServerNameList_wire d"
| "ClientHelloExtension_payload (CHE_SupportedVersions d) = SupportedVersionsClientHello_wire d"
| "ClientHelloExtension_payload (CHE_SignatureAlgorithms d) = SignatureAlgorithms_wire d"
| "ClientHelloExtension_payload (CHE_SupportedGroups d) = SupportedGroups_wire d"
| "ClientHelloExtension_payload (CHE_KeyShare d) = KeyShareClientHello_wire d"
| "ClientHelloExtension_payload (CHE_PreSharedKey d) = PreSharedKeyClientHello_wire d"
| "ClientHelloExtension_payload (CHE_PskKeyExchangeModes d) = PskKeyExchangeModes_wire d"
| "ClientHelloExtension_payload (CHE_SignatureAlgorithmsCert d) = SignatureAlgorithmsCert_wire d"
| "ClientHelloExtension_payload (CHE_MaxFragmentLength d) = MaxFragmentLength_wire d"
| "ClientHelloExtension_payload (CHE_StatusRequest d) = unimplemented_data d"
| "ClientHelloExtension_payload (CHE_UseSrtp d) = unimplemented_data d"
| "ClientHelloExtension_payload (CHE_Heartbeat d) = unimplemented_data d"
| "ClientHelloExtension_payload (CHE_ApplicationLayerProtocolNegotiation d) = AlpnProtocolNameList_wire d"
| "ClientHelloExtension_payload (CHE_SignedCertificateTimestamp d) = unimplemented_data d"
| "ClientHelloExtension_payload (CHE_ClientCertificateType d) = unimplemented_data d"
| "ClientHelloExtension_payload (CHE_ServerCertificateType d) = unimplemented_data d"
| "ClientHelloExtension_payload (CHE_Padding d) = unimplemented_data d"
| "ClientHelloExtension_payload (CHE_EarlyData d) = unimplemented_data d"
| "ClientHelloExtension_payload (CHE_Cookie d) = unimplemented_data d"
| "ClientHelloExtension_payload (CHE_CertificateAuthorities d) = unimplemented_data d"
| "ClientHelloExtension_payload (CHE_OidFilters d) = unimplemented_data d"
| "ClientHelloExtension_payload (CHE_PostHandshakeAuth d) = unimplemented_data d"

fun ClientHelloExtension_dom :: "ClientHelloExtension \<Rightarrow> bool" where
  "ClientHelloExtension_dom (CHE_ServerName d) \<longleftrightarrow> list_all ServerName_dom (names d) \<and> length (names d) \<le> 1"
| "ClientHelloExtension_dom (CHE_SupportedVersions d) \<longleftrightarrow> length (versions d) \<le> 1"
| "ClientHelloExtension_dom (CHE_SignatureAlgorithms d) \<longleftrightarrow> length (supported_signature_algorithms d) \<le> 25"
| "ClientHelloExtension_dom (CHE_SupportedGroups d) \<longleftrightarrow> length (supported_groups d) \<le> 13"
| "ClientHelloExtension_dom (CHE_KeyShare d) \<longleftrightarrow> list_all KeyShareEntry_dom (client_shares d) \<and> length (client_shares d) \<le> 1"
| "ClientHelloExtension_dom (CHE_PreSharedKey d) \<longleftrightarrow> False"
| "ClientHelloExtension_dom (CHE_PskKeyExchangeModes d) \<longleftrightarrow> length (modes d) \<le> 4"
| "ClientHelloExtension_dom (CHE_SignatureAlgorithmsCert d) \<longleftrightarrow> length (supported_signature_algorithms_cert d) \<le> 25"
| "ClientHelloExtension_dom (CHE_MaxFragmentLength d) \<longleftrightarrow> True"
| "ClientHelloExtension_dom (CHE_StatusRequest d) \<longleftrightarrow> True"
| "ClientHelloExtension_dom (CHE_UseSrtp d) \<longleftrightarrow> True"
| "ClientHelloExtension_dom (CHE_Heartbeat d) \<longleftrightarrow> True"
| "ClientHelloExtension_dom (CHE_ApplicationLayerProtocolNegotiation d) \<longleftrightarrow> protocols d = []"
| "ClientHelloExtension_dom (CHE_SignedCertificateTimestamp d) \<longleftrightarrow> True"
| "ClientHelloExtension_dom (CHE_ClientCertificateType d) \<longleftrightarrow> True"
| "ClientHelloExtension_dom (CHE_ServerCertificateType d) \<longleftrightarrow> True"
| "ClientHelloExtension_dom (CHE_Padding d) \<longleftrightarrow> True"
| "ClientHelloExtension_dom (CHE_EarlyData d) \<longleftrightarrow> True"
| "ClientHelloExtension_dom (CHE_Cookie d) \<longleftrightarrow> True"
| "ClientHelloExtension_dom (CHE_CertificateAuthorities d) \<longleftrightarrow> True"
| "ClientHelloExtension_dom (CHE_OidFilters d) \<longleftrightarrow> True"
| "ClientHelloExtension_dom (CHE_PostHandshakeAuth d) \<longleftrightarrow> True"

subsection \<open>ServerHelloExtension\<close>

datatype ServerHelloExtension =
    SHE_KeyShare KeyShareServerHello
  | SHE_PreSharedKey PreSharedKeyServerHello
  | SHE_Cookie Unimplemented
  | SHE_SupportedVersions SupportedVersionsServerHello

fun ServerHelloExtension_type :: "ServerHelloExtension \<Rightarrow> ExtensionType" where
  "ServerHelloExtension_type (SHE_KeyShare _) = ET_KeyShare"
| "ServerHelloExtension_type (SHE_PreSharedKey _) = ET_PreSharedKey"
| "ServerHelloExtension_type (SHE_Cookie _) = ET_Cookie"
| "ServerHelloExtension_type (SHE_SupportedVersions _) = ET_SupportedVersions"

fun ServerHelloExtension_payload_encode :: "ServerHelloExtension \<Rightarrow> unit encoder" where
  "ServerHelloExtension_payload_encode (SHE_KeyShare ext_data) = KeyShareServerHello_encode ext_data"
| "ServerHelloExtension_payload_encode (SHE_PreSharedKey ext_data) = PreSharedKeyServerHello_encode ext_data"
| "ServerHelloExtension_payload_encode (SHE_Cookie ext_data) = Unimplemented_encode ext_data"
| "ServerHelloExtension_payload_encode (SHE_SupportedVersions ext_data) = SupportedVersionsServerHello_encode ext_data"

definition ServerHelloExtension_table :: "ServerHelloExtension ext_table" where
  "ServerHelloExtension_table t = (case t of
       ET_KeyShare \<Rightarrow> Some (bnd KeyShareServerHello_parse (\<lambda>d. ret (SHE_KeyShare d)))
     | ET_PreSharedKey \<Rightarrow> Some (bnd PreSharedKeyServerHello_parse (\<lambda>d. ret (SHE_PreSharedKey d)))
     | ET_Cookie \<Rightarrow> Some (bnd Unimplemented_parse (\<lambda>d. ret (SHE_Cookie d)))
     | ET_SupportedVersions \<Rightarrow> Some (bnd SupportedVersionsServerHello_parse (\<lambda>d. ret (SHE_SupportedVersions d)))
     | _ \<Rightarrow> None)"

definition ServerHelloExtension_encode :: "ServerHelloExtension \<Rightarrow> unit encoder" where
  "ServerHelloExtension_encode x = ext_encode (ServerHelloExtension_type x) (ServerHelloExtension_payload_encode x)"

definition ServerHelloExtension_parse :: "(ParseBuffer, ServerHelloExtension, TlsError) prog" where
  "ServerHelloExtension_parse = ext_parse ServerHelloExtension_table"

definition ServerHelloExtension_parse_vector :: "nat \<Rightarrow> (ParseBuffer, ServerHelloExtension list, TlsError) prog" where
  "ServerHelloExtension_parse_vector = ext_parse_vector ServerHelloExtension_table"

fun ServerHelloExtension_payload :: "ServerHelloExtension \<Rightarrow> bytes" where
  "ServerHelloExtension_payload (SHE_KeyShare d) = KeyShareEntry_wire (server_share d)"
| "ServerHelloExtension_payload (SHE_PreSharedKey d) = u16_to_be_bytes (selected_identity d)"
| "ServerHelloExtension_payload (SHE_Cookie d) = unimplemented_data d"
| "ServerHelloExtension_payload (SHE_SupportedVersions d) = ProtocolVersion_wire (selected_version d)"

fun ServerHelloExtension_dom :: "ServerHelloExtension \<Rightarrow> bool" where
  "ServerHelloExtension_dom (SHE_KeyShare d) \<longleftrightarrow> KeyShareEntry_dom (server_share d)"
| "ServerHelloExtension_dom (SHE_PreSharedKey d) \<longleftrightarrow> True"
| "ServerHelloExtension_dom (SHE_Cookie d) \<longleftrightarrow> True"
| "ServerHelloExtension_dom (SHE_SupportedVersions d) \<longleftrightarrow> True"

subsection \<open>EncryptedExtensionsExtension\<close>

datatype EncryptedExtensionsExtension =
    EEE_ServerName ServerNameResponse
  | EEE_MaxFragmentLength MaxFragmentLength
  | EEE_SupportedGroups SupportedGroups
  | EEE_UseSrtp Unimplemented
  | EEE_Heartbeat Unimplemented
  | EEE_ApplicationLayerProtocolNegotiation AlpnProtocolNameList
  | EEE_ClientCertificateType Unimplemented
  | EEE_ServerCertificateType Unimplemented
  | EEE_EarlyData Unimplemented

fun EncryptedExtensionsExtension_type :: "EncryptedExtensionsExtension \<Rightarrow> ExtensionType" where
  "EncryptedExtensionsExtension_type (EEE_ServerName _) = ET_ServerName"
| "EncryptedExtensionsExtension_type (EEE_MaxFragmentLength _) = ET_MaxFragmentLength"
| "EncryptedExtensionsExtension_type (EEE_SupportedGroups _) = ET_SupportedGroups"
| "EncryptedExtensionsExtension_type (EEE_UseSrtp _) = ET_UseSrtp"
| "EncryptedExtensionsExtension_type (EEE_Heartbeat _) = ET_Heartbeat"
| "EncryptedExtensionsExtension_type (EEE_ApplicationLayerProtocolNegotiation _) = ET_ApplicationLayerProtocolNegotiation"
| "EncryptedExtensionsExtension_type (EEE_ClientCertificateType _) = ET_ClientCertificateType"
| "EncryptedExtensionsExtension_type (EEE_ServerCertificateType _) = ET_ServerCertificateType"
| "EncryptedExtensionsExtension_type (EEE_EarlyData _) = ET_EarlyData"

fun EncryptedExtensionsExtension_payload_encode :: "EncryptedExtensionsExtension \<Rightarrow> unit encoder" where
  "EncryptedExtensionsExtension_payload_encode (EEE_ServerName ext_data) = ServerNameResponse_encode ext_data"
| "EncryptedExtensionsExtension_payload_encode (EEE_MaxFragmentLength ext_data) = MaxFragmentLength_encode ext_data"
| "EncryptedExtensionsExtension_payload_encode (EEE_SupportedGroups ext_data) = SupportedGroups_encode ext_data"
| "EncryptedExtensionsExtension_payload_encode (EEE_UseSrtp ext_data) = Unimplemented_encode ext_data"
| "EncryptedExtensionsExtension_payload_encode (EEE_Heartbeat ext_data) = Unimplemented_encode ext_data"
| "EncryptedExtensionsExtension_payload_encode (EEE_ApplicationLayerProtocolNegotiation ext_data) = AlpnProtocolNameList_encode ext_data"
| "EncryptedExtensionsExtension_payload_encode (EEE_ClientCertificateType ext_data) = Unimplemented_encode ext_data"
| "EncryptedExtensionsExtension_payload_encode (EEE_ServerCertificateType ext_data) = Unimplemented_encode ext_data"
| "EncryptedExtensionsExtension_payload_encode (EEE_EarlyData ext_data) = Unimplemented_encode ext_data"

definition EncryptedExtensionsExtension_table :: "EncryptedExtensionsExtension ext_table" where
  "EncryptedExtensionsExtension_table t = (case t of
       ET_ServerName \<Rightarrow> Some (bnd ServerNameResponse_parse (\<lambda>d. ret (EEE_ServerName d)))
     | ET_MaxFragmentLength \<Rightarrow> Some (bnd MaxFragmentLength_parse (\<lambda>d. ret (EEE_MaxFragmentLength d)))
     | ET_SupportedGroups \<Rightarrow> Some (bnd (SupportedGroups_parse 13) (\<lambda>d. ret (EEE_SupportedGroups d)))
     | ET_UseSrtp \<Rightarrow> Some (bnd Unimplemented_parse (\<lambda>d. ret (EEE_UseSrtp d)))
     | ET_Heartbeat \<Rightarrow> Some (bnd Unimplemented_parse (\<lambda>d. ret (EEE_Heartbeat d)))
     | ET_ApplicationLayerProtocolNegotiation \<Rightarrow> Some (bnd AlpnProtocolNameList_parse (\<lambda>d. ret (EEE_ApplicationLayerProtocolNegotiation d)))
     | ET_ClientCertificateType \<Rightarrow> Some (bnd Unimplemented_parse (\<lambda>d. ret (EEE_ClientCertificateType d)))
     | ET_ServerCertificateType \<Rightarrow> Some (bnd Unimplemented_parse (\<lambda>d. ret (EEE_ServerCertificateType d)))
     | ET_EarlyData \<Rightarrow> Some (bnd Unimplemented_parse (\<lambda>d. ret (EEE_EarlyData d)))
     | _ \<Rightarrow> None)"

definition EncryptedExtensionsExtension_encode :: "EncryptedExtensionsExtension \<Rightarrow> unit encoder" where
  "EncryptedExtensionsExtension_encode x = ext_encode (EncryptedExtensionsExtension_type x) (EncryptedExtensionsExtension_payload_encode x)"

definition EncryptedExtensionsExtension_parse :: "(ParseBuffer, EncryptedExtensionsExtension, TlsError) prog" where
  "EncryptedExtensionsExtension_parse = ext_parse EncryptedExtensionsExtension_table"

definition EncryptedExtensionsExtension_parse_vector :: "nat \<Rightarrow> (ParseBuffer, EncryptedExtensionsExtension list, TlsError) prog" where
  "EncryptedExtensionsExtension_parse_vector = ext_parse_vector EncryptedExtensionsExtension_table"

fun EncryptedExtensionsExtension_payload :: "EncryptedExtensionsExtension \<Rightarrow> bytes" where
  "EncryptedExtensionsExtension_payload (EEE_ServerName d) = []"
| "EncryptedExtensionsExtension_payload (EEE_MaxFragmentLength d) = MaxFragmentLength_wire d"
| "EncryptedExtensionsExtension_payload (EEE_SupportedGroups d) = SupportedGroups_wire d"
| "EncryptedExtensionsExtension_payload (EEE_UseSrtp d) = unimplemented_data d"
| "EncryptedExtensionsExtension_payload (EEE_Heartbeat d) = unimplemented_data d"
| "EncryptedExtensionsExtension_payload (EEE_ApplicationLayerProtocolNegotiation d) = AlpnProtocolNameList_wire d"
| "EncryptedExtensionsExtension_payload (EEE_ClientCertificateType d) = unimplemented_data d"
| "EncryptedExtensionsExtension_payload (EEE_ServerCertificateType d) = unimplemented_data d"
| "EncryptedExtensionsExtension_payload (EEE_EarlyData d) = unimplemented_data d"

fun EncryptedExtensionsExtension_dom :: "EncryptedExtensionsExtension \<Rightarrow> bool" where
  "EncryptedExtensionsExtension_dom (EEE_ServerName d) \<longleftrightarrow> True"
| "EncryptedExtensionsExtension_dom (EEE_MaxFragmentLength d) \<longleftrightarrow> True"
| "EncryptedExtensionsExtension_dom (EEE_SupportedGroups d) \<longleftrightarrow> length (supported_groups d) \<le> 13"
| "EncryptedExtensionsExtension_dom (EEE_UseSrtp d) \<longleftrightarrow> True"
| "EncryptedExtensionsExtension_dom (EEE_Heartbeat d) \<longleftrightarrow> True"
| "EncryptedExtensionsExtension_dom (EEE_ApplicationLayerProtocolNegotiation d) \<longleftrightarrow> protocols d = []"
| "EncryptedExtensionsExtension_dom (EEE_ClientCertificateType d) \<longleftrightarrow> True"
| "EncryptedExtensionsExtension_dom (EEE_ServerCertificateType d) \<longleftrightarrow> True"
| "EncryptedExtensionsExtension_dom (EEE_EarlyData d) \<longleftrightarrow> True"

subsection \<open>CertificateRequestExtension\<close>

datatype CertificateRequestExtension =
    CRE_StatusRequest Unimplemented
  | CRE_SignatureAlgorithms SignatureAlgorithms
  | CRE_SignedCertificateTimestamp Unimplemented
  | CRE_CertificateAuthorities Unimplemented
  | CRE_OidFilters Unimplemented
  | CRE_SignatureAlgorithmsCert Unimplemented
  | CRE_CompressCertificate Unimplemented

fun CertificateRequestExtension_type :: "CertificateRequestExtension \<Rightarrow> ExtensionType" where
  "CertificateRequestExtension_type (CRE_StatusRequest _) = ET_StatusRequest"
| "CertificateRequestExtension_type (CRE_SignatureAlgorithms _) = ET_SignatureAlgorithms"
| "CertificateRequestExtension_type (CRE_SignedCertificateTimestamp _) = ET_SignedCertificateTimestamp"
| "CertificateRequestExtension_type (CRE_CertificateAuthorities _) = ET_CertificateAuthorities"
| "CertificateRequestExtension_type (CRE_OidFilters _) = ET_OidFilters"
| "CertificateRequestExtension_type (CRE_SignatureAlgorithmsCert _) = ET_SignatureAlgorithmsCert"
| "CertificateRequestExtension_type (CRE_CompressCertificate _) = ET_CompressCertificate"

fun CertificateRequestExtension_payload_encode :: "CertificateRequestExtension \<Rightarrow> unit encoder" where
  "CertificateRequestExtension_payload_encode (CRE_StatusRequest ext_data) = Unimplemented_encode ext_data"
| "CertificateRequestExtension_payload_encode (CRE_SignatureAlgorithms ext_data) = SignatureAlgorithms_encode ext_data"
| "CertificateRequestExtension_payload_encode (CRE_SignedCertificateTimestamp ext_data) = Unimplemented_encode ext_data"
| "CertificateRequestExtension_payload_encode (CRE_CertificateAuthorities ext_data) = Unimplemented_encode ext_data"
| "CertificateRequestExtension_payload_encode (CRE_OidFilters ext_data) = Unimplemented_encode ext_data"
| "CertificateRequestExtension_payload_encode (CRE_SignatureAlgorithmsCert ext_data) = Unimplemented_encode ext_data"
| "CertificateRequestExtension_payload_encode (CRE_CompressCertificate ext_data) = Unimplemented_encode ext_data"

definition CertificateRequestExtension_table :: "CertificateRequestExtension ext_table" where
  "CertificateRequestExtension_table t = (case t of
       ET_StatusRequest \<Rightarrow> Some (bnd Unimplemented_parse (\<lambda>d. ret (CRE_StatusRequest d)))
     | ET_SignatureAlgorithms \<Rightarrow> Some (bnd (SignatureAlgorithms_parse 25) (\<lambda>d. ret (CRE_SignatureAlgorithms d)))
     | ET_SignedCertificateTimestamp \<Rightarrow> Some (bnd Unimplemented_parse (\<lambda>d. ret (CRE_SignedCertificateTimestamp d)))
     | ET_CertificateAuthorities \<Rightarrow> Some (bnd Unimplemented_parse (\<lambda>d. ret (CRE_CertificateAuthorities d)))
     | ET_OidFilters \<Rightarrow> Some (bnd Unimplemented_parse (\<lambda>d. ret (CRE_OidFilters d)))
     | ET_SignatureAlgorithmsCert \<Rightarrow> Some (bnd Unimplemented_parse (\<lambda>d. ret (CRE_SignatureAlgorithmsCert d)))
     | ET_CompressCertificate \<Rightarrow> Some (bnd Unimplemented_parse (\<lambda>d. ret (CRE_CompressCertificate d)))
     | _ \<Rightarrow> None)"

definition CertificateRequestExtension_encode :: "CertificateRequestExtension \<Rightarrow> unit encoder" where
  "CertificateRequestExtension_encode x = ext_encode (CertificateRequestExtension_type x) (CertificateRequestExtension_payload_encode x)"

definition CertificateRequestExtension_parse :: "(ParseBuffer, CertificateRequestExtension, TlsError) prog" where
  "CertificateRequestExtension_parse = ext_parse CertificateRequestExtension_table"

definition CertificateRequestExtension_parse_vector :: "nat \<Rightarrow> (ParseBuffer, CertificateRequestExtension list, TlsError) prog" where
  "CertificateRequestExtension_parse_vector = ext_parse_vector CertificateRequestExtension_table"

fun CertificateRequestExtension_payload :: "CertificateRequestExtension \<Rightarrow> bytes" where
  "CertificateRequestExtension_payload (CRE_StatusRequest d) = unimplemented_data d"
| "CertificateRequestExtension_payload (CRE_SignatureAlgorithms d) = SignatureAlgorithms_wire d"
| "CertificateRequestExtension_payload (CRE_SignedCertificateTimestamp d) = unimplemented_data d"
| "CertificateRequestExtension_payload (CRE_CertificateAuthorities d) = unimplemented_data d"
| "CertificateRequestExtension_payload (CRE_OidFilters d) = unimplemented_data d"
| "CertificateRequestExtension_payload (CRE_SignatureAlgorithmsCert d) = unimplemented_data d"
| "CertificateRequestExtension_payload (CRE_CompressCertificate d) = unimplemented_data d"

fun CertificateRequestExtension_dom :: "CertificateRequestExtension \<Rightarrow> bool" where
  "CertificateRequestExtension_dom (CRE_StatusRequest d) \<longleftrightarrow> True"
| "CertificateRequestExtension_dom (CRE_SignatureAlgorithms d) \<longleftrightarrow> length (supported_signature_algorithms d) \<le> 25"
| "CertificateRequestExtension_dom (CRE_SignedCertificateTimestamp d) \<longleftrightarrow> True"
| "CertificateRequestExtension_dom (CRE_CertificateAuthorities d) \<longleftrightarrow> True"
| "CertificateRequestExtension_dom (CRE_OidFilters d) \<longleftrightarrow> True"
| "CertificateRequestExtension_dom (CRE_SignatureAlgorithmsCert d) \<longleftrightarrow> True"
| "CertificateRequestExtension_dom (CRE_CompressCertificate d) \<longleftrightarrow> True"

subsection \<open>CertificateExtension\<close>

datatype CertificateExtension =
    CEE_StatusRequest Unimplemented
  | CEE_SignedCertificateTimestamp Unimplemented

fun CertificateExtension_type :: "CertificateExtension \<Rightarrow> ExtensionType" where
  "CertificateExtension_type (CEE_StatusRequest _) = ET_StatusRequest"
| "CertificateExtension_type (CEE_SignedCertificateTimestamp _) = ET_SignedCertificateTimestamp"

fun CertificateExtension_payload_encode :: "CertificateExtension \<Rightarrow> unit encoder" where
  "CertificateExtension_payload_encode (CEE_StatusRequest ext_data) = Unimplemented_encode ext_data"
| "CertificateExtension_payload_encode (CEE_SignedCertificateTimestamp ext_data) = Unimplemented_encode ext_data"

definition CertificateExtension_table :: "CertificateExtension ext_table" where
  "CertificateExtension_table t = (case t of
       ET_StatusRequest \<Rightarrow> Some (bnd Unimplemented_parse (\<lambda>d. ret (CEE_StatusRequest d)))
     | ET_SignedCertificateTimestamp \<Rightarrow> Some (bnd Unimplemented_parse (\<lambda>d. ret (CEE_SignedCertificateTimestamp d)))
     | _ \<Rightarrow> None)"

definition CertificateExtension_encode :: "CertificateExtension \<Rightarrow> unit encoder" where
  "CertificateExtension_encode x = ext_encode (CertificateExtension_type x) (CertificateExtension_payload_encode x)"

definition CertificateExtension_parse :: "(ParseBuffer, CertificateExtension, TlsError) prog" where
  "CertificateExtension_parse = ext_parse CertificateExtension_table"

definition CertificateExtension_parse_vector :: "nat \<Rightarrow> (ParseBuffer, CertificateExtension list, TlsError) prog" where
  "CertificateExtension_parse_vector = ext_parse_vector CertificateExtension_table"

fun CertificateExtension_payload :: "CertificateExtension \<Rightarrow> bytes" where
  "CertificateExtension_payload (CEE_StatusRequest d) = unimplemented_data d"
| "CertificateExtension_payload (CEE_SignedCertificateTimestamp d) = unimplemented_data d"

fun CertificateExtension_dom :: "CertificateExtension \<Rightarrow> bool" where
  "CertificateExtension_dom (CEE_StatusRequest d) \<longleftrightarrow> True"
| "CertificateExtension_dom (CEE_SignedCertificateTimestamp d) \<longleftrightarrow> True"

subsection \<open>NewSessionTicketExtension\<close>

datatype NewSessionTicketExtension =
    NSE_EarlyData Unimplemented

fun NewSessionTicketExtension_type :: "NewSessionTicketExtension \<Rightarrow> ExtensionType" where
  "NewSessionTicketExtension_type (NSE_EarlyData _) = ET_EarlyData"

fun NewSessionTicketExtension_payload_encode :: "NewSessionTicketExtension \<Rightarrow> unit encoder" where
  "NewSessionTicketExtension_payload_encode (NSE_EarlyData ext_data) = Unimplemented_encode ext_data"

definition NewSessionTicketExtension_table :: "NewSessionTicketExtension ext_table" where
  "NewSessionTicketExtension_table t = (case t of
       ET_EarlyData \<Rightarrow> Some (bnd Unimplemented_parse (\<lambda>d. ret (NSE_EarlyData d)))
     | _ \<Rightarrow> None)"

definition NewSessionTicketExtension_encode :: "NewSessionTicketExtension \<Rightarrow> unit encoder" where
  "NewSessionTicketExtension_encode x = ext_encode (NewSessionTicketExtension_type x) (NewSessionTicketExtension_payload_encode x)"

definition NewSessionTicketExtension_parse :: "(ParseBuffer, NewSessionTicketExtension, TlsError) prog" where
  "NewSessionTicketExtension_parse = ext_parse NewSessionTicketExtension_table"

definition NewSessionTicketExtension_parse_vector :: "nat \<Rightarrow> (ParseBuffer, NewSessionTicketExtension list, TlsError) prog" where
  "NewSessionTicketExtension_parse_vector = ext_parse_vector NewSessionTicketExtension_table"

fun NewSessionTicketExtension_payload :: "NewSessionTicketExtension \<Rightarrow> bytes" where
  "NewSessionTicketExtension_payload (NSE_EarlyData d) = unimplemented_data d"

fun NewSessionTicketExtension_dom :: "NewSessionTicketExtension \<Rightarrow> bool" where
  "NewSessionTicketExtension_dom (NSE_EarlyData d) \<longleftrightarrow> True"

subsection \<open>HelloRetryRequestExtension\<close>

datatype HelloRetryRequestExtension =
    HRE_KeyShare Unimplemented
  | HRE_Cookie Unimplemented
  | HRE_SupportedVersions Unimplemented

fun HelloRetryRequestExtension_type :: "HelloRetryRequestExtension \<Rightarrow> ExtensionType" where
  "HelloRetryRequestExtension_type (HRE_KeyShare _) = ET_KeyShare"
| "HelloRetryRequestExtension_type (HRE_Cookie _) = ET_Cookie"
| "HelloRetryRequestExtension_type (HRE_SupportedVersions _) = ET_SupportedVersions"

fun HelloRetryRequestExtension_payload_encode :: "HelloRetryRequestExtension \<Rightarrow> unit encoder" where
  "HelloRetryRequestExtension_payload_encode (HRE_KeyShare ext_data) = Unimplemented_encode ext_data"
| "HelloRetryRequestExtension_payload_encode (HRE_Cookie ext_data) = Unimplemented_encode ext_data"
| "HelloRetryRequestExtension_payload_encode (HRE_SupportedVersions ext_data) = Unimplemented_encode ext_data"

definition HelloRetryRequestExtension_table :: "HelloRetryRequestExtension ext_table" where
  "HelloRetryRequestExtension_table t = (case t of
       ET_KeyShare \<Rightarrow> Some (bnd Unimplemented_parse (\<lambda>d. ret (HRE_KeyShare d)))
     | ET_Cookie \<Rightarrow> Some (bnd Unimplemented_parse (\<lambda>d. ret (HRE_Cookie d)))
     | ET_SupportedVersions \<Rightarrow> Some (bnd Unimplemented_parse (\<lambda>d. ret (HRE_SupportedVersions d)))
     | _ \<Rightarrow> None)"

definition HelloRetryRequestExtension_encode :: "HelloRetryRequestExtension \<Rightarrow> unit encoder" where
  "HelloRetryRequestExtension_encode x = ext_encode (HelloRetryRequestExtension_type x) (HelloRetryRequestExtension_payload_encode x)"

definition HelloRetryRequestExtension_parse :: "(ParseBuffer, HelloRetryRequestExtension, TlsError) prog" where
  "HelloRetryRequestExtension_parse = ext_parse HelloRetryRequestExtension_table"

definition HelloRetryRequestExtension_parse_vector :: "nat \<Rightarrow> (ParseBuffer, HelloRetryRequestExtension list, TlsError) prog" where
  "HelloRetryRequestExtension_parse_vector = ext_parse_vector HelloRetryRequestExtension_table"

fun HelloRetryRequestExtension_payload :: "HelloRetryRequestExtension \<Rightarrow> bytes" where
  "HelloRetryRequestExtension_payload (HRE_KeyShare d) = unimplemented_data d"
| "HelloRetryRequestExtension_payload (HRE_Cookie d) = unimplemented_data d"
| "HelloRetryRequestExtension_payload (HRE_SupportedVersions d) = unimplemented_data d"

fun HelloRetryRequestExtension_dom :: "HelloRetryRequestExtension \<Rightarrow> bool" where
  "HelloRetryRequestExtension_dom (HRE_KeyShare d) \<longleftrightarrow> True"
| "HelloRetryRequestExtension_dom (HRE_Cookie d) \<longleftrightarrow> True"
| "HelloRetryRequestExtension_dom (HRE_SupportedVersions d) \<longleftrightarrow> True"

section \<open>The groups meet the contract\<close>

lemma fst_wrap: "parses p w d \<Longrightarrow> fst (bnd p (\<lambda>d. ret (c d)) (pb_new w)) = Ok (c d)"
  using parsesD [of p w d, OF _ took_whole [of w]] by (simp add: bnd_def)

lemma small_u8_lists:
  "length (versions d) \<le> 1 \<Longrightarrow> length (SupportedVersionsClientHello_wire d) < 256"
  "length (modes e) \<le> 4 \<Longrightarrow> length (PskKeyExchangeModes_wire e) < 256"
  by (simp_all add: SupportedVersionsClientHello_wire_def PskKeyExchangeModes_wire_def
      ProtocolVersion_wire_def PskKeyExchangeMode_wire_def length_concat comp_def sum_list_triv)

lemma payload_server_appends [codec_intros]:
  "appends (KeyShareServerHello_encode k) (KeyShareEntry_wire (server_share k))"
  "appends (PreSharedKeyServerHello_encode s) (u16_to_be_bytes (selected_identity s))"
  "appends (SupportedVersionsServerHello_encode v) (ProtocolVersion_wire (selected_version v))"
  "appends (ServerNameResponse_encode r) []"
  unfolding KeyShareServerHello_encode_def PreSharedKeyServerHello_encode_def
    SupportedVersionsServerHello_encode_def ServerNameResponse_encode_def
  by (intro codec_intros; simp)+

lemma payload_server_parses:
  "KeyShareEntry_dom (server_share k) \<Longrightarrow>
     parses KeyShareServerHello_parse (KeyShareEntry_wire (server_share k)) k"
  "parses PreSharedKeyServerHello_parse (u16_to_be_bytes (selected_identity s)) s"
  "parses SupportedVersionsServerHello_parse (ProtocolVersion_wire (selected_version v)) v"
  unfolding KeyShareServerHello_parse_def PreSharedKeyServerHello_parse_def
    SupportedVersionsServerHello_parse_def
  by (auto intro!: parses_wrap key_share_entry.par_complete protocol_version.par_complete parses_u16)

lemma fst_Unimplemented [simp]:
  "fst (bnd Unimplemented_parse (\<lambda>d. ret (c d)) (pb_new (unimplemented_data d))) = Ok (c d)"
  by (simp add: Unimplemented_parse_def bnd_def pb_as_slice_def pb_new_def)

lemma fst_ServerNameResponse [simp]:
  "fst (bnd ServerNameResponse_parse (\<lambda>d. ret (c d)) (pb_new [])) = Ok (c d)"
  by (cases d) (simp add: ServerNameResponse_parse_def bnd_def pb_is_empty_def pb_new_def)

lemma fst_Alpn:
  "protocols d = [] \<Longrightarrow>
     fst (bnd AlpnProtocolNameList_parse (\<lambda>d. ret (c d)) (pb_new (AlpnProtocolNameList_wire d))) = Ok (c d)"
  using fst_wrap [OF AlpnProtocolNameList_parses, of d c]
  by (cases d) (simp add: AlpnProtocolNameList_wire_def)

lemmas payload_reads = fst_wrap [OF ServerNameList_parses] fst_wrap [OF SupportedVersionsClientHello_parses]
  fst_wrap [OF SignatureAlgorithms_parses] fst_wrap [OF SupportedGroups_parses]
  fst_wrap [OF KeyShareClientHello_parses] fst_wrap [OF PskKeyExchangeModes_parses]
  fst_wrap [OF SignatureAlgorithmsCert_parses] fst_wrap [OF max_fragment_length_codec.par_complete]
  fst_wrap [OF payload_server_parses(1)] fst_wrap [OF payload_server_parses(2)]
  fst_wrap [OF payload_server_parses(3)] fst_Alpn small_u8_lists

interpretation client_hello_ext: ext_group ClientHelloExtension_table ClientHelloExtension_type ClientHelloExtension_payload_encode
  ClientHelloExtension_payload "\<lambda>x. ClientHelloExtension_dom x \<and> length (ClientHelloExtension_payload x) < 65536"
proof (unfold_locales, goal_cases)
  case (1 x)
  show ?case by (cases x) (simp_all add: codec_intros)
next
  case (2 x)
  then show ?case by (cases x) (simp_all add: ClientHelloExtension_table_def payload_reads)
next
  case (3 x)
  then show ?case by simp
qed

interpretation server_hello_ext: safe_ext_group ServerHelloExtension_table ServerHelloExtension_type ServerHelloExtension_payload_encode
  ServerHelloExtension_payload "\<lambda>x. ServerHelloExtension_dom x \<and> length (ServerHelloExtension_payload x) < 65536"
proof (unfold_locales, goal_cases)
  case (1 x)
  show ?case by (cases x) (simp_all add: codec_intros)
next
  case (2 x)
  then show ?case by (cases x) (simp_all add: ServerHelloExtension_table_def payload_reads)
next
  case (3 x)
  then show ?case by simp
next
  case (4 t p)
  then show ?case by (auto simp: ServerHelloExtension_table_def split: ExtensionType.splits intro!: safe_intros)
qed

interpretation encrypted_ext: safe_ext_group EncryptedExtensionsExtension_table EncryptedExtensionsExtension_type EncryptedExtensionsExtension_payload_encode
  EncryptedExtensionsExtension_payload "\<lambda>x. EncryptedExtensionsExtension_dom x \<and> length (EncryptedExtensionsExtension_payload x) < 65536"
proof (unfold_locales, goal_cases)
  case (1 x)
  show ?case by (cases x) (simp_all add: codec_intros)
next
  case (2 x)
  then show ?case by (cases x) (simp_all add: EncryptedExtensionsExtension_table_def payload_reads)
next
  case (3 x)
  then show ?case by simp
next
  case (4 t p)
  then show ?case by (auto simp: EncryptedExtensionsExtension_table_def split: ExtensionType.splits intro!: safe_intros)
qed

interpretation certificate_request_ext: safe_ext_group CertificateRequestExtension_table CertificateRequestExtension_type CertificateRequestExtension_payload_encode
  CertificateRequestExtension_payload "\<lambda>x. CertificateRequestExtension_dom x \<and> length (CertificateRequestExtension_payload x) < 65536"
proof (unfold_locales, goal_cases)
  case (1 x)
  show ?case by (cases x) (simp_all add: codec_intros)
next
  case (2 x)
  then show ?case by (cases x) (simp_all add: CertificateRequestExtension_table_def payload_reads)
next
  case (3 x)
  then show ?case by simp
next
  case (4 t p)
  then show ?case by (auto simp: CertificateRequestExtension_table_def split: ExtensionType.splits intro!: safe_intros)
qed

interpretation certificate_ext: safe_ext_group CertificateExtension_table CertificateExtension_type CertificateExtension_payload_encode
  CertificateExtension_payload "\<lambda>x. CertificateExtension_dom x \<and> length (CertificateExtension_payload x) < 65536"
proof (unfold_locales, goal_cases)
  case (1 x)
  show ?case by (cases x) (simp_all add: codec_intros)
next
  case (2 x)
  then show ?case by (cases x) (simp_all add: CertificateExtension_table_def payload_reads)
next
  case (3 x)
  then show ?case by simp
next
  case (4 t p)
  then show ?case by (auto simp: CertificateExtension_table_def split: ExtensionType.splits intro!: safe_intros)
qed

interpretation new_session_ticket_ext: safe_ext_group NewSessionTicketExtension_table NewSessionTicketExtension_type NewSessionTicketExtension_payload_encode
  NewSessionTicketExtension_payload "\<lambda>x. NewSessionTicketExtension_dom x \<and> length (NewSessionTicketExtension_payload x) < 65536"
proof (unfold_locales, goal_cases)
  case (1 x)
  show ?case by (cases x) (simp_all add: codec_intros)
next
  case (2 x)
  then show ?case by (cases x) (simp_all add: NewSessionTicketExtension_table_def payload_reads)
next
  case (3 x)
  then show ?case by simp
next
  case (4 t p)
  then show ?case by (auto simp: NewSessionTicketExtension_table_def split: ExtensionType.splits intro!: safe_intros)
qed

interpretation hello_retry_ext: safe_ext_group HelloRetryRequestExtension_table HelloRetryRequestExtension_type HelloRetryRequestExtension_payload_encode
  HelloRetryRequestExtension_payload "\<lambda>x. HelloRetryRequestExtension_dom x \<and> length (HelloRetryRequestExtension_payload x) < 65536"
proof (unfold_locales, goal_cases)
  case (1 x)
  show ?case by (cases x) (simp_all add: codec_intros)
next
  case (2 x)
  then show ?case by (cases x) (simp_all add: HelloRetryRequestExtension_table_def payload_reads)
next
  case (3 x)
  then show ?case by simp
next
  case (4 t p)
  then show ?case by (auto simp: HelloRetryRequestExtension_table_def split: ExtensionType.splits intro!: safe_intros)
qed

lemmas server_blocks_safe [safe_intros] =
  server_hello_ext.block_safe [folded ServerHelloExtension_parse_vector_def]
  encrypted_ext.block_safe [folded EncryptedExtensionsExtension_parse_vector_def]
  certificate_request_ext.block_safe [folded CertificateRequestExtension_parse_vector_def]
  certificate_ext.block_safe [folded CertificateExtension_parse_vector_def]
  new_session_ticket_ext.block_safe [folded NewSessionTicketExtension_parse_vector_def]

text \<open>Every ClientHello extension, \<open>pre_shared_key\<close> included, is written as type, length and
  payload.\<close>

definition ClientHelloExtension_wire :: "ClientHelloExtension \<Rightarrow> bytes" where
  "ClientHelloExtension_wire x =
     ext_wire (ExtensionType_as_u16 (ClientHelloExtension_type x)) (ClientHelloExtension_payload x)"

lemma ClientHelloExtension_appends [codec_intros]:
  "appends (ClientHelloExtension_encode x) (ClientHelloExtension_wire x)"
proof -
  have "appends (ClientHelloExtension_payload_encode x) (ClientHelloExtension_payload x)"
    by (cases x) (simp_all add: codec_intros)
  then show ?thesis
    unfolding ClientHelloExtension_encode_def ext_encode_def ClientHelloExtension_wire_def ext_wire_def
      ExtensionType_wire_def [symmetric]
    by (intro appends_seq appends_with_u16 extension_type.enc_appends TrueI)
qed

section \<open>Properties\<close>

text \<open>The extension block of a ServerHello, with extensions of the group and unrecognised types
  in any order: \<open>parse_vector\<close> returns exactly the recognised ones, in order, and stops
  right behind the block.\<close>

theorem server_hello_extensions_read:
  assumes "list_all (item_ok (\<lambda>x. ServerHelloExtension_dom x \<and> length (ServerHelloExtension_payload x) < 65536)) is"
    and "length (known_items is) \<le> N"
    and "length (concat (map (item_wire ServerHelloExtension_type ServerHelloExtension_payload) is)) < 65536"
  shows "parses (ServerHelloExtension_parse_vector N)
    (prefixed16 (concat (map (item_wire ServerHelloExtension_type ServerHelloExtension_payload) is)))
    (known_items is)"
  unfolding ServerHelloExtension_parse_vector_def by (rule server_hello_ext.block_parses [OF assms])

theorem server_hello_extensions_read_witness:
  "parses (ServerHelloExtension_parse_vector 4)
     (prefixed16 ([0x12, 0x34, 0, 2, 7, 8] @ [0, 43, 0, 2, 3, 4]))
     [SHE_SupportedVersions (SupportedVersionsServerHello TLS13)]"
proof -
  let ?is = "[Unknown 0x1234 [7, 8], Known (SHE_SupportedVersions (SupportedVersionsServerHello TLS13))]"
  have "concat (map (item_wire ServerHelloExtension_type ServerHelloExtension_payload) ?is) =
      [0x12, 0x34, 0, 2, 7, 8] @ [0, 43, 0, 2, 3, 4]"
    by code_simp
  then show ?thesis
    using server_hello_extensions_read [of ?is 4]
    by (simp add: item_ok_def ExtensionType_of_u16_def ProtocolVersion_wire_def)
qed

text \<open>A ClientHello extension block written by \<open>encode\<close> under a 16-bit length is read back
  unchanged by \<open>parse_vector\<close>; encoding fails only when the buffer is too small.\<close>

theorem client_hello_extensions_roundtrip:
  assumes "list_all ClientHelloExtension_dom xs" and "length xs \<le> N"
    and "length (concat (map (item_wire ClientHelloExtension_type ClientHelloExtension_payload \<circ> Known) xs)) < 65536"
    and "list_all (\<lambda>x. length (ClientHelloExtension_payload x) < 65536) xs"
  shows "roundtrips (cb_with_u16_length (for_each xs ClientHelloExtension_encode))
    (ClientHelloExtension_parse_vector N) xs"
proof -
  have "ClientHelloExtension_encode =
      (\<lambda>x. ext_encode (ClientHelloExtension_type x) (ClientHelloExtension_payload_encode x))"
    by (simp add: fun_eq_iff ClientHelloExtension_encode_def)
  then show ?thesis
    unfolding ClientHelloExtension_parse_vector_def
    using client_hello_ext.block_roundtrips [of xs N] assms by (simp add: list_all_iff)
qed

theorem client_hello_extensions_roundtrip_witness:
  "roundtrips (cb_with_u16_length (for_each
       [CHE_SupportedVersions (SupportedVersionsClientHello [TLS13]),
        CHE_SupportedGroups (SupportedGroups [NG_Secp256r1])] ClientHelloExtension_encode))
     (ClientHelloExtension_parse_vector 2)
     [CHE_SupportedVersions (SupportedVersionsClientHello [TLS13]),
      CHE_SupportedGroups (SupportedGroups [NG_Secp256r1])]"
  by (rule client_hello_extensions_roundtrip)
    (simp_all add: item_wire_def ext_wire_def SupportedVersionsClientHello_wire_def
      ProtocolVersion_wire_def SupportedGroups_wire_def NamedGroup_wire_def)

text \<open>An extension that the library knows but that EncryptedExtensions may not carry aborts the
  handshake with a fatal \<open>illegal_parameter\<close>, whatever precedes it in the block and whatever
  follows.\<close>

theorem encrypted_extensions_reject:
  assumes "list_all (item_ok (\<lambda>x. EncryptedExtensionsExtension_dom x \<and>
        length (EncryptedExtensionsExtension_payload x) < 65536)) is"
    and "length (known_items is) \<le> N" and "length d < 65536"
    and "EncryptedExtensionsExtension_table t = None"
    and "length (concat (map (item_wire EncryptedExtensionsExtension_type EncryptedExtensionsExtension_payload) is)
        @ ext_wire (ExtensionType_as_u16 t) d @ rest) < 65536"
    and "took b (prefixed16 (concat (map (item_wire EncryptedExtensionsExtension_type EncryptedExtensionsExtension_payload) is)
        @ ext_wire (ExtensionType_as_u16 t) d @ rest)) b'"
  shows "EncryptedExtensionsExtension_parse_vector N b =
    (Err (AbortHandshake AL_Fatal AD_IllegalParameter), b')"
  unfolding EncryptedExtensionsExtension_parse_vector_def by (rule encrypted_ext.block_rejects [OF assms])

theorem encrypted_extensions_reject_witness:
  "EncryptedExtensionsExtension_parse_vector 16 \<lparr>pos = 1, buffer = [9, 0, 9, 0, 0, 0, 0, 0, 51, 0, 1, 5]\<rparr> =
    (Err (AbortHandshake AL_Fatal AD_IllegalParameter), \<lparr>pos = 12, buffer = [9, 0, 9, 0, 0, 0, 0, 0, 51, 0, 1, 5]\<rparr>)"
  by (rule encrypted_extensions_reject [of "[Known (EEE_ServerName ServerNameResponse)]" 16 "[5]"
        ET_KeyShare "[]"])
    (simp_all add: item_ok_def item_wire_def ext_wire_def took_def prefixed16_def u16_to_be_bytes_def
      pb_ok_def EncryptedExtensionsExtension_table_def)

text \<open>C33. No byte sequence a server sends as the extension block of ServerHello, HelloRetryRequest,
  EncryptedExtensions, CertificateRequest, Certificate or NewSessionTicket makes the parser
  panic: every index and slice of the cursor that the parsers take, which would panic out of range, is behind a check
  that covers it.\<close>

theorem server_extension_blocks_no_panic:
  assumes "pb_ok b"
  shows "fst (ServerHelloExtension_parse_vector N b) \<noteq> Panic \<and>
    fst (HelloRetryRequestExtension_parse_vector N b) \<noteq> Panic \<and>
    fst (EncryptedExtensionsExtension_parse_vector N b) \<noteq> Panic \<and>
    fst (CertificateRequestExtension_parse_vector N b) \<noteq> Panic \<and>
    fst (CertificateExtension_parse_vector N b) \<noteq> Panic \<and>
    fst (NewSessionTicketExtension_parse_vector N b) \<noteq> Panic"
  unfolding ServerHelloExtension_parse_vector_def HelloRetryRequestExtension_parse_vector_def
    EncryptedExtensionsExtension_parse_vector_def CertificateRequestExtension_parse_vector_def
    CertificateExtension_parse_vector_def NewSessionTicketExtension_parse_vector_def
  by (intro conjI server_hello_ext.block_no_panic hello_retry_ext.block_no_panic
      encrypted_ext.block_no_panic certificate_request_ext.block_no_panic
      certificate_ext.block_no_panic new_session_ticket_ext.block_no_panic assms)

theorem server_extension_blocks_no_panic_witness:
  "fst (ServerHelloExtension_parse_vector 4 (pb_new [0, 6, 0, 51, 0, 2, 0, 23])) \<noteq> Panic \<and>
   ServerHelloExtension_parse_vector 4 (pb_new [0, 6, 0, 51, 0, 2, 0, 23]) =
     (Err DecodeError, \<lparr>pos = 8, buffer = [0, 6, 0, 51, 0, 2, 0, 23]\<rparr>)"
  using server_extension_blocks_no_panic [of "pb_new [0, 6, 0, 51, 0, 2, 0, 23]" 4]
  by (simp add: pb_ok_new) code_simp

end
