(* ===== verification/Config.thy ===== *)
theory Config
  imports Extension_Data
begin

text \<open>
  Configuration: the cipher suite codes of \<open>src/src/cipher_suites.rs\<close>, \<open>TlsConfig\<close> and
  \<open>Certificate\<close> of \<open>src/src/config.rs\<close>, and the flush policy of \<open>src/src/flush_policy.rs\<close>.
  The \<open>alloc\<close> feature is an argument of \<open>TlsConfig::new\<close>.
\<close>

section \<open>Cipher suites (cipher\_suites.rs)\<close>

datatype CipherSuite =
    CS_TlsAes128GcmSha256
  | CS_TlsAes256GcmSha384
  | CS_TlsChacha20Poly1305Sha256
  | CS_TlsAes128CcmSha256
  | CS_TlsAes128Ccm8Sha256
  | CS_TlsPskAes128GcmSha256

fun CipherSuite_as_u16 :: "CipherSuite \<Rightarrow> u16" where
  "CipherSuite_as_u16 CS_TlsAes128GcmSha256 = 0x1301"
| "CipherSuite_as_u16 CS_TlsAes256GcmSha384 = 0x1302"
| "CipherSuite_as_u16 CS_TlsChacha20Poly1305Sha256 = 0x1303"
| "CipherSuite_as_u16 CS_TlsAes128CcmSha256 = 0x1304"
| "CipherSuite_as_u16 CS_TlsAes128Ccm8Sha256 = 0x1305"
| "CipherSuite_as_u16 CS_TlsPskAes128GcmSha256 = 0x00A8"

definition CipherSuite_of_u16 :: "u16 \<Rightarrow> CipherSuite option" where
  "CipherSuite_of_u16 v =
    (if v = 0x1301 then Some CS_TlsAes128GcmSha256
     else if v = 0x1302 then Some CS_TlsAes256GcmSha384
     else if v = 0x1303 then Some CS_TlsChacha20Poly1305Sha256
     else if v = 0x1304 then Some CS_TlsAes128CcmSha256
     else if v = 0x1305 then Some CS_TlsAes128Ccm8Sha256
     else if v = 0x00A8 then Some CS_TlsPskAes128GcmSha256
     else None)"

definition CipherSuite_parse :: "(ParseBuffer, CipherSuite, ParseError) prog" where
  "CipherSuite_parse = bnd pb_read_u16 (\<lambda>v. ok_or PE_InvalidData (CipherSuite_of_u16 v))"

lemma CipherSuite_code: "u16_code CipherSuite_as_u16 CipherSuite_of_u16"
proof
  show "CipherSuite_of_u16 (CipherSuite_as_u16 x) = Some x" for x
    by (cases x) (simp_all add: CipherSuite_of_u16_def)
  show "CipherSuite_of_u16 v = Some x \<Longrightarrow> CipherSuite_as_u16 x = v" for v x
    by (auto simp: CipherSuite_of_u16_def split: if_splits)
qed

interpretation cipher_suite_code: u16_code CipherSuite_as_u16 CipherSuite_of_u16
  by (rule CipherSuite_code)

section \<open>Flush policy (flush\_policy.rs)\<close>

datatype FlushPolicy = Relaxed | Strict

definition FlushPolicy_flush_transport :: "FlushPolicy \<Rightarrow> bool" where
  "FlushPolicy_flush_transport p \<longleftrightarrow> p = Strict"

definition FlushPolicy_default :: FlushPolicy where
  "FlushPolicy_default = Strict"

section \<open>Client configuration (config.rs)\<close>

datatype Certificate = Cert_X509 bytes | Cert_RawPublicKey bytes

definition TLS_RECORD_OVERHEAD :: nat where
  "TLS_RECORD_OVERHEAD = 128"

record TlsConfig =
  cfg_server_name :: "bytes option"
  cfg_alpn_protocols :: "bytes list option"
  cfg_psk :: "(bytes \<times> bytes list) option"
  cfg_signature_schemes :: "SignatureScheme list"
  cfg_named_groups :: "NamedGroup list"
  cfg_max_fragment_length :: "MaxFragmentLength option"

text \<open>\<open>unwrap!(config.signature_schemes.push(s).ok())\<close> on the vector of capacity 25, and the
  push on the vector of 13 groups.\<close>

definition cfg_push_scheme :: "SignatureScheme \<Rightarrow> (TlsConfig, unit, TlsError) prog" where
  "cfg_push_scheme s = (\<lambda>c. case vec_push 25 (cfg_signature_schemes c) s of
     Some xs \<Rightarrow> (Ok (), c\<lparr>cfg_signature_schemes := xs\<rparr>) | None \<Rightarrow> (Panic, c))"

definition cfg_push_group :: "NamedGroup \<Rightarrow> (TlsConfig, unit, TlsError) prog" where
  "cfg_push_group g = (\<lambda>c. case vec_push 13 (cfg_named_groups c) g of
     Some xs \<Rightarrow> (Ok (), c\<lparr>cfg_named_groups := xs\<rparr>) | None \<Rightarrow> (Panic, c))"

definition TlsConfig_enable_rsa_signatures :: "(TlsConfig, unit, TlsError) prog" where
  "TlsConfig_enable_rsa_signatures =
     seq (cfg_push_scheme SS_RsaPkcs1Sha256) (
     seq (cfg_push_scheme SS_RsaPkcs1Sha384) (
     seq (cfg_push_scheme SS_RsaPkcs1Sha512) (
     seq (cfg_push_scheme SS_RsaPssRsaeSha256) (
     seq (cfg_push_scheme SS_RsaPssRsaeSha384) (
          cfg_push_scheme SS_RsaPssRsaeSha512)))))"

definition TlsConfig_new :: "bool \<Rightarrow> (unit, TlsError) result \<times> TlsConfig" where
  "TlsConfig_new alloc =
     (seq (if alloc then TlsConfig_enable_rsa_signatures else ret ()) (
      seq (cfg_push_scheme SS_EcdsaSecp256r1Sha256) (
      seq (cfg_push_scheme SS_EcdsaSecp384r1Sha384) (
      seq (cfg_push_scheme SS_Ed25519) (
           cfg_push_group NG_Secp256r1)))))
     \<lparr>cfg_server_name = None, cfg_alpn_protocols = None, cfg_psk = None,
      cfg_signature_schemes = [], cfg_named_groups = [], cfg_max_fragment_length = None\<rparr>"

definition TlsConfig_with_server_name :: "bytes \<Rightarrow> TlsConfig \<Rightarrow> TlsConfig" where
  "TlsConfig_with_server_name server_name c = c\<lparr>cfg_server_name := Some server_name\<rparr>"

definition TlsConfig_with_alpn :: "bytes list \<Rightarrow> TlsConfig \<Rightarrow> TlsConfig" where
  "TlsConfig_with_alpn ps c = c\<lparr>cfg_alpn_protocols := Some ps\<rparr>"

definition TlsConfig_with_max_fragment_length :: "MaxFragmentLength \<Rightarrow> TlsConfig \<Rightarrow> TlsConfig" where
  "TlsConfig_with_max_fragment_length m c = c\<lparr>cfg_max_fragment_length := Some m\<rparr>"

definition TlsConfig_reset_max_fragment_length :: "TlsConfig \<Rightarrow> TlsConfig" where
  "TlsConfig_reset_max_fragment_length c = c\<lparr>cfg_max_fragment_length := None\<rparr>"

definition TlsConfig_with_psk :: "bytes \<Rightarrow> bytes list \<Rightarrow> (TlsConfig, unit, TlsError) prog" where
  "TlsConfig_with_psk psk slices = (\<lambda>c. case vec_extend 4 [] slices of
     Some ids \<Rightarrow> (Ok (), c\<lparr>cfg_psk := Some (psk, ids)\<rparr>) | None \<Rightarrow> (Panic, c))"

text \<open>The capacities of the three vectors of a configuration; every operation keeps them.\<close>

definition cfg_ok :: "TlsConfig \<Rightarrow> bool" where
  "cfg_ok c \<longleftrightarrow> length (cfg_signature_schemes c) \<le> 25 \<and> length (cfg_named_groups c) \<le> 13 \<and>
     (\<forall>p ids. cfg_psk c = Some (p, ids) \<longrightarrow> length ids \<le> 4)"

lemma cfg_push_scheme_ok:
  "cfg_ok c \<Longrightarrow> cfg_ok (snd (cfg_push_scheme s c))"
  by (auto simp: cfg_push_scheme_def cfg_ok_def vec_push_def)

lemma cfg_push_group_ok:
  "cfg_ok c \<Longrightarrow> cfg_ok (snd (cfg_push_group g c))"
  by (auto simp: cfg_push_group_def cfg_ok_def vec_push_def)

lemma enable_rsa_ok: "cfg_ok c \<Longrightarrow> cfg_ok (snd (TlsConfig_enable_rsa_signatures c))"
  unfolding TlsConfig_enable_rsa_signatures_def
  by (intro snd_bnd_invariant [where I = cfg_ok] cfg_push_scheme_ok)

lemma TlsConfig_new_value:
  "fst (TlsConfig_new alloc) = Ok () \<and> cfg_ok (snd (TlsConfig_new alloc)) \<and>
   length (cfg_signature_schemes (snd (TlsConfig_new alloc))) = (if alloc then 9 else 3)"
  by (simp add: TlsConfig_new_def TlsConfig_enable_rsa_signatures_def cfg_push_scheme_def
      cfg_push_group_def bnd_def vec_push_def cfg_ok_def)

end
