(* ===== verification/Key_Schedule.thy ===== *)
theory Key_Schedule
  imports Config
begin

text \<open>
  The key schedule of \<open>src/src/key_schedule.rs\<close> with \<open>Finished\<close> and \<open>PskBinder\<close> of
  \<open>src/src/handshake/finished.rs\<close> and \<open>binder.rs\<close>. The trait \<open>TlsCipherSuite\<close> of
  \<open>config.rs\<close> with the digest, HKDF, HMAC and AEAD crates behind it is the record
  \<open>TlsCipherSuite\<close>: \<open>'h\<close> is a digest state, \<open>'k\<close> a keyed HKDF. Its documented behaviour is
  stated by predicates (\<open>kdf_laws\<close>, \<open>digest_laws\<close>) that theorems name as hypotheses. The
  schedule is shown to compute the secrets of RFC 8446, section 7.1, written down as the
  functions \<open>rfc_\<dots>\<close>, and the record nonces of section 5.3.
\<close>

section \<open>Cipher suites as parameters (config.rs)\<close>

record ('h, 'k) TlsCipherSuite =
  CODE_POINT :: u16
  KeyLen :: nat
  IvLen :: nat
  TagSize :: nat
  HashOutputSize :: nat
  LabelBufferSize :: nat
  digest_new :: 'h
  digest_update :: "'h \<Rightarrow> bytes \<Rightarrow> 'h"
  digest_finalize :: "'h \<Rightarrow> bytes"
  hkdf_extract :: "bytes \<Rightarrow> bytes \<Rightarrow> bytes \<times> 'k"
  hkdf_from_prk :: "bytes \<Rightarrow> 'k option"
  hkdf_expand :: "'k \<Rightarrow> bytes \<Rightarrow> nat \<Rightarrow> bytes option"
  hmac_new :: "bytes \<Rightarrow> (bytes \<Rightarrow> bytes) option"
  aead_encrypt_in_place :: "bytes \<Rightarrow> bytes \<Rightarrow> bytes \<Rightarrow> (CryptoBuffer, unit, unit) prog"
  aead_decrypt_in_place :: "bytes \<Rightarrow> bytes \<Rightarrow> bytes \<Rightarrow> (CryptoBuffer, unit, unit) prog"

text \<open>\<open>LabelBuffer\<close>: hash size plus the longest label (12) plus the overhead (10).\<close>

definition LabelBuffer :: "nat \<Rightarrow> nat" where
  "LabelBuffer hash_out = hash_out + (12 + 10)"

section \<open>Secrets\<close>

datatype 'k Secret = Uninitialized | Initialized 'k

datatype ContextType = CT_None | CT_Hash bytes

fun Secret_as_ref :: "'k Secret \<Rightarrow> ('k, TlsError) result" where
  "Secret_as_ref (Initialized secret) = Ok secret"
| "Secret_as_ref Uninitialized = Err InternalError"

definition Secret_replace :: "'k \<Rightarrow> 'k Secret \<Rightarrow> 'k Secret" where
  "Secret_replace secret self = Initialized secret"

definition ascii :: "string \<Rightarrow> bytes" where
  "ascii s = map of_char s"

text \<open>\<open>hkdf_label.extend_from_slice(xs).map_err(|()| InternalError)?\<close> on the label buffer.\<close>

definition label_extend :: "('h, 'k) TlsCipherSuite \<Rightarrow> bytes \<Rightarrow> bytes \<Rightarrow> (bytes, TlsError) result" where
  "label_extend cs xs buf = or_err InternalError (vec_extend (LabelBufferSize cs) buf xs)"

definition label_context :: "('h, 'k) TlsCipherSuite \<Rightarrow> ContextType \<Rightarrow> bytes \<Rightarrow> (bytes, TlsError) result" where
  "label_context cs ctx buf = (case ctx of
     CT_None \<Rightarrow> or_err InternalError (vec_push (LabelBufferSize cs) buf 0)
   | CT_Hash context \<Rightarrow>
       and_then (label_extend cs [of_nat (length context)] buf) (label_extend cs context))"

definition hkdf_label ::
  "('h, 'k) TlsCipherSuite \<Rightarrow> nat \<Rightarrow> bytes \<Rightarrow> ContextType \<Rightarrow> (bytes, TlsError) result" where
  "hkdf_label cs N label ctx =
     and_then (label_extend cs (u16_to_be_bytes (of_nat N)) []) (\<lambda>b.
     let len8 = unat (of_nat (length label) :: u8) in
     if 256 \<le> 6 + len8 then Panic else
     and_then (label_extend cs [of_nat (6 + len8)] b) (\<lambda>b.
     and_then (label_extend cs (ascii ''tls13 '') b) (\<lambda>b.
     and_then (label_extend cs label b) (label_context cs ctx))))"

definition make_expanded_hkdf_label ::
  "('h, 'k) TlsCipherSuite \<Rightarrow> nat \<Rightarrow> 'k Secret \<Rightarrow> bytes \<Rightarrow> ContextType \<Rightarrow> (bytes, TlsError) result" where
  "make_expanded_hkdf_label cs N self label ctx =
     and_then (hkdf_label cs N label ctx) (\<lambda>info.
     and_then (Secret_as_ref self) (\<lambda>k.
     or_err CryptoError (hkdf_expand cs k info N)))"

section \<open>The shared secret\<close>

record 'k SharedState =
  sh_secret :: bytes
  sh_hkdf :: "'k Secret"

definition SharedState_new :: "('h, 'k) TlsCipherSuite \<Rightarrow> 'k SharedState" where
  "SharedState_new cs = \<lparr>sh_secret = replicate (HashOutputSize cs) 0, sh_hkdf = Uninitialized\<rparr>"

definition SharedState_initialize ::
  "('h, 'k) TlsCipherSuite \<Rightarrow> bytes \<Rightarrow> 'k SharedState \<Rightarrow> 'k SharedState" where
  "SharedState_initialize cs ikm s =
     (let (secret, hkdf) = hkdf_extract cs (sh_secret s) ikm in
      s\<lparr>sh_hkdf := Secret_replace hkdf (sh_hkdf s), sh_secret := secret\<rparr>)"

definition SharedState_derive_secret ::
  "('h, 'k) TlsCipherSuite \<Rightarrow> bytes \<Rightarrow> ContextType \<Rightarrow> 'k SharedState \<Rightarrow> (bytes, TlsError) result" where
  "SharedState_derive_secret cs label ctx s =
     make_expanded_hkdf_label cs (HashOutputSize cs) (sh_hkdf s) label ctx"

definition transcript_hash_context :: "('h, 'k) TlsCipherSuite \<Rightarrow> 'h \<Rightarrow> ContextType" where
  "transcript_hash_context cs h = CT_Hash (digest_finalize cs h)"

definition empty_hash :: "('h, 'k) TlsCipherSuite \<Rightarrow> ContextType" where
  "empty_hash cs = CT_Hash (digest_finalize cs (digest_update cs (digest_new cs) []))"

definition SharedState_derived ::
  "('h, 'k) TlsCipherSuite \<Rightarrow> ('k SharedState, unit, TlsError) prog" where
  "SharedState_derived cs = (\<lambda>s.
     case SharedState_derive_secret cs (ascii ''derived'') (empty_hash cs) s of
       Ok x \<Rightarrow> (Ok (), s\<lparr>sh_secret := x\<rparr>) | Err e \<Rightarrow> (Err e, s) | Panic \<Rightarrow> (Panic, s))"

section \<open>Traffic keys\<close>

record 'k KeyScheduleState =
  traffic_secret :: "'k Secret"
  counter :: u64
  enc_key :: bytes
  enc_iv :: bytes

definition KeyScheduleState_new :: "('h, 'k) TlsCipherSuite \<Rightarrow> 'k KeyScheduleState" where
  "KeyScheduleState_new cs = \<lparr>traffic_secret = Uninitialized, counter = 0,
     enc_key = replicate (KeyLen cs) 0, enc_iv = replicate (IvLen cs) 0\<rparr>"

text \<open>\<open>pad\<close> writes the input backwards from the end of a zeroed array; an input longer than the
  array makes the index computation panic.\<close>

fun pad_loop :: "nat \<Rightarrow> (nat \<times> u8) list \<Rightarrow> bytes \<Rightarrow> (bytes, 'e) result" where
  "pad_loop N [] padded = Ok padded"
| "pad_loop N ((index, byte) # rest) padded =
     (if index < N then pad_loop N rest (padded[(N - index) - 1 := byte]) else Panic)"

definition KeySchedule_pad :: "nat \<Rightarrow> bytes \<Rightarrow> (bytes, 'e) result" where
  "KeySchedule_pad N input = pad_loop N (List.enumerate 0 (rev input)) (replicate N 0)"

text \<open>The loop of \<open>get_nonce\<close> over the zipped and enumerated arrays.\<close>

fun nonce_loop :: "(nat \<times> u8 \<times> u8) list \<Rightarrow> bytes \<Rightarrow> bytes" where
  "nonce_loop [] nonce = nonce"
| "nonce_loop ((index, l, r) # rest) nonce = nonce_loop rest (nonce[index := xor l r])"

definition KeySchedule_get_nonce ::
  "('h, 'k) TlsCipherSuite \<Rightarrow> u64 \<Rightarrow> bytes \<Rightarrow> (bytes, TlsError) result" where
  "KeySchedule_get_nonce cs ctr iv0 =
     and_then (KeySchedule_pad (IvLen cs) (u64_to_be_bytes ctr)) (\<lambda>padded.
     if IvLen cs \<le> length iv0
     then Ok (nonce_loop (List.enumerate 0 (zip (take (IvLen cs) iv0) padded)) (replicate (IvLen cs) 0))
     else Panic)"

definition state_get_nonce ::
  "('h, 'k) TlsCipherSuite \<Rightarrow> 'k KeyScheduleState \<Rightarrow> (bytes, TlsError) result" where
  "state_get_nonce cs s = KeySchedule_get_nonce cs (counter s) (enc_iv s)"

definition state_get_key :: "'k KeyScheduleState \<Rightarrow> bytes" where
  "state_get_key s = enc_key s"

text \<open>\<open>unwrap!(self.counter.checked_add(1))\<close>\<close>

definition state_increment_counter :: "('k KeyScheduleState, unit, TlsError) prog" where
  "state_increment_counter = (\<lambda>s.
     if unat (counter s) + 1 < 2 ^ 64 then (Ok (), s\<lparr>counter := counter s + 1\<rparr>) else (Panic, s))"

definition calculate_traffic_secret ::
  "('h, 'k) TlsCipherSuite \<Rightarrow> bytes \<Rightarrow> 'k SharedState \<Rightarrow> 'h \<Rightarrow>
     ('k KeyScheduleState, unit, TlsError) prog" where
  "calculate_traffic_secret cs label shared transcript =
     bnd (from_result (SharedState_derive_secret cs label (transcript_hash_context cs transcript) shared)) (\<lambda>secret.
     bnd (ok_or InternalError (hkdf_from_prk cs secret)) (\<lambda>ts.
     seq (modify (\<lambda>s. s\<lparr>traffic_secret := Secret_replace ts (traffic_secret s)\<rparr>)) (
     bnd (\<lambda>s. (make_expanded_hkdf_label cs (KeyLen cs) (traffic_secret s) (ascii ''key'') CT_None, s)) (\<lambda>k.
     seq (modify (\<lambda>s. s\<lparr>enc_key := k\<rparr>)) (
     bnd (\<lambda>s. (make_expanded_hkdf_label cs (IvLen cs) (traffic_secret s) (ascii ''iv'') CT_None, s)) (\<lambda>v.
     modify (\<lambda>s. s\<lparr>enc_iv := v, counter := 0\<rparr>)))))))"

section \<open>Finished and PskBinder (finished.rs, binder.rs)\<close>

record Finished =
  fin_verify :: bytes
  fin_hash :: "bytes option"

definition Finished_parse :: "('h, 'k) TlsCipherSuite \<Rightarrow> u32 \<Rightarrow> (ParseBuffer, Finished, TlsError) prog" where
  "Finished_parse cs len =
     bnd (map_err TlsError_from (pb_fill (HashOutputSize cs))) (\<lambda>verify.
     ret \<lparr>fin_verify = verify, fin_hash = None\<rparr>)"

definition Finished_encode :: "Finished \<Rightarrow> unit encoder" where
  "Finished_encode x = map_err (\<lambda>_. EncodeError) (cb_extend_from_slice (fin_verify x))"

datatype PskBinder = PskBinder (psk_verify: bytes)

definition PskBinder_encode :: "PskBinder \<Rightarrow> unit encoder" where
  "PskBinder_encode x =
     seq (map_err (\<lambda>_. EncodeError) (cb_push (of_nat (length (psk_verify x)))))
       (map_err (\<lambda>_. EncodeError) (cb_extend_from_slice (psk_verify x)))"

section \<open>The schedule\<close>

record 'k WriteKeySchedule =
  w_state :: "'k KeyScheduleState"
  binder_key :: "'k Secret"

record ('h, 'k) ReadKeySchedule =
  r_state :: "'k KeyScheduleState"
  transcript_hash :: 'h

record ('h, 'k) KeySchedule =
  shared :: "'k SharedState"
  client_state :: "'k WriteKeySchedule"
  server_state :: "('h, 'k) ReadKeySchedule"

definition KeySchedule_new :: "('h, 'k) TlsCipherSuite \<Rightarrow> ('h, 'k) KeySchedule" where
  "KeySchedule_new cs =
     \<lparr>shared = SharedState_new cs,
      client_state = \<lparr>w_state = KeyScheduleState_new cs, binder_key = Uninitialized\<rparr>,
      server_state = \<lparr>r_state = KeyScheduleState_new cs, transcript_hash = digest_new cs\<rparr>\<rparr>"

definition replace_transcript_hash :: "'h \<Rightarrow> ('h, 'k) KeySchedule \<Rightarrow> ('h, 'k) KeySchedule" where
  "replace_transcript_hash h ks = ks\<lparr>server_state := (server_state ks)\<lparr>transcript_hash := h\<rparr>\<rparr>"

text \<open>A mutable borrow of a field: run a program on the field and write the field back.\<close>

definition zoom :: "('s \<Rightarrow> 'f) \<Rightarrow> ('f \<Rightarrow> 's \<Rightarrow> 's) \<Rightarrow> ('f, 'a, 'e) prog \<Rightarrow> ('s, 'a, 'e) prog" where
  "zoom get put m = (\<lambda>s. case m (get s) of (r, x) \<Rightarrow> (r, put x s))"

abbreviation on_shared :: "('k SharedState, 'a, 'e) prog \<Rightarrow> (('h, 'k) KeySchedule, 'a, 'e) prog" where
  "on_shared \<equiv> zoom shared (\<lambda>x s. s\<lparr>shared := x\<rparr>)"

abbreviation on_client :: "('k WriteKeySchedule, 'a, 'e) prog \<Rightarrow> (('h, 'k) KeySchedule, 'a, 'e) prog" where
  "on_client \<equiv> zoom client_state (\<lambda>x s. s\<lparr>client_state := x\<rparr>)"

abbreviation on_server :: "(('h, 'k) ReadKeySchedule, 'a, 'e) prog \<Rightarrow> (('h, 'k) KeySchedule, 'a, 'e) prog" where
  "on_server \<equiv> zoom server_state (\<lambda>x s. s\<lparr>server_state := x\<rparr>)"

definition write_increment_counter :: "('k WriteKeySchedule, unit, TlsError) prog" where
  "write_increment_counter = zoom w_state (\<lambda>x s. s\<lparr>w_state := x\<rparr>) state_increment_counter"

definition read_increment_counter :: "(('h, 'k) ReadKeySchedule, unit, TlsError) prog" where
  "read_increment_counter = zoom r_state (\<lambda>x s. s\<lparr>r_state := x\<rparr>) state_increment_counter"

definition write_get_key :: "'k WriteKeySchedule \<Rightarrow> bytes" where
  "write_get_key w = state_get_key (w_state w)"

definition write_get_nonce :: "('h, 'k) TlsCipherSuite \<Rightarrow> 'k WriteKeySchedule \<Rightarrow> (bytes, TlsError) result" where
  "write_get_nonce cs w = state_get_nonce cs (w_state w)"

definition read_get_key :: "('h, 'k) ReadKeySchedule \<Rightarrow> bytes" where
  "read_get_key r = state_get_key (r_state r)"

definition read_get_nonce :: "('h, 'k) TlsCipherSuite \<Rightarrow> ('h, 'k) ReadKeySchedule \<Rightarrow> (bytes, TlsError) result" where
  "read_get_nonce cs r = state_get_nonce cs (r_state r)"

definition calculate_traffic_secrets ::
  "('h, 'k) TlsCipherSuite \<Rightarrow> bytes \<Rightarrow> bytes \<Rightarrow> (('h, 'k) KeySchedule, unit, TlsError) prog" where
  "calculate_traffic_secrets cs client_label server_label =
     seq (\<lambda>ks. on_client (zoom w_state (\<lambda>x s. s\<lparr>w_state := x\<rparr>)
            (calculate_traffic_secret cs client_label (shared ks) (transcript_hash (server_state ks)))) ks)
         (\<lambda>ks. on_server (zoom r_state (\<lambda>x s. s\<lparr>r_state := x\<rparr>)
            (calculate_traffic_secret cs server_label (shared ks) (transcript_hash (server_state ks)))) ks)"

definition initialize_early_secret ::
  "('h, 'k) TlsCipherSuite \<Rightarrow> bytes option \<Rightarrow> (('h, 'k) KeySchedule, unit, TlsError) prog" where
  "initialize_early_secret cs psk =
     seq (on_shared (modify (SharedState_initialize cs
            (case psk of Some p \<Rightarrow> p | None \<Rightarrow> replicate (HashOutputSize cs) 0)))) (
     bnd (\<lambda>ks. (SharedState_derive_secret cs (ascii ''ext binder'') (empty_hash cs) (shared ks), ks)) (\<lambda>bk.
     bnd (ok_or InternalError (hkdf_from_prk cs bk)) (\<lambda>k.
     seq (on_client (modify (\<lambda>w. w\<lparr>binder_key := Secret_replace k (binder_key w)\<rparr>)))
         (on_shared (SharedState_derived cs)))))"

definition initialize_handshake_secret ::
  "('h, 'k) TlsCipherSuite \<Rightarrow> bytes \<Rightarrow> (('h, 'k) KeySchedule, unit, TlsError) prog" where
  "initialize_handshake_secret cs ikm =
     seq (on_shared (modify (SharedState_initialize cs ikm))) (
     seq (calculate_traffic_secrets cs (ascii ''c hs traffic'') (ascii ''s hs traffic''))
         (on_shared (SharedState_derived cs)))"

definition initialize_master_secret ::
  "('h, 'k) TlsCipherSuite \<Rightarrow> (('h, 'k) KeySchedule, unit, TlsError) prog" where
  "initialize_master_secret cs =
     seq (on_shared (modify (SharedState_initialize cs (replicate (HashOutputSize cs) 0)))) (
     seq (calculate_traffic_secrets cs (ascii ''c ap traffic'') (ascii ''s ap traffic''))
         (on_shared (SharedState_derived cs)))"

definition create_client_finished ::
  "('h, 'k) TlsCipherSuite \<Rightarrow> ('h, 'k) KeySchedule \<Rightarrow> (Finished, TlsError) result" where
  "create_client_finished cs ks =
     and_then (make_expanded_hkdf_label cs (HashOutputSize cs) (traffic_secret (w_state (client_state ks)))
                (ascii ''finished'') CT_None) (\<lambda>k.
     and_then (or_err CryptoError (hmac_new cs k)) (\<lambda>mac.
     Ok \<lparr>fin_verify = mac (digest_finalize cs (transcript_hash (server_state ks))), fin_hash = None\<rparr>))"

definition create_psk_binder ::
  "('h, 'k) TlsCipherSuite \<Rightarrow> 'h \<Rightarrow> 'k WriteKeySchedule \<Rightarrow> (PskBinder, TlsError) result" where
  "create_psk_binder cs transcript w =
     and_then (make_expanded_hkdf_label cs (HashOutputSize cs) (binder_key w) (ascii ''finished'') CT_None) (\<lambda>k.
     and_then (or_err CryptoError (hmac_new cs k)) (\<lambda>mac.
     Ok (PskBinder (mac (digest_finalize cs transcript)))))"

definition verify_server_finished ::
  "('h, 'k) TlsCipherSuite \<Rightarrow> Finished \<Rightarrow> ('h, 'k) ReadKeySchedule \<Rightarrow> (bool, TlsError) result" where
  "verify_server_finished cs finished r =
     and_then (make_expanded_hkdf_label cs (HashOutputSize cs) (traffic_secret (r_state r))
                (ascii ''finished'') CT_None) (\<lambda>k.
     and_then (or_err InternalError (hmac_new cs k)) (\<lambda>mac.
     and_then (or_err InternalError (fin_hash finished)) (\<lambda>h.
     Ok (mac h = fin_verify finished))))"

section \<open>What the crypto crates promise\<close>

text \<open>Sizes of a suite and totality of the key derivation functions: a digest has the hash size;
  \<open>extract\<close> returns the pseudorandom key together with the HKDF keyed by it; \<open>from_prk\<close>
  accepts a key of at least the hash size; \<open>expand\<close> fills any length up to 255 hashes; HMAC
  accepts every key.\<close>

definition kdf_laws :: "('h, 'k) TlsCipherSuite \<Rightarrow> bool" where
  "kdf_laws cs \<longleftrightarrow>
     LabelBufferSize cs = LabelBuffer (HashOutputSize cs) \<and> HashOutputSize cs < 256 \<and>
     KeyLen cs \<le> 255 * HashOutputSize cs \<and> IvLen cs \<le> 255 * HashOutputSize cs \<and>
     (\<forall>h. length (digest_finalize cs h) = HashOutputSize cs) \<and>
     (\<forall>salt ikm. hkdf_from_prk cs (fst (hkdf_extract cs salt ikm)) = Some (snd (hkdf_extract cs salt ikm))) \<and>
     (\<forall>prk. HashOutputSize cs \<le> length prk \<longrightarrow> hkdf_from_prk cs prk \<noteq> None) \<and>
     (\<forall>k info n. n \<le> 255 * HashOutputSize cs \<longrightarrow>
        (\<exists>okm. hkdf_expand cs k info n = Some okm \<and> length okm = n)) \<and>
     (\<forall>k. \<exists>mac. hmac_new cs k = Some mac \<and> (\<forall>m. length (mac m) = HashOutputSize cs))"

text \<open>Feeding a digest in pieces is feeding it the concatenation.\<close>

definition digest_laws :: "('h, 'k) TlsCipherSuite \<Rightarrow> bool" where
  "digest_laws cs \<longleftrightarrow> (\<forall>h. digest_update cs h [] = h) \<and>
     (\<forall>h a b. digest_update cs (digest_update cs h a) b = digest_update cs h (a @ b))"

lemma digest_update_append:
  "digest_laws cs \<Longrightarrow> digest_update cs (digest_update cs h a) b = digest_update cs h (a @ b)"
  by (simp add: digest_laws_def)

section \<open>The schedule of RFC 8446, section 7.1\<close>

definition rfc_hkdf_label :: "nat \<Rightarrow> bytes \<Rightarrow> bytes \<Rightarrow> bytes" where
  "rfc_hkdf_label n label context =
     u16_to_be_bytes (of_nat n) @ prefixed8 (ascii ''tls13 '' @ label) @ prefixed8 context"

definition rfc_expand_label :: "('h, 'k) TlsCipherSuite \<Rightarrow> 'k \<Rightarrow> bytes \<Rightarrow> bytes \<Rightarrow> nat \<Rightarrow> bytes" where
  "rfc_expand_label cs k label context n = the (hkdf_expand cs k (rfc_hkdf_label n label context) n)"

definition rfc_derive_secret :: "('h, 'k) TlsCipherSuite \<Rightarrow> 'k \<Rightarrow> bytes \<Rightarrow> 'h \<Rightarrow> bytes" where
  "rfc_derive_secret cs k label h =
     rfc_expand_label cs k label (digest_finalize cs h) (HashOutputSize cs)"

definition rfc_zeros :: "('h, 'k) TlsCipherSuite \<Rightarrow> bytes" where
  "rfc_zeros cs = replicate (HashOutputSize cs) 0"

definition rfc_derived :: "('h, 'k) TlsCipherSuite \<Rightarrow> 'k \<Rightarrow> bytes" where
  "rfc_derived cs k = rfc_derive_secret cs k (ascii ''derived'') (digest_new cs)"

definition rfc_early :: "('h, 'k) TlsCipherSuite \<Rightarrow> bytes option \<Rightarrow> 'k" where
  "rfc_early cs psk = snd (hkdf_extract cs (rfc_zeros cs) (case psk of Some p \<Rightarrow> p | None \<Rightarrow> rfc_zeros cs))"

definition rfc_handshake :: "('h, 'k) TlsCipherSuite \<Rightarrow> bytes option \<Rightarrow> bytes \<Rightarrow> 'k" where
  "rfc_handshake cs psk dhe = snd (hkdf_extract cs (rfc_derived cs (rfc_early cs psk)) dhe)"

definition rfc_master :: "('h, 'k) TlsCipherSuite \<Rightarrow> bytes option \<Rightarrow> bytes \<Rightarrow> 'k" where
  "rfc_master cs psk dhe = snd (hkdf_extract cs (rfc_derived cs (rfc_handshake cs psk dhe)) (rfc_zeros cs))"

text \<open>A direction's traffic state: the secret, and the write key and IV of section 7.3, with the
  sequence number at zero.\<close>

definition rfc_traffic :: "('h, 'k) TlsCipherSuite \<Rightarrow> 'k \<Rightarrow> bytes \<Rightarrow> 'h \<Rightarrow> 'k KeyScheduleState" where
  "rfc_traffic cs k label h =
     (let ts = the (hkdf_from_prk cs (rfc_derive_secret cs k label h)) in
      \<lparr>traffic_secret = Initialized ts, counter = 0,
       enc_key = rfc_expand_label cs ts (ascii ''key'') [] (KeyLen cs),
       enc_iv = rfc_expand_label cs ts (ascii ''iv'') [] (IvLen cs)\<rparr>)"

lemma length_ascii [simp]: "length (ascii s) = length s"
  by (simp add: ascii_def)

lemma expand_label_ok:
  assumes "kdf_laws cs" "n \<le> 255 * HashOutputSize cs"
  obtains okm where "hkdf_expand cs k info n = Some okm" "length okm = n"
  using assms unfolding kdf_laws_def by metis

definition context_bytes :: "ContextType \<Rightarrow> bytes" where
  "context_bytes ctx = (case ctx of CT_None \<Rightarrow> [] | CT_Hash h \<Rightarrow> h)"

text \<open>The label buffer is large enough for every label of at most 12 bytes, and the bytes it
  collects are the \<open>HkdfLabel\<close> of the RFC.\<close>

lemma hkdf_label_rfc:
  assumes cs: "kdf_laws cs" and l: "length label \<le> 12" and c: "length (context_bytes ctx) \<le> HashOutputSize cs"
  shows "hkdf_label cs n label ctx = Ok (rfc_hkdf_label n label (context_bytes ctx))"
proof -
  have size: "LabelBufferSize cs = HashOutputSize cs + 22"
    using cs by (simp add: kdf_laws_def LabelBuffer_def)
  have m: "length label mod 256 = length label" using l by simp
  show ?thesis
  proof (cases ctx)
    case CT_None
    then show ?thesis
      using l size m
      by (simp add: hkdf_label_def label_extend_def vec_extend_def label_context_def vec_push_def
          rfc_hkdf_label_def context_bytes_def prefixed8_def)
  next
    case (CT_Hash h)
    then show ?thesis
      using l size c m
      by (simp add: hkdf_label_def label_extend_def vec_extend_def label_context_def
          rfc_hkdf_label_def context_bytes_def prefixed8_def)
  qed
qed

lemma make_expanded_rfc:
  assumes "kdf_laws cs" "length label \<le> 12" "length (context_bytes ctx) \<le> HashOutputSize cs"
    and "n \<le> 255 * HashOutputSize cs"
  shows "make_expanded_hkdf_label cs n (Initialized k) label ctx =
    Ok (rfc_expand_label cs k label (context_bytes ctx) n)"
proof -
  obtain okm where "hkdf_expand cs k (rfc_hkdf_label n label (context_bytes ctx)) n = Some okm"
    using expand_label_ok [OF assms(1,4)] by metis
  then show ?thesis
    by (simp add: make_expanded_hkdf_label_def hkdf_label_rfc [OF assms(1-3)] rfc_expand_label_def)
qed

lemma length_rfc_expand [simp]:
  assumes "kdf_laws cs" "n \<le> 255 * HashOutputSize cs"
  shows "length (rfc_expand_label cs k label ctx n) = n"
proof -
  obtain okm where "hkdf_expand cs k (rfc_hkdf_label n label ctx) n = Some okm" "length okm = n"
    using expand_label_ok [OF assms] by metis
  then show ?thesis by (simp add: rfc_expand_label_def)
qed

lemma length_rfc_derive [simp]:
  "kdf_laws cs \<Longrightarrow> length (rfc_derive_secret cs k label h) = HashOutputSize cs"
  by (simp add: rfc_derive_secret_def)

lemma length_finalize: "kdf_laws cs \<Longrightarrow> length (digest_finalize cs h) = HashOutputSize cs"
  by (simp add: kdf_laws_def)

lemma from_prk_Some:
  assumes "kdf_laws cs" "HashOutputSize cs \<le> length prk"
  obtains k where "hkdf_from_prk cs prk = Some k"
  using assms unfolding kdf_laws_def by fastforce

lemma derive_secret_rfc:
  assumes "kdf_laws cs" "length label \<le> 12" "sh_hkdf s = Initialized k"
  shows "SharedState_derive_secret cs label (transcript_hash_context cs h) s = Ok (rfc_derive_secret cs k label h)"
  using make_expanded_rfc [OF assms(1,2), of "CT_Hash (digest_finalize cs h)"] assms
  by (simp add: SharedState_derive_secret_def transcript_hash_context_def rfc_derive_secret_def
      context_bytes_def length_finalize)

lemma empty_hash_context:
  "digest_laws cs \<Longrightarrow> empty_hash cs = transcript_hash_context cs (digest_new cs)"
  by (simp add: empty_hash_def transcript_hash_context_def digest_laws_def)

lemma derived_rfc:
  assumes "kdf_laws cs" "digest_laws cs" "sh_hkdf s = Initialized k"
  shows "SharedState_derived cs s = (Ok (), s\<lparr>sh_secret := rfc_derived cs k\<rparr>)"
  using derive_secret_rfc [OF assms(1) _ assms(3)]
  by (simp add: SharedState_derived_def empty_hash_context [OF assms(2)] rfc_derived_def)

lemma calculate_traffic_secret_rfc:
  assumes "kdf_laws cs" "length label \<le> 12" "sh_hkdf s = Initialized k"
  shows "calculate_traffic_secret cs label s h st = (Ok (), rfc_traffic cs k label h)"
proof -
  obtain ts where p: "hkdf_from_prk cs (rfc_derive_secret cs k label h) = Some ts"
    using from_prk_Some [OF assms(1), of "rfc_derive_secret cs k label h"] assms(1) by auto
  have "KeyLen cs \<le> 255 * HashOutputSize cs" "IvLen cs \<le> 255 * HashOutputSize cs"
    using assms(1) by (simp_all add: kdf_laws_def)
  then show ?thesis
    using make_expanded_rfc [OF assms(1), of "ascii ''key''" CT_None "KeyLen cs" ts]
      make_expanded_rfc [OF assms(1), of "ascii ''iv''" CT_None "IvLen cs" ts]
    by (simp add: calculate_traffic_secret_def derive_secret_rfc [OF assms] bnd_def p ok_or_def
        Secret_replace_def context_bytes_def rfc_traffic_def)
qed

lemma zoom_Ok: "m (get s) = (Ok a, x) \<Longrightarrow> zoom get put m s = (Ok a, put x s)"
  by (simp add: zoom_def)

lemma initialize_shared:
  "SharedState_initialize cs ikm s = \<lparr>sh_secret = fst (hkdf_extract cs (sh_secret s) ikm),
     sh_hkdf = Initialized (snd (hkdf_extract cs (sh_secret s) ikm))\<rparr>"
  by (cases s) (simp add: SharedState_initialize_def Secret_replace_def split: prod.splits)

lemma calculate_traffic_secrets_rfc:
  assumes "kdf_laws cs" "length cl \<le> 12" "length sl \<le> 12" "sh_hkdf (shared ks) = Initialized k"
  shows "calculate_traffic_secrets cs cl sl ks =
    (Ok (), ks\<lparr>client_state := (client_state ks)\<lparr>w_state := rfc_traffic cs k cl (transcript_hash (server_state ks))\<rparr>,
       server_state := (server_state ks)\<lparr>r_state := rfc_traffic cs k sl (transcript_hash (server_state ks))\<rparr>\<rparr>)"
  by (simp add: calculate_traffic_secrets_def bnd_def zoom_def
      calculate_traffic_secret_rfc [OF assms(1,2,4)] calculate_traffic_secret_rfc [OF assms(1,3,4)])

text \<open>The effect of the three initialisations on any schedule whose shared secret is the one the
  previous stage left.\<close>

lemma early_secret_rfc:
  assumes "kdf_laws cs" "digest_laws cs" "sh_secret (shared ks) = rfc_zeros cs"
  shows "\<exists>ks'. initialize_early_secret cs psk ks = (Ok (), ks') \<and>
    sh_secret (shared ks') = rfc_derived cs (rfc_early cs psk) \<and>
    binder_key (client_state ks') =
      Initialized (the (hkdf_from_prk cs (rfc_derive_secret cs (rfc_early cs psk) (ascii ''ext binder'') (digest_new cs)))) \<and>
    w_state (client_state ks') = w_state (client_state ks) \<and> server_state ks' = server_state ks"
proof -
  let ?k = "rfc_early cs psk"
  let ?b = "rfc_derive_secret cs ?k (ascii ''ext binder'') (digest_new cs)"
  obtain bk where bk: "hkdf_from_prk cs ?b = Some bk"
    using from_prk_Some [OF assms(1), of ?b] assms(1) by auto
  have k: "snd (hkdf_extract cs (rfc_zeros cs) (case psk of Some p \<Rightarrow> p | None \<Rightarrow> replicate (HashOutputSize cs) 0)) = ?k"
    by (cases psk) (simp_all add: rfc_early_def rfc_zeros_def)
  show ?thesis
    unfolding initialize_early_secret_def
    by (simp add: bnd_def initialize_shared assms(3) k derive_secret_rfc [OF assms(1)]
        empty_hash_context [OF assms(2)] bk ok_or_def zoom_def derived_rfc [OF assms(1,2)] Secret_replace_def)
qed

lemma handshake_secret_rfc:
  assumes "kdf_laws cs" "digest_laws cs" "sh_secret (shared ks) = rfc_derived cs (rfc_early cs psk)"
  shows "\<exists>ks'. initialize_handshake_secret cs dhe ks = (Ok (), ks') \<and>
    sh_secret (shared ks') = rfc_derived cs (rfc_handshake cs psk dhe) \<and>
    w_state (client_state ks') = rfc_traffic cs (rfc_handshake cs psk dhe) (ascii ''c hs traffic'') (transcript_hash (server_state ks)) \<and>
    r_state (server_state ks') = rfc_traffic cs (rfc_handshake cs psk dhe) (ascii ''s hs traffic'') (transcript_hash (server_state ks)) \<and>
    transcript_hash (server_state ks') = transcript_hash (server_state ks)"
  unfolding initialize_handshake_secret_def
  by (simp add: bnd_def initialize_shared assms(3) rfc_handshake_def [symmetric]
      calculate_traffic_secrets_rfc [OF assms(1)] zoom_def derived_rfc [OF assms(1,2)])

lemma master_secret_rfc:
  assumes "kdf_laws cs" "digest_laws cs" "sh_secret (shared ks) = rfc_derived cs (rfc_handshake cs psk dhe)"
  shows "\<exists>ks'. initialize_master_secret cs ks = (Ok (), ks') \<and>
    w_state (client_state ks') = rfc_traffic cs (rfc_master cs psk dhe) (ascii ''c ap traffic'') (transcript_hash (server_state ks)) \<and>
    r_state (server_state ks') = rfc_traffic cs (rfc_master cs psk dhe) (ascii ''s ap traffic'') (transcript_hash (server_state ks)) \<and>
    transcript_hash (server_state ks') = transcript_hash (server_state ks)"
  unfolding initialize_master_secret_def
  by (simp add: bnd_def initialize_shared assms(3) rfc_master_def [symmetric] rfc_zeros_def [symmetric]
      calculate_traffic_secrets_rfc [OF assms(1)] zoom_def derived_rfc [OF assms(1,2)])

section \<open>Nonces\<close>

lemma pad_loop_value:
  assumes "length xs + k \<le> N"
  shows "pad_loop N (List.enumerate k xs) (replicate (N - k) 0 @ ys) =
    Ok (replicate (N - k - length xs) 0 @ rev xs @ ys)"
  using assms
proof (induction xs arbitrary: k ys)
  case (Cons x xs)
  then have k: "k < N" by simp
  have "(replicate (N - k) (0 :: u8) @ ys)[N - k - 1 := x] = replicate (N - Suc k) 0 @ x # ys"
  proof -
    have "replicate (N - k) (0 :: u8) = replicate (N - Suc k) 0 @ [0]"
      using k by (simp add: replicate_append_same Suc_diff_Suc flip: replicate_Suc)
    then show ?thesis using k by (simp add: list_update_append)
  qed
  then show ?case using Cons.IH [of "Suc k" "x # ys"] Cons.prems k by simp
qed simp

lemma KeySchedule_pad_value:
  "length input \<le> N \<Longrightarrow> KeySchedule_pad N input = Ok (replicate (N - length input) 0 @ input)"
  using pad_loop_value [of "rev input" 0 N "[]"] by (simp add: KeySchedule_pad_def)

lemma nonce_loop_value:
  "length ys = k \<Longrightarrow> nonce_loop (List.enumerate k zs) (ys @ replicate (length zs) 0) = ys @ map (\<lambda>(l, r). xor l r) zs"
proof (induction zs arbitrary: k ys)
  case (Cons z zs)
  then show ?case using Cons.IH [of "ys @ [xor (fst z) (snd z)]" "Suc k"]
    by (cases z) (simp add: list_update_append)
qed simp

text \<open>The per-record nonce of RFC 8446, section 5.3: the sequence number, left-padded with zeros to
  the IV length, XORed with the IV.\<close>

definition rfc_nonce :: "u64 \<Rightarrow> bytes \<Rightarrow> bytes" where
  "rfc_nonce ctr iv0 = map2 xor iv0 (replicate (length iv0 - 8) 0 @ u64_to_be_bytes ctr)"

lemma get_nonce_value:
  assumes "length iv0 = IvLen cs" "8 \<le> IvLen cs"
  shows "KeySchedule_get_nonce cs ctr iv0 = Ok (rfc_nonce ctr iv0)"
proof -
  let ?p = "replicate (IvLen cs - 8) 0 @ u64_to_be_bytes ctr"
  have "length (zip iv0 ?p) = IvLen cs" using assms by simp
  then have "nonce_loop (List.enumerate 0 (zip iv0 ?p)) (replicate (IvLen cs) 0) = map (\<lambda>(l, r). xor l r) (zip iv0 ?p)"
    using nonce_loop_value [of "[]" 0 "zip iv0 ?p"] by simp
  then show ?thesis
    using assms by (simp add: KeySchedule_get_nonce_def KeySchedule_pad_value rfc_nonce_def)
qed

lemma base256_digits_inject:
  fixes n m :: nat
  assumes "\<And>i. i < k \<Longrightarrow> n div 256 ^ i mod 256 = m div 256 ^ i mod 256" "n < 256 ^ k" "m < 256 ^ k"
  shows "n = m"
  using assms
proof (induction k arbitrary: n m)
  case (Suc k)
  have "n div 256 = m div 256"
  proof (rule Suc.IH)
    show "n div 256 div 256 ^ i mod 256 = m div 256 div 256 ^ i mod 256" if "i < k" for i
      using Suc.prems(1) [of "Suc i"] that by (simp add: div_mult2_eq)
  qed (use Suc.prems(2,3) in \<open>auto simp: less_mult_imp_div_less mult.commute\<close>)
  moreover have "n mod 256 = m mod 256" using Suc.prems(1) [of 0] by simp
  ultimately show ?case by (metis div_mult_mod_eq)
qed simp

lemma u64_bytes_inject: "u64_to_be_bytes a = u64_to_be_bytes b \<Longrightarrow> a = b"
proof -
  assume "u64_to_be_bytes a = u64_to_be_bytes b"
  then have e: "\<forall>i \<in> {0, 1, 2, 3, 4, 5, 6, 7 :: nat}. (of_nat (unat a div 256 ^ i) :: u8) = of_nat (unat b div 256 ^ i)"
    by (simp add: u64_to_be_bytes_def)
  have "unat a div 256 ^ i mod 256 = unat b div 256 ^ i mod 256" if "i < 8" for i
  proof -
    from that have "i \<in> {0, 1, 2, 3, 4, 5, 6, 7}" by auto
    with e have "unat (of_nat (unat a div 256 ^ i) :: u8) = unat (of_nat (unat b div 256 ^ i) :: u8)" by metis
    then show ?thesis by (simp only: unat_of_nat_u8)
  qed
  moreover have "unat a < 256 ^ 8" "unat b < 256 ^ 8"
    using unsigned_less [of a, where ?'a = nat] unsigned_less [of b, where ?'a = nat] by simp_all
  ultimately show "a = b" using base256_digits_inject [of 8 "unat a" "unat b"] by (simp add: word_unat_eq_iff)
qed

lemma map2_xor_cancel:
  fixes xs ys zs :: bytes
  assumes "length xs = length ys" "length ys = length zs" "map2 xor xs ys = map2 xor xs zs"
  shows "ys = zs"
  using assms
proof (induction xs ys zs rule: list_induct3)
  case (Cons x xs y ys z zs)
  then have "xor x (xor x y) = xor x (xor x z)" by simp
  then have "y = z" by (simp flip: xor.assoc)
  with Cons show ?case by simp
qed simp

lemma rfc_nonce_inject:
  assumes "8 \<le> length iv0" "rfc_nonce a iv0 = rfc_nonce b iv0"
  shows "a = b"
proof -
  have "replicate (length iv0 - 8) 0 @ u64_to_be_bytes a = replicate (length iv0 - 8) 0 @ u64_to_be_bytes b"
    by (rule map2_xor_cancel [of iv0]) (use assms in \<open>simp_all add: rfc_nonce_def\<close>)
  then show ?thesis by (auto dest: u64_bytes_inject)
qed

section \<open>An instance of the parameters\<close>

text \<open>A small concrete suite that satisfies the laws, on which hypotheses are discharged: the digest
  keeps the bytes it was fed, the key derivations truncate, the AEAD leaves the plaintext and
  appends two bytes that depend on key, nonce and additional data.\<close>

definition toy_fix :: "nat \<Rightarrow> bytes \<Rightarrow> bytes" where
  "toy_fix n bs = take n (bs @ replicate n 0)"

definition toy_tag :: "bytes \<Rightarrow> bytes \<Rightarrow> bytes \<Rightarrow> bytes" where
  "toy_tag k n aad = toy_fix 2 [sum_list (k @ n), sum_list aad]"

definition toy_encrypt :: "bytes \<Rightarrow> bytes \<Rightarrow> bytes \<Rightarrow> (CryptoBuffer, unit, unit) prog" where
  "toy_encrypt k n aad = map_err (\<lambda>_. ()) (cb_extend_from_slice (toy_tag k n aad))"

definition toy_decrypt :: "bytes \<Rightarrow> bytes \<Rightarrow> bytes \<Rightarrow> (CryptoBuffer, unit, unit) prog" where
  "toy_decrypt k n aad = (\<lambda>b.
     if 2 \<le> cb_len b \<and> drop (cb_len b - 2) (cb_view b) = toy_tag k n aad
     then (Ok (), b\<lparr>cb_len := cb_len b - 2\<rparr>) else (Err (), b))"

definition toy_suite :: "(bytes, bytes) TlsCipherSuite" where
  "toy_suite = \<lparr>CODE_POINT = 0x1301, KeyLen = 4, IvLen = 12, TagSize = 2, HashOutputSize = 4,
     LabelBufferSize = LabelBuffer 4, digest_new = [], digest_update = (@),
     digest_finalize = toy_fix 4,
     hkdf_extract = (\<lambda>salt ikm. let prk = toy_fix 4 (map2 (+) (toy_fix 4 salt) (toy_fix 4 ikm)) in (prk, prk)),
     hkdf_from_prk = (\<lambda>prk. if 4 \<le> length prk then Some prk else None),
     hkdf_expand = (\<lambda>k info n. if n \<le> 1020 then Some (toy_fix n (k @ info)) else None),
     hmac_new = (\<lambda>k. Some (\<lambda>m. toy_fix 4 (m @ k))),
     aead_encrypt_in_place = toy_encrypt, aead_decrypt_in_place = toy_decrypt\<rparr>"

lemma length_toy_fix [simp]: "length (toy_fix n bs) = n"
  by (simp add: toy_fix_def)

lemma toy_sizes [simp]:
  "CODE_POINT toy_suite = 0x1301" "KeyLen toy_suite = 4" "IvLen toy_suite = 12" "TagSize toy_suite = 2"
  "HashOutputSize toy_suite = 4"
  by (simp_all add: toy_suite_def)

lemma toy_digest [simp]:
  "digest_new toy_suite = []" "digest_update toy_suite h bs = h @ bs" "digest_finalize toy_suite h = toy_fix 4 h"
  by (simp_all add: toy_suite_def)

lemma toy_aead [simp]:
  "aead_encrypt_in_place toy_suite = toy_encrypt" "aead_decrypt_in_place toy_suite = toy_decrypt"
  by (simp_all add: toy_suite_def)

lemma toy_kdf_laws: "kdf_laws toy_suite"
  by (simp add: kdf_laws_def toy_suite_def LabelBuffer_def Let_def)

lemma toy_digest_laws: "digest_laws toy_suite"
  by (simp add: digest_laws_def toy_suite_def)

section \<open>Properties\<close>

text \<open>C18. The key schedule is the one of RFC 8446, section 7.1. From a fresh schedule the three
  initialisations never fail; the binder key, the handshake traffic keys and the application
  traffic keys are the RFC's functions of the pre-shared key, the shared secret and the
  transcript at each stage, and each direction starts at sequence number zero. Between the
  stages everything but the shared secret may change.\<close>

theorem key_schedule_refines_rfc8446:
  fixes cs :: "('h, 'k) TlsCipherSuite"
  assumes "kdf_laws cs" and "digest_laws cs" and "shared ks = SharedState_new cs"
  shows "\<exists>ks1. initialize_early_secret cs psk ks = (Ok (), ks1) \<and>
    binder_key (client_state ks1) =
      Initialized (the (hkdf_from_prk cs (rfc_derive_secret cs (rfc_early cs psk) (ascii ''ext binder'') (digest_new cs)))) \<and>
    (\<forall>ks1'. shared ks1' = shared ks1 \<longrightarrow>
      (\<exists>ks2. initialize_handshake_secret cs dhe ks1' = (Ok (), ks2) \<and>
        w_state (client_state ks2) =
          rfc_traffic cs (rfc_handshake cs psk dhe) (ascii ''c hs traffic'') (transcript_hash (server_state ks1')) \<and>
        r_state (server_state ks2) =
          rfc_traffic cs (rfc_handshake cs psk dhe) (ascii ''s hs traffic'') (transcript_hash (server_state ks1')) \<and>
        (\<forall>ks2'. shared ks2' = shared ks2 \<longrightarrow>
          (\<exists>ks3. initialize_master_secret cs ks2' = (Ok (), ks3) \<and>
            w_state (client_state ks3) =
              rfc_traffic cs (rfc_master cs psk dhe) (ascii ''c ap traffic'') (transcript_hash (server_state ks2')) \<and>
            r_state (server_state ks3) =
              rfc_traffic cs (rfc_master cs psk dhe) (ascii ''s ap traffic'') (transcript_hash (server_state ks2'))))))"
proof -
  have "sh_secret (shared ks) = rfc_zeros cs"
    using assms(3) by (simp add: SharedState_new_def rfc_zeros_def)
  then obtain ks1 where 1: "initialize_early_secret cs psk ks = (Ok (), ks1)"
    "sh_secret (shared ks1) = rfc_derived cs (rfc_early cs psk)"
    "binder_key (client_state ks1) =
      Initialized (the (hkdf_from_prk cs (rfc_derive_secret cs (rfc_early cs psk) (ascii ''ext binder'') (digest_new cs))))"
    using early_secret_rfc [OF assms(1,2)] by blast
  have 3: "\<exists>ks3. initialize_master_secret cs ks2' = (Ok (), ks3) \<and>
      w_state (client_state ks3) =
        rfc_traffic cs (rfc_master cs psk dhe) (ascii ''c ap traffic'') (transcript_hash (server_state ks2')) \<and>
      r_state (server_state ks3) =
        rfc_traffic cs (rfc_master cs psk dhe) (ascii ''s ap traffic'') (transcript_hash (server_state ks2'))"
    if "shared ks2' = shared ks2" "sh_secret (shared ks2) = rfc_derived cs (rfc_handshake cs psk dhe)" 
    for ks2 ks2' :: "('h, 'k) KeySchedule"
    using master_secret_rfc [OF assms(1,2), of ks2' psk dhe] that by auto
  show ?thesis
  proof (rule exI [of _ ks1], intro conjI allI impI 1(1) 1(3))
    fix ks1' :: "('h, 'k) KeySchedule" assume "shared ks1' = shared ks1"
    then have "sh_secret (shared ks1') = rfc_derived cs (rfc_early cs psk)" using 1(2) by simp
    from handshake_secret_rfc [OF assms(1,2) this, of dhe] obtain ks2 where
      2: "initialize_handshake_secret cs dhe ks1' = (Ok (), ks2)"
      "sh_secret (shared ks2) = rfc_derived cs (rfc_handshake cs psk dhe)"
      "w_state (client_state ks2) =
        rfc_traffic cs (rfc_handshake cs psk dhe) (ascii ''c hs traffic'') (transcript_hash (server_state ks1'))"
      "r_state (server_state ks2) =
        rfc_traffic cs (rfc_handshake cs psk dhe) (ascii ''s hs traffic'') (transcript_hash (server_state ks1'))"
      by blast
    show "\<exists>ks2. initialize_handshake_secret cs dhe ks1' = (Ok (), ks2) \<and>
        w_state (client_state ks2) =
          rfc_traffic cs (rfc_handshake cs psk dhe) (ascii ''c hs traffic'') (transcript_hash (server_state ks1')) \<and>
        r_state (server_state ks2) =
          rfc_traffic cs (rfc_handshake cs psk dhe) (ascii ''s hs traffic'') (transcript_hash (server_state ks1')) \<and>
        (\<forall>ks2'. shared ks2' = shared ks2 \<longrightarrow>
          (\<exists>ks3. initialize_master_secret cs ks2' = (Ok (), ks3) \<and>
            w_state (client_state ks3) =
              rfc_traffic cs (rfc_master cs psk dhe) (ascii ''c ap traffic'') (transcript_hash (server_state ks2')) \<and>
            r_state (server_state ks3) =
              rfc_traffic cs (rfc_master cs psk dhe) (ascii ''s ap traffic'') (transcript_hash (server_state ks2'))))"
      by (rule exI [of _ ks2]) (simp add: 2 3)
  qed
qed

theorem key_schedule_refines_rfc8446_witness:
  "kdf_laws toy_suite \<and> (\<exists>ks1. initialize_early_secret toy_suite None (KeySchedule_new toy_suite) = (Ok (), ks1) \<and>
     w_state (client_state (snd (initialize_handshake_secret toy_suite [1, 2, 3] ks1))) =
       rfc_traffic toy_suite (rfc_handshake toy_suite None [1, 2, 3]) (ascii ''c hs traffic'')
         (transcript_hash (server_state ks1)))"
proof -
  have "shared (KeySchedule_new toy_suite) = SharedState_new toy_suite"
    by (simp add: KeySchedule_new_def)
  then show ?thesis
    using key_schedule_refines_rfc8446 [OF toy_kdf_laws toy_digest_laws, of _ None "[1, 2, 3]"] toy_kdf_laws
    by (metis snd_conv)
qed

text \<open>C19. The nonce of a record is the RFC's: \<open>get_nonce\<close> never panics for an IV of at least eight
  bytes, returns the padded sequence number XORed with the IV, and two different sequence
  numbers under one IV never give the same nonce.\<close>

theorem get_nonce_unique:
  assumes "length (enc_iv s) = IvLen cs" and "8 \<le> IvLen cs"
  shows "state_get_nonce cs s = Ok (rfc_nonce (counter s) (enc_iv s)) \<and>
    (\<forall>s'. enc_iv s' = enc_iv s \<longrightarrow> counter s' \<noteq> counter s \<longrightarrow> state_get_nonce cs s' \<noteq> state_get_nonce cs s)"
proof -
  have v: "state_get_nonce cs s' = Ok (rfc_nonce (counter s') (enc_iv s))" if "enc_iv s' = enc_iv s" for s'
    using assms that by (simp add: state_get_nonce_def get_nonce_value)
  then show ?thesis
    using assms rfc_nonce_inject [of "enc_iv s"] v [OF refl] by auto
qed

theorem get_nonce_unique_witness:
  "state_get_nonce toy_suite (KeyScheduleState_new toy_suite) = Ok (rfc_nonce 0 (replicate 12 0)) \<and>
   state_get_nonce toy_suite ((KeyScheduleState_new toy_suite)\<lparr>counter := 258\<rparr>) =
     Ok [0, 0, 0, 0, 0, 0, 0, 0, 0, 0, 1, 2]"
proof
  show "state_get_nonce toy_suite (KeyScheduleState_new toy_suite) = Ok (rfc_nonce 0 (replicate 12 0))"
    using get_nonce_unique [of "KeyScheduleState_new toy_suite" toy_suite]
    by (simp add: KeyScheduleState_new_def)
  show "state_get_nonce toy_suite ((KeyScheduleState_new toy_suite)\<lparr>counter := 258\<rparr>) =
     Ok [0, 0, 0, 0, 0, 0, 0, 0, 0, 0, 1, 2]"
  proof -
    have r: "replicate 12 (0 :: u8) = [0, 0, 0, 0, 0, 0, 0, 0, 0, 0, 0, 0]" "replicate 4 (0 :: u8) = [0, 0, 0, 0]"
      by (simp_all add: numeral_eq_Suc)
    show ?thesis
      by (simp add: state_get_nonce_def KeyScheduleState_new_def get_nonce_value rfc_nonce_def
          u64_to_be_bytes_def r)
  qed
qed

section \<open>The nonces of a direction\<close>

text \<open>The nonces of \<open>n\<close> records of one direction: each record takes the nonce of its key state, then the
  sequence number goes up.\<close>

fun used_nonces ::
  "('s \<Rightarrow> (bytes, TlsError) result) \<Rightarrow> ('s, unit, TlsError) prog \<Rightarrow> nat \<Rightarrow> ('s, bytes list, TlsError) prog" where
  "used_nonces nonce increment 0 = ret []"
| "used_nonces nonce increment (Suc n) =
     bnd (\<lambda>s. (nonce s, s)) (\<lambda>iv0.
     seq increment (
     bnd (used_nonces nonce increment n) (\<lambda>ivs. ret (iv0 # ivs))))"

lemma used_nonces_zoom:
  assumes "\<And>x s. get (put x s) = x" and "\<And>x y s. put x (put y s) = put x s" and "\<And>s. put (get s) s = s"
  shows "used_nonces (\<lambda>s. nonce (get s)) (zoom get put increment) n s =
    (case used_nonces nonce increment n (get s) of (r, x) \<Rightarrow> (r, put x s))"
proof (induction n arbitrary: s)
  case (Suc n)
  then show ?case
    by (cases "nonce (get s)")
      (auto simp: bnd_def zoom_def assms split: prod.splits result.splits)
qed (simp add: assms(3))

lemma state_used_nonces:
  assumes "length (enc_iv s) = IvLen cs" and "8 \<le> IvLen cs"
  shows "used_nonces (state_get_nonce cs) state_increment_counter n s =
    (if unat (counter s) + n < 2 ^ 64
     then (Ok (map (\<lambda>i. rfc_nonce (counter s + of_nat i) (enc_iv s)) [0..<n]), s\<lparr>counter := counter s + of_nat n\<rparr>)
     else (Panic, s\<lparr>counter := - 1\<rparr>))"
  using assms(1)
proof (induction n arbitrary: s)
  case 0
  have "unat (counter s) < 2 ^ 64" using unsigned_less [of "counter s", where ?'a = nat] by simp
  then show ?case by simp
next
  case (Suc n)
  have g: "state_get_nonce cs s = Ok (rfc_nonce (counter s) (enc_iv s))"
    using Suc.prems assms(2) by (simp add: state_get_nonce_def get_nonce_value)
  show ?case
  proof (cases "unat (counter s) + 1 < 2 ^ 64")
    case True
    then have u: "unat (counter s + 1) = unat (counter s) + 1" by (simp add: unat_word_ariths)
    have "map (\<lambda>i. rfc_nonce (counter s + 1 + of_nat i) (enc_iv s)) [0..<n] =
        map (\<lambda>i. rfc_nonce (counter s + of_nat i) (enc_iv s)) [1..<Suc n]"
      by (simp add: map_Suc_upt [symmetric] o_def add.assoc del: upt_Suc)
    with Suc.IH [of "s\<lparr>counter := counter s + 1\<rparr>"] Suc.prems True u g show ?thesis
      by (simp add: bnd_def state_increment_counter_def upt_conv_Cons add.assoc del: upt_Suc)
  next
    case False
    then have "unat (counter s) = 2 ^ 64 - 1" using unsigned_less [of "counter s", where ?'a = nat] by simp
    then have "counter s = - 1" by (simp add: word_unat_eq_iff unsigned_minus_1_eq_mask mask_eq_exp_minus_1)
    then have "s\<lparr>counter := - 1\<rparr> = s" by (metis KeyScheduleState.surjective KeyScheduleState.update_convs(2) old.unit.exhaust)
    with False g show ?thesis by (simp add: bnd_def state_increment_counter_def)
  qed
qed

lemma rfc_nonces_distinct:
  assumes "8 \<le> length iv0" and "unat c + n < 2 ^ 64"
  shows "distinct (map (\<lambda>i. rfc_nonce (c + of_nat i) iv0) [0..<n])"
proof (simp add: distinct_map, rule inj_onI)
  fix i j assume i: "i \<in> {0..<n}" and j: "j \<in> {0..<n}" and e: "rfc_nonce (c + of_nat i) iv0 = rfc_nonce (c + of_nat j) iv0"
  have "c + of_nat i = c + of_nat j" by (rule rfc_nonce_inject [OF assms(1) e])
  then have "(of_nat i :: u64) = of_nat j" by simp
  then have "unat (of_nat i :: u64) = unat (of_nat j :: u64)" by simp
  moreover have "i < 2 ^ 64" "j < 2 ^ 64" using i j assms(2) by simp_all
  ultimately show "i = j" by (simp add: unsigned_of_nat take_bit_nat_eq_self)
qed

text \<open>C20. No nonce is used twice under a key: over any number of records, with \<open>get_nonce\<close> and
  \<open>increment_counter\<close> called for each of them, the nonces of a direction are the padded consecutive sequence
  numbers XOR the IV and are pairwise distinct. When the sequence numbers are used up
  \<open>increment_counter\<close> panics; it does not wrap and start over.\<close>

theorem nonces_never_repeat:
  assumes "length (enc_iv (w_state w)) = IvLen cs" and "length (enc_iv (r_state r)) = IvLen cs" and "8 \<le> IvLen cs"
  shows "(if unat (counter (w_state w)) + n < 2 ^ 64
     then \<exists>ivs. used_nonces (write_get_nonce cs) write_increment_counter n w =
         (Ok ivs, w\<lparr>w_state := (w_state w)\<lparr>counter := counter (w_state w) + of_nat n\<rparr>\<rparr>) \<and>
       ivs = map (\<lambda>i. rfc_nonce (counter (w_state w) + of_nat i) (enc_iv (w_state w))) [0..<n] \<and> distinct ivs
     else fst (used_nonces (write_get_nonce cs) write_increment_counter n w) = Panic) \<and>
    (if unat (counter (r_state r)) + n < 2 ^ 64
     then \<exists>ivs. used_nonces (read_get_nonce cs) read_increment_counter n r =
         (Ok ivs, r\<lparr>r_state := (r_state r)\<lparr>counter := counter (r_state r) + of_nat n\<rparr>\<rparr>) \<and>
       ivs = map (\<lambda>i. rfc_nonce (counter (r_state r) + of_nat i) (enc_iv (r_state r))) [0..<n] \<and> distinct ivs
     else fst (used_nonces (read_get_nonce cs) read_increment_counter n r) = Panic)"
proof -
  have w: "used_nonces (write_get_nonce cs) write_increment_counter n w =
      (case used_nonces (state_get_nonce cs) state_increment_counter n (w_state w) of (q, x) \<Rightarrow> (q, w\<lparr>w_state := x\<rparr>))"
    unfolding write_increment_counter_def write_get_nonce_def by (rule used_nonces_zoom) simp_all
  have r: "used_nonces (read_get_nonce cs) read_increment_counter n r =
      (case used_nonces (state_get_nonce cs) state_increment_counter n (r_state r) of (q, x) \<Rightarrow> (q, r\<lparr>r_state := x\<rparr>))"
    unfolding read_increment_counter_def read_get_nonce_def by (rule used_nonces_zoom) simp_all
  show ?thesis
    using assms by (simp add: w r state_used_nonces rfc_nonces_distinct)
qed

theorem nonces_never_repeat_witness:
  "(\<exists>ivs. used_nonces (write_get_nonce toy_suite) write_increment_counter 3
      \<lparr>w_state = (KeyScheduleState_new toy_suite)\<lparr>counter := 5\<rparr>, binder_key = Uninitialized\<rparr> =
      (Ok ivs, \<lparr>w_state = (KeyScheduleState_new toy_suite)\<lparr>counter := 8\<rparr>, binder_key = Uninitialized\<rparr>) \<and> distinct ivs) \<and>
   fst (used_nonces (read_get_nonce toy_suite) read_increment_counter 3
      \<lparr>r_state = (KeyScheduleState_new toy_suite)\<lparr>counter := - 2\<rparr>, transcript_hash = []\<rparr>) = Panic"
proof -
  have "unat (- 2 :: u64) + 3 \<ge> 2 ^ 64" by simp
  then show ?thesis
    using nonces_never_repeat [of "\<lparr>w_state = (KeyScheduleState_new toy_suite)\<lparr>counter := 5\<rparr>, binder_key = Uninitialized\<rparr>" toy_suite
        "\<lparr>r_state = (KeyScheduleState_new toy_suite)\<lparr>counter := - 2\<rparr>, transcript_hash = []\<rparr>" 3]
    by (simp add: KeyScheduleState_new_def)
qed

end
