(* ===== verification/Handshake_Messages.thy ===== *)
theory Handshake_Messages
  imports Extension_Messages Key_Schedule
begin

text \<open>
  The handshake messages of \<open>src/src/handshake/\<close> that a server sends, and the client's
  Certificate and CertificateVerify: \<open>certificate.rs\<close>, \<open>certificate_request.rs\<close>,
  \<open>certificate_verify.rs\<close>, \<open>encrypted_extensions.rs\<close>, \<open>new_session_ticket.rs\<close>,
  \<open>server_hello.rs\<close>, and \<open>HandshakeType\<close> and \<open>ServerHandshake\<close> of \<open>mod.rs\<close>. The lemmas show
  that no input makes a parser panic, that the transcript digest takes exactly the bytes of
  the message read, and that certificates are read back as written.
\<close>

section \<open>Handshake types (mod.rs)\<close>

datatype HandshakeType =
    HT_ClientHello
  | HT_ServerHello
  | HT_NewSessionTicket
  | HT_EndOfEarlyData
  | HT_EncryptedExtensions
  | HT_Certificate
  | HT_CertificateRequest
  | HT_CertificateVerify
  | HT_Finished
  | HT_KeyUpdate
  | HT_MessageHash

fun HandshakeType_as_u8 :: "HandshakeType \<Rightarrow> u8" where
  "HandshakeType_as_u8 HT_ClientHello = 1"
| "HandshakeType_as_u8 HT_ServerHello = 2"
| "HandshakeType_as_u8 HT_NewSessionTicket = 4"
| "HandshakeType_as_u8 HT_EndOfEarlyData = 5"
| "HandshakeType_as_u8 HT_EncryptedExtensions = 8"
| "HandshakeType_as_u8 HT_Certificate = 11"
| "HandshakeType_as_u8 HT_CertificateRequest = 13"
| "HandshakeType_as_u8 HT_CertificateVerify = 15"
| "HandshakeType_as_u8 HT_Finished = 20"
| "HandshakeType_as_u8 HT_KeyUpdate = 24"
| "HandshakeType_as_u8 HT_MessageHash = 254"

definition HandshakeType_of_u8 :: "u8 \<Rightarrow> HandshakeType option" where
  "HandshakeType_of_u8 v =
    (if v = 1 then Some HT_ClientHello
     else if v = 2 then Some HT_ServerHello
     else if v = 4 then Some HT_NewSessionTicket
     else if v = 5 then Some HT_EndOfEarlyData
     else if v = 8 then Some HT_EncryptedExtensions
     else if v = 11 then Some HT_Certificate
     else if v = 13 then Some HT_CertificateRequest
     else if v = 15 then Some HT_CertificateVerify
     else if v = 20 then Some HT_Finished
     else if v = 24 then Some HT_KeyUpdate
     else if v = 254 then Some HT_MessageHash
     else None)"

definition HandshakeType_parse :: "(ParseBuffer, HandshakeType, ParseError) prog" where
  "HandshakeType_parse = bnd pb_read_u8 (\<lambda>v. ok_or PE_InvalidData (HandshakeType_of_u8 v))"

interpretation handshake_type_code: u8_code HandshakeType_as_u8 HandshakeType_of_u8
proof
  show "HandshakeType_of_u8 (HandshakeType_as_u8 x) = Some x" for x
    by (cases x) (simp_all add: HandshakeType_of_u8_def)
  show "HandshakeType_of_u8 v = Some x \<Longrightarrow> HandshakeType_as_u8 x = v" for v x
    by (auto simp: HandshakeType_of_u8_def split: if_splits)
qed

definition LEGACY_VERSION :: u16 where
  "LEGACY_VERSION = 0x0303"

section \<open>Certificates (certificate.rs)\<close>

datatype CertificateEntryRef = CER_X509 bytes | CER_RawPublicKey bytes

record CertificateRef =
  cr_raw_entries :: bytes
  cr_request_context :: bytes
  cr_entries :: "CertificateEntryRef list"

definition CertificateRef_with_context :: "bytes \<Rightarrow> CertificateRef" where
  "CertificateRef_with_context context =
     \<lparr>cr_raw_entries = [], cr_request_context = context, cr_entries = []\<rparr>"

definition CertificateRef_add :: "CertificateEntryRef \<Rightarrow> (CertificateRef, unit, TlsError) prog" where
  "CertificateRef_add entry = (\<lambda>c. case vec_push 16 (cr_entries c) entry of
     Some es \<Rightarrow> (Ok (), c\<lparr>cr_entries := es\<rparr>) | None \<Rightarrow> (Err InsufficientSpace, c))"

definition CertificateEntryRef_parse :: "(ParseBuffer, CertificateEntryRef, TlsError) prog" where
  "CertificateEntryRef_parse =
     bnd (map_err (\<lambda>_. InvalidCertificateEntry) pb_read_u24) (\<lambda>entry_len.
     bnd (map_err (\<lambda>_. InvalidCertificateEntry) (pb_slice (unat entry_len))) (\<lambda>cert.
     seq (CertificateExtension_parse_vector 2) (
     ret (CER_X509 (pb_as_slice cert)))))"

text \<open>The loop of \<open>parse_vector\<close>; \<open>room\<close> is the capacity the result has left, so it ends.\<close>

fun cert_entries_loop ::
  "nat \<Rightarrow> ParseBuffer \<Rightarrow> CertificateEntryRef list \<Rightarrow> (CertificateEntryRef list, TlsError) result" where
  "cert_entries_loop room buf acc =
     (if pb_is_empty buf then Ok acc
      else case CertificateEntryRef_parse buf of
        (Err e, _) \<Rightarrow> Err e
      | (Panic, _) \<Rightarrow> Panic
      | (Ok v, buf') \<Rightarrow>
          (case room of 0 \<Rightarrow> Err DecodeError | Suc room' \<Rightarrow> cert_entries_loop room' buf' (acc @ [v])))"

declare cert_entries_loop.simps [simp del]

definition CertificateEntryRef_parse_vector ::
  "nat \<Rightarrow> ParseBuffer \<Rightarrow> (CertificateEntryRef list, TlsError) result" where
  "CertificateEntryRef_parse_vector N buf = cert_entries_loop N buf []"

definition CertificateRef_parse :: "(ParseBuffer, CertificateRef, TlsError) prog" where
  "CertificateRef_parse =
     bnd (map_err (\<lambda>_. InvalidCertificate) pb_read_u8) (\<lambda>request_context_len.
     bnd (map_err (\<lambda>_. InvalidCertificate) (pb_slice (unat request_context_len))) (\<lambda>request_context.
     bnd (map_err (\<lambda>_. InvalidCertificate) pb_read_u24) (\<lambda>entries_len.
     bnd (map_err (\<lambda>_. InvalidCertificate) (pb_slice (unat entries_len))) (\<lambda>raw_entries.
     bnd (from_result (CertificateEntryRef_parse_vector 16 raw_entries)) (\<lambda>entries.
     ret \<lparr>cr_raw_entries = pb_as_slice raw_entries, cr_request_context = pb_as_slice request_context,
          cr_entries = entries\<rparr>)))))"

text \<open>A raw public key hits the \<open>todo!()\<close> of \<open>encode\<close>.\<close>

definition CertificateEntryRef_encode :: "CertificateEntryRef \<Rightarrow> unit encoder" where
  "CertificateEntryRef_encode x =
     seq (case x of
            CER_RawPublicKey _ \<Rightarrow> panic
          | CER_X509 cert \<Rightarrow> cb_with_u24_length (cb_extend_from_slice cert))
         (cb_push_u16 0)"

definition CertificateRef_encode :: "CertificateRef \<Rightarrow> unit encoder" where
  "CertificateRef_encode x =
     seq (cb_with_u8_length (cb_extend_from_slice (cr_request_context x)))
         (cb_with_u24_length (for_each (cr_entries x) CertificateEntryRef_encode))"

fun CertificateEntryRef_from :: "Certificate \<Rightarrow> CertificateEntryRef" where
  "CertificateEntryRef_from (Cert_X509 data) = CER_X509 data"
| "CertificateEntryRef_from (Cert_RawPublicKey data) = CER_RawPublicKey data"

text \<open>The owned \<open>Certificate<N>\<close> and the two conversions.\<close>

record OwnedCertificate =
  oc_request_context :: bytes
  oc_entries_data :: bytes

definition OwnedCertificate_try_from :: "nat \<Rightarrow> CertificateRef \<Rightarrow> (OwnedCertificate, TlsError) result" where
  "OwnedCertificate_try_from N cert =
     and_then (or_err OutOfMemory (vec_extend 256 [] (cr_request_context cert))) (\<lambda>context.
     and_then (or_err OutOfMemory (vec_extend N [] (cr_raw_entries cert))) (\<lambda>data.
     Ok \<lparr>oc_request_context = context, oc_entries_data = data\<rparr>))"

definition CertificateRef_try_from :: "OwnedCertificate \<Rightarrow> (CertificateRef, TlsError) result" where
  "CertificateRef_try_from cert =
     and_then (CertificateEntryRef_parse_vector 16 (pb_new (oc_entries_data cert))) (\<lambda>entries.
     Ok \<lparr>cr_raw_entries = oc_entries_data cert, cr_request_context = oc_request_context cert,
         cr_entries = entries\<rparr>)"

section \<open>Certificate requests (certificate\_request.rs)\<close>

datatype CertificateRequestRef = CertificateRequestRef (crr_request_context: bytes)

datatype CertificateRequest = CertificateRequest (creq_request_context: bytes)

definition CertificateRequestRef_parse :: "(ParseBuffer, CertificateRequestRef, TlsError) prog" where
  "CertificateRequestRef_parse =
     bnd (map_err (\<lambda>_. InvalidCertificateRequest) pb_read_u8) (\<lambda>request_context_len.
     bnd (map_err (\<lambda>_. InvalidCertificateRequest) (pb_slice (unat request_context_len))) (\<lambda>request_context.
     seq (CertificateRequestExtension_parse_vector 6) (
     ret (CertificateRequestRef (pb_as_slice request_context)))))"

definition CertificateRequest_try_from :: "CertificateRequestRef \<Rightarrow> (CertificateRequest, TlsError) result" where
  "CertificateRequest_try_from cert =
     and_then (or_err InsufficientSpace (vec_extend 256 [] (crr_request_context cert))) (\<lambda>context.
     Ok (CertificateRequest context))"

section \<open>Certificate verification (certificate\_verify.rs)\<close>

record CertificateVerify =
  signature_scheme :: SignatureScheme
  signature :: bytes

definition CertificateVerifyRef_parse :: "(ParseBuffer, CertificateVerify, TlsError) prog" where
  "CertificateVerifyRef_parse =
     bnd (map_err (\<lambda>_. InvalidSignatureScheme) SignatureScheme_parse) (\<lambda>scheme.
     bnd (map_err (\<lambda>_. InvalidSignature) pb_read_u16) (\<lambda>len.
     bnd (map_err (\<lambda>_. InvalidSignature) (pb_slice (unat len))) (\<lambda>sig.
     ret \<lparr>signature_scheme = scheme, signature = pb_as_slice sig\<rparr>)))"

text \<open>\<open>SIGNATURE_SIZE\<close> depends on the \<open>rsa\<close> feature.\<close>

definition SIGNATURE_SIZE :: "bool \<Rightarrow> nat" where
  "SIGNATURE_SIZE rsa = (if rsa then 512 else 104)"

definition CertificateVerify_encode :: "CertificateVerify \<Rightarrow> unit encoder" where
  "CertificateVerify_encode x =
     seq (cb_push_u16 (SignatureScheme_as_u16 (signature_scheme x)))
         (cb_with_u16_length (cb_extend_from_slice (signature x)))"

section \<open>Encrypted extensions and session tickets\<close>

datatype EncryptedExtensions = EncryptedExtensions

definition EncryptedExtensions_parse :: "(ParseBuffer, EncryptedExtensions, TlsError) prog" where
  "EncryptedExtensions_parse =
     seq (EncryptedExtensionsExtension_parse_vector 16) (ret EncryptedExtensions)"

datatype NewSessionTicket = NewSessionTicket

definition NewSessionTicket_parse :: "(ParseBuffer, NewSessionTicket, TlsError) prog" where
  "NewSessionTicket_parse =
     bnd (map_err TlsError_from pb_read_u32) (\<lambda>lifetime.
     bnd (map_err TlsError_from pb_read_u32) (\<lambda>age_add.
     bnd (map_err TlsError_from pb_read_u8) (\<lambda>nonce_length.
     bnd (map_err (\<lambda>_. InvalidNonceLength) (pb_slice (unat nonce_length))) (\<lambda>nonce.
     bnd (map_err TlsError_from pb_read_u16) (\<lambda>ticket_length.
     bnd (map_err (\<lambda>_. InvalidTicketLength) (pb_slice (unat ticket_length))) (\<lambda>ticket.
     seq (NewSessionTicketExtension_parse_vector 1) (
     ret NewSessionTicket)))))))"

section \<open>ServerHello (server\_hello.rs)\<close>

datatype ServerHello = ServerHello (sh_extensions: "ServerHelloExtension list")

definition ServerHello_parse :: "(ParseBuffer, ServerHello, TlsError) prog" where
  "ServerHello_parse =
     bnd (map_err (\<lambda>_. InvalidHandshake) pb_read_u16) (\<lambda>_.
     bnd (map_err TlsError_from (pb_fill 32)) (\<lambda>random.
     bnd (map_err (\<lambda>_. InvalidSessionIdLength) pb_read_u8) (\<lambda>session_id_length.
     bnd (map_err (\<lambda>_. InvalidSessionIdLength) (pb_slice (unat session_id_length))) (\<lambda>session_id.
     bnd (map_err (\<lambda>_. InvalidCipherSuite) CipherSuite_parse) (\<lambda>cipher_suite.
     bnd (map_err TlsError_from pb_read_u8) (\<lambda>_.
     bnd (ServerHelloExtension_parse_vector 4) (\<lambda>extensions.
     ret (ServerHello extensions))))))))"

text \<open>\<open>key_share\<close>: the first key share among the extensions.\<close>

fun find_key_share :: "ServerHelloExtension list \<Rightarrow> KeyShareEntry option" where
  "find_key_share [] = None"
| "find_key_share (e # es) = (case e of SHE_KeyShare k \<Rightarrow> Some (server_share k) | _ \<Rightarrow> find_key_share es)"

definition ServerHello_key_share :: "ServerHello \<Rightarrow> KeyShareEntry option" where
  "ServerHello_key_share x = find_key_share (sh_extensions x)"

text \<open>\<open>calculate_shared_secret\<close>; \<open>dh secret bytes\<close> is \<open>PublicKey::from_sec1_bytes\<close> followed by
  \<open>EphemeralSecret::diffie_hellman\<close>, \<^const>\<open>None\<close> when the point is rejected.\<close>

definition ServerHello_calculate_shared_secret ::
  "('s \<Rightarrow> bytes \<Rightarrow> bytes option) \<Rightarrow> 's \<Rightarrow> ServerHello \<Rightarrow> bytes option" where
  "ServerHello_calculate_shared_secret dh secret x =
     (case ServerHello_key_share x of None \<Rightarrow> None | Some e \<Rightarrow> dh secret (opaque e))"

section \<open>Server handshake messages (mod.rs)\<close>

datatype ServerHandshake =
    SH_ServerHello ServerHello
  | SH_EncryptedExtensions EncryptedExtensions
  | SH_NewSessionTicket NewSessionTicket
  | SH_Certificate CertificateRef
  | SH_CertificateRequest CertificateRequestRef
  | SH_CertificateVerify CertificateVerify
  | SH_Finished Finished

fun ServerHandshake_handshake_type :: "ServerHandshake \<Rightarrow> HandshakeType" where
  "ServerHandshake_handshake_type (SH_ServerHello _) = HT_ServerHello"
| "ServerHandshake_handshake_type (SH_EncryptedExtensions _) = HT_EncryptedExtensions"
| "ServerHandshake_handshake_type (SH_NewSessionTicket _) = HT_NewSessionTicket"
| "ServerHandshake_handshake_type (SH_Certificate _) = HT_Certificate"
| "ServerHandshake_handshake_type (SH_CertificateRequest _) = HT_CertificateRequest"
| "ServerHandshake_handshake_type (SH_CertificateVerify _) = HT_CertificateVerify"
| "ServerHandshake_handshake_type (SH_Finished _) = HT_Finished"

definition ServerHandshake_parse ::
  "('h, 'k) TlsCipherSuite \<Rightarrow> (ParseBuffer, ServerHandshake, TlsError) prog" where
  "ServerHandshake_parse cs =
     bnd (map_err (\<lambda>_. InvalidHandshake) HandshakeType_parse) (\<lambda>handshake_type.
     bnd (map_err (\<lambda>_. InvalidHandshake) pb_read_u24) (\<lambda>content_len.
     case handshake_type of
       HT_ServerHello \<Rightarrow> bnd ServerHello_parse (\<lambda>x. ret (SH_ServerHello x))
     | HT_NewSessionTicket \<Rightarrow> bnd NewSessionTicket_parse (\<lambda>x. ret (SH_NewSessionTicket x))
     | HT_EncryptedExtensions \<Rightarrow> bnd EncryptedExtensions_parse (\<lambda>x. ret (SH_EncryptedExtensions x))
     | HT_Certificate \<Rightarrow> bnd CertificateRef_parse (\<lambda>x. ret (SH_Certificate x))
     | HT_CertificateRequest \<Rightarrow> bnd CertificateRequestRef_parse (\<lambda>x. ret (SH_CertificateRequest x))
     | HT_CertificateVerify \<Rightarrow> bnd CertificateVerifyRef_parse (\<lambda>x. ret (SH_CertificateVerify x))
     | HT_Finished \<Rightarrow> bnd (Finished_parse cs content_len) (\<lambda>x. ret (SH_Finished x))
     | _ \<Rightarrow> fail Unimplemented))"

text \<open>\<open>read\<close>: the state is the cursor together with the transcript digest. A Finished carries the
  hash of the transcript before the message.\<close>

definition ServerHandshake_read ::
  "('h, 'k) TlsCipherSuite \<Rightarrow> (ParseBuffer \<times> 'h, ServerHandshake, TlsError) prog" where
  "ServerHandshake_read cs = (\<lambda>(buf, digest).
     let handshake_start = pb_offset buf in
     case ServerHandshake_parse cs buf of
       (Err e, buf') \<Rightarrow> (Err e, buf', digest)
     | (Panic, buf') \<Rightarrow> (Panic, buf', digest)
     | (Ok handshake, buf') \<Rightarrow>
         let handshake_end = pb_offset buf' in
         if handshake_start \<le> handshake_end \<and> handshake_end \<le> length (pb_as_slice buf') then
           (Ok (case handshake of
                  SH_Finished finished \<Rightarrow> SH_Finished (finished\<lparr>fin_hash := Some (digest_finalize cs digest)\<rparr>)
                | h \<Rightarrow> h),
            buf', digest_update cs digest (slice_of (pb_as_slice buf') handshake_start handshake_end))
         else (Panic, buf', digest))"

section \<open>Panic freedom\<close>

lemma code_parsers_safe [safe_intros]:
  "pb_safe HandshakeType_parse" "pb_safe CipherSuite_parse"
  unfolding HandshakeType_parse_def CipherSuite_parse_def by (intro safe_intros)+

lemma CertificateEntryRef_safe [safe_intros]: "pb_safe CertificateEntryRef_parse"
  unfolding CertificateEntryRef_parse_def by (intro safe_intros)

lemma cert_entries_loop_no_panic:
  "pb_ok buf \<Longrightarrow> cert_entries_loop room buf acc \<noteq> Panic"
proof (induction room arbitrary: buf acc)
  case 0
  then show ?case using pb_safeD [OF CertificateEntryRef_safe 0]
    by (subst cert_entries_loop.simps) (auto split: prod.splits result.splits)
next
  case (Suc room)
  obtain r b' where p: "CertificateEntryRef_parse buf = (r, b')" by fastforce
  from pb_safeD [OF CertificateEntryRef_safe Suc.prems p] have "r \<noteq> Panic" "pb_ok b'"
    by (auto dest: pb_advances_ok)
  then show ?case
    using p Suc.IH [of b'] by (subst cert_entries_loop.simps) (auto split: result.splits)
qed

lemma CertificateRef_tail_safe:
  "pb_safe (bnd (map_err f (pb_slice n)) (\<lambda>raw. bnd (from_result (CertificateEntryRef_parse_vector 16 raw)) (\<lambda>es. ret (g raw es))))"
proof -
  have "CertificateEntryRef_parse_vector 16 (pb_new d) \<noteq> Panic" for d
    by (simp add: CertificateEntryRef_parse_vector_def cert_entries_loop_no_panic)
  then show ?thesis
    by (auto simp: pb_safe_def bnd_def map_err_def pb_slice_value pb_advances_def pb_ok_def split: result.splits)
qed

lemma message_parsers_safe [safe_intros]:
  "pb_safe CertificateRef_parse" "pb_safe CertificateRequestRef_parse"
  "pb_safe CertificateVerifyRef_parse" "pb_safe EncryptedExtensions_parse"
  "pb_safe NewSessionTicket_parse" "pb_safe ServerHello_parse" "pb_safe (Finished_parse cs n)"
  unfolding CertificateRef_parse_def CertificateRequestRef_parse_def CertificateVerifyRef_parse_def
    EncryptedExtensions_parse_def NewSessionTicket_parse_def ServerHello_parse_def Finished_parse_def
  by (intro CertificateRef_tail_safe safe_intros)+

lemma ServerHandshake_parse_safe: "pb_safe (ServerHandshake_parse cs)"
  unfolding ServerHandshake_parse_def
  by (intro safe_intros; rename_tac t n; case_tac t; simp; intro safe_intros)

section \<open>Wire formats\<close>

fun entry_dom :: "CertificateEntryRef \<Rightarrow> bool" where
  "entry_dom (CER_X509 c) \<longleftrightarrow> length c < 16777216"
| "entry_dom (CER_RawPublicKey _) \<longleftrightarrow> False"

fun entry_wire :: "CertificateEntryRef \<Rightarrow> bytes" where
  "entry_wire (CER_X509 c) = prefixed24 c @ [0, 0]"
| "entry_wire (CER_RawPublicKey c) = []"

definition CertificateRef_wire :: "CertificateRef \<Rightarrow> bytes" where
  "CertificateRef_wire x = prefixed8 (cr_request_context x) @ prefixed24 (concat (map entry_wire (cr_entries x)))"

definition CertificateRef_dom :: "CertificateRef \<Rightarrow> bool" where
  "CertificateRef_dom x \<longleftrightarrow> length (cr_request_context x) < 256 \<and> list_all entry_dom (cr_entries x) \<and>
     length (cr_entries x) \<le> 16 \<and> length (concat (map entry_wire (cr_entries x))) < 16777216"

lemma parses_prefixed24:
  assumes "length bs < 16777216" "parses (f (pb_new bs)) w v"
  shows "parses (bnd (map_err e pb_read_u24) (\<lambda>n. bnd (map_err e (pb_slice (unat n))) f)) (prefixed24 bs @ w) v"
  unfolding prefixed24_def append.assoc
  by (intro parses_bnd [OF parses_map_err [OF parses_u24]] parses_bnd [OF parses_map_err [OF parses_slice]] assms)
    (use assms in simp_all)

lemma parses_prefixed8:
  assumes "length bs < 256" "parses (f (pb_new bs)) w v"
  shows "parses (bnd (map_err e pb_read_u8) (\<lambda>n. bnd (map_err e (pb_slice (unat n))) f)) (prefixed8 bs @ w) v"
  unfolding prefixed8_def append.assoc
  by (intro parses_bnd [OF parses_map_err [OF parses_u8]] parses_bnd [OF parses_map_err [OF parses_slice]] assms)
    (use assms in simp_all)

lemma parses_empty_block: "parses (CertificateExtension_parse_vector N) [0, 0] []"
proof -
  have "prefixed16 [] = [0, 0]" by (simp add: prefixed16_def u16_to_be_bytes_def)
  then show ?thesis
    using certificate_ext.block_parses [of "[]" N] by (simp add: CertificateExtension_parse_vector_def)
qed

lemma entry_parses:
  assumes "entry_dom e"
  shows "parses CertificateEntryRef_parse (entry_wire e) e"
proof -
  obtain c where e: "e = CER_X509 c" "length c < 16777216" using assms by (cases e) auto
  have "parses (seq (CertificateExtension_parse_vector 2) (ret (CER_X509 (pb_as_slice (pb_new c))))) ([0, 0] @ []) e"
    by (intro parses_bnd [OF parses_empty_block]) (simp add: e parses_ret pb_as_slice_def pb_new_def)
  then show ?thesis
    unfolding CertificateEntryRef_parse_def e(1) entry_wire.simps
    by (intro parses_prefixed24) (simp_all add: e)
qed

lemma entry_appends: "entry_dom e \<Longrightarrow> appends (CertificateEntryRef_encode e) (entry_wire e)"
proof -
  assume "entry_dom e"
  then obtain c where e: "e = CER_X509 c" by (cases e) auto
  have z: "u16_to_be_bytes 0 = [0, 0]" by (simp add: u16_to_be_bytes_def)
  show ?thesis
    unfolding e CertificateEntryRef_encode_def CertificateEntryRef.case entry_wire.simps z [symmetric]
    by (intro codec_intros)
qed

lemma cert_entries_loop_complete:
  assumes "list_all entry_dom es" "length es \<le> room"
    and "took b (concat (map entry_wire es)) b'" "pb_is_empty b'"
  shows "cert_entries_loop room b acc = Ok (acc @ es)"
  using assms
proof (induction es arbitrary: room b acc)
  case Nil
  then show ?case by (subst cert_entries_loop.simps) simp
next
  case (Cons e es)
  then obtain c where c: "took b (entry_wire e) c" "took c (concat (map entry_wire es)) b'"
    by (auto simp: took_append)
  with Cons.prems have p: "CertificateEntryRef_parse b = (Ok e, c)" by (auto intro: parsesD [OF entry_parses])
  have "entry_wire e \<noteq> []" using Cons.prems(1) by (cases e) (auto simp: prefixed24_def)
  then have "\<not> pb_is_empty b"
    using c(1) by (auto simp: took_def pb_is_empty_def)
  moreover from Cons.prems(2) obtain r where "room = Suc r" "length es \<le> r"
    by (cases room) auto
  ultimately show ?case
    using Cons.IH [of r c "acc @ [e]"] Cons.prems c p by (subst cert_entries_loop.simps) simp
qed

lemma CertificateRef_appends:
  "list_all entry_dom (cr_entries x) \<Longrightarrow> appends (CertificateRef_encode x) (CertificateRef_wire x)"
  unfolding CertificateRef_encode_def CertificateRef_wire_def
  by (intro codec_intros appends_for_each entry_appends) (auto simp: list_all_iff)

lemma CertificateRef_parses:
  assumes "CertificateRef_dom x"
  shows "parses CertificateRef_parse (CertificateRef_wire x)
    (x\<lparr>cr_raw_entries := concat (map entry_wire (cr_entries x))\<rparr>)"
proof -
  let ?w = "concat (map entry_wire (cr_entries x))"
  have "CertificateEntryRef_parse_vector 16 (pb_new ?w) = Ok ([] @ cr_entries x)"
    unfolding CertificateEntryRef_parse_vector_def
    by (rule cert_entries_loop_complete [OF _ _ took_whole])
      (use assms in \<open>simp_all add: CertificateRef_dom_def pb_is_empty_def\<close>)
  then have "parses (bnd (from_result (CertificateEntryRef_parse_vector 16 (pb_new ?w))) (\<lambda>entries.
      ret \<lparr>cr_raw_entries = pb_as_slice (pb_new ?w), cr_request_context = pb_as_slice (pb_new (cr_request_context x)),
           cr_entries = entries\<rparr>)) [] (x\<lparr>cr_raw_entries := ?w\<rparr>)"
    by (cases x) (simp add: parses_iff bnd_def pb_as_slice_def pb_new_def)
  then show ?thesis
    using assms unfolding CertificateRef_parse_def CertificateRef_wire_def CertificateRef_dom_def
    by (intro parses_prefixed8 parses_prefixed24 [where w = "[]", simplified append_Nil2]) simp_all
qed

lemma CertificateVerify_parses:
  assumes "length (signature x) < 65536"
  shows "parses CertificateVerifyRef_parse
    (SignatureScheme_wire (signature_scheme x) @ prefixed16 (signature x)) x"
proof -
  have "parses (bnd (map_err (\<lambda>_. InvalidSignature) pb_read_u16) (\<lambda>len.
      bnd (map_err (\<lambda>_. InvalidSignature) (pb_slice (unat len))) (\<lambda>sig.
      ret \<lparr>signature_scheme = signature_scheme x, signature = pb_as_slice sig\<rparr>))) (prefixed16 (signature x) @ []) x"
    unfolding prefixed16_def append.assoc
    by (intro parses_bnd [OF parses_map_err [OF parses_u16]] parses_bnd [OF parses_map_err [OF parses_slice]] parses_retI)
      (use assms in \<open>simp_all add: pb_as_slice_def pb_new_def\<close>)
  then show ?thesis
    unfolding CertificateVerifyRef_parse_def
    by (intro parses_bnd [OF parses_map_err [OF signature_scheme.par_complete [OF TrueI]]]) simp
qed

lemma CertificateVerify_appends:
  "appends (CertificateVerify_encode x) (SignatureScheme_wire (signature_scheme x) @ prefixed16 (signature x))"
  unfolding CertificateVerify_encode_def SignatureScheme_wire_def by (intro codec_intros)

lemma Finished_message_parses:
  assumes "length v = HashOutputSize cs" "length v < 16777216"
  shows "parses (ServerHandshake_parse cs) ([20] @ prefixed24 v) (SH_Finished \<lparr>fin_verify = v, fin_hash = None\<rparr>)"
proof -
  have t: "parses HandshakeType_parse [20] HT_Finished"
    using handshake_type_code.par_complete [of HT_Finished] by (simp add: HandshakeType_parse_def)
  have f: "parses (Finished_parse cs n) v \<lparr>fin_verify = v, fin_hash = None\<rparr>" for n
    unfolding Finished_parse_def
    by (rule parses_wrap [OF parses_map_err [OF parses_fill]]) (simp_all add: assms)
  show ?thesis
    unfolding ServerHandshake_parse_def prefixed24_def
    by (intro parses_bnd [OF parses_map_err [OF t]] parses_bnd [OF parses_map_err [OF parses_u24]])
      (use assms in \<open>simp_all add: parses_wrap [OF f]\<close>)
qed

lemma ServerHello_message_parses:
  assumes "length rnd = 32" "length sid < 256" "parses (ServerHelloExtension_parse_vector 4) exw es"
    and "body = u16_to_be_bytes ver @ rnd @ [of_nat (length sid)] @ sid @ u16_to_be_bytes (CipherSuite_as_u16 suite) @ [cm] @ exw"
    and "length body < 16777216"
  shows "parses (ServerHandshake_parse cs) ([2] @ prefixed24 body) (SH_ServerHello (ServerHello es))"
proof -
  have t: "parses HandshakeType_parse [2] HT_ServerHello"
    using handshake_type_code.par_complete [of HT_ServerHello] by (simp add: HandshakeType_parse_def)
  have c: "parses CipherSuite_parse (u16_to_be_bytes (CipherSuite_as_u16 suite)) suite"
    using cipher_suite_code.par_complete [of suite] by (simp add: CipherSuite_parse_def)
  have "parses ServerHello_parse (u16_to_be_bytes ver @ rnd @ [of_nat (length sid)] @ sid @
      u16_to_be_bytes (CipherSuite_as_u16 suite) @ [cm] @ exw) (ServerHello es)"
    unfolding ServerHello_parse_def
    by (intro parses_bnd [OF parses_map_err [OF parses_u16]] parses_bnd [OF parses_map_err [OF parses_fill]]
        parses_bnd [OF parses_map_err [OF parses_u8]] parses_bnd [OF parses_map_err [OF parses_slice]]
        parses_bnd [OF parses_map_err [OF c]] parses_wrap [OF assms(3)] refl) (simp_all add: assms(1,2))
  then have b: "parses ServerHello_parse body (ServerHello es)" unfolding assms(4) .
  show ?thesis
    unfolding ServerHandshake_parse_def prefixed24_def
    by (intro parses_bnd [OF parses_map_err [OF t]] parses_bnd [OF parses_map_err [OF parses_u24]])
      (use assms(5) in \<open>simp_all add: parses_wrap [OF b]\<close>)
qed

lemma EncryptedExtensions_message_parses:
  assumes "parses (EncryptedExtensionsExtension_parse_vector 16) exw es" "length exw < 16777216"
  shows "parses (ServerHandshake_parse cs) ([8] @ prefixed24 exw) (SH_EncryptedExtensions EncryptedExtensions)"
proof -
  have t: "parses HandshakeType_parse [8] HT_EncryptedExtensions"
    using handshake_type_code.par_complete [of HT_EncryptedExtensions] by (simp add: HandshakeType_parse_def)
  have e: "parses EncryptedExtensions_parse exw EncryptedExtensions"
    unfolding EncryptedExtensions_parse_def by (rule parses_wrap [OF assms(1) refl])
  show ?thesis
    unfolding ServerHandshake_parse_def prefixed24_def
    by (intro parses_bnd [OF parses_map_err [OF t]] parses_bnd [OF parses_map_err [OF parses_u24]])
      (use assms(2) in \<open>simp_all add: parses_wrap [OF e]\<close>)
qed

lemma Certificate_message_parses:
  assumes "CertificateRef_dom x" "length (CertificateRef_wire x) < 16777216"
  shows "parses (ServerHandshake_parse cs) ([11] @ prefixed24 (CertificateRef_wire x))
    (SH_Certificate (x\<lparr>cr_raw_entries := concat (map entry_wire (cr_entries x))\<rparr>))"
proof -
  have t: "parses HandshakeType_parse [11] HT_Certificate"
    using handshake_type_code.par_complete [of HT_Certificate] by (simp add: HandshakeType_parse_def)
  show ?thesis
    unfolding ServerHandshake_parse_def prefixed24_def
    by (intro parses_bnd [OF parses_map_err [OF t]] parses_bnd [OF parses_map_err [OF parses_u24]])
      (use assms(2) in \<open>simp_all add: parses_wrap [OF CertificateRef_parses [OF assms(1)]]\<close>)
qed

lemma CertificateVerify_message_parses:
  assumes "length (signature x) < 65536"
  shows "parses (ServerHandshake_parse cs)
    ([15] @ prefixed24 (SignatureScheme_wire (signature_scheme x) @ prefixed16 (signature x))) (SH_CertificateVerify x)"
proof -
  have t: "parses HandshakeType_parse [15] HT_CertificateVerify"
    using handshake_type_code.par_complete [of HT_CertificateVerify] by (simp add: HandshakeType_parse_def)
  define w where "w = SignatureScheme_wire (signature_scheme x) @ prefixed16 (signature x)"
  have l: "length w < 16777216" using assms by (simp add: w_def SignatureScheme_wire_def prefixed16_def)
  have p: "parses CertificateVerifyRef_parse w x" unfolding w_def by (rule CertificateVerify_parses [OF assms])
  show ?thesis
    unfolding ServerHandshake_parse_def w_def [symmetric] prefixed24_def
    by (intro parses_bnd [OF parses_map_err [OF t]] parses_bnd [OF parses_map_err [OF parses_u24]])
      (use l in \<open>simp_all add: parses_wrap [OF p]\<close>)
qed

section \<open>Properties\<close>

text \<open>No byte sequence makes the parser of server handshake messages panic, and reading a
  message never panics either; on success the transcript digest is updated with exactly the
  bytes the message occupies, a Finished carries the hash of the transcript before it, and on
  an error the digest is untouched.\<close>

theorem server_handshake_read_transcript:
  assumes "pb_ok b"
  shows "case ServerHandshake_read cs (b, h) of
      (Panic, _) \<Rightarrow> False
    | (Err e, b', h') \<Rightarrow> ServerHandshake_parse cs b = (Err e, b') \<and> h' = h
    | (Ok m, b', h') \<Rightarrow>
        (\<exists>m0. ServerHandshake_parse cs b = (Ok m0, b') \<and>
           m = (case m0 of SH_Finished f \<Rightarrow> SH_Finished (f\<lparr>fin_hash := Some (digest_finalize cs h)\<rparr>) | _ \<Rightarrow> m0)) \<and>
        pb_advances b b' \<and> h' = digest_update cs h (slice_of (buffer b) (pos b) (pos b'))"
proof -
  obtain r b' where p: "ServerHandshake_parse cs b = (r, b')" by fastforce
  from pb_safeD [OF ServerHandshake_parse_safe assms p] have "r \<noteq> Panic" "pb_advances b b'" by auto
  then show ?thesis
    using p by (cases r)
      (auto simp: ServerHandshake_read_def Let_def pb_offset_def pb_as_slice_def pb_advances_def
        split: ServerHandshake.splits)
qed

theorem server_handshake_read_transcript_witness:
  "fst (ServerHandshake_read toy_suite (\<lparr>pos = 1, buffer = [9, 20, 0, 0, 4, 1, 2, 3, 4, 8]\<rparr>, [7, 7])) =
     Ok (SH_Finished \<lparr>fin_verify = [1, 2, 3, 4], fin_hash = Some [7, 7, 0, 0]\<rparr>) \<and>
   snd (snd (ServerHandshake_read toy_suite (\<lparr>pos = 1, buffer = [9, 20, 0, 0, 4, 1, 2, 3, 4, 8]\<rparr>, [7, 7]))) =
     [7, 7, 20, 0, 0, 4, 1, 2, 3, 4]"
proof -
  let ?b = "\<lparr>pos = 1, buffer = [9, 20, 0, 0, 4, 1, 2, 3, 4, 8]\<rparr> :: ParseBuffer"
  have p: "ServerHandshake_parse toy_suite ?b =
      (Ok (SH_Finished \<lparr>fin_verify = [1, 2, 3, 4], fin_hash = None\<rparr>), ?b\<lparr>pos := 9\<rparr>)"
    by (rule parsesD [OF Finished_message_parses])
      (simp_all add: took_def pb_ok_def prefixed24_def u32_to_be_bytes_def)
  have "toy_fix 4 [7, 7] = [7, 7, 0, 0]" by code_simp
  then show ?thesis
    using server_handshake_read_transcript [of ?b toy_suite "[7, 7]"] p
    by (auto simp: pb_ok_def slice_of_def toy_suite_def split: prod.splits result.splits)
qed

text \<open>A client Certificate message is read back by the certificate parser: the same request
  context and the same X.509 entries in order, with the raw entry bytes recorded; encoding
  fails only for want of room.\<close>

theorem certificate_roundtrip:
  assumes "CertificateRef_dom x"
  shows "roundtrips (CertificateRef_encode x) CertificateRef_parse
    (x\<lparr>cr_raw_entries := concat (map entry_wire (cr_entries x))\<rparr>)"
  by (rule roundtripsI [OF CertificateRef_appends CertificateRef_parses [OF assms]])
    (use assms in \<open>simp add: CertificateRef_dom_def\<close>)

theorem certificate_roundtrip_witness:
  "roundtrips (CertificateRef_encode \<lparr>cr_raw_entries = [], cr_request_context = [5], cr_entries = [CER_X509 [1, 2, 3]]\<rparr>)
     CertificateRef_parse
     \<lparr>cr_raw_entries = [0, 0, 3, 1, 2, 3, 0, 0], cr_request_context = [5], cr_entries = [CER_X509 [1, 2, 3]]\<rparr>"
  using certificate_roundtrip [of "\<lparr>cr_raw_entries = [], cr_request_context = [5], cr_entries = [CER_X509 [1, 2, 3]]\<rparr>"]
  by (simp add: CertificateRef_dom_def prefixed24_def u32_to_be_bytes_def)

text \<open>A CertificateVerify written by the client is read back by the parser of the message.\<close>

theorem certificate_verify_roundtrip:
  assumes "length (signature x) < 65536"
  shows "roundtrips (CertificateVerify_encode x) CertificateVerifyRef_parse x"
  by (rule roundtripsI [OF CertificateVerify_appends CertificateVerify_parses [OF assms]])

theorem certificate_verify_roundtrip_witness:
  "roundtrips (CertificateVerify_encode \<lparr>signature_scheme = SS_Ed25519, signature = [1, 2]\<rparr>)
     CertificateVerifyRef_parse \<lparr>signature_scheme = SS_Ed25519, signature = [1, 2]\<rparr>"
  by (rule certificate_verify_roundtrip) simp

end
