(* ===== verification/Client_Hello.thy ===== *)
theory Client_Hello
  imports Handshake_Messages
begin

text \<open>
  The client's handshake messages: \<open>ClientHello\<close> of \<open>src/src/handshake/client_hello.rs\<close> and
  \<open>ClientHandshake\<close> of \<open>src/src/handshake/mod.rs\<close>, with the trait \<open>CryptoProvider\<close> of
  \<open>config.rs\<close> as a record of operations over the provider's own state \<open>'p\<close>. The lemmas give
  the exact bytes of a ClientHello and show how the PSK binders and the transcript are
  completed by \<open>finalize\<close>.
\<close>

section \<open>Crypto providers (config.rs)\<close>

text \<open>\<open>'s\<close> is an ephemeral P-256 secret, \<open>'h\<close> a digest state. \<open>prov_verifier\<close> says whether
  \<open>verifier()\<close> is \<open>Ok\<close>; the verifier's own methods act on the provider state. \<open>prov_sign\<close>
  is the signing key that \<open>signer()\<close> returns.\<close>

record ('p, 's, 'h) CryptoProvider =
  rng_fill_bytes :: "nat \<Rightarrow> 'p \<Rightarrow> bytes \<times> 'p"
  ephemeral_random :: "'p \<Rightarrow> 's \<times> 'p"
  public_key :: "'s \<Rightarrow> bytes"
  diffie_hellman :: "'s \<Rightarrow> bytes \<Rightarrow> bytes option"
  prov_verifier :: "'p \<Rightarrow> bool"
  set_hostname_verification :: "bytes \<Rightarrow> ('p, unit, TlsError) prog"
  verify_certificate :: "'h \<Rightarrow> CertificateRef \<Rightarrow> ('p, unit, TlsError) prog"
  verify_signature :: "CertificateVerify \<Rightarrow> ('p, unit, TlsError) prog"
  prov_signer :: "('p, SignatureScheme, TlsError) prog"
  prov_sign :: "bytes \<Rightarrow> 'p \<Rightarrow> bytes \<times> 'p"
  prov_client_cert :: "'p \<Rightarrow> Certificate option \<times> 'p"

section \<open>ClientHello\<close>

record 's ClientHello =
  ch_config :: TlsConfig
  ch_random :: bytes
  ch_secret :: 's

definition ClientHello_new ::
  "('p, 's, 'h) CryptoProvider \<Rightarrow> TlsConfig \<Rightarrow> 'p \<Rightarrow> 's ClientHello \<times> 'p" where
  "ClientHello_new P config p =
     (let (random, p1) = rng_fill_bytes P 32 p; (secret, p2) = ephemeral_random P p1 in
      (\<lparr>ch_config = config, ch_random = random, ch_secret = secret\<rparr>, p2))"

definition encode_option :: "('a \<Rightarrow> ClientHelloExtension) \<Rightarrow> 'a option \<Rightarrow> unit encoder" where
  "encode_option c x = (case x of None \<Rightarrow> ret () | Some v \<Rightarrow> ClientHelloExtension_encode (c v))"

definition ClientHello_encode ::
  "('h, 'k) TlsCipherSuite \<Rightarrow> ('s \<Rightarrow> bytes) \<Rightarrow> 's ClientHello \<Rightarrow> unit encoder" where
  "ClientHello_encode cs pk x =
     (let config = ch_config x; public = pk (ch_secret x) in
     seq (map_err (\<lambda>_. EncodeError) (cb_push_u16 LEGACY_VERSION)) (
     seq (map_err (\<lambda>_. EncodeError) (cb_extend_from_slice (ch_random x))) (
     seq (map_err (\<lambda>_. EncodeError) (cb_push 0)) (
     seq (map_err (\<lambda>_. EncodeError) (cb_push_u16 2)) (
     seq (map_err (\<lambda>_. EncodeError) (cb_push_u16 (CODE_POINT cs))) (
     seq (map_err (\<lambda>_. EncodeError) (cb_push 1)) (
     seq (map_err (\<lambda>_. EncodeError) (cb_push 0)) (
     cb_with_u16_length (
       seq (ClientHelloExtension_encode (CHE_SupportedVersions (SupportedVersionsClientHello [TLS13]))) (
       seq (ClientHelloExtension_encode (CHE_SignatureAlgorithms (SignatureAlgorithms (cfg_signature_schemes config)))) (
       seq (encode_option CHE_MaxFragmentLength (cfg_max_fragment_length config)) (
       seq (ClientHelloExtension_encode (CHE_SupportedGroups (SupportedGroups (cfg_named_groups config)))) (
       seq (ClientHelloExtension_encode (CHE_PskKeyExchangeModes (PskKeyExchangeModes [PKM_PskDheKe]))) (
       seq (ClientHelloExtension_encode (CHE_KeyShare (KeyShareClientHello [\<lparr>group = NG_Secp256r1, opaque = public\<rparr>]))) (
       seq (encode_option (\<lambda>n. CHE_ServerName (ServerNameList_single n)) (cfg_server_name config)) (
       seq (encode_option (\<lambda>ps. CHE_ApplicationLayerProtocolNegotiation (AlpnProtocolNameList ps)) (cfg_alpn_protocols config)) (
       encode_option (\<lambda>(_, ids). CHE_PreSharedKey \<lparr>identities = ids, hash_size = HashOutputSize cs\<rparr>) (cfg_psk config)
       )))))))))))))))))"

text \<open>One binder per identity, all over the same transcript, written into the buffer over the
  binder places.\<close>

fun binders_loop ::
  "('h, 'k) TlsCipherSuite \<Rightarrow> 'k WriteKeySchedule \<Rightarrow> 'h \<Rightarrow> bytes list \<Rightarrow> unit encoder" where
  "binders_loop cs wks transcript [] = ret ()"
| "binders_loop cs wks transcript (_ # ids) =
     bnd (from_result (create_psk_binder cs transcript wks)) (\<lambda>binder.
     seq (PskBinder_encode binder) (binders_loop cs wks transcript ids))"

text \<open>\<open>finalize\<close> on the encoded message and the transcript. The slice \<open>enc_buf[0..binders_pos - 2]\<close>
  and the two subtractions panic when the message is too short.\<close>

definition ClientHello_finalize ::
  "('h, 'k) TlsCipherSuite \<Rightarrow> 'k WriteKeySchedule \<Rightarrow> 's ClientHello \<Rightarrow> (bytes \<times> 'h, unit, TlsError) prog" where
  "ClientHello_finalize cs wks x = (\<lambda>(enc_buf, transcript).
     case cfg_psk (ch_config x) of
       None \<Rightarrow> (Ok (), enc_buf, digest_update cs transcript enc_buf)
     | Some (_, ids) \<Rightarrow>
         let binders_len = length ids * (1 + HashOutputSize cs);
             binders_pos = length enc_buf - binders_len in
         if length enc_buf < binders_len \<or> binders_pos < 2 then (Panic, enc_buf, transcript)
         else
           let transcript1 = digest_update cs transcript (take (binders_pos - 2) enc_buf) in
           case binders_loop cs wks transcript1 ids (cb_wrap (drop binders_pos enc_buf)) of
             (r, buf) \<Rightarrow>
               let enc_buf1 = take binders_pos enc_buf @ cb_buf buf in
               (case r of
                  Ok _ \<Rightarrow> (Ok (), enc_buf1, digest_update cs transcript1 (drop (binders_pos - 2) enc_buf1))
                | Err e \<Rightarrow> (Err e, enc_buf1, transcript1)
                | Panic \<Rightarrow> (Panic, enc_buf1, transcript1)))"

section \<open>Client handshake messages (mod.rs)\<close>

datatype 's ClientHandshake =
    CH_ClientCert CertificateRef
  | CH_ClientCertVerify CertificateVerify
  | CH_ClientHello "'s ClientHello"
  | CH_Finished Finished

fun ClientHandshake_handshake_type :: "'s ClientHandshake \<Rightarrow> HandshakeType" where
  "ClientHandshake_handshake_type (CH_ClientHello _) = HT_ClientHello"
| "ClientHandshake_handshake_type (CH_Finished _) = HT_Finished"
| "ClientHandshake_handshake_type (CH_ClientCert _) = HT_Certificate"
| "ClientHandshake_handshake_type (CH_ClientCertVerify _) = HT_CertificateVerify"

fun ClientHandshake_encode_inner ::
  "('h, 'k) TlsCipherSuite \<Rightarrow> ('s \<Rightarrow> bytes) \<Rightarrow> 's ClientHandshake \<Rightarrow> unit encoder" where
  "ClientHandshake_encode_inner cs pk (CH_ClientHello inner) = ClientHello_encode cs pk inner"
| "ClientHandshake_encode_inner cs pk (CH_Finished inner) = Finished_encode inner"
| "ClientHandshake_encode_inner cs pk (CH_ClientCert inner) = CertificateRef_encode inner"
| "ClientHandshake_encode_inner cs pk (CH_ClientCertVerify inner) = CertificateVerify_encode inner"

definition ClientHandshake_encode ::
  "('h, 'k) TlsCipherSuite \<Rightarrow> ('s \<Rightarrow> bytes) \<Rightarrow> 's ClientHandshake \<Rightarrow> unit encoder" where
  "ClientHandshake_encode cs pk x =
     seq (map_err (\<lambda>_. EncodeError) (cb_push (HandshakeType_as_u8 (ClientHandshake_handshake_type x))))
         (cb_with_u24_length (ClientHandshake_encode_inner cs pk x))"

text \<open>Writing a window of unchanged length back, as the mutable slice of \<open>finalize\<close> does.\<close>

definition cb_put_view :: "CryptoBuffer \<Rightarrow> bytes \<Rightarrow> CryptoBuffer" where
  "cb_put_view b bs = b\<lparr>cb_buf := write_at (cb_buf b) (cb_offset b) bs\<rparr>"

definition ClientHandshake_finalize ::
  "('h, 'k) TlsCipherSuite \<Rightarrow> 'k WriteKeySchedule \<Rightarrow> 's ClientHandshake \<Rightarrow>
     (CryptoBuffer \<times> 'h, unit, TlsError) prog" where
  "ClientHandshake_finalize cs wks x = (\<lambda>(buf, transcript).
     case cb_as_slice buf of
       Ok enc_buf \<Rightarrow>
         (case x of
            CH_ClientHello hello \<Rightarrow>
              (case ClientHello_finalize cs wks hello (enc_buf, transcript) of
                 (r, enc_buf', transcript') \<Rightarrow> (r, cb_put_view buf enc_buf', transcript'))
          | _ \<Rightarrow> (Ok (), buf, digest_update cs transcript enc_buf))
     | Err e \<Rightarrow> (Err e, buf, transcript)
     | Panic \<Rightarrow> (Panic, buf, transcript))"

definition ClientHandshake_finalize_encrypted ::
  "('h, 'k) TlsCipherSuite \<Rightarrow> CryptoBuffer \<Rightarrow> 'h \<Rightarrow> ('h, TlsError) result" where
  "ClientHandshake_finalize_encrypted cs buf transcript =
     and_then (cb_as_slice buf) (\<lambda>enc_buf. Ok (digest_update cs transcript (take (length enc_buf) enc_buf)))"

section \<open>The bytes of a ClientHello\<close>

definition option_list :: "('a \<Rightarrow> 'b) \<Rightarrow> 'a option \<Rightarrow> 'b list" where
  "option_list c x = (case x of None \<Rightarrow> [] | Some v \<Rightarrow> [c v])"

text \<open>The extensions of a ClientHello, in the order they are sent: \<open>pre_shared_key\<close> is the last.\<close>

definition client_hello_extensions ::
  "('h, 'k) TlsCipherSuite \<Rightarrow> ('s \<Rightarrow> bytes) \<Rightarrow> 's ClientHello \<Rightarrow> ClientHelloExtension list" where
  "client_hello_extensions cs pk x = (let config = ch_config x in
     [CHE_SupportedVersions (SupportedVersionsClientHello [TLS13]),
      CHE_SignatureAlgorithms (SignatureAlgorithms (cfg_signature_schemes config))] @
     option_list CHE_MaxFragmentLength (cfg_max_fragment_length config) @
     [CHE_SupportedGroups (SupportedGroups (cfg_named_groups config)),
      CHE_PskKeyExchangeModes (PskKeyExchangeModes [PKM_PskDheKe]),
      CHE_KeyShare (KeyShareClientHello [\<lparr>group = NG_Secp256r1, opaque = pk (ch_secret x)\<rparr>])] @
     option_list (\<lambda>n. CHE_ServerName (ServerNameList_single n)) (cfg_server_name config) @
     option_list (\<lambda>ps. CHE_ApplicationLayerProtocolNegotiation (AlpnProtocolNameList ps)) (cfg_alpn_protocols config) @
     option_list (\<lambda>(_, ids). CHE_PreSharedKey \<lparr>identities = ids, hash_size = HashOutputSize cs\<rparr>) (cfg_psk config))"

definition client_hello_wire ::
  "('h, 'k) TlsCipherSuite \<Rightarrow> ('s \<Rightarrow> bytes) \<Rightarrow> 's ClientHello \<Rightarrow> bytes" where
  "client_hello_wire cs pk x =
     u16_to_be_bytes LEGACY_VERSION @ ch_random x @ [0] @ u16_to_be_bytes 2 @ u16_to_be_bytes (CODE_POINT cs) @
     [1] @ [0] @ prefixed16 (concat (map ClientHelloExtension_wire (client_hello_extensions cs pk x)))"

lemma encode_option_appends:
  "appends (encode_option c x) (concat (map ClientHelloExtension_wire (option_list c x)))"
  by (cases x) (simp_all add: encode_option_def option_list_def codec_intros)

lemma appends_encode_error [codec_intros]:
  "appends f bs \<Longrightarrow> appends (map_err (\<lambda>_. EncodeError) f) bs"
  by (rule appends_map_err) simp_all

lemma ClientHello_appends: "appends (ClientHello_encode cs pk x) (client_hello_wire cs pk x)"
  unfolding ClientHello_encode_def client_hello_wire_def client_hello_extensions_def Let_def
    map_append concat_append list.map concat.simps append_Nil2 append.assoc append_Cons append_Nil
  by (intro appends_encode_error appends_seq appends_push_u16 appends_push appends_extend appends_with_u16
      appends_seq [of _ "[_]", unfolded append_Cons append_Nil]
      encode_option_appends ClientHelloExtension_appends)

fun client_handshake_body ::
  "('h, 'k) TlsCipherSuite \<Rightarrow> ('s \<Rightarrow> bytes) \<Rightarrow> 's ClientHandshake \<Rightarrow> bytes" where
  "client_handshake_body cs pk (CH_ClientHello x) = client_hello_wire cs pk x"
| "client_handshake_body cs pk (CH_Finished f) = fin_verify f"
| "client_handshake_body cs pk (CH_ClientCert c) = CertificateRef_wire c"
| "client_handshake_body cs pk (CH_ClientCertVerify v) =
     SignatureScheme_wire (signature_scheme v) @ prefixed16 (signature v)"

definition client_handshake_wire ::
  "('h, 'k) TlsCipherSuite \<Rightarrow> ('s \<Rightarrow> bytes) \<Rightarrow> 's ClientHandshake \<Rightarrow> bytes" where
  "client_handshake_wire cs pk x =
     [HandshakeType_as_u8 (ClientHandshake_handshake_type x)] @ prefixed24 (client_handshake_body cs pk x)"

text \<open>A message with a raw public key cannot be encoded.\<close>

fun client_handshake_ok :: "'s ClientHandshake \<Rightarrow> bool" where
  "client_handshake_ok (CH_ClientCert c) \<longleftrightarrow> list_all entry_dom (cr_entries c)"
| "client_handshake_ok _ \<longleftrightarrow> True"

lemma ClientHandshake_appends:
  assumes "client_handshake_ok x"
  shows "appends (ClientHandshake_encode cs pk x) (client_handshake_wire cs pk x)"
proof -
  have "appends (ClientHandshake_encode_inner cs pk x) (client_handshake_body cs pk x)"
    using assms
    by (cases x) (simp_all add: ClientHello_appends CertificateRef_appends CertificateVerify_appends
        Finished_encode_def codec_intros)
  then show ?thesis
    unfolding ClientHandshake_encode_def client_handshake_wire_def
    by (intro appends_seq appends_encode_error appends_push appends_with_u24)
qed

section \<open>Binders and the transcript\<close>

definition rfc_binder :: "('h, 'k) TlsCipherSuite \<Rightarrow> 'k \<Rightarrow> 'h \<Rightarrow> bytes" where
  "rfc_binder cs k h =
     the (hmac_new cs (rfc_expand_label cs k (ascii ''finished'') [] (HashOutputSize cs))) (digest_finalize cs h)"

lemma create_psk_binder_value:
  assumes "kdf_laws cs" "binder_key wks = Initialized k"
  shows "create_psk_binder cs h wks = Ok (PskBinder (rfc_binder cs k h)) \<and>
    length (rfc_binder cs k h) = HashOutputSize cs"
proof -
  have m: "make_expanded_hkdf_label cs (HashOutputSize cs) (Initialized k) (ascii ''finished'') CT_None =
      Ok (rfc_expand_label cs k (ascii ''finished'') [] (HashOutputSize cs))"
    using make_expanded_rfc [OF assms(1), of "ascii ''finished''" CT_None] by (simp add: context_bytes_def)
  obtain mac where "hmac_new cs (rfc_expand_label cs k (ascii ''finished'') [] (HashOutputSize cs)) = Some mac"
    "\<And>m. length (mac m) = HashOutputSize cs"
    using assms(1) unfolding kdf_laws_def by blast
  then show ?thesis using m assms(2) by (simp add: create_psk_binder_def rfc_binder_def)
qed

lemma PskBinder_appends: "appends (PskBinder_encode b) (prefixed8 (psk_verify b))"
  unfolding PskBinder_encode_def prefixed8_def by (intro codec_intros)

lemma binders_loop_appends:
  assumes "kdf_laws cs" "binder_key wks = Initialized k"
  shows "appends (binders_loop cs wks h ids) (concat (replicate (length ids) (prefixed8 (rfc_binder cs k h))))"
proof (induction ids)
  case (Cons i ids)
  have "binders_loop cs wks h (i # ids) =
      seq (PskBinder_encode (PskBinder (rfc_binder cs k h))) (binders_loop cs wks h ids)"
    using create_psk_binder_value [OF assms] by (simp add: bnd_def fun_eq_iff)
  then show ?case
    using appends_seq [OF PskBinder_appends Cons.IH, of "PskBinder (rfc_binder cs k h)"] by simp
qed (use appends_ret in \<open>simp add: ret_def\<close>)

lemma cb_append_wrap: "length bs = length zs \<Longrightarrow> cb_buf (cb_append (cb_wrap zs) bs) = bs"
  by (simp add: cb_append_def cb_wrap_def write_at_def)

lemma length_concat_replicate: "length (concat (replicate n xs)) = n * length xs"
  by (induction n) simp_all

lemma finalize_psk:
  assumes "kdf_laws cs" "digest_laws cs" "binder_key wks = Initialized k"
    and "cfg_psk (ch_config x) = Some (psk, ids)" and n: "n = length ids * (1 + HashOutputSize cs)"
    and "length rest = n" "2 \<le> length pre"
  shows "ClientHello_finalize cs wks x (pre @ rest, h) =
    (let final = pre @ concat (replicate (length ids)
            (prefixed8 (rfc_binder cs k (digest_update cs h (take (length pre - 2) pre)))))
     in (Ok (), final, digest_update cs h final))"
proof -
  let ?h = "digest_update cs h (take (length pre - 2) pre)"
  let ?b = "concat (replicate (length ids) (prefixed8 (rfc_binder cs k ?h)))"
  have lb: "length ?b = n"
    using create_psk_binder_value [OF assms(1,3)] by (simp add: n length_concat_replicate)
  have "binders_loop cs wks ?h ids (cb_wrap rest) = (Ok (), cb_append (cb_wrap rest) ?b)"
    by (rule appends_ok [OF binders_loop_appends [OF assms(1,3)]])
      (use lb assms(6) in \<open>simp_all add: cb_ok_def cb_wrap_def cb_free_def\<close>)
  moreover have "digest_update cs ?h (drop (length pre - 2) (pre @ ?b)) = digest_update cs h (pre @ ?b)"
    using assms(7) by (simp add: digest_update_append [OF assms(2)] flip: append_assoc)
  ultimately show ?thesis
    using assms(4,6,7) lb n by (simp add: ClientHello_finalize_def Let_def cb_append_wrap)
qed

lemma client_hello_psk_suffix:
  assumes "cfg_psk (ch_config x) = Some (psk, ids)"
  shows "\<exists>pre. client_hello_wire cs pk x = pre @ replicate (length ids * (1 + HashOutputSize cs)) 0 \<and> 2 \<le> length pre"
proof -
  let ?n = "length ids * (1 + HashOutputSize cs)"
  have "psk_binders_len (HashOutputSize cs) (length ids) = ?n" by (simp add: psk_binders_len_def mult.commute)
  then have "\<exists>p. ClientHelloExtension_wire (CHE_PreSharedKey \<lparr>identities = ids, hash_size = HashOutputSize cs\<rparr>) =
      p @ replicate ?n 0"
    by (simp add: ClientHelloExtension_wire_def ext_wire_def prefixed16_def PreSharedKeyClientHello_wire_def)
  then obtain p where "ClientHelloExtension_wire (CHE_PreSharedKey \<lparr>identities = ids, hash_size = HashOutputSize cs\<rparr>) =
      p @ replicate ?n 0" by blast
  then show ?thesis
    by (simp add: client_hello_wire_def prefixed16_def client_hello_extensions_def Let_def assms option_list_def)
qed

text \<open>With or without a PSK, \<open>finalize\<close> keeps the length of the message and feeds the transcript what it
  leaves in the buffer.\<close>

lemma client_hello_finalize_length:
  assumes "kdf_laws cs" "digest_laws cs" "binder_key wks = Initialized k"
  shows "\<exists>f. ClientHello_finalize cs wks x (client_handshake_wire cs pk (CH_ClientHello x), h) =
      (Ok (), f, digest_update cs h f) \<and>
    length f = length (client_handshake_wire cs pk (CH_ClientHello x)) \<and>
    (cfg_psk (ch_config x) = None \<longrightarrow> f = client_handshake_wire cs pk (CH_ClientHello x))"
proof (cases "cfg_psk (ch_config x)")
  case None
  then show ?thesis by (simp add: ClientHello_finalize_def)
next
  case (Some pi)
  obtain psk ids where p: "cfg_psk (ch_config x) = Some (psk, ids)" using Some by (cases pi) auto
  let ?n = "length ids * (1 + HashOutputSize cs)"
  obtain q where q: "client_hello_wire cs pk x = q @ replicate ?n 0" "2 \<le> length q"
    using client_hello_psk_suffix [OF p, of cs pk] by blast
  let ?pre = "[1] @ tl (u32_to_be_bytes (of_nat (length (client_hello_wire cs pk x)))) @ q"
  have w: "client_handshake_wire cs pk (CH_ClientHello x) = ?pre @ replicate ?n 0"
    by (simp add: client_handshake_wire_def prefixed24_def q(1))
  let ?b = "concat (replicate (length ids) (prefixed8 (rfc_binder cs k (digest_update cs h (take (length ?pre - 2) ?pre)))))"
  have "ClientHello_finalize cs wks x (?pre @ replicate ?n 0, h) = (Ok (), ?pre @ ?b, digest_update cs h (?pre @ ?b))"
    using finalize_psk [OF assms p refl, of "replicate ?n 0" ?pre h] q(2) by (simp add: Let_def)
  moreover have "length ?b = ?n"
    using create_psk_binder_value [OF assms(1,3)] by (simp add: length_concat_replicate)
  ultimately show ?thesis unfolding w using p by (intro exI [of _ "?pre @ ?b"]) simp
qed

section \<open>Properties\<close>

text \<open>C31. The ClientHello on the wire: encoding appends exactly the legacy version, the random, an
  empty session id, the one cipher suite, the null compression and one block with the
  configured extensions in their order, under the handshake type and a 24-bit length; it
  fails only for want of room.\<close>

theorem client_hello_encoding:
  "appends (ClientHandshake_encode cs pk (CH_ClientHello x))
     ([1] @ prefixed24 (u16_to_be_bytes 0x0303 @ ch_random x @ [0] @ u16_to_be_bytes 2 @
        u16_to_be_bytes (CODE_POINT cs) @ [1, 0] @
        prefixed16 (concat (map ClientHelloExtension_wire (client_hello_extensions cs pk x)))))"
  using ClientHandshake_appends [of "CH_ClientHello x" cs pk]
  by (simp add: client_handshake_wire_def client_hello_wire_def LEGACY_VERSION_def)

text \<open>C32. PSK binders: the encoded ClientHello ends in exactly the binder places, all zero;
  \<open>finalize\<close> fills each with the binder of RFC 8446, section 4.2.11.2, over the message truncated
  before the binder list, and leaves the transcript fed with the completed message.\<close>

theorem client_hello_finalize_psk:
  assumes "kdf_laws cs" and "digest_laws cs" and "binder_key wks = Initialized k"
    and "cfg_psk (ch_config x) = Some (psk, ids)"
  shows "\<exists>pre. client_handshake_wire cs pk (CH_ClientHello x) =
        pre @ replicate (length ids * (1 + HashOutputSize cs)) 0 \<and>
      ClientHello_finalize cs wks x (client_handshake_wire cs pk (CH_ClientHello x), h) =
        (let final = pre @ concat (replicate (length ids)
                (prefixed8 (rfc_binder cs k (digest_update cs h (take (length pre - 2) pre)))))
         in (Ok (), final, digest_update cs h final))"
proof -
  obtain p where p: "client_hello_wire cs pk x = p @ replicate (length ids * (1 + HashOutputSize cs)) 0" "2 \<le> length p"
    using client_hello_psk_suffix [OF assms(4), of cs pk] by blast
  let ?pre = "[1] @ tl (u32_to_be_bytes (of_nat (length (client_hello_wire cs pk x)))) @ p"
  have w: "client_handshake_wire cs pk (CH_ClientHello x) = ?pre @ replicate (length ids * (1 + HashOutputSize cs)) 0"
    by (simp add: client_handshake_wire_def prefixed24_def p(1))
  moreover have "2 \<le> length ?pre" using p(2) by simp
  ultimately show ?thesis
    unfolding w using finalize_psk [OF assms refl, of _ ?pre h] by (intro exI [of _ ?pre]) simp
qed

definition toy_config :: TlsConfig where
  "toy_config = \<lparr>cfg_server_name = None, cfg_alpn_protocols = None, cfg_psk = Some ([1], [[7]]),
     cfg_signature_schemes = [SS_Ed25519], cfg_named_groups = [NG_Secp256r1], cfg_max_fragment_length = None\<rparr>"

definition toy_hello :: "bytes ClientHello" where
  "toy_hello = \<lparr>ch_config = toy_config, ch_random = [], ch_secret = [4]\<rparr>"

lemma toy_hello_psk: "cfg_psk (ch_config toy_hello) = Some ([1], [[7]])"
  by (simp add: toy_hello_def toy_config_def)

theorem client_hello_finalize_psk_witness:
  "\<exists>pre. client_handshake_wire toy_suite id (CH_ClientHello toy_hello) = pre @ replicate 5 0 \<and>
      snd (snd (ClientHello_finalize toy_suite \<lparr>w_state = KeyScheduleState_new toy_suite, binder_key = Initialized [1, 2, 3, 4]\<rparr>
        toy_hello (client_handshake_wire toy_suite id (CH_ClientHello toy_hello), []))) =
      pre @ prefixed8 (rfc_binder toy_suite [1, 2, 3, 4] (take (length pre - 2) pre))"
proof -
  let ?w = "\<lparr>w_state = KeyScheduleState_new toy_suite, binder_key = Initialized [1, 2, 3, 4]\<rparr> :: bytes WriteKeySchedule"
  have k: "binder_key ?w = Initialized [1, 2, 3, 4]" by simp
  obtain pre where
    "client_handshake_wire toy_suite id (CH_ClientHello toy_hello) = pre @ replicate 5 0"
    "ClientHello_finalize toy_suite ?w toy_hello (client_handshake_wire toy_suite id (CH_ClientHello toy_hello), []) =
      (let final = pre @ prefixed8 (rfc_binder toy_suite [1, 2, 3, 4] (take (length pre - 2) pre))
       in (Ok (), final, final))"
    using client_hello_finalize_psk [OF toy_kdf_laws toy_digest_laws k toy_hello_psk, of id "[]"]
    by (auto simp: Let_def)
  then show ?thesis by (intro exI [of _ pre]) (simp add: Let_def)
qed

end
