(* ===== verification/Tls_Record.thy ===== *)
theory Tls_Record
  imports Client_Hello
begin

text \<open>
  The record layer's data: \<open>ContentType\<close> (\<open>src/src/content_types.rs\<close>), \<open>Alert\<close>
  (\<open>alert.rs\<close>), \<open>ChangeCipherSpec\<close> (\<open>change_cipher_spec.rs\<close>), \<open>ApplicationData\<close>
  (\<open>application_data.rs\<close>) and the client and server records of \<open>record.rs\<close>. An
  \<open>ApplicationData\<close> borrows a slice of the read buffer: the model keeps the slice as the
  storage of its \<^typ>\<open>CryptoBuffer\<close> together with the slice's position in the read buffer.
\<close>

section \<open>Content types (content\_types.rs)\<close>

datatype ContentType = CT_Invalid | CT_ChangeCipherSpec | CT_Alert | CT_Handshake | CT_ApplicationData

fun ContentType_as_u8 :: "ContentType \<Rightarrow> u8" where
  "ContentType_as_u8 CT_Invalid = 0"
| "ContentType_as_u8 CT_ChangeCipherSpec = 20"
| "ContentType_as_u8 CT_Alert = 21"
| "ContentType_as_u8 CT_Handshake = 22"
| "ContentType_as_u8 CT_ApplicationData = 23"

definition ContentType_of :: "u8 \<Rightarrow> ContentType option" where
  "ContentType_of num =
    (if num = 0 then Some CT_Invalid
     else if num = 20 then Some CT_ChangeCipherSpec
     else if num = 21 then Some CT_Alert
     else if num = 22 then Some CT_Handshake
     else if num = 23 then Some CT_ApplicationData
     else None)"

interpretation content_type_code: u8_code ContentType_as_u8 ContentType_of
proof
  show "ContentType_of (ContentType_as_u8 x) = Some x" for x
    by (cases x) (simp_all add: ContentType_of_def)
  show "ContentType_of v = Some x \<Longrightarrow> ContentType_as_u8 x = v" for v x
    by (auto simp: ContentType_of_def split: if_splits)
qed

section \<open>Alerts (alert.rs)\<close>

record Alert =
  alert_level :: AlertLevel
  alert_description :: AlertDescription

definition Alert_new :: "AlertLevel \<Rightarrow> AlertDescription \<Rightarrow> Alert" where
  "Alert_new level description = \<lparr>alert_level = level, alert_description = description\<rparr>"

definition Alert_parse :: "(ParseBuffer, Alert, TlsError) prog" where
  "Alert_parse =
     bnd (map_err TlsError_from pb_read_u8) (\<lambda>level.
     bnd (map_err TlsError_from pb_read_u8) (\<lambda>desc.
     bnd (ok_or DecodeError (AlertLevel_of level)) (\<lambda>l.
     bnd (ok_or DecodeError (AlertDescription_of desc)) (\<lambda>d.
     ret \<lparr>alert_level = l, alert_description = d\<rparr>))))"

definition Alert_encode :: "Alert \<Rightarrow> unit encoder" where
  "Alert_encode x =
     seq (map_err (\<lambda>_. EncodeError) (cb_push (AlertLevel_as_u8 (alert_level x))))
         (map_err (\<lambda>_. EncodeError) (cb_push (AlertDescription_as_u8 (alert_description x))))"

definition Alert_wire :: "Alert \<Rightarrow> bytes" where
  "Alert_wire x = [AlertLevel_as_u8 (alert_level x), AlertDescription_as_u8 (alert_description x)]"

section \<open>ChangeCipherSpec (change\_cipher\_spec.rs)\<close>

datatype ChangeCipherSpec = ChangeCipherSpec

definition ChangeCipherSpec_read :: "bytes \<Rightarrow> (ChangeCipherSpec, TlsError) result" where
  "ChangeCipherSpec_read rx_buf = Ok ChangeCipherSpec"

definition ChangeCipherSpec_encode :: "ChangeCipherSpec \<Rightarrow> unit encoder" where
  "ChangeCipherSpec_encode x = map_err (\<lambda>_. EncodeError) (cb_push 1)"

section \<open>Client records (record.rs)\<close>

datatype ClientRecordHeader = RH_Handshake bool | RH_Alert bool | RH_ApplicationData

fun RecordHeader_is_encrypted :: "ClientRecordHeader \<Rightarrow> bool" where
  "RecordHeader_is_encrypted (RH_Handshake encrypted) = encrypted"
| "RecordHeader_is_encrypted (RH_Alert encrypted) = encrypted"
| "RecordHeader_is_encrypted RH_ApplicationData = True"

fun header_content_type :: "ClientRecordHeader \<Rightarrow> ContentType" where
  "header_content_type (RH_Handshake False) = CT_Handshake"
| "header_content_type (RH_Alert False) = CT_ChangeCipherSpec"
| "header_content_type (RH_Handshake True) = CT_ApplicationData"
| "header_content_type (RH_Alert True) = CT_ApplicationData"
| "header_content_type RH_ApplicationData = CT_ApplicationData"

fun trailer_content_type :: "ClientRecordHeader \<Rightarrow> ContentType" where
  "trailer_content_type (RH_Handshake _) = CT_Handshake"
| "trailer_content_type (RH_Alert _) = CT_Alert"
| "trailer_content_type RH_ApplicationData = CT_ApplicationData"

fun header_version :: "ClientRecordHeader \<Rightarrow> bytes" where
  "header_version (RH_Handshake True) = [0x03, 0x03]"
| "header_version (RH_Alert True) = [0x03, 0x03]"
| "header_version RH_ApplicationData = [0x03, 0x03]"
| "header_version (RH_Handshake False) = [0x03, 0x01]"
| "header_version (RH_Alert False) = [0x03, 0x01]"

definition ClientRecordHeader_encode :: "ClientRecordHeader \<Rightarrow> unit encoder" where
  "ClientRecordHeader_encode h =
     seq (map_err (\<lambda>_. EncodeError) (cb_push (ContentType_as_u8 (header_content_type h))))
         (map_err (\<lambda>_. EncodeError) (cb_extend_from_slice (header_version h)))"

datatype 's ClientRecord = CR_Handshake "'s ClientHandshake" bool | CR_Alert Alert bool

fun ClientRecord_header :: "'s ClientRecord \<Rightarrow> ClientRecordHeader" where
  "ClientRecord_header (CR_Handshake _ encrypted) = RH_Handshake encrypted"
| "ClientRecord_header (CR_Alert _ encrypted) = RH_Alert encrypted"

definition ClientRecord_client_hello ::
  "('p, 's, 'h) CryptoProvider \<Rightarrow> TlsConfig \<Rightarrow> 'p \<Rightarrow> 's ClientRecord \<times> 'p" where
  "ClientRecord_client_hello P config p =
     (let (hello, p') = ClientHello_new P config p in (CR_Handshake (CH_ClientHello hello) False, p'))"

definition ClientRecord_close_notify :: "bool \<Rightarrow> 's ClientRecord" where
  "ClientRecord_close_notify opened = CR_Alert (Alert_new AL_Warning AD_CloseNotify) opened"

definition ClientRecord_encode_payload ::
  "('h, 'k) TlsCipherSuite \<Rightarrow> ('s \<Rightarrow> bytes) \<Rightarrow> 's ClientRecord \<Rightarrow> nat encoder" where
  "ClientRecord_encode_payload cs pk x =
     bnd (gets cb_len) (\<lambda>record_length_marker.
     seq (case x of
            CR_Handshake handshake _ \<Rightarrow> ClientHandshake_encode cs pk handshake
          | CR_Alert alert _ \<Rightarrow> Alert_encode alert)
         (cb_len_since record_length_marker))"

definition ClientRecord_finish_record ::
  "('h, 'k) TlsCipherSuite \<Rightarrow> 'k WriteKeySchedule \<Rightarrow> 's ClientRecord \<Rightarrow>
     (CryptoBuffer \<times> 'h, unit, TlsError) prog" where
  "ClientRecord_finish_record cs wks x = (\<lambda>(buf, transcript). case x of
     CR_Handshake handshake False \<Rightarrow> ClientHandshake_finalize cs wks handshake (buf, transcript)
   | CR_Handshake _ True \<Rightarrow>
       (case ClientHandshake_finalize_encrypted cs buf transcript of
          Ok t \<Rightarrow> (Ok (), buf, t) | Err e \<Rightarrow> (Err e, buf, transcript) | Panic \<Rightarrow> (Panic, buf, transcript))
   | _ \<Rightarrow> (Ok (), buf, transcript))"

section \<open>Server records (record.rs)\<close>

text \<open>A \<open>RecordHeader\<close> is its five bytes.\<close>

datatype RecordHeader = RecordHeader (header_data: bytes)

definition RecordHeader_LEN :: nat where
  "RecordHeader_LEN = 5"

definition RecordHeader_content_type :: "RecordHeader \<Rightarrow> (ContentType, TlsError) result" where
  "RecordHeader_content_type h =
     (case ContentType_of (header_data h ! 0) of Some t \<Rightarrow> Ok t | None \<Rightarrow> Panic)"

definition RecordHeader_content_length :: "RecordHeader \<Rightarrow> nat" where
  "RecordHeader_content_length h = unat (u16_from_be_bytes (header_data h ! 3) (header_data h ! 4))"

definition RecordHeader_decode :: "bytes \<Rightarrow> (RecordHeader, TlsError) result" where
  "RecordHeader_decode header = (case ContentType_of (header ! 0) of
     None \<Rightarrow> Err InvalidRecord | Some _ \<Rightarrow> Ok (RecordHeader header))"

record ApplicationData =
  app_header :: RecordHeader
  app_data :: CryptoBuffer
  app_base :: nat

datatype ServerRecord =
    SR_Handshake ServerHandshake
  | SR_ChangeCipherSpec ChangeCipherSpec
  | SR_Alert Alert
  | SR_ApplicationData ApplicationData

fun ServerRecord_content_type :: "ServerRecord \<Rightarrow> ContentType" where
  "ServerRecord_content_type (SR_Handshake _) = CT_Handshake"
| "ServerRecord_content_type (SR_ChangeCipherSpec _) = CT_ChangeCipherSpec"
| "ServerRecord_content_type (SR_Alert _) = CT_Alert"
| "ServerRecord_content_type (SR_ApplicationData _) = CT_ApplicationData"

text \<open>\<open>decode(header, data, digest)\<close>; \<open>base\<close> is where the slice \<open>data\<close> stands in the read buffer.\<close>

definition ServerRecord_decode ::
  "('h, 'k) TlsCipherSuite \<Rightarrow> RecordHeader \<Rightarrow> nat \<Rightarrow> bytes \<Rightarrow> ('h, ServerRecord, TlsError) prog" where
  "ServerRecord_decode cs header base data = (\<lambda>digest.
     if RecordHeader_content_length header \<noteq> length data then (Panic, digest)
     else case RecordHeader_content_type header of
       Panic \<Rightarrow> (Panic, digest)
     | Err e \<Rightarrow> (Err e, digest)
     | Ok CT_Invalid \<Rightarrow> (Err Unimplemented, digest)
     | Ok CT_ChangeCipherSpec \<Rightarrow>
         bnd (from_result (ChangeCipherSpec_read data)) (\<lambda>c. ret (SR_ChangeCipherSpec c)) digest
     | Ok CT_Alert \<Rightarrow>
         bnd (from_result (fst (Alert_parse (pb_new data)))) (\<lambda>a. ret (SR_Alert a)) digest
     | Ok CT_Handshake \<Rightarrow>
         (case ServerHandshake_read cs (pb_new data, digest) of
            (Ok m, _, digest') \<Rightarrow> (Ok (SR_Handshake m), digest')
          | (Err e, _, digest') \<Rightarrow> (Err e, digest')
          | (Panic, _, digest') \<Rightarrow> (Panic, digest'))
     | Ok CT_ApplicationData \<Rightarrow>
         (Ok (SR_ApplicationData
            \<lparr>app_header = header, app_data = cb_wrap_with_pos data (length data), app_base = base\<rparr>), digest))"

section \<open>Lemmas\<close>

lemma Alert_appends: "appends (Alert_encode x) (Alert_wire x)"
proof -
  have "appends (Alert_encode x) ([AlertLevel_as_u8 (alert_level x)] @ [AlertDescription_as_u8 (alert_description x)])"
    unfolding Alert_encode_def by (intro codec_intros)
  then show ?thesis by (simp add: Alert_wire_def)
qed

lemma Alert_parses: "parses Alert_parse (Alert_wire x) x"
proof -
  have "parses Alert_parse ([AlertLevel_as_u8 (alert_level x)] @ [AlertDescription_as_u8 (alert_description x)] @ []) x"
    unfolding Alert_parse_def
    by (intro parses_bnd [OF parses_map_err [OF parses_u8]]) (simp add: parses_iff)
  then show ?thesis by (simp add: Alert_wire_def)
qed

lemma Alert_parse_safe [safe_intros]: "pb_safe Alert_parse"
  unfolding Alert_parse_def by (intro safe_intros)

lemma header_appends:
  "appends (ClientRecordHeader_encode h) (ContentType_as_u8 (header_content_type h) # header_version h)"
proof -
  have "appends (ClientRecordHeader_encode h) ([ContentType_as_u8 (header_content_type h)] @ header_version h)"
    unfolding ClientRecordHeader_encode_def by (intro codec_intros)
  then show ?thesis by simp
qed

lemma length_header_version [simp]: "length (header_version h) = 2"
  by (cases h rule: header_version.cases) simp_all

lemma ServerHandshake_read_no_panic:
  "pb_ok b \<Longrightarrow> fst (ServerHandshake_read cs (b, h)) \<noteq> Panic"
proof -
  assume b: "pb_ok b"
  obtain r b' where p: "ServerHandshake_parse cs b = (r, b')" by fastforce
  from pb_safeD [OF ServerHandshake_parse_safe b p] have "r \<noteq> Panic" "pb_advances b b'" by auto
  then show ?thesis
    using p by (cases r) (auto simp: ServerHandshake_read_def Let_def pb_offset_def pb_as_slice_def pb_advances_def)
qed

text \<open>A decoded header has a known content type; with a payload of the announced length the
  record decoder does not panic.\<close>

lemma ServerRecord_decode_no_panic:
  assumes "RecordHeader_decode bs = Ok header" "length data = RecordHeader_content_length header"
  shows "fst (ServerRecord_decode cs header base data h) \<noteq> Panic"
proof -
  obtain t where t: "ContentType_of (header_data header ! 0) = Some t"
    using assms(1) by (auto simp: RecordHeader_decode_def split: option.splits)
  have a: "fst (Alert_parse (pb_new data)) \<noteq> Panic"
    using Alert_parse_safe by (simp add: pb_safe_def)
  obtain r x y where p: "ServerHandshake_read cs (pb_new data, h) = (r, x, y)"
    by (metis prod.exhaust)
  then have "r \<noteq> Panic" using ServerHandshake_read_no_panic [of "pb_new data" cs h] by simp
  with p show ?thesis
    using assms(2) t a
    by (cases t) (auto simp: ServerRecord_decode_def RecordHeader_content_type_def bnd_def
        ChangeCipherSpec_read_def split: result.splits)
qed

end
