(* ===== verification/Record_Reader.thy ===== *)
theory Record_Reader
  imports Tls_Record
begin

text \<open>
  The record reader of \<open>src/src/record_reader.rs\<close>: it reads a five byte header, then the
  payload into a buffer whose consumed front it reclaims when the record does not fit behind
  it. The transport is an argument: \<open>rd n\<close> is one call of \<open>embedded_io::Read::read\<close> on a
  slice of \<open>n\<close> bytes, returning the bytes it put there. The locale \<open>stream_reader\<close> states
  what a transport over a byte stream promises, however it cuts the stream into chunks, and is
  interpreted on the chunked transport of the module's own tests.
\<close>

section \<open>The reader\<close>

type_synonym 't reader = "nat \<Rightarrow> ('t, bytes, ErrorKind) prog"

record RecordReader =
  rr_buf :: bytes
  rr_decoded :: nat
  rr_pending :: nat

definition RecordReader_new :: "bytes \<Rightarrow> RecordReader" where
  "RecordReader_new buf = \<lparr>rr_buf = buf, rr_decoded = 0, rr_pending = 0\<rparr>"

text \<open>The loop of \<open>next_record_header_blocking\<close>; \<open>got\<close> is the filled front of the header array.\<close>

function header_loop :: "'t reader \<Rightarrow> bytes \<Rightarrow> ('t, bytes, TlsError) prog" where
  "header_loop rd got t =
     (if length got = RecordHeader_LEN then (Ok got, t)
      else if RecordHeader_LEN < length got then (Panic, t)
      else case rd (RecordHeader_LEN - length got) t of
        (Ok bs, t') \<Rightarrow> if bs = [] then (Err IoError, t') else header_loop rd (got @ bs) t'
      | (Err k, t') \<Rightarrow> (Err (Io k), t')
      | (Panic, t') \<Rightarrow> (Panic, t'))"
  by pat_completeness auto
termination
  by (relation "measure (\<lambda>(rd, got, t). RecordHeader_LEN - length got)") (auto simp: length_greater_0_conv diff_less_mono2)

declare header_loop.simps [simp del]

definition next_record_header_blocking :: "'t reader \<Rightarrow> ('t, RecordHeader, TlsError) prog" where
  "next_record_header_blocking rd = bnd (header_loop rd []) (\<lambda>buf. from_result (RecordHeader_decode buf))"

definition ensure_contiguous :: "nat \<Rightarrow> (RecordReader, unit, TlsError) prog" where
  "ensure_contiguous len = (\<lambda>r.
     if length (rr_buf r) < rr_decoded r + len then
       if length (rr_buf r) < len then (Err InsufficientSpace, r)
       else if length (rr_buf r) < rr_decoded r + rr_pending r then (Panic, r)
       else (Ok (), r\<lparr>rr_buf := write_at (rr_buf r) 0
                        (slice_of (rr_buf r) (rr_decoded r) (rr_decoded r + rr_pending r)),
                      rr_decoded := 0\<rparr>)
     else (Ok (), r))"

text \<open>The loop of \<open>advance_blocking\<close>.\<close>

function advance_loop :: "'t reader \<Rightarrow> nat \<Rightarrow> nat \<Rightarrow> (RecordReader \<times> 't, unit, TlsError) prog" where
  "advance_loop rd amount remain (r, t) =
     (if amount \<le> rr_pending r then (Ok (), r, t)
      else if length (rr_buf r) < rr_decoded r + rr_pending r + remain then (Panic, r, t)
      else case rd remain t of
        (Ok bs, t') \<Rightarrow>
          if bs = [] then (Err IoError, r, t')
          else if remain < length bs then (Panic, r, t')
          else advance_loop rd amount (remain - length bs)
                 (r\<lparr>rr_buf := write_at (rr_buf r) (rr_decoded r + rr_pending r) bs,
                    rr_pending := rr_pending r + length bs\<rparr>, t')
      | (Err k, t') \<Rightarrow> (Err (Io k), r, t')
      | (Panic, t') \<Rightarrow> (Panic, r, t'))"
  by pat_completeness auto
termination
  by (relation "measure (\<lambda>(rd, amount, remain, s). remain)") (auto simp: neq_Nil_conv)

declare advance_loop.simps [simp del]

definition advance_blocking :: "'t reader \<Rightarrow> nat \<Rightarrow> (RecordReader \<times> 't, unit, TlsError) prog" where
  "advance_blocking rd amount = (\<lambda>(r, t).
     case ensure_contiguous amount r of
       (Ok _, r') \<Rightarrow> advance_loop rd amount amount (r', t)
     | (Err e, r') \<Rightarrow> (Err e, r', t)
     | (Panic, r') \<Rightarrow> (Panic, r', t))"

definition rr_consume ::
  "('h, 'k) TlsCipherSuite \<Rightarrow> RecordHeader \<Rightarrow> (RecordReader \<times> 'h, ServerRecord, TlsError) prog" where
  "rr_consume cs header = (\<lambda>(r, digest).
     let content_len = RecordHeader_content_length header in
     if length (rr_buf r) < rr_decoded r + content_len then (Panic, r, digest)
     else if rr_pending r < content_len then (Panic, r\<lparr>rr_decoded := rr_decoded r + content_len\<rparr>, digest)
     else
       let data = slice_of (rr_buf r) (rr_decoded r) (rr_decoded r + content_len);
           r' = r\<lparr>rr_decoded := rr_decoded r + content_len, rr_pending := rr_pending r - content_len\<rparr> in
       case ServerRecord_decode cs header (rr_decoded r) data digest of
         (res, digest') \<Rightarrow> (res, r', digest'))"

definition read_blocking ::
  "('h, 'k) TlsCipherSuite \<Rightarrow> 't reader \<Rightarrow>
     (RecordReader \<times> 't \<times> ('h, 'k) ReadKeySchedule, ServerRecord, TlsError) prog" where
  "read_blocking cs rd = (\<lambda>(r, t, rks).
     case next_record_header_blocking rd t of
       (Err e, t1) \<Rightarrow> (Err e, r, t1, rks)
     | (Panic, t1) \<Rightarrow> (Panic, r, t1, rks)
     | (Ok header, t1) \<Rightarrow>
         (case advance_blocking rd (RecordHeader_content_length header) (r, t1) of
            (Err e, r1, t2) \<Rightarrow> (Err e, r1, t2, rks)
          | (Panic, r1, t2) \<Rightarrow> (Panic, r1, t2, rks)
          | (Ok _, r1, t2) \<Rightarrow>
              (case rr_consume cs header (r1, transcript_hash rks) of
                 (res, r2, h) \<Rightarrow> (res, r2, t2, rks\<lparr>transcript_hash := h\<rparr>))))"

section \<open>Invariant and panic freedom\<close>

definition rr_ok :: "RecordReader \<Rightarrow> bool" where
  "rr_ok r \<longleftrightarrow> rr_decoded r + rr_pending r \<le> length (rr_buf r)"

text \<open>\<open>embedded_io::Read\<close>: a read returns at most the bytes of the slice it was given.\<close>

definition reader_bounded :: "'t reader \<Rightarrow> bool" where
  "reader_bounded rd \<longleftrightarrow> (\<forall>n t. case rd n t of (Ok bs, _) \<Rightarrow> length bs \<le> n | (Err _, _) \<Rightarrow> True | (Panic, _) \<Rightarrow> False)"

lemma reader_boundedD:
  assumes "reader_bounded rd" "rd n t = (r, t')"
  shows "r \<noteq> Panic \<and> (\<forall>bs. r = Ok bs \<longrightarrow> length bs \<le> n)"
  using assms(1) [unfolded reader_bounded_def, THEN spec [of _ n], THEN spec [of _ t]] assms(2)
  by (cases r) auto

lemma header_loop_length:
  assumes "reader_bounded rd" "length got \<le> RecordHeader_LEN" "header_loop rd got t = (r, t')"
  shows "r \<noteq> Panic \<and> (\<forall>bs. r = Ok bs \<longrightarrow> length bs = RecordHeader_LEN)"
  using assms(2,3)
proof (induction "RecordHeader_LEN - length got" arbitrary: got t rule: less_induct)
  case less
  show ?case
  proof (cases "length got = RecordHeader_LEN")
    case True
    with less.prems show ?thesis by (subst (asm) header_loop.simps) auto
  next
    case False
    obtain q u where rd: "rd (RecordHeader_LEN - length got) t = (q, u)" by fastforce
    show ?thesis
    proof (cases q)
      case (Ok bs)
      then have l: "length bs \<le> RecordHeader_LEN - length got"
        using reader_boundedD [OF assms(1) rd] by simp
      show ?thesis
      proof (cases "bs = []")
        case True
        with less.prems False rd Ok show ?thesis by (subst (asm) header_loop.simps) auto
      next
        case nonempty: False
        have s: "header_loop rd (got @ bs) u = (r, t')"
          using less.prems False rd Ok nonempty by (subst (asm) header_loop.simps) auto
        have m: "RecordHeader_LEN - length (got @ bs) < RecordHeader_LEN - length got"
          using nonempty False less.prems(1) by (cases bs) auto
        have "length (got @ bs) \<le> RecordHeader_LEN" using l less.prems(1) by simp
        from less.hyps [OF m this s] show ?thesis .
      qed
    next
      case (Err k)
      with less.prems False rd show ?thesis by (subst (asm) header_loop.simps) auto
    next
      case Panic
      with reader_boundedD [OF assms(1) rd] show ?thesis by simp
    qed
  qed
qed

lemma ensure_contiguous_ok:
  assumes "rr_ok r" "rr_pending r \<le> len"
  shows "(length (rr_buf r) < len \<and> ensure_contiguous len r = (Err InsufficientSpace, r)) \<or>
    (\<exists>r'. ensure_contiguous len r = (Ok (), r') \<and> rr_ok r' \<and> rr_pending r' = rr_pending r \<and>
       length (rr_buf r') = length (rr_buf r) \<and> rr_decoded r' + len \<le> length (rr_buf r'))"
  using assms by (auto simp: ensure_contiguous_def rr_ok_def)

lemma advance_loop_ok:
  assumes "reader_bounded rd" "rr_decoded r + amount \<le> length (rr_buf r)"
    and "rr_pending r + remain = amount" "advance_loop rd amount remain (r, t) = (q, r', t')"
  shows "q \<noteq> Panic \<and> rr_ok r' \<and> rr_decoded r' = rr_decoded r \<and> rr_pending r' \<le> amount \<and>
    length (rr_buf r') = length (rr_buf r) \<and> (q = Ok () \<longrightarrow> rr_pending r' = amount)"
  using assms(2-)
proof (induction remain arbitrary: r t rule: less_induct)
  case (less remain)
  show ?case
  proof (cases "remain = 0")
    case True
    with less.prems show ?thesis by (subst (asm) advance_loop.simps) (auto simp: rr_ok_def)
  next
    case False
    obtain s u where rd: "rd remain t = (s, u)" by fastforce
    note b = reader_boundedD [OF assms(1) rd]
    show ?thesis
    proof (cases s)
      case (Ok bs)
      with b have l: "length bs \<le> remain" by simp
      let ?r = "r\<lparr>rr_buf := write_at (rr_buf r) (rr_decoded r + rr_pending r) bs,
                  rr_pending := rr_pending r + length bs\<rparr>"
      show ?thesis
      proof (cases "bs = []")
        case True
        with less.prems False rd Ok show ?thesis by (subst (asm) advance_loop.simps) (auto simp: rr_ok_def)
      next
        case nonempty: False
        have "advance_loop rd amount (remain - length bs) (?r, u) = (q, r', t')"
          using less.prems False rd Ok nonempty l by (subst (asm) advance_loop.simps) auto
        then show ?thesis
          using less.IH [of "remain - length bs" ?r u] l nonempty False less.prems(1,2)
          by (cases bs) auto
      qed
    next
      case (Err k)
      with less.prems False rd show ?thesis by (subst (asm) advance_loop.simps) (auto simp: rr_ok_def)
    next
      case Panic
      with b show ?thesis by simp
    qed
  qed
qed

lemma RecordHeader_decode_no_panic: "RecordHeader_decode bs \<noteq> Panic"
  by (simp add: RecordHeader_decode_def split: option.splits)

text \<open>Reading a record never panics, whatever the transport delivers, and keeps the invariant;
  after a record nothing is pending.\<close>

lemma read_blocking_ok:
  assumes rd: "reader_bounded rd" and r: "rr_ok r" "rr_pending r = 0"
    and e: "read_blocking cs rd (r, t, rks) = (q, r', t', rks')"
  shows "q \<noteq> Panic \<and> rr_ok r' \<and> length (rr_buf r') = length (rr_buf r) \<and>
    (\<forall>rec. q = Ok rec \<longrightarrow> rr_pending r' = 0)"
proof -
  obtain hq t1 where h: "header_loop rd [] t = (hq, t1)" by fastforce
  from header_loop_length [OF rd _ h] have hq: "hq \<noteq> Panic" "\<And>bs. hq = Ok bs \<Longrightarrow> length bs = 5"
    by (auto simp: RecordHeader_LEN_def)
  obtain nq where n: "next_record_header_blocking rd t = (nq, t1)"
    and nq: "nq \<noteq> Panic" "\<And>hd. nq = Ok hd \<Longrightarrow> \<exists>bs. RecordHeader_decode bs = Ok hd"
  proof (cases hq)
    case (Ok bs)
    then show ?thesis
      using that [of "RecordHeader_decode bs"] h RecordHeader_decode_no_panic
      by (auto simp: next_record_header_blocking_def bnd_def)
  next
    case (Err e)
    then show ?thesis using that [of "Err e"] h by (simp add: next_record_header_blocking_def bnd_def)
  qed (use hq in simp)
  show ?thesis
  proof (cases nq)
    case (Ok header)
    let ?l = "RecordHeader_content_length header"
    obtain bs where bs: "RecordHeader_decode bs = Ok header" using nq(2) [OF Ok] by blast
    from ensure_contiguous_ok [OF r(1), of ?l] r(2)
    consider "ensure_contiguous ?l r = (Err InsufficientSpace, r)"
      | r1 where "ensure_contiguous ?l r = (Ok (), r1)" "rr_ok r1" "rr_pending r1 = 0"
        "length (rr_buf r1) = length (rr_buf r)" "rr_decoded r1 + ?l \<le> length (rr_buf r1)"
      by auto
    then show ?thesis
    proof cases
      case 1
      with e n Ok r show ?thesis by (auto simp: read_blocking_def advance_blocking_def)
    next
      case (2 r1)
      obtain aq r2 t2 where a: "advance_loop rd ?l ?l (r1, t1) = (aq, r2, t2)" by (metis prod.exhaust)
      from advance_loop_ok [OF rd 2(5) _ a] 2 have
        r2: "aq \<noteq> Panic" "rr_ok r2" "length (rr_buf r2) = length (rr_buf r)" "aq = Ok () \<Longrightarrow> rr_pending r2 = ?l"
        by auto
      show ?thesis
      proof (cases aq)
        case ok2: (Ok x)
        then have p: "rr_pending r2 = ?l" using r2(4) by simp
        have d: "rr_decoded r2 + ?l \<le> length (rr_buf r2)" using r2(2) p by (simp add: rr_ok_def)
        let ?data = "slice_of (rr_buf r2) (rr_decoded r2) (rr_decoded r2 + ?l)"
        obtain dq h' where dec: "ServerRecord_decode cs header (rr_decoded r2) ?data (transcript_hash rks) = (dq, h')"
          by fastforce
        have "dq \<noteq> Panic"
          using ServerRecord_decode_no_panic [OF bs, of ?data cs "rr_decoded r2" "transcript_hash rks"] d dec by simp
        then show ?thesis
          using e n Ok 2(1) a ok2 p d dec r2
          by (auto simp: read_blocking_def advance_blocking_def rr_consume_def Let_def rr_ok_def)
      qed (use e n Ok 2(1) a r2 in \<open>auto simp: read_blocking_def advance_blocking_def\<close>)
    qed
  qed (use e n nq r in \<open>auto simp: read_blocking_def\<close>)
qed

text \<open>What every read keeps of the transport, reading a record keeps.\<close>

lemma header_loop_keeps:
  assumes "\<And>n t. I t \<Longrightarrow> I (snd (rd n t))" "I t"
  shows "I (snd (header_loop rd got t))"
  using assms
proof (induction rd got t rule: header_loop.induct)
  case (1 rd got t)
  obtain q u where u: "rd (RecordHeader_LEN - length got) t = (q, u)" by fastforce
  with 1 have "I u" by (metis snd_conv)
  with 1 u show ?case by (subst header_loop.simps) (cases q; auto)
qed

lemma advance_loop_keeps:
  assumes "\<And>n t. I t \<Longrightarrow> I (snd (rd n t))" "I (snd s)"
  shows "I (snd (snd (advance_loop rd amount remain s)))"
  using assms
proof (induction rd amount remain s rule: advance_loop.induct)
  case (1 rd amount remain r t)
  obtain q u where u: "rd remain t = (q, u)" by fastforce
  with 1 have "I u" by (metis snd_conv)
  with 1 u show ?case by (subst advance_loop.simps) (cases q; auto)
qed

lemma read_blocking_keeps:
  assumes "\<And>n t. I t \<Longrightarrow> I (snd (rd n t))" "I t" "read_blocking cs rd (r, t, rks) = (q, r', t', rks')"
  shows "I t'"
proof -
  have h: "I (snd (next_record_header_blocking rd t))"
    unfolding next_record_header_blocking_def
    by (rule snd_bnd_invariant [where I = I]) (use assms header_loop_keeps [of I rd] in auto)
  have a: "I (snd (snd (advance_blocking rd n (r, t1))))" if "I t1" for n t1
    using advance_loop_keeps [of I rd] assms(1) that
    by (auto simp: advance_blocking_def split: prod.splits result.splits)
  obtain hq t1 where t1: "next_record_header_blocking rd t = (hq, t1)" by fastforce
  with h have i: "I t1" by simp
  show ?thesis
  proof (cases hq)
    case (Ok header)
    obtain aq r1 t2 where t2: "advance_blocking rd (RecordHeader_content_length header) (r, t1) = (aq, r1, t2)"
      by (metis prod.exhaust)
    with a [OF i] have "I t2" by (metis snd_conv)
    with assms(3) t1 Ok t2 show ?thesis
      by (cases aq) (auto simp: read_blocking_def split: prod.splits)
  qed (use assms(3) t1 i in \<open>auto simp: read_blocking_def\<close>)
qed

section \<open>Transports over a byte stream\<close>

text \<open>A transport that delivers the bytes of a stream in order, at least one per read while there are
  any, and nothing at the end.\<close>

locale stream_reader =
  fixes rd :: "'t reader"
    and stream :: "'t \<Rightarrow> bytes"
    and good :: "'t \<Rightarrow> bool"
  assumes read_some: "good t \<Longrightarrow> 0 < n \<Longrightarrow> stream t \<noteq> [] \<Longrightarrow>
      \<exists>bs t'. rd n t = (Ok bs, t') \<and> bs \<noteq> [] \<and> length bs \<le> n \<and> stream t = bs @ stream t' \<and> good t'"
    and read_eof: "good t \<Longrightarrow> 0 < n \<Longrightarrow> stream t = [] \<Longrightarrow> \<exists>t'. rd n t = (Ok [], t')"
begin

text \<open>A read within the next \<open>n\<close> bytes \<open>xs\<close> of the stream takes a non-empty prefix of them.\<close>

lemma read_prefix:
  assumes "good t" "stream t = xs @ rest" "xs \<noteq> []" "n = length xs"
  obtains bs ys t' where "rd n t = (Ok bs, t')" "bs \<noteq> []" "xs = bs @ ys" "stream t' = ys @ rest" "good t'"
proof -
  obtain bs t' where rd: "rd n t = (Ok bs, t')" "bs \<noteq> []" "length bs \<le> n" "stream t = bs @ stream t'" "good t'"
    using read_some [OF assms(1), of n] assms by auto
  then have "xs = bs @ drop (length bs) xs" "stream t' = drop (length bs) xs @ rest"
    using assms(2,4) by (metis append_eq_conv_conj drop_append append_take_drop_id append.right_neutral
        diff_is_0_eq drop_0 take_append take_0)+
  with rd that show thesis by blast
qed

lemma header_loop_stream:
  assumes "good t" "stream t = xs @ rest" "length got + length xs = RecordHeader_LEN"
  shows "\<exists>t'. header_loop rd got t = (Ok (got @ xs), t') \<and> stream t' = rest \<and> good t'"
  using assms
proof (induction "length xs" arbitrary: xs got t rule: less_induct)
  case less
  show ?case
  proof (cases "xs = []")
    case True
    with less.prems show ?thesis by (subst header_loop.simps) auto
  next
    case False
    have n: "RecordHeader_LEN - length got = length xs" using less.prems(3) by simp
    obtain bs ys u where rd: "rd (length xs) t = (Ok bs, u)" "bs \<noteq> []" "xs = bs @ ys" "stream u = ys @ rest" "good u"
      using read_prefix [OF less.prems(1,2) False refl] .
    have "\<exists>t'. header_loop rd (got @ bs) u = (Ok ((got @ bs) @ ys), t') \<and> stream t' = rest \<and> good t'"
      using less.hyps [of ys u "got @ bs"] rd less.prems(3) by simp
    moreover have "header_loop rd got t = header_loop rd (got @ bs) u"
      using rd(1,2) n False less.prems(3) by (subst header_loop.simps) auto
    ultimately show ?thesis using rd(3) by simp
  qed
qed

lemma advance_loop_stream:
  assumes "good t" "stream t = xs @ rest" "length xs = remain" "rr_pending r + remain = amount"
    and "rr_decoded r + amount \<le> length (rr_buf r)"
  shows "\<exists>t'. advance_loop rd amount remain (r, t) =
      (Ok (), r\<lparr>rr_buf := write_at (rr_buf r) (rr_decoded r + rr_pending r) xs, rr_pending := amount\<rparr>, t') \<and>
    stream t' = rest \<and> good t'"
  using assms
proof (induction remain arbitrary: xs r t rule: less_induct)
  case (less remain)
  show ?case
  proof (cases "xs = []")
    case True
    with less.prems show ?thesis by (subst advance_loop.simps) auto
  next
    case False
    obtain bs ys u where rd: "rd (length xs) t = (Ok bs, u)" "bs \<noteq> []" "xs = bs @ ys" "stream u = ys @ rest" "good u"
      using read_prefix [OF less.prems(1,2) False refl] .
    let ?r = "r\<lparr>rr_buf := write_at (rr_buf r) (rr_decoded r + rr_pending r) bs, rr_pending := rr_pending r + length bs\<rparr>"
    have "length ys < remain" using rd less.prems(3) by (cases bs) auto
    from less.IH [OF this rd(5,4) refl, of ?r] rd less.prems obtain t' where
      "advance_loop rd amount (length ys) (?r, u) =
        (Ok (), ?r\<lparr>rr_buf := write_at (rr_buf ?r) (rr_decoded ?r + rr_pending ?r) ys, rr_pending := amount\<rparr>, t')"
      "stream t' = rest" "good t'" by auto
    moreover have "advance_loop rd amount remain (r, t) = advance_loop rd amount (length ys) (?r, u)"
      using rd less.prems by (subst advance_loop.simps) auto
    moreover have "write_at (write_at (rr_buf r) (rr_decoded r + rr_pending r) bs)
        (rr_decoded r + (rr_pending r + length bs)) ys = write_at (rr_buf r) (rr_decoded r + rr_pending r) xs"
      using write_at_write_at [of "rr_decoded r + rr_pending r" bs ys "rr_buf r"] rd(3) less.prems(3-5)
      by (simp add: add.assoc)
    ultimately show ?thesis by simp
  qed
qed

lemma ensure_contiguous_empty:
  assumes "rr_ok r" "rr_pending r = 0" "len \<le> length (rr_buf r)"
  shows "ensure_contiguous len r =
    (Ok (), r\<lparr>rr_decoded := if length (rr_buf r) < rr_decoded r + len then 0 else rr_decoded r\<rparr>)"
  using assms by (simp add: ensure_contiguous_def rr_ok_def slice_of_def)

text \<open>However the transport cuts the stream, the record at its front is decoded from exactly its
  header and payload, and the transport stands right behind it.\<close>

lemma read_record:
  assumes "good t" "stream t = hdr @ payload @ rest" "length hdr = RecordHeader_LEN"
    and "RecordHeader_decode hdr = Ok header" "length payload = RecordHeader_content_length header"
    and "rr_ok r" "rr_pending r = 0" "length payload \<le> length (rr_buf r)"
    and base: "base = (if length (rr_buf r) < rr_decoded r + length payload then 0 else rr_decoded r)"
  shows "\<exists>t'. read_blocking cs rd (r, t, rks) =
      (fst (ServerRecord_decode cs header base payload (transcript_hash rks)),
       \<lparr>rr_buf = write_at (rr_buf r) base payload, rr_decoded = base + length payload, rr_pending = 0\<rparr>, t',
       rks\<lparr>transcript_hash := snd (ServerRecord_decode cs header base payload (transcript_hash rks))\<rparr>) \<and>
    stream t' = rest \<and> good t'"
proof -
  from header_loop_stream [OF assms(1,2), of "[]"] assms(3) obtain t1 where
    h: "header_loop rd [] t = (Ok hdr, t1)" and t1: "stream t1 = payload @ rest" "good t1" by auto
  let ?r = "r\<lparr>rr_decoded := base\<rparr>"
  have b: "base + length payload \<le> length (rr_buf r)" using assms(6,8) base by auto
  from advance_loop_stream [OF t1(2,1) refl, of ?r "length payload"] assms(7) b obtain t2 where
    a: "advance_loop rd (length payload) (length payload) (?r, t1) =
        (Ok (), ?r\<lparr>rr_buf := write_at (rr_buf r) base payload, rr_pending := length payload\<rparr>, t2)"
    and t2: "stream t2 = rest" "good t2" by auto
  have "rr_consume cs header (?r\<lparr>rr_buf := write_at (rr_buf r) base payload, rr_pending := length payload\<rparr>, h) =
      (fst (ServerRecord_decode cs header base payload h),
       \<lparr>rr_buf = write_at (rr_buf r) base payload, rr_decoded = base + length payload, rr_pending = 0\<rparr>,
       snd (ServerRecord_decode cs header base payload h))" for h
    using b assms(5) slice_write_at [of base payload "rr_buf r"]
    by (cases r) (simp add: rr_consume_def Let_def split: prod.splits)
  then show ?thesis
    using h a t2 assms(4,5) ensure_contiguous_empty [OF assms(6,7,8)] base
    by (simp add: read_blocking_def next_record_header_blocking_def bnd_def advance_blocking_def)
qed

text \<open>A read that returns something takes it off the stream.\<close>

lemma read_takes:
  assumes "good t" "0 < n" "rd n t = (Ok bs, t')" "bs \<noteq> []"
  shows "stream t = bs @ stream t' \<and> good t'"
proof (cases "stream t = []")
  case True
  from read_eof [OF assms(1,2) True] assms(3,4) show ?thesis by auto
next
  case False
  from read_some [OF assms(1,2) False] assms(3) show ?thesis by auto
qed

text \<open>A header that was read and a payload that was read stood at the front of the stream.\<close>

lemma header_loop_takes:
  assumes "good t" "length got \<le> RecordHeader_LEN" "header_loop rd got t = (Ok h, t')"
  shows "good t' \<and> length h = RecordHeader_LEN \<and> got @ stream t = h @ stream t'"
  using assms
proof (induction "RecordHeader_LEN - length got" arbitrary: got t rule: less_induct)
  case less
  show ?case
  proof (cases "length got = RecordHeader_LEN")
    case True
    with less.prems show ?thesis by (simp add: header_loop.simps [of rd got])
  next
    case False
    then have n: "0 < RecordHeader_LEN - length got" "\<not> RecordHeader_LEN < length got" using less.prems(2) by auto
    obtain q u where rd: "rd (RecordHeader_LEN - length got) t = (q, u)" by fastforce
    from less.prems(3) n False rd obtain bs where q: "q = Ok bs" "bs \<noteq> []" "header_loop rd (got @ bs) u = (Ok h, t')"
      by (subst (asm) header_loop.simps) (cases q; auto split: if_splits)
    from read_takes [OF less.prems(1) n(1) rd [unfolded q(1)] q(2)] have u: "stream t = bs @ stream u" "good u" by auto
    have "length (got @ bs) \<le> RecordHeader_LEN"
      using q(3) by (cases "RecordHeader_LEN < length (got @ bs)") (subst (asm) header_loop.simps, auto)
    moreover have "RecordHeader_LEN - length (got @ bs) < RecordHeader_LEN - length got" using q(2) n by (cases bs) auto
    ultimately show ?thesis using less.hyps [OF _ u(2) _ q(3)] u(1) by simp
  qed
qed

lemma advance_loop_takes:
  assumes "good t" "amount \<le> rr_pending r + remain" "advance_loop rd amount remain (r, t) = (Ok (), r', t')"
  shows "good t' \<and> (\<exists>bs. stream t = bs @ stream t' \<and> (rr_pending r + remain = amount \<longrightarrow> length bs = remain))"
  using assms
proof (induction remain arbitrary: r t rule: less_induct)
  case (less remain)
  show ?case
  proof (cases "amount \<le> rr_pending r")
    case True
    with less.prems show ?thesis by (simp add: advance_loop.simps [of rd amount remain r])
  next
    case False
    then have n: "0 < remain" using less.prems(2) by simp
    obtain q u where rd: "rd remain t = (q, u)" by fastforce
    let ?r = "\<lambda>bs. r\<lparr>rr_buf := write_at (rr_buf r) (rr_decoded r + rr_pending r) bs, rr_pending := rr_pending r + length bs\<rparr>"
    from less.prems(3) False rd obtain bs where q: "q = Ok bs" "bs \<noteq> []" "length bs \<le> remain"
      "advance_loop rd amount (remain - length bs) (?r bs, u) = (Ok (), r', t')"
      by (subst (asm) advance_loop.simps) (cases q; auto split: if_splits)
    from read_takes [OF less.prems(1) n rd [unfolded q(1)] q(2)] have u: "stream t = bs @ stream u" "good u" by auto
    have "remain - length bs < remain" using q(2) n by (cases bs) auto
    from less.IH [OF this u(2) _ q(4)] less.prems(2) q(3) obtain cs where
      "stream u = cs @ stream t'" "rr_pending r + remain = amount \<longrightarrow> length cs = remain - length bs" "good t'" by auto
    with u(1) q(3) show ?thesis by (intro conjI exI [of _ "bs @ cs"]) auto
  qed
qed

lemma read_blocking_shrinks:
  assumes "good t" "read_blocking cs rd (r, t, rks) = (Ok rec, r', t', rks')"
  shows "good t' \<and> length (stream t') + RecordHeader_LEN \<le> length (stream t)"
proof -
  from assms(2) obtain header t1 r1 where h: "next_record_header_blocking rd t = (Ok header, t1)"
    and a: "advance_blocking rd (RecordHeader_content_length header) (r, t1) = (Ok (), r1, t')"
    by (auto simp: read_blocking_def split: prod.splits result.splits)
  from h obtain hb where "header_loop rd [] t = (Ok hb, t1)"
    by (auto simp: next_record_header_blocking_def bnd_Ok_iff)
  from header_loop_takes [OF assms(1) _ this] have t1: "good t1" "length (stream t1) + RecordHeader_LEN \<le> length (stream t)"
    by auto
  from a obtain r0 where "advance_loop rd (RecordHeader_content_length header) (RecordHeader_content_length header) (r0, t1) = (Ok (), r1, t')"
    by (auto simp: advance_blocking_def split: prod.splits result.splits)
  from advance_loop_takes [OF t1(1) _ this] t1(2) show ?thesis by auto
qed

end

section \<open>The chunked transport of the tests\<close>

record ChunkRead =
  chunk_data :: bytes
  chunk_size :: nat

definition ChunkRead_read :: "ChunkRead reader" where
  "ChunkRead_read n = (\<lambda>c.
     let len = min (chunk_size c) n; len = min len (length (chunk_data c)) in
     (Ok (take len (chunk_data c)), c\<lparr>chunk_data := drop len (chunk_data c)\<rparr>))"

interpretation chunk_read: stream_reader ChunkRead_read chunk_data "\<lambda>c. 0 < chunk_size c"
  by unfold_locales (auto simp: ChunkRead_read_def Let_def)

lemma ChunkRead_bounded: "reader_bounded ChunkRead_read"
  by (auto simp: reader_bounded_def ChunkRead_read_def Let_def min_def)

section \<open>Properties\<close>

text \<open>The records of a connection, read one after the other; \<open>use rec\<close> is what happens between two of them, such as
  decryption in place, which may change the bytes of the buffer, the keys and the transport.\<close>

fun read_records ::
  "('h, 'k) TlsCipherSuite \<Rightarrow> 't reader \<Rightarrow>
     (ServerRecord \<Rightarrow> RecordReader \<times> 't \<times> ('h, 'k) ReadKeySchedule \<Rightarrow> RecordReader \<times> 't \<times> ('h, 'k) ReadKeySchedule) \<Rightarrow> nat \<Rightarrow>
     (RecordReader \<times> 't \<times> ('h, 'k) ReadKeySchedule, ServerRecord list, TlsError) prog" where
  "read_records cs rd use 0 = ret []"
| "read_records cs rd use (Suc n) =
     bnd (read_blocking cs rd) (\<lambda>rec.
     seq (modify (use rec)) (
     bnd (read_records cs rd use n) (\<lambda>recs. ret (rec # recs))))"

definition keeps_reader :: "(ServerRecord \<Rightarrow> RecordReader \<times> 't \<times> 'r \<Rightarrow> RecordReader \<times> 't \<times> 'r) \<Rightarrow> bool" where
  "keeps_reader use \<longleftrightarrow> (\<forall>rec r t k. \<exists>buf t' k'. use rec (r, t, k) = (r\<lparr>rr_buf := buf\<rparr>, t', k') \<and> length buf = length (rr_buf r))"

lemma read_records_ok:
  assumes "reader_bounded rd" and "keeps_reader use"
    and "rr_ok r" and "rr_pending r = 0" and "read_records cs rd use n (r, t, rks) = (q, r', t', rks')"
  shows "q \<noteq> Panic \<and> rr_ok r' \<and> length (rr_buf r') = length (rr_buf r) \<and>
    (\<forall>recs. q = Ok recs \<longrightarrow> length recs = n \<and> rr_pending r' = 0)"
  using assms(3-)
proof (induction n arbitrary: r t rks q r' t' rks')
  case (Suc n)
  obtain q1 r1 t1 k1 where e: "read_blocking cs rd (r, t, rks) = (q1, r1, t1, k1)" by (metis prod.exhaust)
  from read_blocking_ok [OF assms(1) Suc.prems(1,2) e] have r1: "q1 \<noteq> Panic" "rr_ok r1" "length (rr_buf r1) = length (rr_buf r)"
    "\<And>rec. q1 = Ok rec \<Longrightarrow> rr_pending r1 = 0" by auto
  show ?case
  proof (cases q1)
    case (Ok rec)
    from assms(2) obtain buf t2 k2 where u: "use rec (r1, t1, k1) = (r1\<lparr>rr_buf := buf\<rparr>, t2, k2)" "length buf = length (rr_buf r1)"
      unfolding keeps_reader_def by blast
    obtain q3 r3 t3 k3 where i: "read_records cs rd use n (r1\<lparr>rr_buf := buf\<rparr>, t2, k2) = (q3, r3, t3, k3)" by (metis prod.exhaust)
    have "rr_ok (r1\<lparr>rr_buf := buf\<rparr>)" using r1(2) u(2) by (simp add: rr_ok_def)
    from Suc.IH [OF this _ i] r1(3,4) Ok u(2) have "q3 \<noteq> Panic" "rr_ok r3" "length (rr_buf r3) = length (rr_buf r)"
      "\<And>recs. q3 = Ok recs \<Longrightarrow> length recs = n \<and> rr_pending r3 = 0" by auto
    with Suc.prems(3) e Ok u(1) i show ?thesis by (cases q3) (auto simp: bnd_def)
  qed (use Suc.prems(3) e r1 in \<open>auto simp: bnd_def\<close>)
qed auto

text \<open>C27. From a new reader on, reading records one after the other never panics, up to and including the first read that fails,
  whatever bytes and errors the transport delivers and however the records are decrypted in place between the reads;
  the cursors stay within the buffer, and while the reads succeed nothing is left pending. (After a failed read bytes
  may be pending; reading on from there is not covered.)\<close>

theorem read_records_safe:
  assumes "reader_bounded rd" and "keeps_reader use"
    and "read_records cs rd use n (RecordReader_new buf, t, rks) = (q, r', t', rks')"
  shows "q \<noteq> Panic \<and> rr_ok r' \<and> length (rr_buf r') = length buf \<and>
    (\<forall>recs. q = Ok recs \<longrightarrow> length recs = n \<and> rr_pending r' = 0)"
  using read_records_ok [OF assms(1,2) _ _ assms(3)] by (simp add: RecordReader_new_def rr_ok_def)

text \<open>A ChangeCipherSpec, then a header whose record is cut off.\<close>

theorem read_records_safe_witness:
  "fst (read_records toy_suite ChunkRead_read (\<lambda>rec s. s) 2
     (RecordReader_new [0, 0], \<lparr>chunk_data = [20, 3, 3, 0, 1, 1, 23, 3, 3, 0, 2, 5], chunk_size = 2\<rparr>,
      server_state (KeySchedule_new toy_suite))) \<noteq> Panic"
proof -
  let ?s = "(RecordReader_new [0, 0], \<lparr>chunk_data = [20, 3, 3, 0, 1, 1, 23, 3, 3, 0, 2, 5], chunk_size = 2\<rparr>,
      server_state (KeySchedule_new toy_suite))"
  obtain q r' t' rks' where e: "read_records toy_suite ChunkRead_read (\<lambda>rec s. s) 2 ?s = (q, r', t', rks')"
    by (metis prod.exhaust)
  have "\<exists>buf t' k'. (r, t, k) = (r\<lparr>rr_buf := buf\<rparr>, t', k') \<and> length buf = length (rr_buf r)"
    for r :: RecordReader and t :: ChunkRead and k :: "(bytes, bytes) ReadKeySchedule"
    by (intro exI [of _ "rr_buf r"]) simp
  then have "keeps_reader (\<lambda>rec s :: RecordReader \<times> ChunkRead \<times> (bytes, bytes) ReadKeySchedule. s)"
    unfolding keeps_reader_def by blast
  from read_records_safe [OF ChunkRead_bounded this e] e show ?thesis by simp
qed

text \<open>C26. Chunking does not matter. For every transport that delivers a stream in order, at least one byte per read while
  there is any and however many it likes: when nothing is pending and the stream starts with a record that fits
  the buffer, \<open>read_blocking\<close> decodes exactly that header and payload, leaves the transport right behind the record, and
  puts the payload behind what was decoded before, or at the front of the buffer when it does not fit
  there.\<close>

theorem read_blocking_any_chunking:
  assumes "stream_reader rd stream good" and "good t" and "stream t = hdr @ payload @ rest" and "length hdr = RecordHeader_LEN"
    and "RecordHeader_decode hdr = Ok header" and "length payload = RecordHeader_content_length header"
    and "rr_ok r" and "rr_pending r = 0" and "length payload \<le> length (rr_buf r)"
    and "base = (if length (rr_buf r) < rr_decoded r + length payload then 0 else rr_decoded r)"
  shows "\<exists>t'. read_blocking cs rd (r, t, rks) =
      (fst (ServerRecord_decode cs header base payload (transcript_hash rks)),
       \<lparr>rr_buf = write_at (rr_buf r) base payload, rr_decoded = base + length payload, rr_pending = 0\<rparr>, t',
       rks\<lparr>transcript_hash := snd (ServerRecord_decode cs header base payload (transcript_hash rks))\<rparr>) \<and>
    stream t' = rest \<and> good t'"
  by (rule stream_reader.read_record [OF assms])

theorem read_blocking_any_chunking_witness:
  "\<exists>t'. read_blocking toy_suite ChunkRead_read
      (\<lparr>rr_buf = [1, 2, 3, 4], rr_decoded = 3, rr_pending = 0\<rparr>,
       \<lparr>chunk_data = [23, 3, 3, 0, 2, 0xaa, 0xbb, 9], chunk_size = 3\<rparr>, server_state (KeySchedule_new toy_suite)) =
     (Ok (SR_ApplicationData \<lparr>app_header = RecordHeader [23, 3, 3, 0, 2],
            app_data = cb_wrap_with_pos [0xaa, 0xbb] 2, app_base = 0\<rparr>),
      \<lparr>rr_buf = [0xaa, 0xbb, 3, 4], rr_decoded = Suc (Suc 0), rr_pending = 0\<rparr>, t', server_state (KeySchedule_new toy_suite)) \<and>
    chunk_data t' = [9]"
proof -
  have h: "RecordHeader_decode [23, 3, 3, 0, 2] = Ok (RecordHeader [23, 3, 3, 0, 2])"
    "RecordHeader_content_length (RecordHeader [23, 3, 3, 0, 2]) = 2"
    by (simp_all add: RecordHeader_decode_def ContentType_of_def RecordHeader_content_length_def unat_u16_from)
  have d: "ServerRecord_decode toy_suite (RecordHeader [23, 3, 3, 0, 2]) 0 [0xaa, 0xbb] d =
      (Ok (SR_ApplicationData \<lparr>app_header = RecordHeader [23, 3, 3, 0, 2],
            app_data = cb_wrap_with_pos [0xaa, 0xbb] 2, app_base = 0\<rparr>), d)" for d
    by (simp add: ServerRecord_decode_def h(2) RecordHeader_content_type_def ContentType_of_def
        cb_wrap_with_pos_def)
  show ?thesis
    using read_blocking_any_chunking [OF chunk_read.stream_reader_axioms, of "\<lparr>chunk_data = [23, 3, 3, 0, 2, 0xaa, 0xbb, 9], chunk_size = 3\<rparr>"
        "[23, 3, 3, 0, 2]" "[0xaa, 0xbb]" "[9]" "RecordHeader [23, 3, 3, 0, 2]"
        "\<lparr>rr_buf = [1, 2, 3, 4], rr_decoded = 3, rr_pending = 0\<rparr>" 0 toy_suite "server_state (KeySchedule_new toy_suite)"]
    by (auto simp: RecordHeader_LEN_def h d rr_ok_def write_at_def)
qed

end
