(* ===== verification/Record_Protection.thy ===== *)
theory Record_Protection
  imports Tls_Record
begin

text \<open>
  Record protection: \<open>encrypt\<close> and \<open>decrypt_record\<close> of \<open>src/src/connection.rs\<close>. The AEAD is a
  parameter of the cipher suite; \<open>aead_laws\<close> states what \<open>encrypt_in_place\<close> and
  \<open>decrypt_in_place\<close> promise in terms of a sealing function on byte strings. \<open>decrypt_record\<close>
  works in place on the slice of the read buffer that the record borrows: its state is the
  read buffer, the read key schedule, and whatever the callback keeps.
\<close>

section \<open>Encryption\<close>

definition encrypt :: "('h, 'k) TlsCipherSuite \<Rightarrow> 'k WriteKeySchedule \<Rightarrow> unit encoder" where
  "encrypt cs wks =
     bnd (from_result (write_get_nonce cs wks)) (\<lambda>nonce.
     bnd (gets (\<lambda>b. cb_len b + TagSize cs)) (\<lambda>len.
     bnd (gets cb_capacity) (\<lambda>cap.
     if cap < len then fail InsufficientSpace
     else
       let len_bytes = u16_to_be_bytes (of_nat len);
           additional_data = [ContentType_as_u8 CT_ApplicationData, 0x03, 0x03, len_bytes ! 0, len_bytes ! 1] in
       map_err (\<lambda>_. InvalidApplicationData)
         (aead_encrypt_in_place cs (write_get_key wks) nonce additional_data))))"

section \<open>Decryption\<close>

text \<open>\<open>iter().enumerate().rfind(|(_, b)| **b != 0)\<close>\<close>

definition rfind_nonzero :: "bytes \<Rightarrow> nat option" where
  "rfind_nonzero bs = (case dropWhile (\<lambda>(_, b). b = 0) (rev (List.enumerate 0 bs)) of
     [] \<Rightarrow> None | (index, _) # _ \<Rightarrow> Some index)"

abbreviation cb_slice :: "bytes encoder" where
  "cb_slice \<equiv> (\<lambda>b. (cb_as_slice b, b))"

text \<open>Cut the padding, read the content type off the end and cut it too.\<close>

definition inner_plaintext :: "ContentType encoder" where
  "inner_plaintext =
     bnd cb_slice (\<lambda>s.
     seq (case rfind_nonzero s of Some index \<Rightarrow> cb_truncate (index + 1) | None \<Rightarrow> ret ()) (
     bnd cb_slice (\<lambda>s1.
     if s1 = [] then panic else
     bnd (ok_or InvalidRecord (ContentType_of (last s1))) (\<lambda>content_type.
     bnd (gets cb_len) (\<lambda>n.
     seq (cb_truncate (n - 1)) (
     ret content_type))))))"

type_synonym ('h, 'k, 'u) record_cb =
  "ServerRecord \<Rightarrow> (('h, 'k) ReadKeySchedule \<times> 'u, unit, TlsError) prog"

lemma ServerHandshake_parse_progress:
  assumes "ServerHandshake_parse cs b = (Ok m, b')"
  shows "pb_ok b \<and> buffer b' = buffer b \<and> pos b < pos b' \<and> pos b' \<le> length (buffer b)"
proof -
  from assms obtain t b1 where t: "HandshakeType_parse b = (Ok t, b1)"
    by (auto simp: ServerHandshake_parse_def bnd_Ok_iff map_err_Ok_iff)
  then have b1: "pb_ok b" "b1 = b\<lparr>pos := pos b + 1\<rparr>" "pb_ok b1"
    by (auto simp: HandshakeType_parse_def bnd_Ok_iff pb_read_u8_value pb_ok_def split: if_splits)
  define k where "k = bnd (map_err (\<lambda>_. InvalidHandshake) pb_read_u24) (\<lambda>content_len.
     case t of
       HT_ServerHello \<Rightarrow> bnd ServerHello_parse (\<lambda>x. ret (SH_ServerHello x))
     | HT_NewSessionTicket \<Rightarrow> bnd NewSessionTicket_parse (\<lambda>x. ret (SH_NewSessionTicket x))
     | HT_EncryptedExtensions \<Rightarrow> bnd EncryptedExtensions_parse (\<lambda>x. ret (SH_EncryptedExtensions x))
     | HT_Certificate \<Rightarrow> bnd CertificateRef_parse (\<lambda>x. ret (SH_Certificate x))
     | HT_CertificateRequest \<Rightarrow> bnd CertificateRequestRef_parse (\<lambda>x. ret (SH_CertificateRequest x))
     | HT_CertificateVerify \<Rightarrow> bnd CertificateVerifyRef_parse (\<lambda>x. ret (SH_CertificateVerify x))
     | HT_Finished \<Rightarrow> bnd (Finished_parse cs content_len) (\<lambda>x. ret (SH_Finished x))
     | _ \<Rightarrow> fail Unimplemented)"
  have "pb_safe k"
    unfolding k_def by (intro safe_intros; cases t; simp; intro safe_intros)
  moreover have "k b1 = (Ok m, b')"
    using assms t by (simp add: ServerHandshake_parse_def k_def bnd_def map_err_def)
  ultimately have "pb_advances b1 b'" using pb_safeD b1(3) by blast
  then show ?thesis using b1 by (auto simp: pb_advances_def)
qed

text \<open>The loop over coalesced handshake messages; every message takes at least a byte.\<close>

function handshake_loop ::
  "('h, 'k) TlsCipherSuite \<Rightarrow> ('h, 'k, 'u) record_cb \<Rightarrow> ParseBuffer \<Rightarrow>
     (('h, 'k) ReadKeySchedule \<times> 'u, unit, TlsError) prog" where
  "handshake_loop cs cb buf (rks, u) =
     (if length (buffer buf) \<le> pos buf then (Ok (), rks, u)
      else case ServerHandshake_read cs (buf, transcript_hash rks) of
        (Err e, _, h) \<Rightarrow> (Err e, rks\<lparr>transcript_hash := h\<rparr>, u)
      | (Panic, _, h) \<Rightarrow> (Panic, rks\<lparr>transcript_hash := h\<rparr>, u)
      | (Ok inner, buf', h) \<Rightarrow>
          (case cb (SR_Handshake inner) (rks\<lparr>transcript_hash := h\<rparr>, u) of
             (Ok _, s) \<Rightarrow> handshake_loop cs cb buf' s
           | (Err e, s) \<Rightarrow> (Err e, s)
           | (Panic, s) \<Rightarrow> (Panic, s)))"
  by pat_completeness auto
termination
proof (relation "measure (\<lambda>(cs, cb, b, s). length (buffer b) - pos b)", goal_cases)
  case (2 cs cb b rks u r rest inner b' h)
  from 2(2-4) [symmetric] obtain m0 where "ServerHandshake_parse cs b = (Ok m0, b')"
    by (auto simp: ServerHandshake_read_def Let_def split: prod.splits result.splits if_splits)
  from ServerHandshake_parse_progress [OF this] show ?case by auto
qed simp

declare handshake_loop.simps [simp del]

definition app_store :: "ApplicationData \<Rightarrow> CryptoBuffer \<Rightarrow> bytes \<Rightarrow> bytes" where
  "app_store ad d mem = write_at mem (app_base ad) (cb_buf d)"

text \<open>What the \<open>match content_type\<close> does with the inner plaintext.\<close>

definition dispatch_inner ::
  "('h, 'k) TlsCipherSuite \<Rightarrow> ('h, 'k, 'u) record_cb \<Rightarrow> ApplicationData \<Rightarrow> ContentType \<Rightarrow> CryptoBuffer \<Rightarrow>
     (('h, 'k) ReadKeySchedule \<times> 'u, unit, TlsError) prog" where
  "dispatch_inner cs cb ad content_type d = (case cb_as_slice d of
     Err e \<Rightarrow> fail e
   | Panic \<Rightarrow> panic
   | Ok s \<Rightarrow>
       (case content_type of
          CT_Handshake \<Rightarrow> handshake_loop cs cb (pb_new s)
        | CT_ApplicationData \<Rightarrow> cb (SR_ApplicationData (ad\<lparr>app_data := d\<rparr>))
        | CT_Alert \<Rightarrow> bnd (from_result (fst (Alert_parse (pb_new s)))) (\<lambda>alert. cb (SR_Alert alert))
        | _ \<Rightarrow> fail Unimplemented))"

definition decrypt_app ::
  "('h, 'k) TlsCipherSuite \<Rightarrow> ApplicationData \<Rightarrow> ('h, 'k, 'u) record_cb \<Rightarrow>
     (bytes \<times> ('h, 'k) ReadKeySchedule \<times> 'u, unit, TlsError) prog" where
  "decrypt_app cs ad cb = (\<lambda>(mem, rks, u).
     case read_get_nonce cs rks of
       Err e \<Rightarrow> (Err e, mem, rks, u)
     | Panic \<Rightarrow> (Panic, mem, rks, u)
     | Ok nonce \<Rightarrow>
         (case bnd (map_err (\<lambda>_. CryptoError)
                      (aead_decrypt_in_place cs (read_get_key rks) nonce (header_data (app_header ad))))
                   (\<lambda>_. inner_plaintext) (app_data ad) of
            (Err e, d) \<Rightarrow> (Err e, app_store ad d mem, rks, u)
          | (Panic, d) \<Rightarrow> (Panic, app_store ad d mem, rks, u)
          | (Ok content_type, d) \<Rightarrow>
              (case dispatch_inner cs cb ad content_type d (rks, u) of
                 (Err e, rks', u') \<Rightarrow> (Err e, app_store ad d mem, rks', u')
               | (Panic, rks', u') \<Rightarrow> (Panic, app_store ad d mem, rks', u')
               | (Ok _, rks', u') \<Rightarrow>
                   (case read_increment_counter rks' of
                      (r, rks'') \<Rightarrow> (r, app_store ad d mem, rks'', u')))))"

definition decrypt_record ::
  "('h, 'k) TlsCipherSuite \<Rightarrow> ServerRecord \<Rightarrow> ('h, 'k, 'u) record_cb \<Rightarrow>
     (bytes \<times> ('h, 'k) ReadKeySchedule \<times> 'u, unit, TlsError) prog" where
  "decrypt_record cs rec cb = (case rec of
     SR_ApplicationData ad \<Rightarrow> decrypt_app cs ad cb
   | _ \<Rightarrow> (\<lambda>(mem, rks, u). case cb rec (rks, u) of (r, rks', u') \<Rightarrow> (r, mem, rks', u')))"

section \<open>What the AEAD promises\<close>

definition cb_put_window :: "CryptoBuffer \<Rightarrow> bytes \<Rightarrow> CryptoBuffer" where
  "cb_put_window b bs = b\<lparr>cb_buf := write_at (cb_buf b) (cb_offset b) bs, cb_len := length bs\<rparr>"

text \<open>\<open>seal k n aad p\<close> is the ciphertext with its tag. \<open>encrypt_in_place\<close> replaces the window by it when
  the tag fits; \<open>decrypt_in_place\<close> accepts exactly the sealed messages and gives the plaintext
  back, the bytes of the tag staying behind the window.\<close>

definition aead_laws ::
  "('h, 'k) TlsCipherSuite \<Rightarrow> (bytes \<Rightarrow> bytes \<Rightarrow> bytes \<Rightarrow> bytes \<Rightarrow> bytes) \<Rightarrow> bool" where
  "aead_laws cs seal \<longleftrightarrow>
     (\<forall>k n a p. length (seal k n a p) = length p + TagSize cs) \<and>
     (\<forall>k n a b. cb_ok b \<longrightarrow>
        (if TagSize cs \<le> cb_free b
         then aead_encrypt_in_place cs k n a b = (Ok (), cb_put_window b (seal k n a (cb_view b)))
         else \<exists>b'. aead_encrypt_in_place cs k n a b = (Err (), b'))) \<and>
     (\<forall>k n a b p. cb_ok b \<longrightarrow> cb_view b = seal k n a p \<longrightarrow>
        (\<exists>rest. length rest = TagSize cs \<and>
           aead_decrypt_in_place cs k n a b =
             (Ok (), b\<lparr>cb_buf := write_at (cb_buf b) (cb_offset b) (p @ rest), cb_len := length p\<rparr>))) \<and>
     (\<forall>k n a b. cb_ok b \<longrightarrow> (\<forall>p. cb_view b \<noteq> seal k n a p) \<longrightarrow>
        (\<exists>b'. aead_decrypt_in_place cs k n a b = (Err (), b')))"

text \<open>\<open>decrypt_in_place\<close> works within the slice that it was given, on every input.\<close>

definition decrypts_in_place :: "('h, 'k) TlsCipherSuite \<Rightarrow> bool" where
  "decrypts_in_place cs \<longleftrightarrow> (\<forall>k n a b. cb_ok b \<longrightarrow>
     (case aead_decrypt_in_place cs k n a b of (r, b') \<Rightarrow> r \<noteq> Panic \<and> length (cb_buf b') = length (cb_buf b)))"

lemma toy_aead_laws: "aead_laws toy_suite (\<lambda>k n a p. p @ toy_tag k n a)"
proof -
  have len: "length (toy_tag k n a) = 2" for k n a by (simp add: toy_tag_def)
  have e: "toy_encrypt k n a b = (Ok (), cb_put_window b (cb_view b @ toy_tag k n a))"
    if "cb_ok b" "2 \<le> cb_free b" for k n a b
  proof -
    have "write_at (cb_buf b) (cb_offset b) (cb_view b @ xs) = write_at (cb_buf b) (cb_offset b + cb_len b) xs" for xs
      using that(1) by (simp add: write_at_def cb_view_def slice_of_def cb_ok_def add_ac flip: take_add)
    then show ?thesis
      using that len by (simp add: toy_encrypt_def map_err_def cb_extend_from_slice_def cb_put_window_def)
  qed
  have f: "\<exists>b'. toy_encrypt k n a b = (Err (), b')" if "cb_ok b" "\<not> 2 \<le> cb_free b" for k n a b
    using that len by (simp add: toy_encrypt_def map_err_def cb_extend_from_slice_def)
  have d: "\<exists>rest. length rest = 2 \<and> toy_decrypt k n a b =
      (Ok (), b\<lparr>cb_buf := write_at (cb_buf b) (cb_offset b) (p @ rest), cb_len := length p\<rparr>)"
    if b: "cb_ok b" and v: "cb_view b = p @ toy_tag k n a" for k n a b p
  proof -
    have l: "cb_len b = length p + 2" using cb_view_length [OF b] v len by simp
    have "write_at (cb_buf b) (cb_offset b) (cb_view b) = cb_buf b"
      using b by (simp add: write_at_def cb_view_def slice_of_def cb_ok_def add_ac flip: append_assoc take_add)
    then show ?thesis
      using v l len by (intro exI [of _ "toy_tag k n a"]) (simp add: toy_decrypt_def)
  qed
  have r: "\<exists>b'. toy_decrypt k n a b = (Err (), b')"
    if b: "cb_ok b" and no: "\<forall>p. cb_view b \<noteq> p @ toy_tag k n a" for k n a b
    using no by (auto simp: toy_decrypt_def) (metis append_take_drop_id)
  show ?thesis
    unfolding aead_laws_def using e f d r len by simp
qed

section \<open>Lemmas\<close>

lemma rev_enumerate_snoc:
  "rev (List.enumerate 0 (xs @ [x])) = (length xs, x) # rev (List.enumerate 0 xs)"
  by (simp add: enumerate_append_eq)

lemma rfind_nonzero_padded:
  "c \<noteq> 0 \<Longrightarrow> rfind_nonzero (pt @ [c] @ replicate n 0) = Some (length pt)"
proof (induction n)
  case 0
  then show ?case by (simp add: rfind_nonzero_def rev_enumerate_snoc del: rev_append)
next
  case (Suc n)
  have "pt @ [c] @ replicate (Suc n) 0 = (pt @ [c] @ replicate n 0) @ [0]"
    by (simp add: replicate_append_same)
  then show ?case using Suc by (simp only: rfind_nonzero_def rev_enumerate_snoc) simp
qed

lemma cb_view_shorten:
  assumes "cb_ok b" "cb_view b = xs @ ys"
  shows "cb_ok (b\<lparr>cb_len := length xs\<rparr>) \<and> cb_view (b\<lparr>cb_len := length xs\<rparr>) = xs"
proof -
  have l: "cb_len b = length xs + length ys" using cb_view_length [OF assms(1)] assms(2) by simp
  have "take (length xs) (cb_view b) = xs" using assms(2) by simp
  then show ?thesis
    using assms(1) l by (simp add: cb_ok_def cb_view_def slice_of_def)
qed

lemma cb_truncate_ok: "cb_ok b \<Longrightarrow> n \<le> cb_len b \<Longrightarrow> cb_truncate n b = (Ok (), b\<lparr>cb_len := n\<rparr>)"
  by (simp add: cb_truncate_def cb_ok_def cb_capacity_def)

text \<open>Padding and content type come off a well-formed inner plaintext.\<close>

lemma inner_plaintext_padded:
  assumes b: "cb_ok b" and v: "cb_view b = pt @ [ContentType_as_u8 ct] @ replicate n 0" and ct: "ct \<noteq> CT_Invalid"
  shows "inner_plaintext b = (Ok ct, b\<lparr>cb_len := length pt\<rparr>)"
proof -
  have nz: "ContentType_as_u8 ct \<noteq> 0" using ct by (cases ct) simp_all
  let ?b = "b\<lparr>cb_len := length pt + 1\<rparr>"
  have l: "cb_len b = length pt + 1 + n" using cb_view_length [OF b] v by simp
  from cb_view_shorten [OF b, of "pt @ [ContentType_as_u8 ct]" "replicate n 0"] v
  have b1: "cb_ok ?b" "cb_view ?b = pt @ [ContentType_as_u8 ct]" by simp_all
  have t: "cb_truncate (length pt + 1) b = (Ok (), ?b)" using b l by (simp add: cb_truncate_ok)
  have t2: "cb_truncate (length pt) ?b = (Ok (), ?b\<lparr>cb_len := length pt\<rparr>)"
    by (rule cb_truncate_ok [OF b1(1)]) simp
  show ?thesis
    unfolding inner_plaintext_def
    using b b1 t t2 rfind_nonzero_padded [OF nz, of pt n] v
    by (simp add: bnd_def content_type_code.of_as)
qed

lemma inner_plaintext_empty:
  assumes "cb_ok b" "cb_view b = []"
  shows "inner_plaintext b = (Panic, b)"
  using assms by (simp add: inner_plaintext_def bnd_def rfind_nonzero_def)

lemma read_nonce_value:
  assumes "length (enc_iv (r_state rks)) = IvLen cs" "8 \<le> IvLen cs"
  shows "read_get_nonce cs rks = Ok (rfc_nonce (counter (r_state rks)) (enc_iv (r_state rks)))"
  using assms by (simp add: read_get_nonce_def state_get_nonce_def get_nonce_value)

lemma write_nonce_value:
  assumes "length (enc_iv (w_state wks)) = IvLen cs" "8 \<le> IvLen cs"
  shows "write_get_nonce cs wks = Ok (rfc_nonce (counter (w_state wks)) (enc_iv (w_state wks)))"
  using assms by (simp add: write_get_nonce_def state_get_nonce_def get_nonce_value)

lemma encrypt_value:
  assumes aead: "aead_laws cs seal" and iv: "length (enc_iv (w_state wks)) = IvLen cs" "8 \<le> IvLen cs"
    and b: "cb_ok b" "TagSize cs \<le> cb_free b"
  shows "encrypt cs wks b = (Ok (), cb_put_window b
    (seal (enc_key (w_state wks)) (rfc_nonce (counter (w_state wks)) (enc_iv (w_state wks)))
       ([23, 3, 3] @ u16_to_be_bytes (of_nat (cb_len b + TagSize cs))) (cb_view b)))"
proof -
  have e: "aead_encrypt_in_place cs k n a b = (Ok (), cb_put_window b (seal k n a (cb_view b)))" for k n a
    using aead b unfolding aead_laws_def by simp
  have c: "\<not> cb_capacity b < cb_len b + TagSize cs"
    using b by (simp add: cb_ok_def cb_free_def cb_capacity_def)
  have h: "[23, 3, 3, u16_to_be_bytes w ! 0, u16_to_be_bytes w ! 1] = [23, 3, 3] @ u16_to_be_bytes w" for w
    by (simp add: u16_to_be_bytes_def)
  show ?thesis
    using c by (simp add: encrypt_def write_nonce_value [OF iv] bnd_def Let_def map_err_def e write_get_key_def
        state_get_key_def h [simplified])
qed

lemma decrypt_app_sealed:
  assumes aead: "aead_laws cs seal" and iv: "length (enc_iv (r_state rks)) = IvLen cs" "8 \<le> IvLen cs"
    and d: "cb_ok (app_data ad)"
    and v: "cb_view (app_data ad) = seal (enc_key (r_state rks))
       (rfc_nonce (counter (r_state rks)) (enc_iv (r_state rks))) (header_data (app_header ad)) p"
  shows "\<exists>d. cb_ok d \<and> cb_view d = p \<and> cb_offset d = cb_offset (app_data ad) \<and>
      length (cb_buf d) = length (cb_buf (app_data ad)) \<and>
      aead_decrypt_in_place cs (read_get_key rks) (rfc_nonce (counter (r_state rks)) (enc_iv (r_state rks)))
        (header_data (app_header ad)) (app_data ad) = (Ok (), d)"
proof -
  let ?b = "app_data ad"
  obtain rest where rest: "length rest = TagSize cs"
    and dec: "aead_decrypt_in_place cs (read_get_key rks) (rfc_nonce (counter (r_state rks)) (enc_iv (r_state rks)))
        (header_data (app_header ad)) ?b =
      (Ok (), ?b\<lparr>cb_buf := write_at (cb_buf ?b) (cb_offset ?b) (p @ rest), cb_len := length p\<rparr>)"
    using aead d v unfolding aead_laws_def read_get_key_def state_get_key_def by blast
  have l: "cb_len ?b = length p + TagSize cs"
    using cb_view_length [OF d] v aead by (simp add: aead_laws_def)
  let ?d = "?b\<lparr>cb_buf := write_at (cb_buf ?b) (cb_offset ?b) (p @ rest), cb_len := length p\<rparr>"
  have w: "cb_offset ?b + length (p @ rest) \<le> length (cb_buf ?b)" using d l rest by (simp add: cb_ok_def)
  have "cb_view ?d = p"
    using w by (simp add: cb_view_def slice_of_def write_at_def)
  moreover have "cb_ok ?d" "length (cb_buf ?d) = length (cb_buf ?b)" using w by (simp_all add: cb_ok_def)
  ultimately show ?thesis using dec by (intro exI [of _ ?d]) simp
qed

text \<open>Opening a sealed record with its padding; the content stands strictly inside the slice of the
  read buffer, since the content type and the tag follow it.\<close>

lemma decrypt_sealed:
  assumes "aead_laws cs seal" and "length (enc_iv (r_state rks)) = IvLen cs" and "8 \<le> IvLen cs"
    and "cb_ok (app_data ad)" and "ct \<noteq> CT_Invalid"
    and "cb_view (app_data ad) = seal (enc_key (r_state rks))
       (rfc_nonce (counter (r_state rks)) (enc_iv (r_state rks))) (header_data (app_header ad))
       (content @ [ContentType_as_u8 ct] @ replicate n 0)"
  shows "\<exists>d. cb_ok d \<and> cb_view d = content \<and> cb_offset d = cb_offset (app_data ad) \<and>
    length (cb_buf d) = length (cb_buf (app_data ad)) \<and> cb_offset d + cb_len d < length (cb_buf d) \<and>
    decrypt_record cs (SR_ApplicationData ad) cb (mem, rks, u) =
      (case dispatch_inner cs cb ad ct d (rks, u) of
         (Ok _, rks', u') \<Rightarrow> (case read_increment_counter rks' of (r, rks'') \<Rightarrow> (r, app_store ad d mem, rks'', u'))
       | (Err e, rks', u') \<Rightarrow> (Err e, app_store ad d mem, rks', u')
       | (Panic, rks', u') \<Rightarrow> (Panic, app_store ad d mem, rks', u'))"
proof -
  obtain d where d: "cb_ok d" "cb_view d = content @ [ContentType_as_u8 ct] @ replicate n 0"
    "cb_offset d = cb_offset (app_data ad)" "length (cb_buf d) = length (cb_buf (app_data ad))"
    and dec: "aead_decrypt_in_place cs (read_get_key rks) (rfc_nonce (counter (r_state rks)) (enc_iv (r_state rks)))
        (header_data (app_header ad)) (app_data ad) = (Ok (), d)"
    using decrypt_app_sealed [OF assms(1-4,6)] by blast
  let ?d = "d\<lparr>cb_len := length content\<rparr>"
  have "inner_plaintext d = (Ok ct, ?d)" by (rule inner_plaintext_padded [OF d(1,2) assms(5)])
  then have "decrypt_record cs (SR_ApplicationData ad) cb (mem, rks, u) =
      (case dispatch_inner cs cb ad ct ?d (rks, u) of
         (Ok _, rks', u') \<Rightarrow> (case read_increment_counter rks' of (r, rks'') \<Rightarrow> (r, app_store ad ?d mem, rks'', u'))
       | (Err e, rks', u') \<Rightarrow> (Err e, app_store ad ?d mem, rks', u')
       | (Panic, rks', u') \<Rightarrow> (Panic, app_store ad ?d mem, rks', u'))"
    using dec by (simp add: decrypt_record_def decrypt_app_def read_nonce_value [OF assms(2,3)] bnd_def map_err_def
        split: prod.splits result.splits)
  moreover have "cb_offset ?d + cb_len ?d < length (cb_buf ?d)"
    using d(1) cb_view_length [OF d(1)] d(2) by (simp add: cb_ok_def)
  ultimately show ?thesis using cb_view_shorten [OF d(1,2)] d(3,4) by (intro exI [of _ ?d]) simp
qed

section \<open>Properties\<close>

text \<open>A protected record whose payload is the sealed form, under the current key, nonce and header,
  of a content, its type and any zero padding is opened: exactly the content, in place, goes to
  the handling of its type, and when that succeeds the sequence number goes up by one.\<close>

theorem decrypt_record_delivers:
  assumes "aead_laws cs seal" and "length (enc_iv (r_state rks)) = IvLen cs" and "8 \<le> IvLen cs"
    and "cb_ok (app_data ad)" and "ct \<noteq> CT_Invalid"
    and "cb_view (app_data ad) = seal (enc_key (r_state rks))
       (rfc_nonce (counter (r_state rks)) (enc_iv (r_state rks))) (header_data (app_header ad))
       (content @ [ContentType_as_u8 ct] @ replicate n 0)"
  shows "\<exists>d. cb_ok d \<and> cb_view d = content \<and> cb_offset d = cb_offset (app_data ad) \<and>
    decrypt_record cs (SR_ApplicationData ad) cb (mem, rks, u) =
      (case dispatch_inner cs cb ad ct d (rks, u) of
         (Ok _, rks', u') \<Rightarrow> (case read_increment_counter rks' of (r, rks'') \<Rightarrow> (r, app_store ad d mem, rks'', u'))
       | (Err e, rks', u') \<Rightarrow> (Err e, app_store ad d mem, rks', u')
       | (Panic, rks', u') \<Rightarrow> (Panic, app_store ad d mem, rks', u'))"
  using decrypt_sealed [OF assms, of cb mem u] by blast

definition toy_rks :: "(bytes, bytes) ReadKeySchedule" where
  "toy_rks = \<lparr>r_state = \<lparr>traffic_secret = Uninitialized, counter = 0, enc_key = [1, 2, 3, 4], enc_iv = replicate 12 0\<rparr>,
     transcript_hash = []\<rparr>"

definition toy_app :: "bytes \<Rightarrow> ApplicationData" where
  "toy_app p = (let c = p @ toy_tag [1, 2, 3, 4] (rfc_nonce 0 (replicate 12 0)) [23, 3, 3, 0, 0] in
     \<lparr>app_header = RecordHeader [23, 3, 3, 0, 0], app_data = cb_wrap_with_pos c (length c), app_base = 2\<rparr>)"

lemma toy_app_data:
  "cb_ok (app_data (toy_app p))" "cb_view (app_data (toy_app p)) =
     p @ toy_tag [1, 2, 3, 4] (rfc_nonce 0 (replicate 12 0)) [23, 3, 3, 0, 0]"
  "header_data (app_header (toy_app p)) = [23, 3, 3, 0, 0]"
  by (simp_all add: toy_app_def Let_def cb_wrap_with_pos_def cb_ok_def cb_view_def slice_of_def)

lemma toy_decrypts_in_place: "decrypts_in_place toy_suite"
  by (auto simp: decrypts_in_place_def toy_suite_def toy_decrypt_def)

lemma toy_rks_sel:
  "length (enc_iv (r_state toy_rks)) = IvLen toy_suite" "8 \<le> IvLen toy_suite"
  "enc_key (r_state toy_rks) = [1, 2, 3, 4]" "counter (r_state toy_rks) = 0" "enc_iv (r_state toy_rks) = replicate 12 0"
  by (simp_all add: toy_rks_def)

theorem decrypt_record_delivers_witness:
  "\<exists>d. cb_view d = [5, 6] \<and> decrypt_record toy_suite (SR_ApplicationData (toy_app ([5, 6] @ [23] @ replicate 3 0)))
      (\<lambda>rec. ret ()) (replicate 20 0, toy_rks, ()) =
    (case read_increment_counter toy_rks of
       (r, rks') \<Rightarrow> (r, app_store (toy_app ([5, 6] @ [23] @ replicate 3 0)) d (replicate 20 0), rks', ()))"
proof -
  obtain d where d: "cb_ok d" "cb_view d = [5, 6]"
    "decrypt_record toy_suite (SR_ApplicationData (toy_app ([5, 6] @ [23] @ replicate 3 0)))
      (\<lambda>rec. ret ()) (replicate 20 0, toy_rks, ()) =
      (case dispatch_inner toy_suite (\<lambda>rec. ret ()) (toy_app ([5, 6] @ [23] @ replicate 3 0)) CT_ApplicationData d (toy_rks, ()) of
         (Ok _, rks', u') \<Rightarrow> (case read_increment_counter rks' of
           (r, rks'') \<Rightarrow> (r, app_store (toy_app ([5, 6] @ [23] @ replicate 3 0)) d (replicate 20 0), rks'', u'))
       | (Err e, rks', u') \<Rightarrow> (Err e, app_store (toy_app ([5, 6] @ [23] @ replicate 3 0)) d (replicate 20 0), rks', u')
       | (Panic, rks', u') \<Rightarrow> (Panic, app_store (toy_app ([5, 6] @ [23] @ replicate 3 0)) d (replicate 20 0), rks', u'))"
    using decrypt_record_delivers [OF toy_aead_laws toy_rks_sel(1,2) toy_app_data(1) ContentType.distinct(8),
        of "[5, 6] @ [23] @ replicate 3 0" "[5, 6]" 3 "\<lambda>rec. ret ()" "replicate 20 0" "()"]
      toy_app_data(2,3) toy_rks_sel(3-5) by auto
  then show ?thesis by (intro exI [of _ d]) (simp add: dispatch_inner_def)
qed

text \<open>C24. A protected record, one of type application data, that is not a sealed message under the current key, nonce and
  its header is refused with \<open>CryptoError\<close>: the callback is not run, its state and the key schedule, transcript and
  sequence number included, do not change, and of the memory of the record reader only the record's own slice may.
  (Records of other types are not protected and go to the callback as they are.)\<close>

theorem decrypt_record_rejects_forgery:
  assumes "aead_laws cs seal" and "decrypts_in_place cs" and "length (enc_iv (r_state rks)) = IvLen cs" and "8 \<le> IvLen cs"
    and "cb_ok (app_data ad)" and "app_base ad + length (cb_buf (app_data ad)) \<le> length mem"
    and "\<forall>p. cb_view (app_data ad) \<noteq> seal (enc_key (r_state rks))
       (rfc_nonce (counter (r_state rks)) (enc_iv (r_state rks))) (header_data (app_header ad)) p"
  shows "\<exists>mem'. decrypt_record cs (SR_ApplicationData ad) cb (mem, rks, u) = (Err CryptoError, mem', rks, u) \<and>
    length mem' = length mem \<and> take (app_base ad) mem' = take (app_base ad) mem \<and>
    drop (app_base ad + length (cb_buf (app_data ad))) mem' = drop (app_base ad + length (cb_buf (app_data ad))) mem"
proof -
  have "\<exists>b'. aead_decrypt_in_place cs k n a b = (Err (), b') \<and> length (cb_buf b') = length (cb_buf b)"
    if b: "cb_ok b" "\<forall>p. cb_view b \<noteq> seal k n a p" for k n a b
  proof -
    have "\<exists>b'. aead_decrypt_in_place cs k n a b = (Err (), b')"
      using assms(1) b unfolding aead_laws_def by blast
    moreover have "case aead_decrypt_in_place cs k n a b of (r, b') \<Rightarrow> r \<noteq> Panic \<and> length (cb_buf b') = length (cb_buf b)"
      using assms(2) b(1) by (simp add: decrypts_in_place_def)
    ultimately show ?thesis by auto
  qed
  from this [OF assms(5,7)] obtain d where d:
    "aead_decrypt_in_place cs (read_get_key rks) (rfc_nonce (counter (r_state rks)) (enc_iv (r_state rks)))
        (header_data (app_header ad)) (app_data ad) = (Err (), d)" "length (cb_buf d) = length (cb_buf (app_data ad))"
    unfolding read_get_key_def state_get_key_def by blast
  then have "decrypt_record cs (SR_ApplicationData ad) cb (mem, rks, u) = (Err CryptoError, app_store ad d mem, rks, u)"
    by (simp add: decrypt_record_def decrypt_app_def read_nonce_value [OF assms(3,4)] bnd_def map_err_def)
  with d(2) assms(6) show ?thesis
    by (intro exI [of _ "app_store ad d mem"]) (simp add: app_store_def write_at_def)
qed

theorem decrypt_record_rejects_forgery_witness:
  "\<exists>x. decrypt_record toy_suite (SR_ApplicationData
      \<lparr>app_header = RecordHeader [23, 3, 3, 0, 0], app_data = cb_wrap_with_pos [9] 1, app_base = 1\<rparr>)
      (\<lambda>rec. panic) ([8, 9, 7], toy_rks, ()) = (Err CryptoError, [8, x, 7], toy_rks, ())"
proof -
  let ?ad = "\<lparr>app_header = RecordHeader [23, 3, 3, 0, 0], app_data = cb_wrap_with_pos [9] 1, app_base = 1\<rparr>"
  have "[9 :: u8] \<noteq> p @ toy_tag k n a" for p k n a
    by (auto simp: toy_tag_def dest!: arg_cong [where f = length])
  then have "\<exists>mem'. decrypt_record toy_suite (SR_ApplicationData ?ad) (\<lambda>rec. panic) ([8, 9, 7], toy_rks, ()) =
      (Err CryptoError, mem', toy_rks, ()) \<and> length mem' = length [8, 9, 7 :: u8] \<and> take (app_base ?ad) mem' = take (app_base ?ad) [8, 9, 7] \<and>
      drop (app_base ?ad + length (cb_buf (app_data ?ad))) mem' = drop (app_base ?ad + length (cb_buf (app_data ?ad))) [8, 9, 7]"
    by (intro decrypt_record_rejects_forgery [OF toy_aead_laws toy_decrypts_in_place toy_rks_sel(1,2)])
      (simp_all add: cb_wrap_with_pos_def cb_ok_def cb_view_def slice_of_def)
  then obtain mem' where m: "decrypt_record toy_suite (SR_ApplicationData ?ad) (\<lambda>rec. panic) ([8, 9, 7], toy_rks, ()) =
      (Err CryptoError, mem', toy_rks, ())" "length mem' = 3" "take 1 mem' = [8]" "drop 2 mem' = [7]"
    by (auto simp: cb_wrap_with_pos_def numeral_2_eq_2)
  then have "mem' = [8, mem' ! 1, 7]"
    by (cases mem') (auto simp: length_Suc_conv numeral_eq_Suc)
  with m(1) show ?thesis by metis
qed

text \<open>C38. A correctly sealed record with an empty inner plaintext, which any peer that holds the traffic
  keys can send, makes \<open>decrypt_record\<close> panic at \<open>last().unwrap()\<close> instead of failing the
  connection with an error.\<close>

theorem decrypt_record_empty_plaintext_panics:
  assumes "aead_laws cs seal" and "length (enc_iv (r_state rks)) = IvLen cs" and "8 \<le> IvLen cs"
    and "cb_ok (app_data ad)"
    and "cb_view (app_data ad) = seal (enc_key (r_state rks))
       (rfc_nonce (counter (r_state rks)) (enc_iv (r_state rks))) (header_data (app_header ad)) []"
  shows "fst (decrypt_record cs (SR_ApplicationData ad) cb (mem, rks, u)) = Panic"
proof -
  obtain d where d: "cb_ok d" "cb_view d = []"
    and dec: "aead_decrypt_in_place cs (read_get_key rks) (rfc_nonce (counter (r_state rks)) (enc_iv (r_state rks)))
        (header_data (app_header ad)) (app_data ad) = (Ok (), d)"
    using decrypt_app_sealed [OF assms] by blast
  then show ?thesis
    using inner_plaintext_empty [OF d]
    by (simp add: decrypt_record_def decrypt_app_def read_nonce_value [OF assms(2,3)] bnd_def map_err_def)
qed

theorem decrypt_record_empty_plaintext_panics_witness:
  "fst (decrypt_record toy_suite (SR_ApplicationData (toy_app [])) (\<lambda>rec. ret ()) ([], toy_rks, ())) = Panic"
  using decrypt_record_empty_plaintext_panics [OF toy_aead_laws toy_rks_sel(1,2) toy_app_data(1),
      of "[]" "\<lambda>rec. ret ()" "[]" "()"] toy_app_data(2,3) [of "[]"] toy_rks_sel(3-5)
  by simp

end
