(* ===== verification/Write_Buffer.thy ===== *)
theory Write_Buffer
  imports Record_Protection
begin

text \<open>
  The outgoing record buffer of \<open>src/src/write_buffer.rs\<close>: a record is started by its header,
  filled by \<open>append\<close> or by encoding a message, and closed, which encrypts it when its header
  says so and patches the length. The three borrow types of the source are one state; the
  delegating methods are the same functions. The lemmas give the exact bytes of a closed
  record; in particular the additional data of the AEAD are the header bytes on the wire.
\<close>

section \<open>The buffer\<close>

record WriteBuffer =
  wb_buffer :: bytes
  wb_pos :: nat
  wb_current_header :: "ClientRecordHeader option"

definition WriteBuffer_new :: "bytes \<Rightarrow> (WriteBuffer, TlsError) result" where
  "WriteBuffer_new buf =
     (if TLS_RECORD_OVERHEAD < length buf
      then Ok \<lparr>wb_buffer = buf, wb_pos = 0, wb_current_header = None\<rparr> else Panic)"

definition wb_max_block_size :: "WriteBuffer \<Rightarrow> (nat, TlsError) result" where
  "wb_max_block_size w =
     (if TLS_RECORD_OVERHEAD \<le> length (wb_buffer w) then Ok (length (wb_buffer w) - TLS_RECORD_OVERHEAD) else Panic)"

definition wb_is_full :: "WriteBuffer \<Rightarrow> (bool, TlsError) result" where
  "wb_is_full w = and_then (wb_max_block_size w) (\<lambda>m. Ok (wb_pos w = m))"

definition wb_is_empty :: "WriteBuffer \<Rightarrow> bool" where
  "wb_is_empty w \<longleftrightarrow> wb_pos w = 0"

definition wb_space :: "WriteBuffer \<Rightarrow> (nat, TlsError) result" where
  "wb_space w = and_then (wb_max_block_size w) (\<lambda>m. if wb_pos w \<le> m then Ok (m - wb_pos w) else Panic)"

definition wb_contains :: "ClientRecordHeader \<Rightarrow> WriteBuffer \<Rightarrow> bool" where
  "wb_contains header w \<longleftrightarrow> wb_current_header w = Some header"

definition wb_append :: "bytes \<Rightarrow> (WriteBuffer, nat, TlsError) prog" where
  "wb_append buf = (\<lambda>w. case wb_space w of
     Ok sp \<Rightarrow>
       let buffered = min (length buf) sp in
       (Ok buffered,
        if 0 < buffered
        then w\<lparr>wb_buffer := write_at (wb_buffer w) (wb_pos w) (take buffered buf), wb_pos := wb_pos w + buffered\<rparr>
        else w)
   | Err e \<Rightarrow> (Err e, w)
   | Panic \<Rightarrow> (Panic, w))"

text \<open>The closure of \<open>with_buffer\<close> takes the \<open>CryptoBuffer\<close> over the write buffer and gives it back; on an
  error the position stays. \<open>'x\<close> is what else the closure mutates.\<close>

definition with_buffer ::
  "(CryptoBuffer \<times> 'x, unit, TlsError) prog \<Rightarrow> (WriteBuffer \<times> 'x, unit, TlsError) prog" where
  "with_buffer op = (\<lambda>(w, x). case op (cb_wrap_with_pos (wb_buffer w) (wb_pos w), x) of
     (Ok _, b, x') \<Rightarrow> (Ok (), w\<lparr>wb_buffer := cb_buf b, wb_pos := cb_len b\<rparr>, x')
   | (Err e, b, x') \<Rightarrow> (Err e, w\<lparr>wb_buffer := cb_buf b\<rparr>, x')
   | (Panic, b, x') \<Rightarrow> (Panic, w\<lparr>wb_buffer := cb_buf b\<rparr>, x'))"

text \<open>Running a program of one component of a pair.\<close>

definition on_fst :: "('a, 'r, 'e) prog \<Rightarrow> ('a \<times> 'b, 'r, 'e) prog" where
  "on_fst m = (\<lambda>(a, b). case m a of (r, a') \<Rightarrow> (r, a', b))"

definition start_record :: "ClientRecordHeader \<Rightarrow> (WriteBuffer, unit, TlsError) prog" where
  "start_record header = (\<lambda>w.
     if wb_current_header w \<noteq> None then (Panic, w)
     else case with_buffer (on_fst
         (seq (ClientRecordHeader_encode header) (seq (cb_push_u16 0) cb_rewind)))
         (w\<lparr>wb_current_header := Some header\<rparr>, ()) of (r, w', _) \<Rightarrow> (r, w'))"

definition close_payload ::
  "('h, 'k) TlsCipherSuite \<Rightarrow> 'k WriteKeySchedule \<Rightarrow> ClientRecordHeader \<Rightarrow> unit encoder" where
  "close_payload cs wks header =
     (if \<not> RecordHeader_is_encrypted header then ret ()
      else seq (map_err (\<lambda>_. EncodeError) (cb_push (ContentType_as_u8 (trailer_content_type header)))) (
           seq (cb_at_offset 5) (
           seq (encrypt cs wks) cb_rewind)))"

definition close_record ::
  "('h, 'k) TlsCipherSuite \<Rightarrow> 'k WriteKeySchedule \<Rightarrow> (WriteBuffer, bytes, TlsError) prog" where
  "close_record cs wks = (\<lambda>w. case wb_current_header w of
     None \<Rightarrow> (Panic, w)
   | Some header \<Rightarrow>
       (case with_buffer (on_fst (close_payload cs wks header)) (w\<lparr>wb_current_header := None\<rparr>, ()) of
          (Err e, w1, _) \<Rightarrow> (Err e, w1)
        | (Panic, w1, _) \<Rightarrow> (Panic, w1)
        | (Ok _, w1, _) \<Rightarrow>
            if wb_pos w1 < 5 \<or> length (wb_buffer w1) < 5 \<or> length (wb_buffer w1) < wb_pos w1 then (Panic, w1)
            else
              let len = u16_to_be_bytes (of_nat (wb_pos w1 - 5));
                  buf = (wb_buffer w1)[3 := len ! 0, 4 := len ! 1] in
              (Ok (take (wb_pos w1) buf),
               w1\<lparr>wb_buffer := buf, wb_pos := 0, wb_current_header := None\<rparr>)))"

text \<open>The closure of \<open>write_record\<close>: encode behind the header, then complete the message and the
  transcript, which the read key schedule holds when there is one.\<close>

definition write_payload ::
  "('h, 'k) TlsCipherSuite \<Rightarrow> ('s \<Rightarrow> bytes) \<Rightarrow> 's ClientRecord \<Rightarrow> 'k WriteKeySchedule \<Rightarrow>
     (CryptoBuffer \<times> 'h option, unit, TlsError) prog" where
  "write_payload cs pk rec wks =
     seq (on_fst cb_forward) (
     seq (on_fst (ClientRecord_encode_payload cs pk rec)) (
     seq (\<lambda>(b, t). case t of
            None \<Rightarrow> (Err InternalError, b, t)
          | Some h \<Rightarrow> (case ClientRecord_finish_record cs wks rec (b, h) of (r, b', h') \<Rightarrow> (r, b', Some h')))
         (on_fst cb_rewind)))"

definition write_record ::
  "('h, 'k) TlsCipherSuite \<Rightarrow> ('s \<Rightarrow> bytes) \<Rightarrow> 's ClientRecord \<Rightarrow> 'k WriteKeySchedule \<Rightarrow>
     (WriteBuffer \<times> 'h option, bytes, TlsError) prog" where
  "write_record cs pk rec wks =
     bnd (gets (wb_current_header \<circ> fst)) (\<lambda>h.
     if h \<noteq> None then fail InternalError else
     seq (on_fst (start_record (ClientRecord_header rec))) (
     seq (with_buffer (write_payload cs pk rec wks)) (
     on_fst (close_record cs wks))))"

section \<open>Records under construction\<close>

definition header_bytes :: "ClientRecordHeader \<Rightarrow> bytes" where
  "header_bytes h = ContentType_as_u8 (header_content_type h) # header_version h"

lemma length_header_bytes [simp]: "length (header_bytes h) = 3"
  by (simp add: header_bytes_def)

lemma header_bytes_encrypted: "RecordHeader_is_encrypted h \<Longrightarrow> header_bytes h = [23, 3, 3]"
  by (cases h rule: header_content_type.cases) (simp_all add: header_bytes_def)

text \<open>\<open>wb_holds w h p\<close>: a record with header \<open>h\<close> is open and its payload so far is \<open>p\<close>.\<close>

definition wb_holds :: "WriteBuffer \<Rightarrow> ClientRecordHeader \<Rightarrow> bytes \<Rightarrow> bool" where
  "wb_holds w h p \<longleftrightarrow> wb_current_header w = Some h \<and> wb_pos w = 5 + length p \<and>
     wb_pos w \<le> length (wb_buffer w) \<and> take (wb_pos w) (wb_buffer w) = header_bytes h @ [0, 0] @ p"

definition wb_idle :: "WriteBuffer \<Rightarrow> bool" where
  "wb_idle w \<longleftrightarrow> wb_current_header w = None \<and> wb_pos w = 0"

lemma with_buffer_Ok:
  "op (cb_wrap_with_pos (wb_buffer w) (wb_pos w), x) = (Ok (), b, x') \<Longrightarrow>
     with_buffer op (w, x) = (Ok (), w\<lparr>wb_buffer := cb_buf b, wb_pos := cb_len b\<rparr>, x')"
  by (simp add: with_buffer_def)

lemma start_record_holds:
  assumes "wb_idle w" "5 \<le> length (wb_buffer w)"
  shows "\<exists>w'. start_record h w = (Ok (), w') \<and> wb_holds w' h [] \<and> length (wb_buffer w') = length (wb_buffer w)"
proof -
  let ?b = "cb_wrap_with_pos (wb_buffer w) 0"
  have z: "u16_to_be_bytes 0 = [0, 0]" by (simp add: u16_to_be_bytes_def)
  have e: "appends (seq (ClientRecordHeader_encode h) (cb_push_u16 0)) (header_bytes h @ [0, 0])"
    unfolding header_bytes_def z [symmetric] by (intro appends_seq header_appends appends_push_u16)
  have b: "cb_ok ?b" "cb_free ?b = length (wb_buffer w)" by (simp_all add: cb_wrap_with_pos_def cb_ok_def cb_free_def)
  have "seq (ClientRecordHeader_encode h) (cb_push_u16 0) ?b = (Ok (), cb_append ?b (header_bytes h @ [0, 0]))"
    by (rule appends_ok [OF e]) (use b assms in simp_all)
  then have "seq (ClientRecordHeader_encode h) (seq (cb_push_u16 0) cb_rewind) ?b =
      (Ok (), \<lparr>cb_buf = write_at (wb_buffer w) 0 (header_bytes h @ [0, 0]), cb_offset = 0, cb_len = 5\<rparr>)"
    by (auto simp: bnd_def cb_rewind_def cb_at_offset_def cb_append_def cb_wrap_with_pos_def
        split: prod.splits result.splits)
  then show ?thesis
    using assms by (simp add: start_record_def wb_idle_def with_buffer_def on_fst_def wb_holds_def
        take_write_at [of 0 "header_bytes h @ [0, 0]", simplified])
qed

lemma wb_holds_buffer:
  assumes "wb_holds w h p"
  shows "\<exists>rst. wb_buffer w = header_bytes h @ [0, 0] @ p @ rst"
  using assms unfolding wb_holds_def by (metis append_take_drop_id append.assoc)

lemma wb_append_holds:
  assumes "wb_holds w h p" "TLS_RECORD_OVERHEAD \<le> length (wb_buffer w)"
    and "wb_pos w \<le> length (wb_buffer w) - TLS_RECORD_OVERHEAD"
  shows "\<exists>w'. wb_append buf w =
      (Ok (min (length buf) (length (wb_buffer w) - TLS_RECORD_OVERHEAD - wb_pos w)), w') \<and>
    wb_holds w' h (p @ take (length (wb_buffer w) - TLS_RECORD_OVERHEAD - wb_pos w) buf) \<and>
    length (wb_buffer w') = length (wb_buffer w) \<and> wb_pos w' \<le> length (wb_buffer w) - TLS_RECORD_OVERHEAD"
proof -
  define m where "m = length (wb_buffer w) - TLS_RECORD_OVERHEAD - wb_pos w"
  have t: "take (min (length buf) m) buf = take m buf" by (simp add: min_def)
  have l: "wb_pos w + length (take m buf) \<le> length (wb_buffer w)"
    using assms(2,3) by (auto simp: min_def m_def)
  have sp: "wb_space w = Ok m" using assms(2,3) by (simp add: wb_space_def wb_max_block_size_def m_def)
  have "\<exists>w'. wb_append buf w = (Ok (min (length buf) m), w') \<and> wb_holds w' h (p @ take m buf) \<and>
    length (wb_buffer w') = length (wb_buffer w) \<and> wb_pos w' \<le> length (wb_buffer w) - TLS_RECORD_OVERHEAD"
  proof (cases "min (length buf) m = 0")
    case True
    then have "take m buf = []" by (auto simp: min_def split: if_splits)
    with True sp assms show ?thesis by (auto simp: wb_append_def Let_def)
  next
    case False
    let ?w = "w\<lparr>wb_buffer := write_at (wb_buffer w) (wb_pos w) (take m buf), wb_pos := wb_pos w + min (length buf) m\<rparr>"
    have "wb_append buf w = (Ok (min (length buf) m), ?w)"
      using False sp t by (simp add: wb_append_def Let_def)
    moreover have "wb_holds ?w h (p @ take m buf)"
      using assms(1) l take_write_at [OF l] by (auto simp: wb_holds_def add.assoc)
    moreover have "wb_pos ?w \<le> length (wb_buffer w) - TLS_RECORD_OVERHEAD" using assms(3) by (simp add: m_def)
    ultimately show ?thesis using l by (intro exI [of _ ?w]) simp
  qed
  then show ?thesis unfolding m_def .
qed

section \<open>Closing a record\<close>

lemma patch_length:
  assumes "length h3 = 3" "length z = 2"
  shows "(h3 @ z @ xs)[3 := a, 4 := b] = h3 @ [a, b] @ xs"
proof -
  obtain x y u v w where "h3 = [x, y, u]" "z = [v, w]"
    using assms by (auto simp: length_Suc_conv numeral_eq_Suc)
  then show ?thesis by (simp add: numeral_eq_Suc)
qed

lemma u16_bytes_nth: "[u16_to_be_bytes n ! 0, u16_to_be_bytes n ! 1] = u16_to_be_bytes n"
  by (simp add: u16_to_be_bytes_def)

text \<open>What closing does once the payload stands in its final form \<open>q\<close> behind the header.\<close>

lemma close_record_final:
  assumes "wb_current_header w = Some h" "length h3 = 3" "length z = 2"
    and "close_payload cs wks h (cb_wrap_with_pos (wb_buffer w) (wb_pos w)) =
      (Ok (), \<lparr>cb_buf = h3 @ z @ q @ rst, cb_offset = 0, cb_len = 5 + length q\<rparr>)"
  shows "\<exists>w'. close_record cs wks w = (Ok (h3 @ u16_to_be_bytes (of_nat (length q)) @ q), w') \<and> wb_idle w' \<and>
    length (wb_buffer w') = 5 + length q + length rst"
proof -
  let ?b = "h3 @ u16_to_be_bytes (of_nat (length q)) @ q @ rst"
  have "(h3 @ z @ q @ rst)[3 := u16_to_be_bytes (of_nat (length q)) ! 0, 4 := u16_to_be_bytes (of_nat (length q)) ! 1] = ?b"
    unfolding patch_length [OF assms(2,3)] u16_bytes_nth by simp
  moreover have "take (5 + length q) ?b = h3 @ u16_to_be_bytes (of_nat (length q)) @ q" using assms(2) by simp
  ultimately show ?thesis
    using assms by (simp add: close_record_def with_buffer_def on_fst_def Let_def wb_idle_def)
qed

lemma close_record_plain:
  assumes "wb_holds w h p" "\<not> RecordHeader_is_encrypted h"
  shows "\<exists>w'. close_record cs wks w = (Ok (header_bytes h @ u16_to_be_bytes (of_nat (length p)) @ p), w') \<and>
    wb_idle w' \<and> length (wb_buffer w') = length (wb_buffer w)"
proof -
  obtain rst where b: "wb_buffer w = header_bytes h @ [0, 0] @ p @ rst" using wb_holds_buffer [OF assms(1)] by blast
  have h: "wb_current_header w = Some h" "wb_pos w = 5 + length p" using assms(1) by (simp_all add: wb_holds_def)
  have "close_payload cs wks h (cb_wrap_with_pos (wb_buffer w) (wb_pos w)) =
      (Ok (), \<lparr>cb_buf = header_bytes h @ [0, 0] @ p @ rst, cb_offset = 0, cb_len = 5 + length p\<rparr>)"
    using assms(2) h b by (simp add: close_payload_def cb_wrap_with_pos_def)
  from close_record_final [OF h(1) _ _ this] b show ?thesis by (simp add: add.assoc)
qed

lemma close_payload_encrypted:
  assumes aead: "aead_laws cs seal" and iv: "length (enc_iv (w_state wks)) = IvLen cs" "8 \<le> IvLen cs"
    and b: "buf = h3 @ z @ p @ rst" "length h3 = 3" "length z = 2" "1 + TagSize cs \<le> length rst"
    and enc: "RecordHeader_is_encrypted h"
    and q: "q = seal (enc_key (w_state wks)) (rfc_nonce (counter (w_state wks)) (enc_iv (w_state wks)))
        ([23, 3, 3] @ u16_to_be_bytes (of_nat (length p + 1 + TagSize cs)))
        (p @ [ContentType_as_u8 (trailer_content_type h)])"
  shows "close_payload cs wks h (cb_wrap_with_pos buf (5 + length p)) =
      (Ok (), \<lparr>cb_buf = h3 @ z @ q @ drop (1 + TagSize cs) rst, cb_offset = 0, cb_len = 5 + length q\<rparr>)"
proof -
  let ?t = "ContentType_as_u8 (trailer_content_type h)"
  let ?b0 = "cb_wrap_with_pos buf (5 + length p)"
  let ?b1 = "\<lparr>cb_buf = h3 @ z @ p @ [?t] @ drop 1 rst, cb_offset = 0, cb_len = 6 + length p\<rparr>"
  let ?b2 = "?b1\<lparr>cb_offset := 5, cb_len := length p + 1\<rparr>"
  have lq: "length q = length p + 1 + TagSize cs" using aead q by (simp add: aead_laws_def)
  have ok0: "cb_ok ?b0" "length [?t] \<le> cb_free ?b0"
    using b by (simp_all add: cb_wrap_with_pos_def cb_ok_def cb_free_def)
  have "cb_push ?t ?b0 = (Ok (), cb_append ?b0 [?t])" by (rule appends_ok [OF appends_push ok0])
  also have "cb_append ?b0 [?t] = ?b1"
    using b(2,3) by (simp add: cb_append_def cb_wrap_with_pos_def b(1) write_at_def add.commute)
  finally have push: "cb_push ?t ?b0 = (Ok (), ?b1)" .
  have off: "cb_at_offset 5 ?b1 = (Ok (), ?b2)" by (simp add: cb_at_offset_def)
  have ok2: "cb_ok ?b2" "TagSize cs \<le> cb_free ?b2" using b by (simp_all add: cb_ok_def cb_free_def)
  have v2: "cb_view ?b2 = p @ [?t]" using b(2,3) by (simp add: cb_view_def slice_of_def)
  have "encrypt cs wks ?b2 = (Ok (), cb_put_window ?b2 q)"
    using encrypt_value [OF aead iv ok2] v2 q by (simp add: add.commute add.left_commute)
  also have "cb_put_window ?b2 q = \<lparr>cb_buf = h3 @ z @ q @ drop (1 + TagSize cs) rst, cb_offset = 5, cb_len = length q\<rparr>"
    using b(2,3) lq by (simp add: cb_put_window_def write_at_def add.commute)
  finally have "encrypt cs wks ?b2 =
      (Ok (), \<lparr>cb_buf = h3 @ z @ q @ drop (1 + TagSize cs) rst, cb_offset = 5, cb_len = length q\<rparr>)" .
  then show ?thesis
    using enc push off by (simp add: close_payload_def bnd_def map_err_def cb_rewind_def)
      (simp add: cb_at_offset_def)
qed

lemma close_record_sealed:
  assumes aead: "aead_laws cs seal" and iv: "length (enc_iv (w_state wks)) = IvLen cs" "8 \<le> IvLen cs"
    and w: "wb_holds w h p" "RecordHeader_is_encrypted h" "6 + length p + TagSize cs \<le> length (wb_buffer w)"
    and hdr: "hdr = [23, 3, 3] @ u16_to_be_bytes (of_nat (length p + 1 + TagSize cs))"
  shows "\<exists>w'. close_record cs wks w =
      (Ok (hdr @ seal (enc_key (w_state wks)) (rfc_nonce (counter (w_state wks)) (enc_iv (w_state wks)))
         hdr (p @ [ContentType_as_u8 (trailer_content_type h)])), w') \<and>
    wb_idle w' \<and> length (wb_buffer w') = length (wb_buffer w)"
proof -
  obtain rst where b: "wb_buffer w = header_bytes h @ [0, 0] @ p @ rst" using wb_holds_buffer [OF w(1)] by blast
  have h: "wb_current_header w = Some h" "wb_pos w = 5 + length p" using w(1) by (simp_all add: wb_holds_def)
  let ?q = "seal (enc_key (w_state wks)) (rfc_nonce (counter (w_state wks)) (enc_iv (w_state wks)))
         hdr (p @ [ContentType_as_u8 (trailer_content_type h)])"
  have lq: "length ?q = length p + 1 + TagSize cs" using aead by (simp add: aead_laws_def)
  have t: "1 + TagSize cs \<le> length rst" using w(3) b by simp
  from close_payload_encrypted [OF aead iv b _ _ t w(2), of ?q] hdr
  have "close_payload cs wks h (cb_wrap_with_pos (wb_buffer w) (wb_pos w)) =
      (Ok (), \<lparr>cb_buf = header_bytes h @ [0, 0] @ ?q @ drop (1 + TagSize cs) rst, cb_offset = 0, cb_len = 5 + length ?q\<rparr>)"
    by (simp add: h)
  from close_record_final [OF h(1) _ _ this] obtain w' where
    c: "close_record cs wks w = (Ok (header_bytes h @ u16_to_be_bytes (of_nat (length ?q)) @ ?q), w')" "wb_idle w'"
    and l: "length (wb_buffer w') = 5 + length ?q + length (drop (1 + TagSize cs) rst)" by auto
  have "length (wb_buffer w') = length (wb_buffer w)" using l lq b t by simp
  moreover have "header_bytes h @ u16_to_be_bytes (of_nat (length ?q)) @ ?q = hdr @ ?q"
    unfolding lq header_bytes_encrypted [OF w(2)] by (simp add: hdr)
  ultimately show ?thesis using c by auto
qed

section \<open>Writing a whole record\<close>

fun client_record_wire ::
  "('h, 'k) TlsCipherSuite \<Rightarrow> ('s \<Rightarrow> bytes) \<Rightarrow> 's ClientRecord \<Rightarrow> bytes" where
  "client_record_wire cs pk (CR_Handshake m _) = client_handshake_wire cs pk m"
| "client_record_wire cs pk (CR_Alert a _) = Alert_wire a"

fun client_record_ok :: "'s ClientRecord \<Rightarrow> bool" where
  "client_record_ok (CR_Handshake m _) \<longleftrightarrow> client_handshake_ok m"
| "client_record_ok (CR_Alert _ _) \<longleftrightarrow> True"

lemma cb_put_view_same: "cb_ok b \<Longrightarrow> cb_put_view b (cb_view b) = b"
  by (simp add: cb_put_view_def cb_view_def write_at_def slice_of_def cb_ok_def add_ac flip: append_assoc take_add)

lemma encode_payload_ok:
  assumes "client_record_ok rec" "cb_ok b" "length (client_record_wire cs pk rec) \<le> cb_free b"
  shows "ClientRecord_encode_payload cs pk rec b =
    (Ok (length (client_record_wire cs pk rec)), cb_append b (client_record_wire cs pk rec))"
proof -
  have "appends (case rec of CR_Handshake m _ \<Rightarrow> ClientHandshake_encode cs pk m | CR_Alert a _ \<Rightarrow> Alert_encode a)
      (client_record_wire cs pk rec)"
    using assms(1) by (cases rec) (simp_all add: ClientHandshake_appends Alert_appends)
  from appends_ok [OF this assms(2,3)] show ?thesis
    by (simp add: ClientRecord_encode_payload_def bnd_def cb_len_since_def)
qed

text \<open>The payload goes behind the header; \<open>f\<close> is its final form after \<open>finish_record\<close>.\<close>

lemma write_payload_holds:
  assumes w: "wb_holds w h []" and rec: "client_record_ok rec"
    and len: "5 + length (client_record_wire cs pk rec) \<le> length (wb_buffer w)"
    and f: "length f = length (client_record_wire cs pk rec)"
    and fin: "\<And>b. cb_ok b \<Longrightarrow> cb_view b = client_record_wire cs pk rec \<Longrightarrow>
      ClientRecord_finish_record cs wks rec (b, t) = (Ok (), cb_put_view b f, t')"
  shows "\<exists>w'. with_buffer (write_payload cs pk rec wks) (w, Some t) = (Ok (), w', Some t') \<and> wb_holds w' h f \<and>
    length (wb_buffer w') = length (wb_buffer w)"
proof -
  let ?x = "client_record_wire cs pk rec"
  obtain rst where b: "wb_buffer w = header_bytes h @ [0, 0] @ rst" using wb_holds_buffer [OF w] by auto
  have p: "wb_pos w = 5" "wb_current_header w = Some h" using w by (simp_all add: wb_holds_def)
  have lr: "length ?x \<le> length rst" using len b by simp
  let ?b0 = "cb_wrap_with_pos (wb_buffer w) 5"
  let ?b1 = "\<lparr>cb_buf = wb_buffer w, cb_offset = 5, cb_len = 0\<rparr>"
  let ?b2 = "\<lparr>cb_buf = header_bytes h @ [0, 0] @ ?x @ drop (length ?x) rst, cb_offset = 5, cb_len = length ?x\<rparr>"
  let ?b3 = "\<lparr>cb_buf = header_bytes h @ [0, 0] @ f @ drop (length ?x) rst, cb_offset = 5, cb_len = length ?x\<rparr>"
  have "cb_forward ?b0 = (Ok (), ?b1)" by (simp add: cb_forward_def cb_at_offset_def cb_wrap_with_pos_def)
  moreover have "ClientRecord_encode_payload cs pk rec ?b1 = (Ok (length ?x), cb_append ?b1 ?x)"
    by (rule encode_payload_ok [OF rec]) (use b lr in \<open>simp_all add: cb_ok_def cb_free_def\<close>)
  moreover have a: "cb_append ?b1 ?x = ?b2"
    using b lr by (simp add: cb_append_def write_at_def)
  moreover have "ClientRecord_finish_record cs wks rec (?b2, t) = (Ok (), cb_put_view ?b2 f, t')"
    using lr by (intro fin) (simp_all add: cb_ok_def cb_view_def slice_of_def)
  moreover have "cb_put_view ?b2 f = ?b3"
    using f by (simp add: cb_put_view_def write_at_def)
  moreover have "cb_rewind ?b3 = (Ok (), ?b3\<lparr>cb_offset := 0, cb_len := 5 + length ?x\<rparr>)"
    by (simp add: cb_rewind_def cb_at_offset_def)
  ultimately have "write_payload cs pk rec wks (?b0, Some t) =
      (Ok (), ?b3\<lparr>cb_offset := 0, cb_len := 5 + length ?x\<rparr>, Some t')"
    by (simp add: write_payload_def bnd_def on_fst_def)
  then show ?thesis
    using p f b lr by (simp add: with_buffer_def wb_holds_def)
qed

lemma write_record_steps:
  assumes w: "wb_idle w" and rec: "client_record_ok rec"
    and len: "5 + length (client_record_wire cs pk rec) \<le> length (wb_buffer w)"
    and f: "length f = length (client_record_wire cs pk rec)"
    and fin: "\<And>b. cb_ok b \<Longrightarrow> cb_view b = client_record_wire cs pk rec \<Longrightarrow>
      ClientRecord_finish_record cs wks rec (b, t) = (Ok (), cb_put_view b f, t')"
  shows "\<exists>w2. wb_holds w2 (ClientRecord_header rec) f \<and> length (wb_buffer w2) = length (wb_buffer w) \<and>
    write_record cs pk rec wks (w, Some t) = on_fst (close_record cs wks) (w2, Some t')"
proof -
  obtain w1 where 1: "start_record (ClientRecord_header rec) w = (Ok (), w1)" "wb_holds w1 (ClientRecord_header rec) []"
    "length (wb_buffer w1) = length (wb_buffer w)"
    using start_record_holds [OF w] len by force
  obtain w2 where 2: "with_buffer (write_payload cs pk rec wks) (w1, Some t) = (Ok (), w2, Some t')"
    "wb_holds w2 (ClientRecord_header rec) f" "length (wb_buffer w2) = length (wb_buffer w1)"
    using write_payload_holds [OF 1(2) rec _ f fin] len 1(3) by metis
  have "write_record cs pk rec wks (w, Some t) = on_fst (close_record cs wks) (w2, Some t')"
    using 1(1) 2(1) w by (simp add: write_record_def bnd_def on_fst_def wb_idle_def)
  with 1 2 show ?thesis by auto
qed

text \<open>How the three kinds of records are finished.\<close>

lemma finish_alert:
  "cb_ok b \<Longrightarrow> cb_view b = client_record_wire cs pk (CR_Alert a e) \<Longrightarrow>
     ClientRecord_finish_record cs wks (CR_Alert a e) (b, t) = (Ok (), cb_put_view b (Alert_wire a), t)"
  using cb_put_view_same [of b] by (simp add: ClientRecord_finish_record_def)

lemma finish_encrypted:
  "cb_ok b \<Longrightarrow> cb_view b = client_record_wire cs pk (CR_Handshake m True) \<Longrightarrow>
     ClientRecord_finish_record cs wks (CR_Handshake m True) (b, t) =
       (Ok (), cb_put_view b (client_handshake_wire cs pk m), digest_update cs t (client_handshake_wire cs pk m))"
  using cb_put_view_same [of b]
  by (simp add: ClientRecord_finish_record_def ClientHandshake_finalize_encrypted_def)

lemma finish_client_hello:
  assumes "ClientHello_finalize cs wks x (client_handshake_wire cs pk (CH_ClientHello x), t) = (Ok (), f, t')"
    and "cb_ok b" "cb_view b = client_record_wire cs pk (CR_Handshake (CH_ClientHello x) False)"
  shows "ClientRecord_finish_record cs wks (CR_Handshake (CH_ClientHello x) False) (b, t) = (Ok (), cb_put_view b f, t')"
  using assms by (simp add: ClientRecord_finish_record_def ClientHandshake_finalize_def)

lemmas wire_size_simps =
  SupportedVersionsClientHello_wire_def SignatureAlgorithms_wire_def SupportedGroups_wire_def PskKeyExchangeModes_wire_def
  KeyShareClientHello_wire_def PreSharedKeyClientHello_wire_def PskIdentity_wire_def KeyShareEntry_wire_def
  PskKeyExchangeMode_wire_def NamedGroup_wire_def ProtocolVersion_wire_def SignatureScheme_wire_def psk_binders_len_def

text \<open>A callback that collects the content of application data records.\<close>

definition collect_app :: "('h, 'k, bytes) record_cb" where
  "collect_app rec = (case rec of
     SR_ApplicationData a \<Rightarrow> modify (\<lambda>(rks, u). (rks, u @ cb_view (app_data a)))
   | _ \<Rightarrow> fail InternalError)"

definition toy_wks :: "bytes WriteKeySchedule" where
  "toy_wks = \<lparr>w_state = \<lparr>traffic_secret = Uninitialized, counter = 0, enc_key = [1, 2, 3, 4], enc_iv = replicate 12 0\<rparr>,
     binder_key = Initialized [1, 2, 3, 4]\<rparr>"

lemma toy_wks_sel:
  "length (enc_iv (w_state toy_wks)) = IvLen toy_suite" "8 \<le> IvLen toy_suite"
  "binder_key toy_wks = Initialized [1, 2, 3, 4]" "w_state toy_wks = r_state toy_rks"
  by (simp_all add: toy_wks_def toy_rks_def)

definition toy_wb :: "ClientRecordHeader \<Rightarrow> bytes \<Rightarrow> WriteBuffer" where
  "toy_wb h p = \<lparr>wb_buffer = header_bytes h @ [0, 0] @ p @ replicate 128 0, wb_pos = 5 + length p,
     wb_current_header = Some h\<rparr>"

lemma toy_wb_holds: "wb_holds (toy_wb h p) h p" "length (wb_buffer (toy_wb h p)) = 133 + length p"
  by (simp_all add: wb_holds_def toy_wb_def)

lemma write_handshake_sealed:
  assumes "aead_laws cs seal" and "length (enc_iv (w_state wks)) = IvLen cs" and "8 \<le> IvLen cs"
    and "wb_idle w" and "client_handshake_ok m"
    and "6 + length (client_handshake_wire cs pk m) + TagSize cs \<le> length (wb_buffer w)"
    and "hdr = [23, 3, 3] @ u16_to_be_bytes (of_nat (length (client_handshake_wire cs pk m) + 1 + TagSize cs))"
  shows "\<exists>w'. write_record cs pk (CR_Handshake m True) wks (w, Some t) =
      (Ok (hdr @ seal (enc_key (w_state wks)) (rfc_nonce (counter (w_state wks)) (enc_iv (w_state wks)))
         hdr (client_handshake_wire cs pk m @ [22])), w', Some (digest_update cs t (client_handshake_wire cs pk m))) \<and>
    wb_idle w' \<and> length (wb_buffer w') = length (wb_buffer w)"
proof -
  let ?x = "client_handshake_wire cs pk m"
  have "\<exists>w2. wb_holds w2 (ClientRecord_header (CR_Handshake m True)) ?x \<and> length (wb_buffer w2) = length (wb_buffer w) \<and>
    write_record cs pk (CR_Handshake m True) wks (w, Some t) =
       on_fst (close_record cs wks) (w2, Some (digest_update cs t ?x))"
    by (rule write_record_steps [OF assms(4) _ _ _ finish_encrypted]) (use assms(5,6) in simp_all)
  then obtain w2 where w2: "wb_holds w2 (RH_Handshake True) ?x" "length (wb_buffer w2) = length (wb_buffer w)"
    "write_record cs pk (CR_Handshake m True) wks (w, Some t) =
       on_fst (close_record cs wks) (w2, Some (digest_update cs t ?x))"
    by auto
  have l: "6 + length ?x + TagSize cs \<le> length (wb_buffer w2)" unfolding w2(2) by (rule assms(6))
  show ?thesis
    using close_record_sealed [OF assms(1-3) w2(1) _ l assms(7)] unfolding w2(2,3)
    by (auto simp: on_fst_def)
qed

lemma write_client_hello_plain:
  assumes "kdf_laws cs" and "digest_laws cs" and "binder_key wks = Initialized k" and "wb_idle w"
    and "5 + length (client_handshake_wire cs pk (CH_ClientHello x)) \<le> length (wb_buffer w)"
  shows "\<exists>f w'. write_record cs pk (CR_Handshake (CH_ClientHello x) False) wks (w, Some t) =
      (Ok ([22, 3, 1] @ u16_to_be_bytes (of_nat (length f)) @ f), w', Some (digest_update cs t f)) \<and>
    length f = length (client_handshake_wire cs pk (CH_ClientHello x)) \<and> wb_idle w' \<and>
    length (wb_buffer w') = length (wb_buffer w) \<and>
    (cfg_psk (ch_config x) = None \<longrightarrow> f = client_handshake_wire cs pk (CH_ClientHello x))"
proof -
  let ?x = "client_handshake_wire cs pk (CH_ClientHello x)"
  obtain f where f: "ClientHello_finalize cs wks x (?x, t) = (Ok (), f, digest_update cs t f)" "length f = length ?x"
    "cfg_psk (ch_config x) = None \<longrightarrow> f = ?x"
    using client_hello_finalize_length [OF assms(1-3)] by blast
  obtain w2 where w2: "wb_holds w2 (RH_Handshake False) f" "length (wb_buffer w2) = length (wb_buffer w)"
    "write_record cs pk (CR_Handshake (CH_ClientHello x) False) wks (w, Some t) =
       on_fst (close_record cs wks) (w2, Some (digest_update cs t f))"
    using write_record_steps [OF assms(4), of "CR_Handshake (CH_ClientHello x) False" cs pk f wks t "digest_update cs t f"]
      finish_client_hello [OF f(1)] assms(5) f(2) by auto
  from close_record_plain [OF w2(1)] obtain w' where
    "close_record cs wks w2 = (Ok ([22, 3, 1] @ u16_to_be_bytes (of_nat (length f)) @ f), w')" "wb_idle w'"
    "length (wb_buffer w') = length (wb_buffer w2)"
    by (auto simp: header_bytes_def)
  then show ?thesis using w2(2,3) f by (auto simp: on_fst_def)
qed

lemma write_alert_plain:
  assumes "wb_idle w" and "7 \<le> length (wb_buffer w)"
  shows "\<exists>w'. write_record cs pk (CR_Alert a False) wks (w, Some t) =
      (Ok ([ContentType_as_u8 CT_ChangeCipherSpec, 3, 1, 0, 2] @ Alert_wire a), w', Some t) \<and> wb_idle w'"
proof -
  obtain w2 where w2: "wb_holds w2 (RH_Alert False) (Alert_wire a)"
    "write_record cs pk (CR_Alert a False) wks (w, Some t) = on_fst (close_record cs wks) (w2, Some t)"
    using write_record_steps [OF assms(1), of "CR_Alert a False" cs pk "Alert_wire a" wks t t]
      finish_alert [of _ cs pk a False wks t] assms(2) by (auto simp: Alert_wire_def)
  have "u16_to_be_bytes (of_nat (length (Alert_wire a))) = [0, 2]"
    by (simp add: Alert_wire_def u16_to_be_bytes_def)
  with close_record_plain [OF w2(1), of cs wks] obtain w' where
    "close_record cs wks w2 = (Ok ([20, 3, 1, 0, 2] @ Alert_wire a), w')" "wb_idle w'"
    by (auto simp: header_bytes_def)
  then show ?thesis using w2(2) by (simp add: on_fst_def)
qed

section \<open>Properties\<close>

text \<open>Closing a protected record emits the five header bytes and the sealed payload with its content
  type, where the additional data of the seal are exactly the emitted header bytes, the
  length included, and the key and nonce are those of the current sequence number. The buffer
  is idle afterwards.\<close>

theorem close_record_protects:
  assumes "aead_laws cs seal" and "length (enc_iv (w_state wks)) = IvLen cs" and "8 \<le> IvLen cs"
    and "wb_holds w h p" and "RecordHeader_is_encrypted h" and "6 + length p + TagSize cs \<le> length (wb_buffer w)"
    and "hdr = [23, 3, 3] @ u16_to_be_bytes (of_nat (length p + 1 + TagSize cs))"
  shows "\<exists>w'. close_record cs wks w =
      (Ok (hdr @ seal (enc_key (w_state wks)) (rfc_nonce (counter (w_state wks)) (enc_iv (w_state wks)))
         hdr (p @ [ContentType_as_u8 (trailer_content_type h)])), w') \<and>
    wb_idle w' \<and> length (wb_buffer w') = length (wb_buffer w)"
  by (rule close_record_sealed [OF assms])

theorem close_record_protects_witness:
  "\<exists>w'. close_record toy_suite toy_wks (toy_wb RH_ApplicationData [7]) =
      (Ok ([23, 3, 3, 0, 4] @ [7, 23] @
         toy_tag [1, 2, 3, 4] (rfc_nonce 0 (replicate 12 0)) [23, 3, 3, 0, 4]), w') \<and> wb_idle w'"
  using close_record_protects [OF toy_aead_laws toy_wks_sel(1,2) toy_wb_holds(1), of RH_ApplicationData "[7]" "[23, 3, 3, 0, 4]"]
  by (fastforce simp: toy_wb_holds toy_wks_sel(4) toy_rks_sel u16_to_be_bytes_def)

text \<open>Client and peer agree on protected records: what \<open>close_record\<close> emits for application data
  decodes as a header followed by a payload of the announced length, and a peer whose read state
  equals the client's write state opens it to exactly the payload and moves on to the next
  sequence number.\<close>

theorem protected_record_roundtrip:
  assumes "aead_laws cs seal" and "length (enc_iv (w_state wks)) = IvLen cs" and "8 \<le> IvLen cs"
    and "wb_holds w RH_ApplicationData p" and "6 + length p + TagSize cs \<le> length (wb_buffer w)"
    and "length p + 1 + TagSize cs < 65536"
    and "r_state rks = w_state wks" and "unat (counter (w_state wks)) + 1 < 2 ^ 64"
  shows "\<exists>w' hdr ct. close_record cs wks w = (Ok (hdr @ ct), w') \<and> length hdr = RecordHeader_LEN \<and>
    RecordHeader_decode hdr = Ok (RecordHeader hdr) \<and>
    RecordHeader_content_length (RecordHeader hdr) = length ct \<and>
    (\<exists>mem'. decrypt_record cs (SR_ApplicationData
        \<lparr>app_header = RecordHeader hdr, app_data = cb_wrap_with_pos ct (length ct), app_base = base\<rparr>)
        collect_app (mem, rks, u) =
      (Ok (), mem', rks\<lparr>r_state := (r_state rks)\<lparr>counter := counter (r_state rks) + 1\<rparr>\<rparr>, u @ p))"
proof -
  let ?len = "length p + 1 + TagSize cs"
  define hdr where "hdr = [23, 3, 3] @ u16_to_be_bytes (of_nat ?len)"
  define ct where "ct = seal (enc_key (w_state wks)) (rfc_nonce (counter (w_state wks)) (enc_iv (w_state wks)))
    hdr (p @ [ContentType_as_u8 CT_ApplicationData])"
  have lct: "length ct = ?len" using assms(1) by (simp add: ct_def aead_laws_def)
  obtain w' where c: "close_record cs wks w = (Ok (hdr @ ct), w')"
    using close_record_sealed [OF assms(1-4) _ assms(5) hdr_def] by (auto simp: ct_def)
  have h: "RecordHeader_decode hdr = Ok (RecordHeader hdr)"
    by (simp add: hdr_def RecordHeader_decode_def ContentType_of_def)
  have "u16_from_be_bytes (hdr ! 3) (hdr ! 4) = of_nat ?len"
    using u16_from_to [of "of_nat ?len"] by (simp add: hdr_def u16_to_be_bytes_def)
  then have "RecordHeader_content_length (RecordHeader hdr) = unat (of_nat ?len :: u16)"
    by (simp only: RecordHeader_content_length_def RecordHeader.sel)
  then have l: "RecordHeader_content_length (RecordHeader hdr) = length ct"
    using assms(6) lct by (simp only: unat_of_nat_u16 mod_less)
  let ?ad = "\<lparr>app_header = RecordHeader hdr, app_data = cb_wrap_with_pos ct (length ct), app_base = base\<rparr>"
  have ok: "cb_ok (app_data ?ad)" and v: "cb_view (app_data ?ad) = ct"
    by (simp_all add: cb_wrap_with_pos_def cb_ok_def cb_view_def slice_of_def)
  obtain d where d: "cb_ok d" "cb_view d = p @ [23]"
    "aead_decrypt_in_place cs (read_get_key rks) (rfc_nonce (counter (r_state rks)) (enc_iv (r_state rks)))
       (header_data (app_header ?ad)) (app_data ?ad) = (Ok (), d)"
    using decrypt_app_sealed [OF assms(1) _ assms(3) ok, of rks "p @ [23]"] v assms(2,7)
    by (auto simp: ct_def)
  have i: "inner_plaintext d = (Ok CT_ApplicationData, d\<lparr>cb_len := length p\<rparr>)"
    by (rule inner_plaintext_padded [where n = 0]) (use d in simp_all)
  from cb_view_shorten [OF d(1,2)] have "cb_ok (d\<lparr>cb_len := length p\<rparr>)" "cb_view (d\<lparr>cb_len := length p\<rparr>) = p" by auto
  then have "\<exists>mem'. decrypt_record cs (SR_ApplicationData ?ad) collect_app (mem, rks, u) =
      (Ok (), mem', rks\<lparr>r_state := (r_state rks)\<lparr>counter := counter (r_state rks) + 1\<rparr>\<rparr>, u @ p)"
    using d(3) i assms(2,3,7,8)
    by (simp add: decrypt_record_def decrypt_app_def read_nonce_value bnd_def map_err_def dispatch_inner_def
        collect_app_def read_increment_counter_def zoom_def state_increment_counter_def)
  then show ?thesis
    using c h l by (intro exI [of _ w'] exI [of _ hdr] exI [of _ ct]) (simp add: hdr_def RecordHeader_LEN_def)
qed

theorem protected_record_roundtrip_witness:
  "\<exists>w' hdr ct. close_record toy_suite toy_wks (toy_wb RH_ApplicationData [7, 8]) = (Ok (hdr @ ct), w') \<and>
    length hdr = RecordHeader_LEN \<and> RecordHeader_decode hdr = Ok (RecordHeader hdr) \<and>
    RecordHeader_content_length (RecordHeader hdr) = length ct \<and>
    (\<exists>mem'. decrypt_record toy_suite (SR_ApplicationData
        \<lparr>app_header = RecordHeader hdr, app_data = cb_wrap_with_pos ct (length ct), app_base = 0\<rparr>)
        collect_app ([], toy_rks, [6]) =
      (Ok (), mem', toy_rks\<lparr>r_state := (r_state toy_rks)\<lparr>counter := counter (r_state toy_rks) + 1\<rparr>\<rparr>, [6] @ [7, 8]))"
  by (rule protected_record_roundtrip [OF toy_aead_laws toy_wks_sel(1,2) toy_wb_holds(1)])
    (simp_all add: toy_wb_holds toy_wks_sel(4) toy_rks_sel)

text \<open>A protected handshake message (Certificate, CertificateVerify, Finished) written by the client
  goes out sealed with content type handshake, and the transcript is fed exactly the bytes of the
  message.\<close>

theorem write_record_handshake:
  assumes "aead_laws cs seal" and "length (enc_iv (w_state wks)) = IvLen cs" and "8 \<le> IvLen cs"
    and "wb_idle w" and "client_handshake_ok m"
    and "6 + length (client_handshake_wire cs pk m) + TagSize cs \<le> length (wb_buffer w)"
    and "hdr = [23, 3, 3] @ u16_to_be_bytes (of_nat (length (client_handshake_wire cs pk m) + 1 + TagSize cs))"
  shows "\<exists>w'. write_record cs pk (CR_Handshake m True) wks (w, Some t) =
      (Ok (hdr @ seal (enc_key (w_state wks)) (rfc_nonce (counter (w_state wks)) (enc_iv (w_state wks)))
         hdr (client_handshake_wire cs pk m @ [22])), w', Some (digest_update cs t (client_handshake_wire cs pk m))) \<and>
    wb_idle w' \<and> length (wb_buffer w') = length (wb_buffer w)"
  by (rule write_handshake_sealed [OF assms])

theorem write_record_handshake_witness:
  "\<exists>w'. write_record toy_suite id (CR_Handshake (CH_Finished \<lparr>fin_verify = [7, 8], fin_hash = None\<rparr>) True) toy_wks
      (\<lparr>wb_buffer = replicate 200 0, wb_pos = 0, wb_current_header = None\<rparr>, Some [5]) =
     (Ok ([23, 3, 3, 0, 9] @ [20, 0, 0, 2, 7, 8, 22] @
        toy_tag [1, 2, 3, 4] (rfc_nonce 0 (replicate 12 0)) [23, 3, 3, 0, 9]), w', Some [5, 20, 0, 0, 2, 7, 8])"
proof -
  let ?m = "CH_Finished \<lparr>fin_verify = [7, 8], fin_hash = None\<rparr> :: bytes ClientHandshake"
  have x: "client_handshake_wire toy_suite id ?m = [20, 0, 0, 2, 7, 8]"
    by (simp add: client_handshake_wire_def prefixed24_def u32_to_be_bytes_def)
  show ?thesis
    using write_record_handshake [OF toy_aead_laws toy_wks_sel(1,2),
        of "\<lparr>wb_buffer = replicate 200 0, wb_pos = 0, wb_current_header = None\<rparr>" ?m id "[23, 3, 3, 0, 9]" "[5]"]
    unfolding x by (fastforce simp: wb_idle_def toy_wks_sel(4) toy_rks_sel u16_to_be_bytes_def)
qed

text \<open>The ClientHello record, with or without PSK binders: the transcript is fed exactly the handshake
  bytes that go out behind the record header, and without a PSK those are the encoded message.\<close>

theorem write_record_client_hello:
  assumes "kdf_laws cs" and "digest_laws cs" and "binder_key wks = Initialized k" and "wb_idle w"
    and "5 + length (client_handshake_wire cs pk (CH_ClientHello x)) \<le> length (wb_buffer w)"
  shows "\<exists>f w'. write_record cs pk (CR_Handshake (CH_ClientHello x) False) wks (w, Some t) =
      (Ok ([22, 3, 1] @ u16_to_be_bytes (of_nat (length f)) @ f), w', Some (digest_update cs t f)) \<and>
    length f = length (client_handshake_wire cs pk (CH_ClientHello x)) \<and> wb_idle w' \<and>
    (cfg_psk (ch_config x) = None \<longrightarrow> f = client_handshake_wire cs pk (CH_ClientHello x))"
  using write_client_hello_plain [OF assms] by blast

theorem write_record_client_hello_witness:
  "\<exists>f w'. write_record toy_suite id (CR_Handshake (CH_ClientHello toy_hello) False) toy_wks
      (\<lparr>wb_buffer = replicate 500 0, wb_pos = 0, wb_current_header = None\<rparr>, Some []) =
      (Ok ([22, 3, 1] @ u16_to_be_bytes (of_nat (length f)) @ f), w', Some f)"
proof -
  have "5 + length (client_handshake_wire toy_suite id (CH_ClientHello toy_hello)) \<le> 500"
    by (simp add: client_handshake_wire_def client_hello_wire_def client_hello_extensions_def toy_hello_def toy_config_def
        option_list_def prefixed24_def prefixed16_def prefixed8_def ClientHelloExtension_wire_def ext_wire_def wire_size_simps)
  then show ?thesis
    using write_record_client_hello [OF toy_kdf_laws toy_digest_laws toy_wks_sel(3),
        of "\<lparr>wb_buffer = replicate 500 0, wb_pos = 0, wb_current_header = None\<rparr>" id toy_hello "[]"]
    by (auto simp: wb_idle_def)
qed

text \<open>An unencrypted alert, such as the one sent when the handshake is aborted, goes out with the
  content type of ChangeCipherSpec (20) and not of an alert (21).\<close>

theorem unencrypted_alert_content_type:
  assumes "wb_idle w" and "7 \<le> length (wb_buffer w)"
  shows "\<exists>w'. write_record cs pk (CR_Alert a False) wks (w, Some t) =
      (Ok ([ContentType_as_u8 CT_ChangeCipherSpec, 3, 1, 0, 2] @ Alert_wire a), w', Some t) \<and> wb_idle w'"
  by (rule write_alert_plain [OF assms])

theorem unencrypted_alert_content_type_witness:
  "\<exists>w'. write_record toy_suite id (CR_Alert (Alert_new AL_Fatal AD_IllegalParameter) False) toy_wks
      (\<lparr>wb_buffer = replicate 200 0, wb_pos = 0, wb_current_header = None\<rparr>, Some []) =
    (Ok ([20, 3, 1, 0, 2] @ [2, 47]), w', Some [])"
  using unencrypted_alert_content_type [of "\<lparr>wb_buffer = replicate 200 0, wb_pos = 0, wb_current_header = None\<rparr>"
      toy_suite id "Alert_new AL_Fatal AD_IllegalParameter" toy_wks "[]"]
  by (auto simp: wb_idle_def Alert_wire_def Alert_new_def)

text \<open>The size check of \<open>WriteBuffer::new\<close> is too weak: a buffer of 129 to 132 bytes is accepted, but
  once a record is started its header alone exceeds the block size, and the first \<open>append\<close>
  underflows in \<open>space\<close> and panics.\<close>

theorem small_write_buffer_panics:
  assumes "128 < length buf" and "length buf < 133"
  shows "\<exists>w w'. WriteBuffer_new buf = Ok w \<and> start_record RH_ApplicationData w = (Ok (), w') \<and>
    fst (wb_append xs w') = Panic"
proof -
  let ?w = "\<lparr>wb_buffer = buf, wb_pos = 0, wb_current_header = None\<rparr>"
  obtain w' where "start_record RH_ApplicationData ?w = (Ok (), w')" "wb_holds w' RH_ApplicationData []"
    "length (wb_buffer w') = length buf"
    using start_record_holds [of ?w RH_ApplicationData] assms by (auto simp: wb_idle_def)
  then show ?thesis
    using assms by (intro exI [of _ ?w] exI [of _ w'])
      (auto simp: WriteBuffer_new_def TLS_RECORD_OVERHEAD_def wb_append_def wb_space_def wb_max_block_size_def wb_holds_def)
qed

theorem small_write_buffer_panics_witness:
  "\<exists>w w'. WriteBuffer_new (replicate 130 0) = Ok w \<and> start_record RH_ApplicationData w = (Ok (), w') \<and>
    fst (wb_append [1] w') = Panic"
  by (rule small_write_buffer_panics) simp_all

end
