(* ===== verification/Server_Flight.thy ===== *)
theory Server_Flight
  imports Record_Protection
begin

text \<open>
  What a server record delivers. \<open>decrypt_record\<close> of \<open>src/src/connection.rs\<close> hands messages to a
  callback; \<open>record_log\<close> is the list of what it hands out, and a callback that leaves the read
  key schedule alone is a fold over it. \<open>run_flight\<close> is the specification of a protected
  record with coalesced handshake messages: one message after the other, each added to the
  transcript before it is handled.
\<close>

section \<open>The messages of a record\<close>

text \<open>Everything \<open>decrypt_record\<close> hands to its callback, with the read key schedule at that moment.\<close>

definition log_cb :: "('h, 'k, (ServerRecord \<times> ('h, 'k) ReadKeySchedule) list) record_cb" where
  "log_cb rec = (\<lambda>(rks, log). (Ok (), rks, log @ [(rec, rks)]))"

definition record_log ::
  "('h, 'k) TlsCipherSuite \<Rightarrow> ServerRecord \<Rightarrow> bytes \<Rightarrow> ('h, 'k) ReadKeySchedule \<Rightarrow>
     (ServerRecord \<times> ('h, 'k) ReadKeySchedule) list" where
  "record_log cs rec mem rks = (case decrypt_record cs rec log_cb (mem, rks, []) of (_, _, _, log) \<Rightarrow> log)"

text \<open>A callback run over a log.\<close>

fun run_log ::
  "('h, 'k, 'u) record_cb \<Rightarrow> (ServerRecord \<times> ('h, 'k) ReadKeySchedule) list \<Rightarrow> 'u \<Rightarrow> ('u, TlsError) result" where
  "run_log cb [] u = Ok u"
| "run_log cb ((rec, rks) # log) u = (case cb rec (rks, u) of
     (Ok _, _, u') \<Rightarrow> run_log cb log u' | (Err e, _, _) \<Rightarrow> Err e | (Panic, _, _) \<Rightarrow> Panic)"

definition reads_only :: "('h, 'k, 'u) record_cb \<Rightarrow> bool" where
  "reads_only cb \<longleftrightarrow> (\<forall>rec rks u. fst (snd (cb rec (rks, u))) = rks)"

lemma reads_onlyD: "reads_only cb \<Longrightarrow> cb rec (rks, u) = (r, rks', u') \<Longrightarrow> rks' = rks"
  unfolding reads_only_def by (metis fst_conv snd_conv)

lemma ServerHandshake_read_progress:
  assumes "ServerHandshake_read cs (b, h) = (Ok m, b', h')" "pos b < length (buffer b)"
  shows "length (buffer b') - pos b' < length (buffer b) - pos b"
proof -
  from assms(1) obtain m0 where "ServerHandshake_parse cs b = (Ok m0, b')"
    by (auto simp: ServerHandshake_read_def Let_def split: prod.splits result.splits if_splits)
  from ServerHandshake_parse_progress [OF this] assms(2) show ?thesis by auto
qed

text \<open>One round of the loop that succeeds.\<close>

lemma handshake_loop_Ok_cases:
  assumes "handshake_loop cs cb b (rks, u) = (Ok (), s')" "pos b < length (buffer b)"
  obtains m b' h s2 where "ServerHandshake_read cs (b, transcript_hash rks) = (Ok m, b', h)"
    "cb (SR_Handshake m) (rks\<lparr>transcript_hash := h\<rparr>, u) = (Ok (), s2)" "handshake_loop cs cb b' s2 = (Ok (), s')"
proof -
  obtain q b' h where q: "ServerHandshake_read cs (b, transcript_hash rks) = (q, b', h)" by (metis prod.exhaust)
  from assms q obtain m where m: "q = Ok m"
    by (cases q) (auto simp: handshake_loop.simps [of cs cb b])
  obtain r s2 where c: "cb (SR_Handshake m) (rks\<lparr>transcript_hash := h\<rparr>, u) = (r, s2)" by (metis surj_pair)
  from assms q m c have "r = Ok ()" "handshake_loop cs cb b' s2 = (Ok (), s')"
    by (auto simp: handshake_loop.simps [of cs cb b] split: result.splits)
  with that q m c show thesis by blast
qed

lemma handshake_loop_log:
  assumes cb: "reads_only cb" and "handshake_loop cs cb b (rks, u) = (Ok (), rks', u')"
  shows "\<exists>log. (\<forall>l. handshake_loop cs log_cb b (rks, l) = (Ok (), rks', l @ log)) \<and> run_log cb log u = Ok u' \<and>
    (\<forall>(rec, k) \<in> set log. r_state k = r_state rks) \<and> r_state rks' = r_state rks"
  using assms(2)
proof (induction "length (buffer b) - pos b" arbitrary: b rks u rule: less_induct)
  case less
  show ?case
  proof (cases "length (buffer b) \<le> pos b")
    case True
    then have "rks' = rks" "u' = u" using less.prems by (auto simp: handshake_loop.simps [of _ _ b])
    with True show ?thesis by (intro exI [of _ "[]"]) (simp add: handshake_loop.simps [of _ _ b])
  next
    case False
    then have p: "pos b < length (buffer b)" by simp
    obtain m b' h s2 where m: "ServerHandshake_read cs (b, transcript_hash rks) = (Ok m, b', h)"
      "cb (SR_Handshake m) (rks\<lparr>transcript_hash := h\<rparr>, u) = (Ok (), s2)" "handshake_loop cs cb b' s2 = (Ok (), rks', u')"
      using handshake_loop_Ok_cases [OF less.prems p] .
    let ?k = "rks\<lparr>transcript_hash := h\<rparr>"
    obtain u2 where s2: "s2 = (?k, u2)" using reads_onlyD [OF cb] m(2) by (metis prod.exhaust)
    obtain log where l: "\<And>l. handshake_loop cs log_cb b' (?k, l) = (Ok (), rks', l @ log)" "run_log cb log u2 = Ok u'"
      "\<forall>(rec, k) \<in> set log. r_state k = r_state ?k" "r_state rks' = r_state ?k"
      using less.hyps [OF ServerHandshake_read_progress [OF m(1) p] m(3) [unfolded s2]] by blast
    have "handshake_loop cs log_cb b (rks, l) = (Ok (), rks', l @ (SR_Handshake m, ?k) # log)" for l
      using False m(1) l(1) by (subst handshake_loop.simps) (simp add: log_cb_def)
    then show ?thesis
      using l(2-) m(2) s2 by (intro exI [of _ "(SR_Handshake m, ?k) # log"]) auto
  qed
qed

lemma dispatch_inner_log:
  assumes cb: "reads_only cb" and d: "dispatch_inner cs cb ad ct d (rks, u) = (Ok (), rks', u')"
  shows "\<exists>log. (\<forall>l. dispatch_inner cs log_cb ad ct d (rks, l) = (Ok (), rks', l @ log)) \<and> run_log cb log u = Ok u' \<and>
    (\<forall>(rec, k) \<in> set log. r_state k = r_state rks) \<and> r_state rks' = r_state rks"
proof -
  have single: ?thesis if c: "cb x (rks, u) = (Ok (), rks', u')"
    and l: "\<And>l. dispatch_inner cs log_cb ad ct d (rks, l) = log_cb x (rks, l)" for x
  proof -
    have "rks' = rks" using reads_onlyD [OF cb c] .
    then show ?thesis using c l by (intro exI [of _ "[(x, rks)]"]) (simp add: log_cb_def)
  qed
  obtain s where s: "cb_as_slice d = (Ok s :: (bytes, TlsError) result)"
    using d by (cases "cb_as_slice d :: (bytes, TlsError) result") (simp_all add: dispatch_inner_def)
  show ?thesis
  proof (cases ct)
    case CT_Handshake
    then show ?thesis using handshake_loop_log [OF cb, of cs "pb_new s"] d s by (simp add: dispatch_inner_def)
  next
    case CT_ApplicationData
    then show ?thesis using d s by (intro single [of "SR_ApplicationData (ad\<lparr>app_data := d\<rparr>)"]) (simp_all add: dispatch_inner_def)
  next
    case CT_Alert
    then obtain a where "fst (Alert_parse (pb_new s)) = Ok a" "cb (SR_Alert a) (rks, u) = (Ok (), rks', u')"
      using d s by (auto simp: dispatch_inner_def bnd_Ok_iff)
    then show ?thesis using CT_Alert s by (intro single [of "SR_Alert a"]) (simp_all add: dispatch_inner_def bnd_def)
  qed (use d s in \<open>simp_all add: dispatch_inner_def\<close>)
qed

lemma read_increment_secret: "traffic_secret (r_state (snd (read_increment_counter k))) = traffic_secret (r_state k)"
  by (simp add: read_increment_counter_def zoom_def state_increment_counter_def)

lemma decrypt_record_log:
  assumes cb: "reads_only cb" and d: "decrypt_record cs rec cb (mem, rks, u) = (Ok (), mem', rks', u')"
  shows "run_log cb (record_log cs rec mem rks) u = Ok u' \<and>
    (\<forall>(rec', k) \<in> set (record_log cs rec mem rks). r_state k = r_state rks) \<and>
    traffic_secret (r_state rks') = traffic_secret (r_state rks)"
proof (cases "\<exists>ad. rec = SR_ApplicationData ad")
  case False
  then have c: "cb rec (rks, u) = (Ok (), rks', u')" and l: "record_log cs rec mem rks = [(rec, rks)]"
    using d by (cases rec; auto simp: decrypt_record_def record_log_def log_cb_def split: prod.splits)+
  from reads_onlyD [OF cb c] c l show ?thesis by simp
next
  case True
  then obtain ad where ad: "rec = SR_ApplicationData ad" by blast
  obtain nonce where n: "read_get_nonce cs rks = Ok nonce"
    using d ad by (auto simp: decrypt_record_def decrypt_app_def split: result.splits)
  obtain q dd where q: "bnd (map_err (\<lambda>_. CryptoError)
      (aead_decrypt_in_place cs (read_get_key rks) nonce (header_data (app_header ad))))
      (\<lambda>_. inner_plaintext) (app_data ad) = (q, dd)" by (metis surj_pair)
  obtain ct where ct: "q = Ok ct" using d ad n q by (cases q) (auto simp: decrypt_record_def decrypt_app_def)
  obtain r k2 u2 where i: "dispatch_inner cs cb ad ct dd (rks, u) = (r, k2, u2)" by (metis surj_pair)
  have r: "r = Ok ()" using d ad n q ct i by (cases r) (auto simp: decrypt_record_def decrypt_app_def)
  have e: "rks' = snd (read_increment_counter k2)" "u' = u2" "fst (read_increment_counter k2) = Ok ()"
    using d ad n q ct i r by (auto simp: decrypt_record_def decrypt_app_def split: prod.splits)
  obtain log where log: "dispatch_inner cs log_cb ad ct dd (rks, []) = (Ok (), k2, log)" "run_log cb log u = Ok u2"
    "\<forall>(rec, k) \<in> set log. r_state k = r_state rks" "r_state k2 = r_state rks"
    using dispatch_inner_log [OF cb i [unfolded r]] by (metis append_Nil)
  have "record_log cs rec mem rks = log"
    using ad n q ct log(1) by (simp add: record_log_def decrypt_record_def decrypt_app_def split: prod.splits)
  then show ?thesis using log e by (simp add: read_increment_secret)
qed

section \<open>Flights of messages\<close>

text \<open>A Finished message carries the hash of the transcript before it.\<close>

definition with_hash :: "('h, 'k) TlsCipherSuite \<Rightarrow> 'h \<Rightarrow> ServerHandshake \<Rightarrow> ServerHandshake" where
  "with_hash cs h m = (case m of
     SH_Finished f \<Rightarrow> SH_Finished (f\<lparr>fin_hash := Some (digest_finalize cs h)\<rparr>) | _ \<Rightarrow> m)"

fun run_flight ::
  "('h, 'k) TlsCipherSuite \<Rightarrow> ('h, 'k, 'u) record_cb \<Rightarrow> (bytes \<times> ServerHandshake) list \<Rightarrow>
     (('h, 'k) ReadKeySchedule \<times> 'u, unit, TlsError) prog" where
  "run_flight cs cb [] s = (Ok (), s)"
| "run_flight cs cb ((w, m) # fl) (rks, u) =
     seq (cb (SR_Handshake (with_hash cs (transcript_hash rks) m))) (run_flight cs cb fl)
       (rks\<lparr>transcript_hash := digest_update cs (transcript_hash rks) w\<rparr>, u)"

lemma ServerHandshake_read_parses:
  assumes "parses (ServerHandshake_parse cs) w m"
  shows "ServerHandshake_read cs (\<lparr>pos = length pre, buffer = pre @ w @ post\<rparr>, h) =
    (Ok (with_hash cs h m), \<lparr>pos = length pre + length w, buffer = pre @ w @ post\<rparr>, digest_update cs h w)"
  using assms [unfolded parses_def, THEN spec [of _ pre], THEN spec [of _ post]]
  by (simp add: ServerHandshake_read_def Let_def pb_offset_def pb_as_slice_def with_hash_def slice_of_def
      split: ServerHandshake.splits)

lemma parses_nonempty:
  assumes "parses (ServerHandshake_parse cs) w m"
  shows "w \<noteq> []"
proof -
  have "ServerHandshake_parse cs \<lparr>pos = 0, buffer = w\<rparr> = (Ok m, \<lparr>pos = length w, buffer = w\<rparr>)"
    using assms [unfolded parses_def, THEN spec [of _ "[]"], THEN spec [of _ "[]"]] by simp
  from ServerHandshake_parse_progress [OF this] show ?thesis by auto
qed

lemma handshake_loop_flight:
  assumes "\<forall>(w, m) \<in> set fl. parses (ServerHandshake_parse cs) w m"
  shows "handshake_loop cs cb \<lparr>pos = length pre, buffer = pre @ concat (map fst fl)\<rparr> s = run_flight cs cb fl s"
  using assms
proof (induction fl arbitrary: pre s)
  case Nil
  then show ?case by (cases s) (simp add: handshake_loop.simps)
next
  case (Cons x fl)
  obtain w m rks u where x: "x = (w, m)" and s: "s = (rks, u)" by (metis surj_pair)
  have p: "parses (ServerHandshake_parse cs) w m" using Cons.prems x by simp
  have "w \<noteq> []" by (rule parses_nonempty [OF p])
  moreover have "handshake_loop cs cb \<lparr>pos = length pre + length w, buffer = pre @ w @ concat (map fst fl)\<rparr> s' =
      run_flight cs cb fl s'" for s'
    using Cons.IH [of "pre @ w"] Cons.prems by simp
  ultimately show ?case
    unfolding x s using ServerHandshake_read_parses [OF p, of pre "concat (map fst fl)" "transcript_hash rks"]
    by (subst handshake_loop.simps) (simp add: bnd_def split: prod.splits result.splits)
qed

text \<open>A protected record with a flight of messages.\<close>

lemma decrypt_flight:
  assumes "aead_laws cs seal" and "length (enc_iv (r_state rks)) = IvLen cs" and "8 \<le> IvLen cs"
    and "cb_ok (app_data ad)" and "\<forall>(w, m) \<in> set fl. parses (ServerHandshake_parse cs) w m"
    and "cb_view (app_data ad) = seal (enc_key (r_state rks))
       (rfc_nonce (counter (r_state rks)) (enc_iv (r_state rks))) (header_data (app_header ad))
       (concat (map fst fl) @ [ContentType_as_u8 CT_Handshake] @ replicate n 0)"
  shows "\<exists>mem'. (app_base ad + length (cb_buf (app_data ad)) \<le> length mem \<longrightarrow> length mem' = length mem) \<and>
    decrypt_record cs (SR_ApplicationData ad) cb (mem, rks, u) =
      (case run_flight cs cb fl (rks, u) of
         (Ok _, rks', u') \<Rightarrow> (case read_increment_counter rks' of (r, rks'') \<Rightarrow> (r, mem', rks'', u'))
       | (Err e, rks', u') \<Rightarrow> (Err e, mem', rks', u')
       | (Panic, rks', u') \<Rightarrow> (Panic, mem', rks', u'))"
proof -
  have ne: "CT_Handshake \<noteq> CT_Invalid" by simp
  obtain d where d: "cb_ok d" "cb_view d = concat (map fst fl)" "length (cb_buf d) = length (cb_buf (app_data ad))"
    "decrypt_record cs (SR_ApplicationData ad) cb (mem, rks, u) =
      (case dispatch_inner cs cb ad CT_Handshake d (rks, u) of
         (Ok _, rks', u') \<Rightarrow> (case read_increment_counter rks' of (r, rks'') \<Rightarrow> (r, app_store ad d mem, rks'', u'))
       | (Err e, rks', u') \<Rightarrow> (Err e, app_store ad d mem, rks', u')
       | (Panic, rks', u') \<Rightarrow> (Panic, app_store ad d mem, rks', u'))"
    using decrypt_sealed [OF assms(1-4) ne assms(6), of cb mem u] by blast
  have "dispatch_inner cs cb ad CT_Handshake d (rks, u) = run_flight cs cb fl (rks, u)"
    using d(1,2) handshake_loop_flight [OF assms(5), of cb "[]"] by (simp add: dispatch_inner_def pb_new_def)
  with d(3,4) show ?thesis by (intro exI [of _ "app_store ad d mem"]) (simp add: app_store_def)
qed

section \<open>Properties\<close>

text \<open>C25. Coalesced handshake messages: when a protected record of type handshake contains the encodings of
  several messages, \<open>decrypt_record\<close> opens it and handles the messages one after the other in their
  order; each message is added to the transcript before it is handled, a Finished carries the
  hash of the transcript before it, the first failure stops the rest, and the sequence number
  goes up only when all succeed.\<close>

theorem decrypt_record_flight:
  assumes "aead_laws cs seal" and "length (enc_iv (r_state rks)) = IvLen cs" and "8 \<le> IvLen cs"
    and "cb_ok (app_data ad)" and "\<forall>(w, m) \<in> set fl. parses (ServerHandshake_parse cs) w m"
    and "cb_view (app_data ad) = seal (enc_key (r_state rks))
       (rfc_nonce (counter (r_state rks)) (enc_iv (r_state rks))) (header_data (app_header ad))
       (concat (map fst fl) @ [ContentType_as_u8 CT_Handshake] @ replicate n 0)"
  shows "\<exists>mem'. decrypt_record cs (SR_ApplicationData ad) cb (mem, rks, u) =
      (case run_flight cs cb fl (rks, u) of
         (Ok _, rks', u') \<Rightarrow> (case read_increment_counter rks' of (r, rks'') \<Rightarrow> (r, mem', rks'', u'))
       | (Err e, rks', u') \<Rightarrow> (Err e, mem', rks', u')
       | (Panic, rks', u') \<Rightarrow> (Panic, mem', rks', u'))"
  using decrypt_flight [OF assms, where cb = cb and mem = mem and u = u] by blast

theorem decrypt_record_flight_witness:
  "\<exists>mem'. decrypt_record toy_suite (SR_ApplicationData (toy_app ([20, 0, 0, 4, 1, 2, 3, 4] @ [22] @ replicate 0 0))) log_cb (replicate 20 0, toy_rks, []) =
     (Ok (), mem', \<lparr>r_state = (r_state toy_rks)\<lparr>counter := 1\<rparr>, transcript_hash = [20, 0, 0, 4, 1, 2, 3, 4]\<rparr>,
      [(SR_Handshake (SH_Finished \<lparr>fin_verify = [1, 2, 3, 4], fin_hash = Some [0, 0, 0, 0]\<rparr>),
        toy_rks\<lparr>transcript_hash := [20, 0, 0, 4, 1, 2, 3, 4]\<rparr>)])"
proof -
  let ?m = "SH_Finished \<lparr>fin_verify = [1, 2, 3, 4], fin_hash = None\<rparr>" and ?w = "[20, 0, 0, 4, 1, 2, 3, 4] :: bytes"
  have w: "[20] @ prefixed24 [1, 2, 3, 4] = ?w" by (simp add: prefixed24_def u32_to_be_bytes_def)
  have p: "\<forall>(w, m) \<in> set [(?w, ?m)]. parses (ServerHandshake_parse toy_suite) w m"
    using Finished_message_parses [of "[1, 2, 3, 4]" toy_suite] unfolding w by simp
  have z: "toy_fix 4 [] = [0, 0, 0, 0]" by code_simp
  have r: "run_flight toy_suite log_cb [(?w, ?m)] (toy_rks, []) = (Ok (), toy_rks\<lparr>transcript_hash := ?w\<rparr>,
      [(SR_Handshake (SH_Finished \<lparr>fin_verify = [1, 2, 3, 4], fin_hash = Some [0, 0, 0, 0]\<rparr>), toy_rks\<lparr>transcript_hash := ?w\<rparr>)])"
    by (simp add: bnd_def log_cb_def with_hash_def toy_rks_def z)
  show ?thesis
    using decrypt_record_flight [OF toy_aead_laws toy_rks_sel(1,2) toy_app_data(1) p,
        of "[20, 0, 0, 4, 1, 2, 3, 4] @ [22] @ replicate 0 0" 0 log_cb "replicate 20 0" "[]"] toy_app_data(2,3) toy_rks_sel(3-5) r
    by (simp add: read_increment_counter_def zoom_def state_increment_counter_def toy_rks_def)
qed

end
