(* ===== verification/Connection.thy ===== *)
theory Connection
  imports Record_Reader Write_Buffer Server_Flight
begin

text \<open>
  The handshake state machine of \<open>src/src/connection.rs\<close>: \<open>State::process_blocking\<close> with the functions
  it calls. The mutable arguments of \<open>process_blocking\<close> are one record \<open>Conn\<close>. The transport is
  a record of operations on its state \<open>'t\<close>, as the crypto provider is. \<open>hs_step\<close> is the
  step relation of the state machine.
\<close>

section \<open>State\<close>

record 't Transport =
  t_read :: "'t reader"
  t_write_all :: "bytes \<Rightarrow> ('t, unit, ErrorKind) prog"
  t_flush :: "('t, unit, ErrorKind) prog"

record ('h, 's) Handshake =
  hs_traffic_hash :: "'h option"
  hs_secret :: "'s option"
  hs_certificate_request :: "CertificateRequest option"

definition Handshake_new :: "('h, 's) Handshake" where
  "Handshake_new = \<lparr>hs_traffic_hash = None, hs_secret = None, hs_certificate_request = None\<rparr>"

datatype State =
    ST_ClientHello
  | ST_ServerHello
  | ST_ServerVerify
  | ST_ClientCert
  | ST_ClientCertVerify
  | ST_ClientFinished
  | ST_ApplicationData

record ('t, 'h, 'k, 's, 'p) Conn =
  co_transport :: 't
  co_handshake :: "('h, 's) Handshake"
  co_reader :: RecordReader
  co_tx :: WriteBuffer
  co_keys :: "('h, 'k) KeySchedule"
  co_provider :: 'p

abbreviation on_transport ::
  "('t, 'a, 'e) prog \<Rightarrow> (('t, 'h, 'k, 's, 'p) Conn, 'a, 'e) prog" where
  "on_transport \<equiv> zoom co_transport (\<lambda>x c. c\<lparr>co_transport := x\<rparr>)"

abbreviation on_keys ::
  "(('h, 'k) KeySchedule, 'a, 'e) prog \<Rightarrow> (('t, 'h, 'k, 's, 'p) Conn, 'a, 'e) prog" where
  "on_keys \<equiv> zoom co_keys (\<lambda>x c. c\<lparr>co_keys := x\<rparr>)"

abbreviation on_handshake ::
  "(('h, 's) Handshake, 'a, 'e) prog \<Rightarrow> (('t, 'h, 'k, 's, 'p) Conn, 'a, 'e) prog" where
  "on_handshake \<equiv> zoom co_handshake (\<lambda>x c. c\<lparr>co_handshake := x\<rparr>)"

abbreviation on_provider ::
  "('p, 'a, 'e) prog \<Rightarrow> (('t, 'h, 'k, 's, 'p) Conn, 'a, 'e) prog" where
  "on_provider \<equiv> zoom co_provider (\<lambda>x c. c\<lparr>co_provider := x\<rparr>)"

text \<open>\<open>tx_buf.write_record(&record, write_key_schedule, Some(read_key_schedule))\<close> and
  \<open>record_reader.read_blocking(transport, key_schedule.read_state())\<close>.\<close>

definition tx_write_record ::
  "('h, 'k) TlsCipherSuite \<Rightarrow> ('s \<Rightarrow> bytes) \<Rightarrow> 's ClientRecord \<Rightarrow>
     (('t, 'h, 'k, 's, 'p) Conn, bytes, TlsError) prog" where
  "tx_write_record cs pk rec = (\<lambda>c.
     case write_record cs pk rec (client_state (co_keys c))
       (co_tx c, Some (transcript_hash (server_state (co_keys c)))) of
       (r, w, t) \<Rightarrow>
         (r, c\<lparr>co_tx := w,
               co_keys := (case t of None \<Rightarrow> co_keys c | Some h \<Rightarrow> replace_transcript_hash h (co_keys c))\<rparr>))"

definition rx_read_record ::
  "('h, 'k) TlsCipherSuite \<Rightarrow> 't Transport \<Rightarrow> (('t, 'h, 'k, 's, 'p) Conn, ServerRecord, TlsError) prog" where
  "rx_read_record cs T = (\<lambda>c.
     case read_blocking cs (t_read T) (co_reader c, co_transport c, server_state (co_keys c)) of
       (r, rr, t, rks) \<Rightarrow>
         (r, c\<lparr>co_reader := rr, co_transport := t, co_keys := (co_keys c)\<lparr>server_state := rks\<rparr>\<rparr>))"

section \<open>Sending\<close>

definition respond_blocking ::
  "'t Transport \<Rightarrow> bytes \<Rightarrow> (('t, 'h, 'k, 's, 'p) Conn, unit, TlsError) prog" where
  "respond_blocking T tx =
     seq (map_err Io (on_transport (t_write_all T tx))) (
     seq (on_keys (on_client write_increment_counter)) (
     map_err Io (on_transport (t_flush T))))"

definition handle_processing_error_blocking ::
  "('h, 'k) TlsCipherSuite \<Rightarrow> ('s \<Rightarrow> bytes) \<Rightarrow> 't Transport \<Rightarrow> (State, TlsError) result \<Rightarrow>
     (('t, 'h, 'k, 's, 'p) Conn, State, TlsError) prog" where
  "handle_processing_error_blocking cs pk T res = (case res of
     Err (AbortHandshake level description) \<Rightarrow>
       bnd (tx_write_record cs pk
              (CR_Alert \<lparr>alert_level = level, alert_description = description\<rparr> False)) (\<lambda>tx.
       seq (respond_blocking T tx) (
       from_result res))
   | _ \<Rightarrow> from_result res)"

section \<open>The functions of the states\<close>

definition client_hello ::
  "('h, 'k) TlsCipherSuite \<Rightarrow> ('p, 's, 'h) CryptoProvider \<Rightarrow> TlsConfig \<Rightarrow>
     (('t, 'h, 'k, 's, 'p) Conn, State \<times> bytes, TlsError) prog" where
  "client_hello cs P config =
     seq (on_keys (initialize_early_secret cs (map_option fst (cfg_psk config)))) (
     bnd (on_provider (\<lambda>p. case ClientRecord_client_hello P config p of (rec, p') \<Rightarrow> (Ok rec, p'))) (\<lambda>rec.
     bnd (tx_write_record cs (public_key P) rec) (\<lambda>sl.
     case rec of
       CR_Handshake (CH_ClientHello hello) _ \<Rightarrow>
         seq (on_handshake (modify (\<lambda>h. h\<lparr>hs_secret := Some (ch_secret hello)\<rparr>)))
             (ret (ST_ServerHello, sl))
     | _ \<Rightarrow> fail EncodeError)))"

definition process_server_hello ::
  "('h, 'k) TlsCipherSuite \<Rightarrow> ('p, 's, 'h) CryptoProvider \<Rightarrow> ServerRecord \<Rightarrow>
     (('t, 'h, 'k, 's, 'p) Conn, State, TlsError) prog" where
  "process_server_hello cs P rec = (case rec of
     SR_Handshake (SH_ServerHello server_hello) \<Rightarrow>
       bnd (on_handshake (\<lambda>h. (Ok (hs_secret h), h\<lparr>hs_secret := None\<rparr>))) (\<lambda>taken.
       bnd (ok_or InvalidHandshake taken) (\<lambda>secret.
       bnd (ok_or InvalidKeyShare
              (ServerHello_calculate_shared_secret (diffie_hellman P) secret server_hello)) (\<lambda>shared.
       seq (on_keys (initialize_handshake_secret cs shared)) (
       ret ST_ServerVerify))))
   | SR_Handshake _ \<Rightarrow> fail InvalidHandshake
   | SR_Alert alert \<Rightarrow> fail (HandshakeAborted (alert_level alert) (alert_description alert))
   | _ \<Rightarrow> fail InvalidRecord)"

text \<open>The callback that \<open>process_server_verify\<close> gives to \<open>decrypt_record\<close>; it captures the local \<open>state\<close>, the
  handshake and the provider.\<close>

type_synonym ('h, 's, 'p) verify_env = "State \<times> ('h, 's) Handshake \<times> 'p"

definition server_verify_cb ::
  "('h, 'k) TlsCipherSuite \<Rightarrow> ('p, 's, 'h) CryptoProvider \<Rightarrow> ('h, 'k, ('h, 's, 'p) verify_env) record_cb" where
  "server_verify_cb cs P rec = (\<lambda>(rks, state, hs, p). case rec of
     SR_Handshake server_handshake \<Rightarrow>
       (case server_handshake of
          SH_EncryptedExtensions _ \<Rightarrow> (Ok (), rks, state, hs, p)
        | SH_Certificate certificate \<Rightarrow>
            if prov_verifier P p
            then (case verify_certificate P (transcript_hash rks) certificate p of (r, p') \<Rightarrow> (r, rks, state, hs, p'))
            else (Ok (), rks, state, hs, p)
        | SH_CertificateVerify verify \<Rightarrow>
            if prov_verifier P p
            then (case verify_signature P verify p of (r, p') \<Rightarrow> (r, rks, state, hs, p'))
            else (Ok (), rks, state, hs, p)
        | SH_CertificateRequest request \<Rightarrow>
            (case CertificateRequest_try_from request of
               Ok req \<Rightarrow> (Ok (), rks, state, hs\<lparr>hs_certificate_request := Some req\<rparr>, p)
             | Err e \<Rightarrow> (Err e, rks, state, hs, p)
             | Panic \<Rightarrow> (Panic, rks, state, hs, p))
        | SH_Finished finished \<Rightarrow>
            (case verify_server_finished cs finished rks of
               Ok True \<Rightarrow>
                 if hs_certificate_request hs \<noteq> None then (Ok (), rks, ST_ClientCert, hs, p)
                 else (Ok (), rks, ST_ClientFinished, hs\<lparr>hs_traffic_hash := Some (transcript_hash rks)\<rparr>, p)
             | Ok False \<Rightarrow> (Err InvalidSignature, rks, state, hs, p)
             | Err e \<Rightarrow> (Err e, rks, state, hs, p)
             | Panic \<Rightarrow> (Panic, rks, state, hs, p))
        | _ \<Rightarrow> (Err InvalidHandshake, rks, state, hs, p))
   | SR_ChangeCipherSpec _ \<Rightarrow> (Ok (), rks, state, hs, p)
   | _ \<Rightarrow> (Err InvalidRecord, rks, state, hs, p))"

definition process_server_verify ::
  "('h, 'k) TlsCipherSuite \<Rightarrow> ('p, 's, 'h) CryptoProvider \<Rightarrow> ServerRecord \<Rightarrow>
     (('t, 'h, 'k, 's, 'p) Conn, State, TlsError) prog" where
  "process_server_verify cs P rec = (\<lambda>c.
     case decrypt_record cs rec (server_verify_cb cs P)
       (rr_buf (co_reader c), server_state (co_keys c), ST_ServerVerify, co_handshake c, co_provider c) of
       (r, mem, rks, state, hs, p) \<Rightarrow>
         (and_then r (\<lambda>_. Ok state),
          c\<lparr>co_reader := (co_reader c)\<lparr>rr_buf := mem\<rparr>, co_keys := (co_keys c)\<lparr>server_state := rks\<rparr>,
            co_handshake := hs, co_provider := p\<rparr>))"

definition client_cert ::
  "('h, 'k) TlsCipherSuite \<Rightarrow> ('p, 's, 'h) CryptoProvider \<Rightarrow>
     (('t, 'h, 'k, 's, 'p) Conn, State \<times> bytes, TlsError) prog" where
  "client_cert cs P =
     bnd (gets (\<lambda>c. transcript_hash (server_state (co_keys c)))) (\<lambda>th.
     seq (on_handshake (modify (\<lambda>h. h\<lparr>hs_traffic_hash := Some th\<rparr>))) (
     bnd (gets (\<lambda>c. hs_certificate_request (co_handshake c))) (\<lambda>req.
     bnd (ok_or InvalidHandshake (map_option creq_request_context req)) (\<lambda>request_context.
     bnd (on_provider (\<lambda>p. case prov_client_cert P p of (cert, p') \<Rightarrow> (Ok cert, p'))) (\<lambda>cert.
     bnd (case cert of
            Some crt \<Rightarrow>
              (case CertificateRef_add (CertificateEntryRef_from crt) (CertificateRef_with_context request_context) of
                 (Ok _, certificate) \<Rightarrow> ret (certificate, ST_ClientCertVerify)
               | (Err e, _) \<Rightarrow> fail e
               | (Panic, _) \<Rightarrow> panic)
          | None \<Rightarrow> ret (CertificateRef_with_context request_context, ST_ClientFinished))
       (\<lambda>(certificate, next_state).
     bnd (tx_write_record cs (public_key P) (CR_Handshake (CH_ClientCert certificate) True)) (\<lambda>sl.
     ret (next_state, sl))))))))"

definition cert_verify_ctx :: bytes where
  "cert_verify_ctx = ascii ''TLS 1.3, client CertificateVerify'' @ [0]"

text \<open>The message that is signed, collected in a \<open>heapless::Vec<u8, 146>\<close>.\<close>

definition cert_verify_msg :: "bytes \<Rightarrow> (bytes, TlsError) result" where
  "cert_verify_msg digest =
     and_then (or_err EncodeError (vec_extend 146 [] (replicate 64 0x20))) (\<lambda>m.
     and_then (or_err EncodeError (vec_extend 146 m cert_verify_ctx)) (\<lambda>m.
     or_err EncodeError (vec_extend 146 m digest)))"

text \<open>\<open>rsa\<close> is the feature flag that sets \<open>SIGNATURE_SIZE\<close>; a longer signature panics at \<open>unwrap\<close>.\<close>

definition client_cert_verify ::
  "bool \<Rightarrow> ('h, 'k) TlsCipherSuite \<Rightarrow> ('p, 's, 'h) CryptoProvider \<Rightarrow>
     (('t, 'h, 'k, 's, 'p) Conn, (State, TlsError) result \<times> bytes, TlsError) prog" where
  "client_cert_verify rsa cs P =
     bnd (attempt (on_provider (prov_signer P))) (\<lambda>signer.
     bnd (case signer of
            Ok scheme \<Rightarrow>
              bnd (gets (\<lambda>c. digest_finalize cs (transcript_hash (server_state (co_keys c))))) (\<lambda>digest.
              bnd (from_result (cert_verify_msg digest)) (\<lambda>msg.
              bnd (on_provider (\<lambda>p. case prov_sign P msg p of (s, p') \<Rightarrow> (Ok s, p'))) (\<lambda>sgn.
              case vec_extend (SIGNATURE_SIZE rsa) [] sgn of
                None \<Rightarrow> panic
              | Some s \<Rightarrow>
                  ret (Ok ST_ClientFinished,
                       CR_Handshake (CH_ClientCertVerify \<lparr>signature_scheme = scheme, signature = s\<rparr>) True))))
          | Err e \<Rightarrow> ret (Err e, CR_Alert (Alert_new AL_Warning AD_CloseNotify) True)
          | Panic \<Rightarrow> panic)
       (\<lambda>(result, rec).
     bnd (tx_write_record cs (public_key P) rec) (\<lambda>sl.
     ret (result, sl))))"

definition client_finished ::
  "('h, 'k) TlsCipherSuite \<Rightarrow> ('s \<Rightarrow> bytes) \<Rightarrow> (('t, 'h, 'k, 's, 'p) Conn, bytes, TlsError) prog" where
  "client_finished cs pk =
     bnd (map_err (\<lambda>_. InvalidHandshake) (\<lambda>c. (create_client_finished cs (co_keys c), c))) (\<lambda>fin.
     tx_write_record cs pk (CR_Handshake (CH_Finished fin) True))"

definition client_finished_finalize ::
  "('h, 'k) TlsCipherSuite \<Rightarrow> (('t, 'h, 'k, 's, 'p) Conn, State, TlsError) prog" where
  "client_finished_finalize cs =
     bnd (on_handshake (\<lambda>h. (Ok (hs_traffic_hash h), h\<lparr>hs_traffic_hash := None\<rparr>))) (\<lambda>taken.
     bnd (ok_or InvalidHandshake taken) (\<lambda>h.
     seq (on_keys (modify (replace_transcript_hash h))) (
     seq (on_keys (initialize_master_secret cs)) (
     ret ST_ApplicationData))))"

section \<open>One step\<close>

definition process_blocking ::
  "bool \<Rightarrow> ('h, 'k) TlsCipherSuite \<Rightarrow> ('p, 's, 'h) CryptoProvider \<Rightarrow> 't Transport \<Rightarrow> TlsConfig \<Rightarrow> State \<Rightarrow>
     (('t, 'h, 'k, 's, 'p) Conn, State, TlsError) prog" where
  "process_blocking rsa cs P T config self = (case self of
     ST_ClientHello \<Rightarrow>
       bnd (client_hello cs P config) (\<lambda>(state, tx).
       seq (respond_blocking T tx) (
       ret state))
   | ST_ServerHello \<Rightarrow>
       bnd (rx_read_record cs T) (\<lambda>rec.
       bnd (attempt (process_server_hello cs P rec)) (\<lambda>result.
       handle_processing_error_blocking cs (public_key P) T result))
   | ST_ServerVerify \<Rightarrow>
       bnd (rx_read_record cs T) (\<lambda>rec.
       bnd (attempt (process_server_verify cs P rec)) (\<lambda>result.
       handle_processing_error_blocking cs (public_key P) T result))
   | ST_ClientCert \<Rightarrow>
       bnd (client_cert cs P) (\<lambda>(state, tx).
       seq (respond_blocking T tx) (
       ret state))
   | ST_ClientCertVerify \<Rightarrow>
       bnd (client_cert_verify rsa cs P) (\<lambda>(result, tx).
       seq (respond_blocking T tx) (
       from_result result))
   | ST_ClientFinished \<Rightarrow>
       bnd (client_finished cs (public_key P)) (\<lambda>tx.
       seq (respond_blocking T tx) (
       client_finished_finalize cs))
   | ST_ApplicationData \<Rightarrow> ret ST_ApplicationData)"

section \<open>What the server must have shown\<close>

lemma server_verify_reads_only: "reads_only (server_verify_cb cs P)"
  unfolding reads_only_def server_verify_cb_def
  by (auto split: ServerRecord.splits ServerHandshake.splits result.splits bool.splits prod.splits)

text \<open>The state changes only on a Finished that verifies.\<close>

lemma server_verify_cb_state:
  assumes "server_verify_cb cs P rec (rks, st, hs, p) = (Ok (), rks', st', hs', p')"
  shows "st' = st \<or> (\<exists>f. rec = SR_Handshake (SH_Finished f) \<and> verify_server_finished cs f rks = Ok True \<and>
    (st' = ST_ClientCert \<or> st' = ST_ClientFinished))"
  using assms unfolding server_verify_cb_def
  by (auto split: ServerRecord.splits ServerHandshake.splits result.splits bool.splits prod.splits if_splits)

lemma run_log_finished:
  assumes "run_log (server_verify_cb cs P) log (st, hs, p) = Ok (st', hs', p')" "st' \<noteq> st"
  shows "(st' = ST_ClientCert \<or> st' = ST_ClientFinished) \<and>
    (\<exists>f rks. (SR_Handshake (SH_Finished f), rks) \<in> set log \<and> verify_server_finished cs f rks = Ok True)"
  using assms
proof (induction log arbitrary: st hs p)
  case (Cons x log)
  obtain rec rks where x: "x = (rec, rks)" by fastforce
  obtain r k st1 hs1 p1 where c: "server_verify_cb cs P rec (rks, st, hs, p) = (r, k, st1, hs1, p1)" by (metis prod.exhaust)
  with Cons.prems x have r: "r = Ok ()" and l: "run_log (server_verify_cb cs P) log (st1, hs1, p1) = Ok (st', hs', p')"
    by (cases r; simp)+
  show ?case
  proof (cases "st' = st1")
    case True
    with server_verify_cb_state [OF c [unfolded r]] Cons.prems(2) x show ?thesis by auto
  next
    case False
    from Cons.IH [OF l False] show ?thesis by auto
  qed
qed simp

lemma process_server_verify_finished:
  assumes "process_server_verify cs P rec c = (Ok st, c')" "st \<noteq> ST_ServerVerify"
  shows "(st = ST_ClientCert \<or> st = ST_ClientFinished) \<and>
    (\<exists>f rks. (SR_Handshake (SH_Finished f), rks) \<in> set (record_log cs rec (rr_buf (co_reader c)) (server_state (co_keys c))) \<and>
       verify_server_finished cs f rks = Ok True \<and> r_state rks = r_state (server_state (co_keys c)))"
proof -
  obtain r mem rks st1 hs p where d: "decrypt_record cs rec (server_verify_cb cs P)
      (rr_buf (co_reader c), server_state (co_keys c), ST_ServerVerify, co_handshake c, co_provider c) = (r, mem, rks, st1, hs, p)"
    by (metis prod.exhaust)
  with assms(1) have r: "r = Ok ()" "st1 = st" by (cases r; simp add: process_server_verify_def)+
  from decrypt_record_log [OF server_verify_reads_only d [unfolded r]]
  have l: "run_log (server_verify_cb cs P) (record_log cs rec (rr_buf (co_reader c)) (server_state (co_keys c)))
      (ST_ServerVerify, co_handshake c, co_provider c) = Ok (st, hs, p)"
    and k: "\<forall>(rec', k) \<in> set (record_log cs rec (rr_buf (co_reader c)) (server_state (co_keys c))).
      r_state k = r_state (server_state (co_keys c))" by auto
  from run_log_finished [OF l assms(2)] k show ?thesis by fast
qed

section \<open>Steps of the state machine\<close>

text \<open>The transitions of the handshake.\<close>

fun next_state :: "State \<Rightarrow> State \<Rightarrow> bool" where
  "next_state ST_ClientHello s \<longleftrightarrow> s = ST_ServerHello"
| "next_state ST_ServerHello s \<longleftrightarrow> s = ST_ServerVerify"
| "next_state ST_ServerVerify s \<longleftrightarrow> s = ST_ServerVerify \<or> s = ST_ClientCert \<or> s = ST_ClientFinished"
| "next_state ST_ClientCert s \<longleftrightarrow> s = ST_ClientCertVerify \<or> s = ST_ClientFinished"
| "next_state ST_ClientCertVerify s \<longleftrightarrow> s = ST_ClientFinished"
| "next_state ST_ClientFinished s \<longleftrightarrow> s = ST_ApplicationData"
| "next_state ST_ApplicationData s \<longleftrightarrow> s = ST_ApplicationData"

inductive hs_step for rsa cs P T config where
  hs_step: "st \<noteq> ST_ApplicationData \<Longrightarrow> process_blocking rsa cs P T config st c = (Ok st', c') \<Longrightarrow>
     hs_step rsa cs P T config (st, c) (st', c')"

inductive_simps hs_step_iff: "hs_step rsa cs P T config (st, c) (st', c')"

abbreviation hs_reach where
  "hs_reach rsa cs P T config \<equiv> (hs_step rsa cs P T config)\<^sup>*\<^sup>*"

lemma handle_processing_Ok_iff:
  "handle_processing_error_blocking cs pk T res c = (Ok st, c') \<longleftrightarrow> res = Ok st \<and> c' = c"
  by (auto simp: handle_processing_error_blocking_def bnd_Ok_iff split: result.splits TlsError.splits)

lemma attempt_Ok_iff: "attempt m s = (Ok r, s') \<longleftrightarrow> m s = (r, s') \<and> r \<noteq> Panic"
  by (auto simp: attempt_def split: prod.splits result.splits)

lemma attempt_Ok_Ok_iff: "attempt m s = (Ok (Ok a), s') \<longleftrightarrow> m s = (Ok a, s')"
  by (auto simp: attempt_Ok_iff)

lemma server_verify_step_iff:
  "process_blocking rsa cs P T config ST_ServerVerify c = (Ok st, c') \<longleftrightarrow>
     (\<exists>rec c1. rx_read_record cs T c = (Ok rec, c1) \<and> process_server_verify cs P rec c1 = (Ok st, c'))"
  by (auto simp: process_blocking_def bnd_Ok_iff handle_processing_Ok_iff attempt_Ok_Ok_iff)

lemma client_hello_next: "client_hello cs P config c = (Ok (st, tx), c') \<Longrightarrow> st = ST_ServerHello"
  by (clarsimp simp: client_hello_def bnd_Ok_iff) (auto simp: bnd_Ok_iff split: ClientRecord.split_asm ClientHandshake.split_asm)

lemma server_hello_next: "process_server_hello cs P rec c = (Ok st, c') \<Longrightarrow> st = ST_ServerVerify"
  by (clarsimp simp: process_server_hello_def bnd_Ok_iff) (auto simp: bnd_Ok_iff split: ServerRecord.split_asm ServerHandshake.split_asm)

lemma client_cert_next:
  "client_cert cs P c = (Ok (st, tx), c') \<Longrightarrow> st = ST_ClientCertVerify \<or> st = ST_ClientFinished"
  by (clarsimp simp: client_cert_def bnd_Ok_iff) (auto simp: bnd_Ok_iff split: option.split_asm result.split_asm prod.split_asm)

lemma client_cert_verify_next:
  "client_cert_verify rsa cs P c = (Ok (Ok st, tx), c') \<Longrightarrow> st = ST_ClientFinished"
  by (clarsimp simp: client_cert_verify_def bnd_Ok_iff) (auto simp: bnd_Ok_iff split: option.split_asm result.split_asm)

lemma finalize_next: "client_finished_finalize cs c = (Ok st, c') \<Longrightarrow> st = ST_ApplicationData"
  by (auto simp: client_finished_finalize_def bnd_Ok_iff)

lemma process_blocking_next:
  assumes "process_blocking rsa cs P T config st c = (Ok st', c')"
  shows "next_state st st'"
proof (cases st)
  case ST_ServerVerify
  then obtain rec c1 where "process_server_verify cs P rec c1 = (Ok st', c')"
    using assms server_verify_step_iff by metis
  from process_server_verify_finished [OF this] show ?thesis unfolding ST_ServerVerify by auto
qed (use assms in \<open>auto simp: process_blocking_def bnd_Ok_iff handle_processing_Ok_iff attempt_Ok_Ok_iff
    dest: client_hello_next server_hello_next client_cert_next client_cert_verify_next finalize_next\<close>)

text \<open>Every way out of the ServerVerify state is a record with a Finished that verifies.\<close>

definition server_finished ::
  "('h, 'k) TlsCipherSuite \<Rightarrow> 't Transport \<Rightarrow> ('t, 'h, 'k, 's, 'p) Conn \<Rightarrow> bool" where
  "server_finished cs T c \<longleftrightarrow> (\<exists>rec c1 f rks. rx_read_record cs T c = (Ok rec, c1) \<and>
     (SR_Handshake (SH_Finished f), rks) \<in> set (record_log cs rec (rr_buf (co_reader c1)) (server_state (co_keys c1))) \<and>
     verify_server_finished cs f rks = Ok True \<and> r_state rks = r_state (server_state (co_keys c1)))"

lemma leave_server_verify:
  assumes "process_blocking rsa cs P T config ST_ServerVerify c = (Ok st, c')" "st \<noteq> ST_ServerVerify"
  shows "server_finished cs T c"
proof -
  obtain rec c1 where "rx_read_record cs T c = (Ok rec, c1)" "process_server_verify cs P rec c1 = (Ok st, c')"
    using assms(1) server_verify_step_iff by metis
  with process_server_verify_finished [OF this(2) assms(2)] show ?thesis
    unfolding server_finished_def by blast
qed

lemma reach_finished:
  assumes "hs_reach rsa cs P T config (st0, c0) (st, c)" "st0 = ST_ClientHello"
    and "st = ST_ClientCert \<or> st = ST_ClientCertVerify \<or> st = ST_ClientFinished \<or> st = ST_ApplicationData"
  shows "\<exists>c1 st2 c2. hs_reach rsa cs P T config (st0, c0) (ST_ServerVerify, c1) \<and> server_finished cs T c1 \<and>
    hs_step rsa cs P T config (ST_ServerVerify, c1) (st2, c2) \<and> hs_reach rsa cs P T config (st2, c2) (st, c)"
  using assms
proof (induction "(st, c)" arbitrary: st c rule: rtranclp_induct)
  case base
  then show ?case by auto
next
  case (step s)
  obtain st1 c1 where s: "s = (st1, c1)" by fastforce
  from step.hyps(2) s have p: "process_blocking rsa cs P T config st1 c1 = (Ok st, c)"
    by (simp add: hs_step_iff)
  show ?case
  proof (cases "st1 = ST_ServerVerify")
    case True
    from leave_server_verify [of rsa cs P T config c1 st c] p True step.prems(2) have "server_finished cs T c1" by auto
    with step.hyps(1,2) s True show ?thesis by blast
  next
    case False
    with process_blocking_next [OF p] step.prems(2)
    have "st1 = ST_ClientCert \<or> st1 = ST_ClientCertVerify \<or> st1 = ST_ClientFinished \<or> st1 = ST_ApplicationData"
      by (cases st1) auto
    from step.hyps(3) [OF s step.prems(1) this] obtain c2 st3 c3 where
      "hs_reach rsa cs P T config (st0, c0) (ST_ServerVerify, c2)" "server_finished cs T c2"
      "hs_step rsa cs P T config (ST_ServerVerify, c2) (st3, c3)" "hs_reach rsa cs P T config (st3, c3) (st1, c1)" by blast
    moreover from this(4) step.hyps(2) s have "hs_reach rsa cs P T config (st3, c3) (st, c)" by simp
    ultimately show ?thesis by blast
  qed
qed

end
