(* ===== verification/Handshake_Run.thy ===== *)
theory Handshake_Run
  imports Connection
begin

text \<open>
  Runs of the handshake of \<open>src/src/connection.rs\<close> against a server. The locale \<open>duplex\<close> is a transport
  over a byte stream in each direction; for every state there is a lemma that gives what its
  step sends, what it does to the transcript, and the keys it leaves, in the terms of
  RFC 8446. Together they show that the handshake with an honest server completes.
\<close>

section \<open>Transports in both directions\<close>

definition bump_write :: "('h, 'k) KeySchedule \<Rightarrow> ('h, 'k) KeySchedule" where
  "bump_write ks = ks\<lparr>client_state := (client_state ks)\<lparr>w_state := (w_state (client_state ks))\<lparr>
     counter := counter (w_state (client_state ks)) + 1\<rparr>\<rparr>\<rparr>"


text \<open>The header of a record with a payload of a given length.\<close>

definition record_header :: "u8 \<Rightarrow> u8 \<Rightarrow> u8 \<Rightarrow> bytes \<Rightarrow> bytes" where
  "record_header t v1 v2 payload = [t, v1, v2] @ u16_to_be_bytes (of_nat (length payload))"

lemma record_header_length: "length (record_header t v1 v2 payload) = RecordHeader_LEN"
  by (simp add: record_header_def RecordHeader_LEN_def)

lemma record_header_decodes:
  "ContentType_of t = Some ct \<Longrightarrow>
     RecordHeader_decode (record_header t v1 v2 payload) = Ok (RecordHeader (record_header t v1 v2 payload))"
  by (simp add: RecordHeader_decode_def record_header_def)

lemma record_header_content_length:
  assumes "length payload < 65536"
  shows "length payload = RecordHeader_content_length (RecordHeader (record_header t v1 v2 payload))"
proof -
  have "u16_from_be_bytes (record_header t v1 v2 payload ! 3) (record_header t v1 v2 payload ! 4) = of_nat (length payload)"
    using u16_from_to [of "of_nat (length payload)"] by (simp add: record_header_def u16_to_be_bytes_def)
  then show ?thesis using assms by (simp only: RecordHeader_content_length_def RecordHeader.sel unat_of_nat_u16 mod_less)
qed

lemma decode_handshake_record:
  assumes "parses (ServerHandshake_parse cs) payload m" "length payload < 65536"
  shows "ServerRecord_decode cs (RecordHeader (record_header 22 v1 v2 payload)) base payload h =
    (Ok (SR_Handshake (with_hash cs h m)), digest_update cs h payload)"
proof -
  have "RecordHeader_content_type (RecordHeader (record_header 22 v1 v2 payload)) = Ok CT_Handshake"
    by (simp add: RecordHeader_content_type_def record_header_def ContentType_of_def)
  then show ?thesis
    using ServerHandshake_read_parses [OF assms(1), of "[]" "[]" h] record_header_content_length [OF assms(2), of 22 v1 v2]
    by (simp add: ServerRecord_decode_def pb_new_def)
qed

lemma decode_protected_record:
  assumes "length payload < 65536"
  shows "ServerRecord_decode cs (RecordHeader (record_header 23 v1 v2 payload)) base payload h =
    (Ok (SR_ApplicationData \<lparr>app_header = RecordHeader (record_header 23 v1 v2 payload),
       app_data = cb_wrap_with_pos payload (length payload), app_base = base\<rparr>), h)"
proof -
  have "RecordHeader_content_type (RecordHeader (record_header 23 v1 v2 payload)) = Ok CT_ApplicationData"
    by (simp add: RecordHeader_content_type_def record_header_def ContentType_of_def)
  then show ?thesis
    using record_header_content_length [OF assms, of 23 v1 v2] by (simp add: ServerRecord_decode_def)
qed

lemma length_rfc_iv: "kdf_laws cs \<Longrightarrow> length (enc_iv (rfc_traffic cs k label h)) = IvLen cs"
  by (simp add: rfc_traffic_def Let_def kdf_laws_def [of cs])

lemma rfc_traffic_secret: "\<exists>ts. traffic_secret (rfc_traffic cs k label h) = Initialized ts"
  by (simp add: rfc_traffic_def Let_def)

lemma rfc_traffic_counter: "counter (rfc_traffic cs k label h) = 0"
  by (simp add: rfc_traffic_def Let_def)

text \<open>A protected record on the wire, its content with the content type at the end.\<close>

definition sealed_record ::
  "('h, 'k) TlsCipherSuite \<Rightarrow> (bytes \<Rightarrow> bytes \<Rightarrow> bytes \<Rightarrow> bytes \<Rightarrow> bytes) \<Rightarrow> 'k KeyScheduleState \<Rightarrow> bytes \<Rightarrow> bytes" where
  "sealed_record cs seal st content =
     (let hdr = [23, 3, 3] @ u16_to_be_bytes (of_nat (length content + TagSize cs)) in
      hdr @ seal (enc_key st) (rfc_nonce (counter st) (enc_iv st)) hdr content)"

lemma sealed_record_split:
  assumes "aead_laws cs seal"
  obtains payload where "sealed_record cs seal st content = record_header 23 3 3 payload @ payload"
    "payload = seal (enc_key st) (rfc_nonce (counter st) (enc_iv st)) (record_header 23 3 3 payload) content"
    "length payload = length content + TagSize cs"
proof -
  let ?hdr = "[23, 3, 3] @ u16_to_be_bytes (of_nat (length content + TagSize cs))"
  let ?p = "seal (enc_key st) (rfc_nonce (counter st) (enc_iv st)) ?hdr content"
  have l: "length ?p = length content + TagSize cs" using assms by (simp add: aead_laws_def)
  have "record_header 23 3 3 ?p = ?hdr" unfolding record_header_def l ..
  then show thesis using that [of ?p] l by (simp add: sealed_record_def Let_def)
qed

locale duplex = stream_reader "t_read T" stream good
  for T :: "'t Transport" and stream :: "'t \<Rightarrow> bytes" and good :: "'t \<Rightarrow> bool" +
  fixes sent :: "'t \<Rightarrow> bytes"
  assumes read_keeps_sent: "t_read T n t = (r, t') \<Longrightarrow> sent t' = sent t"
    and write_some: "good t \<Longrightarrow>
      \<exists>t'. t_write_all T bs t = (Ok (), t') \<and> stream t' = stream t \<and> sent t' = sent t @ bs \<and> good t'"
    and flush_some: "good t \<Longrightarrow>
      \<exists>t'. t_flush T t = (Ok (), t') \<and> stream t' = stream t \<and> sent t' = sent t \<and> good t'"
begin

lemma respond_sends:
  assumes "good (co_transport c)" "unat (counter (w_state (client_state (co_keys c)))) + 1 < 2 ^ 64"
  shows "\<exists>t'. respond_blocking T tx c = (Ok (), c\<lparr>co_keys := bump_write (co_keys c), co_transport := t'\<rparr>) \<and>
    stream t' = stream (co_transport c) \<and> sent t' = sent (co_transport c) @ tx \<and> good t'"
proof -
  obtain t1 where 1: "t_write_all T tx (co_transport c) = (Ok (), t1)" "stream t1 = stream (co_transport c)"
    "sent t1 = sent (co_transport c) @ tx" "good t1" using write_some [OF assms(1)] by blast
  obtain t2 where "t_flush T t1 = (Ok (), t2)" "stream t2 = stream t1" "sent t2 = sent t1" "good t2"
    using flush_some [OF 1(4)] by blast
  with 1 assms(2) show ?thesis
    by (intro exI [of _ t2]) (simp add: respond_blocking_def bnd_def map_err_def zoom_def write_increment_counter_def
        state_increment_counter_def bump_write_def)
qed

text \<open>Reading the record at the front of the stream.\<close>

lemma rx_reads:
  assumes "good (co_transport c)" "stream (co_transport c) = hdr @ payload @ rest" "length hdr = RecordHeader_LEN"
    and "RecordHeader_decode hdr = Ok header" "length payload = RecordHeader_content_length header"
    and "rr_ok (co_reader c)" "rr_pending (co_reader c) = 0" "length payload \<le> length (rr_buf (co_reader c))"
  shows "\<exists>t' rr base. rx_read_record cs T c =
      (fst (ServerRecord_decode cs header base payload (transcript_hash (server_state (co_keys c)))),
       c\<lparr>co_reader := rr, co_transport := t', co_keys := (co_keys c)\<lparr>server_state := (server_state (co_keys c))\<lparr>
         transcript_hash := snd (ServerRecord_decode cs header base payload (transcript_hash (server_state (co_keys c))))\<rparr>\<rparr>\<rparr>) \<and>
    rr_ok rr \<and> rr_pending rr = 0 \<and> length (rr_buf rr) = length (rr_buf (co_reader c)) \<and>
    base + length payload \<le> length (rr_buf rr) \<and>
    stream t' = rest \<and> sent t' = sent (co_transport c) \<and> good t'"
proof -
  let ?r = "co_reader c" and ?rks = "server_state (co_keys c)"
  define base where "base = (if length (rr_buf ?r) < rr_decoded ?r + length payload then 0 else rr_decoded ?r)"
  have b: "base + length payload \<le> length (rr_buf ?r)" using assms(6,8) by (auto simp: base_def rr_ok_def)
  obtain t' where t': "read_blocking cs (t_read T) (?r, co_transport c, ?rks) =
      (fst (ServerRecord_decode cs header base payload (transcript_hash ?rks)),
       \<lparr>rr_buf = write_at (rr_buf ?r) base payload, rr_decoded = base + length payload, rr_pending = 0\<rparr>, t',
       ?rks\<lparr>transcript_hash := snd (ServerRecord_decode cs header base payload (transcript_hash ?rks))\<rparr>)"
    "stream t' = rest" "good t'"
    using read_record [OF assms base_def] by blast
  have "sent t' = sent (co_transport c)"
    by (rule read_blocking_keeps [OF _ _ t'(1), where I = "\<lambda>t. sent t = sent (co_transport c)"])
      (use read_keeps_sent in \<open>metis surjective_pairing\<close>, simp)
  with t' b show ?thesis by (intro exI [of _ t'] 
      exI [of _ "\<lparr>rr_buf = write_at (rr_buf ?r) base payload, rr_decoded = base + length payload, rr_pending = 0\<rparr>"] exI [of _ base])
      (simp add: rx_read_record_def rr_ok_def)
qed

text \<open>The step of each state.\<close>

lemma client_hello_runs:
  assumes laws: "kdf_laws cs" "digest_laws cs"
    and t: "good (co_transport c)" "unat (counter (w_state (client_state (co_keys c)))) + 1 < 2 ^ 64"
    and w: "wb_idle (co_tx c)" "5 + length (client_handshake_wire cs (public_key P) (CH_ClientHello x)) \<le> length (wb_buffer (co_tx c))"
    and k: "sh_secret (shared (co_keys c)) = rfc_zeros cs"
    and x: "ClientHello_new P config (co_provider c) = (x, p')"
  shows "\<exists>f c'. process_blocking rsa cs P T config ST_ClientHello c = (Ok ST_ServerHello, c') \<and>
    (cfg_psk config = None \<longrightarrow> f = client_handshake_wire cs (public_key P) (CH_ClientHello x)) \<and>
    sent (co_transport c') = sent (co_transport c) @ [22, 3, 1] @ u16_to_be_bytes (of_nat (length f)) @ f \<and>
    stream (co_transport c') = stream (co_transport c) \<and> good (co_transport c') \<and>
    sh_secret (shared (co_keys c')) = rfc_derived cs (rfc_early cs (map_option fst (cfg_psk config))) \<and>
    transcript_hash (server_state (co_keys c')) = digest_update cs (transcript_hash (server_state (co_keys c))) f \<and>
    co_handshake c' = (co_handshake c)\<lparr>hs_secret := Some (ch_secret x)\<rparr> \<and> co_reader c' = co_reader c \<and>
    co_provider c' = p' \<and> wb_idle (co_tx c') \<and> length (wb_buffer (co_tx c')) = length (wb_buffer (co_tx c))"
proof -
  let ?psk = "map_option fst (cfg_psk config)"
  obtain ks where ks: "initialize_early_secret cs ?psk (co_keys c) = (Ok (), ks)"
    "sh_secret (shared ks) = rfc_derived cs (rfc_early cs ?psk)" "w_state (client_state ks) = w_state (client_state (co_keys c))"
    "server_state ks = server_state (co_keys c)" "\<exists>b. binder_key (client_state ks) = Initialized b"
    using early_secret_rfc [OF laws k, of ?psk] by blast
  obtain f w' where f: "write_record cs (public_key P) (CR_Handshake (CH_ClientHello x) False) (client_state ks)
      (co_tx c, Some (transcript_hash (server_state (co_keys c)))) =
      (Ok ([22, 3, 1] @ u16_to_be_bytes (of_nat (length f)) @ f), w',
       Some (digest_update cs (transcript_hash (server_state (co_keys c))) f))"
    "wb_idle w'" "length (wb_buffer w') = length (wb_buffer (co_tx c))"
    "cfg_psk (ch_config x) = None \<longrightarrow> f = client_handshake_wire cs (public_key P) (CH_ClientHello x)"
    using write_client_hello_plain [OF laws _ w, of "client_state ks"] ks(5) by blast
  define tx where "tx = [22, 3, 1] @ u16_to_be_bytes (of_nat (length f)) @ f"
  define c1 where "c1 = c\<lparr>co_keys := replace_transcript_hash (digest_update cs (transcript_hash (server_state (co_keys c))) f) ks,
      co_provider := p', co_tx := w', co_handshake := (co_handshake c)\<lparr>hs_secret := Some (ch_secret x)\<rparr>\<rparr>"
  have cx: "ch_config x = config" using x by (auto simp: ClientHello_new_def Let_def split: prod.splits)
  have h: "client_hello cs P config c = (Ok (ST_ServerHello, tx), c1)"
    using ks(1,4) f(1) x by (simp add: client_hello_def bnd_def zoom_def ClientRecord_client_hello_def tx_write_record_def
        tx_def c1_def)
  obtain t' where "respond_blocking T tx c1 = (Ok (), c1\<lparr>co_keys := bump_write (co_keys c1), co_transport := t'\<rparr>)"
    "stream t' = stream (co_transport c)" "sent t' = sent (co_transport c) @ tx" "good t'"
    using respond_sends [of c1 tx] t ks(3) by (auto simp: c1_def replace_transcript_hash_def)
  with h show ?thesis
    using ks(2) f(2-4) cx
    by (intro exI [of _ f] exI [of _ "c1\<lparr>co_keys := bump_write (co_keys c1), co_transport := t'\<rparr>"])
      (simp add: process_blocking_def bnd_def c1_def bump_write_def replace_transcript_hash_def tx_def)
qed

lemma server_hello_runs:
  assumes laws: "kdf_laws cs" "digest_laws cs"
    and t: "good (co_transport c)" "stream (co_transport c) = record_header 22 v1 v2 payload @ payload @ rest" "length payload < 65536"
    and r: "rr_ok (co_reader c)" "rr_pending (co_reader c) = 0" "length payload \<le> length (rr_buf (co_reader c))"
    and p: "parses (ServerHandshake_parse cs) payload (SH_ServerHello sh)"
    and dh: "hs_secret (co_handshake c) = Some sec" "ServerHello_calculate_shared_secret (diffie_hellman P) sec sh = Some dhe"
    and k: "sh_secret (shared (co_keys c)) = rfc_derived cs (rfc_early cs psk)"
    and h: "h = digest_update cs (transcript_hash (server_state (co_keys c))) payload"
  shows "\<exists>c'. process_blocking rsa cs P T config ST_ServerHello c = (Ok ST_ServerVerify, c') \<and>
    w_state (client_state (co_keys c')) = rfc_traffic cs (rfc_handshake cs psk dhe) (ascii ''c hs traffic'') h \<and>
    r_state (server_state (co_keys c')) = rfc_traffic cs (rfc_handshake cs psk dhe) (ascii ''s hs traffic'') h \<and>
    transcript_hash (server_state (co_keys c')) = h \<and>
    sh_secret (shared (co_keys c')) = rfc_derived cs (rfc_handshake cs psk dhe) \<and>
    co_handshake c' = (co_handshake c)\<lparr>hs_secret := None\<rparr> \<and> co_provider c' = co_provider c \<and> co_tx c' = co_tx c \<and>
    rr_ok (co_reader c') \<and> rr_pending (co_reader c') = 0 \<and> length (rr_buf (co_reader c')) = length (rr_buf (co_reader c)) \<and>
    stream (co_transport c') = rest \<and> sent (co_transport c') = sent (co_transport c) \<and> good (co_transport c')"
proof -
  have ct: "ContentType_of 22 = Some CT_Handshake" by (simp add: ContentType_of_def)
  let ?ks = "(co_keys c)\<lparr>server_state := (server_state (co_keys c))\<lparr>transcript_hash := h\<rparr>\<rparr>"
  obtain t' rr where rx: "rx_read_record cs T c =
      (Ok (SR_Handshake (SH_ServerHello sh)), c\<lparr>co_reader := rr, co_transport := t', co_keys := ?ks\<rparr>)"
    and t': "rr_ok rr" "rr_pending rr = 0" "length (rr_buf rr) = length (rr_buf (co_reader c))"
      "stream t' = rest" "sent t' = sent (co_transport c)" "good t'"
    using rx_reads [OF t(1,2) record_header_length record_header_decodes [OF ct] record_header_content_length [OF t(3)] r, of cs]
    by (auto simp: decode_handshake_record [OF p t(3)] with_hash_def h)
  have k': "sh_secret (shared ?ks) = rfc_derived cs (rfc_early cs psk)" using k by simp
  obtain ks' where ks': "initialize_handshake_secret cs dhe ?ks = (Ok (), ks')"
    "sh_secret (shared ks') = rfc_derived cs (rfc_handshake cs psk dhe)"
    "w_state (client_state ks') = rfc_traffic cs (rfc_handshake cs psk dhe) (ascii ''c hs traffic'') h"
    "r_state (server_state ks') = rfc_traffic cs (rfc_handshake cs psk dhe) (ascii ''s hs traffic'') h"
    "transcript_hash (server_state ks') = h"
    using handshake_secret_rfc [OF laws k', of dhe] by auto
  let ?c = "c\<lparr>co_reader := rr, co_transport := t', co_keys := ks', co_handshake := (co_handshake c)\<lparr>hs_secret := None\<rparr>\<rparr>"
  have "process_blocking rsa cs P T config ST_ServerHello c = (Ok ST_ServerVerify, ?c)"
    using rx dh ks'(1)
    by (simp add: process_blocking_def bnd_def attempt_def process_server_hello_def zoom_def handle_processing_error_blocking_def)
  then show ?thesis using ks' t' by (intro exI [of _ ?c]) simp
qed

lemma server_verify_runs:
  assumes aead: "aead_laws cs seal" "length (enc_iv (r_state (server_state (co_keys c)))) = IvLen cs" "8 \<le> IvLen cs"
    and t: "good (co_transport c)" "stream (co_transport c) = record_header 23 v1 v2 payload @ payload @ rest" "length payload < 65536"
    and r: "rr_ok (co_reader c)" "rr_pending (co_reader c) = 0" "length payload \<le> length (rr_buf (co_reader c))"
    and p: "payload = seal (enc_key (r_state (server_state (co_keys c))))
        (rfc_nonce (counter (r_state (server_state (co_keys c)))) (enc_iv (r_state (server_state (co_keys c)))))
        (record_header 23 v1 v2 payload) (concat (map fst fl) @ [22] @ replicate n 0)"
    and fl: "\<forall>(w, m) \<in> set fl. parses (ServerHandshake_parse cs) w m"
      "run_flight cs (server_verify_cb cs P) fl (server_state (co_keys c), ST_ServerVerify, co_handshake c, co_provider c) =
         (Ok (), rks', st, hs', p')"
    and k: "unat (counter (r_state rks')) + 1 < 2 ^ 64"
  shows "\<exists>c'. process_blocking rsa cs P T config ST_ServerVerify c = (Ok st, c') \<and>
    co_keys c' = (co_keys c)\<lparr>server_state := rks'\<lparr>r_state := (r_state rks')\<lparr>counter := counter (r_state rks') + 1\<rparr>\<rparr>\<rparr> \<and>
    co_handshake c' = hs' \<and> co_provider c' = p' \<and> co_tx c' = co_tx c \<and>
    rr_ok (co_reader c') \<and> rr_pending (co_reader c') = 0 \<and> length (rr_buf (co_reader c')) = length (rr_buf (co_reader c)) \<and>
    stream (co_transport c') = rest \<and> sent (co_transport c') = sent (co_transport c) \<and> good (co_transport c')"
proof -
  have ct: "ContentType_of 23 = Some CT_ApplicationData" by (simp add: ContentType_of_def)
  obtain t' rr base where rx: "rx_read_record cs T c =
      (Ok (SR_ApplicationData \<lparr>app_header = RecordHeader (record_header 23 v1 v2 payload),
         app_data = cb_wrap_with_pos payload (length payload), app_base = base\<rparr>),
       c\<lparr>co_reader := rr, co_transport := t', co_keys := co_keys c\<rparr>)"
    and t': "stream t' = rest" "sent t' = sent (co_transport c)" "good t'"
    and rr: "rr_ok rr" "rr_pending rr = 0" "length (rr_buf rr) = length (rr_buf (co_reader c))"
      "base + length payload \<le> length (rr_buf rr)"
    using rx_reads [OF t(1,2) record_header_length record_header_decodes [OF ct] record_header_content_length [OF t(3)] r, of cs]
    by (auto simp: decode_protected_record [OF t(3)])
  let ?ad = "\<lparr>app_header = RecordHeader (record_header 23 v1 v2 payload),
         app_data = cb_wrap_with_pos payload (length payload), app_base = base\<rparr>"
  have ad: "cb_ok (app_data ?ad)" "cb_view (app_data ?ad) = payload"
    by (simp_all add: cb_wrap_with_pos_def cb_ok_def cb_view_def slice_of_def)
  have v: "cb_view (app_data ?ad) = seal (enc_key (r_state (server_state (co_keys c))))
        (rfc_nonce (counter (r_state (server_state (co_keys c)))) (enc_iv (r_state (server_state (co_keys c)))))
        (header_data (app_header ?ad)) (concat (map fst fl) @ [ContentType_as_u8 CT_Handshake] @ replicate n 0)"
    using ad(2) p by simp
  obtain mem' where lm: "length mem' = length (rr_buf rr)" and "decrypt_record cs (SR_ApplicationData ?ad) (server_verify_cb cs P)
      (rr_buf rr, server_state (co_keys c), ST_ServerVerify, co_handshake c, co_provider c) =
      (Ok (), mem', rks'\<lparr>r_state := (r_state rks')\<lparr>counter := counter (r_state rks') + 1\<rparr>\<rparr>, st, hs', p')"
    using decrypt_flight [OF aead ad(1) fl(1) v,
        where cb = "server_verify_cb cs P" and mem = "rr_buf rr" and
        u = "(ST_ServerVerify, co_handshake c, co_provider c)"] fl(2) k rr(4)
    by (auto simp: cb_wrap_with_pos_def read_increment_counter_def zoom_def state_increment_counter_def)
  then show ?thesis
    using rx t' rr lm by (simp add: rr_ok_def process_blocking_def bnd_def attempt_def process_server_verify_def handle_processing_error_blocking_def)
qed

lemma client_finished_runs:
  assumes laws: "kdf_laws cs" "digest_laws cs" "aead_laws cs seal" "8 \<le> IvLen cs"
    and t: "good (co_transport c)" "unat (counter (w_state (client_state (co_keys c)))) + 1 < 2 ^ 64"
    and w: "wb_idle (co_tx c)" "10 + HashOutputSize cs + TagSize cs \<le> length (wb_buffer (co_tx c))"
    and ws: "ws = w_state (client_state (co_keys c))" "traffic_secret ws = Initialized ts" "length (enc_iv ws) = IvLen cs"
    and h: "hs_traffic_hash (co_handshake c) = Some h"
    and k: "sh_secret (shared (co_keys c)) = rfc_derived cs (rfc_handshake cs psk dhe)"
  shows "\<exists>mac hdr c'. hmac_new cs (rfc_expand_label cs ts (ascii ''finished'') [] (HashOutputSize cs)) = Some mac \<and>
    process_blocking rsa cs P T config ST_ClientFinished c = (Ok ST_ApplicationData, c') \<and>
    hdr = [23, 3, 3] @ u16_to_be_bytes (of_nat (5 + HashOutputSize cs + TagSize cs)) \<and>
    sent (co_transport c') = sent (co_transport c) @ hdr @ seal (enc_key ws) (rfc_nonce (counter ws) (enc_iv ws)) hdr
      ([20] @ prefixed24 (mac (digest_finalize cs (transcript_hash (server_state (co_keys c))))) @ [22]) \<and>
    w_state (client_state (co_keys c')) = rfc_traffic cs (rfc_master cs psk dhe) (ascii ''c ap traffic'') h \<and>
    r_state (server_state (co_keys c')) = rfc_traffic cs (rfc_master cs psk dhe) (ascii ''s ap traffic'') h \<and>
    transcript_hash (server_state (co_keys c')) = h \<and> co_provider c' = co_provider c \<and>
    stream (co_transport c') = stream (co_transport c) \<and> good (co_transport c') \<and>
    co_handshake c' = (co_handshake c)\<lparr>hs_traffic_hash := None\<rparr> \<and> wb_idle (co_tx c') \<and>
    length (wb_buffer (co_tx c')) = length (wb_buffer (co_tx c)) \<and> co_reader c' = co_reader c"
proof -
  let ?ks = "co_keys c" and ?th = "transcript_hash (server_state (co_keys c))"
  have e: "make_expanded_hkdf_label cs (HashOutputSize cs) (Initialized ts) (ascii ''finished'') CT_None =
      Ok (rfc_expand_label cs ts (ascii ''finished'') [] (HashOutputSize cs))"
    using make_expanded_rfc [OF laws(1), of "ascii ''finished''" CT_None] by (simp add: context_bytes_def)
  obtain mac where mac: "hmac_new cs (rfc_expand_label cs ts (ascii ''finished'') [] (HashOutputSize cs)) = Some mac"
    "length (mac (digest_finalize cs ?th)) = HashOutputSize cs"
    using laws(1) unfolding kdf_laws_def by metis
  let ?fin = "\<lparr>fin_verify = mac (digest_finalize cs ?th), fin_hash = None\<rparr>"
  let ?wire = "[20] @ prefixed24 (mac (digest_finalize cs ?th))"
  have fin: "create_client_finished cs ?ks = Ok ?fin" using e mac(1) ws by (simp add: create_client_finished_def)
  have wire: "client_handshake_wire cs (public_key P) (CH_Finished ?fin) = ?wire"
    by (simp add: client_handshake_wire_def)
  have len: "length ?wire = 4 + HashOutputSize cs" using mac(2) by (simp add: prefixed24_def)
  define hdr where "hdr = [23, 3, 3] @ u16_to_be_bytes (of_nat (5 + HashOutputSize cs + TagSize cs))"
  define tx where "tx = hdr @ seal (enc_key ws) (rfc_nonce (counter ws) (enc_iv ws)) hdr (?wire @ [22])"
  have hdr: "hdr = [23, 3, 3] @ u16_to_be_bytes (of_nat (length (client_handshake_wire cs (public_key P) (CH_Finished ?fin)) + 1 + TagSize cs))"
    unfolding wire len hdr_def by (simp add: add.commute add.left_commute)
  have room: "6 + length (client_handshake_wire cs (public_key P) (CH_Finished ?fin)) + TagSize cs \<le> length (wb_buffer (co_tx c))"
    unfolding wire len using w(2) by simp
  obtain w' where w': "write_record cs (public_key P) (CR_Handshake (CH_Finished ?fin) True) (client_state ?ks) (co_tx c, Some ?th) =
      (Ok tx, w', Some (digest_update cs ?th ?wire))" "wb_idle w'" "length (wb_buffer w') = length (wb_buffer (co_tx c))"
    using write_handshake_sealed [OF laws(3) _ laws(4) w(1) _ room hdr, of "client_state ?ks" ?th] ws
    unfolding wire tx_def by auto
  define c1 where "c1 = c\<lparr>co_tx := w', co_keys := replace_transcript_hash (digest_update cs ?th ?wire) ?ks\<rparr>"
  have f: "client_finished cs (public_key P) c = (Ok tx, c1)"
    using fin w'(1) by (simp add: client_finished_def bnd_def map_err_def tx_write_record_def c1_def)
  obtain t' where t': "respond_blocking T tx c1 = (Ok (), c1\<lparr>co_keys := bump_write (co_keys c1), co_transport := t'\<rparr>)"
    "stream t' = stream (co_transport c)" "sent t' = sent (co_transport c) @ tx" "good t'"
    using respond_sends [of c1 tx] t by (auto simp: c1_def replace_transcript_hash_def)
  define ks2 where "ks2 = replace_transcript_hash h (bump_write (co_keys c1))"
  have k2: "sh_secret (shared ks2) = rfc_derived cs (rfc_handshake cs psk dhe)" "transcript_hash (server_state ks2) = h"
    using k by (simp_all add: ks2_def bump_write_def replace_transcript_hash_def c1_def)
  obtain ks3 where ks3: "initialize_master_secret cs ks2 = (Ok (), ks3)"
    "w_state (client_state ks3) = rfc_traffic cs (rfc_master cs psk dhe) (ascii ''c ap traffic'') h"
    "r_state (server_state ks3) = rfc_traffic cs (rfc_master cs psk dhe) (ascii ''s ap traffic'') h"
    "transcript_hash (server_state ks3) = h"
    using master_secret_rfc [OF laws(1,2) k2(1)] k2(2) by auto
  let ?c = "c1\<lparr>co_transport := t', co_handshake := (co_handshake c)\<lparr>hs_traffic_hash := None\<rparr>, co_keys := ks3\<rparr>"
  have "process_blocking rsa cs P T config ST_ClientFinished c = (Ok ST_ApplicationData, ?c)"
    using f t'(1) h ks3(1)
    by (simp add: process_blocking_def bnd_def client_finished_finalize_def zoom_def ks2_def c1_def)
  then show ?thesis
    using mac(1) ks3 t' w'(2,3)
    by (intro exI [of _ mac] exI [of _ hdr] exI [of _ ?c]) (simp add: hdr_def tx_def c1_def)
qed

end

section \<open>A complete run\<close>

lemma run_flight_append:
  "run_flight cs cb (a @ b) s = seq (run_flight cs cb a) (run_flight cs cb b) s"
proof (induction a arbitrary: s)
  case (Cons x a)
  obtain w m rks u where "x = (w, m)" "s = (rks, u)" by (metis surj_pair)
  then show ?case using Cons by (simp add: bnd_def split: prod.splits result.splits)
qed (simp add: bnd_def)

lemma run_flight_transcript:
  assumes "digest_laws cs" "reads_only cb" "run_flight cs cb fl (rks, u) = (Ok (), rks', u')"
  shows "rks' = rks\<lparr>transcript_hash := digest_update cs (transcript_hash rks) (concat (map fst fl))\<rparr>"
  using assms(3)
proof (induction fl arbitrary: rks u)
  case Nil
  then show ?case using assms(1) by (simp add: digest_laws_def)
next
  case (Cons x fl)
  obtain w m where x: "x = (w, m)" by fastforce
  let ?k = "rks\<lparr>transcript_hash := digest_update cs (transcript_hash rks) w\<rparr>"
  from Cons.prems x obtain s where
    s: "cb (SR_Handshake (with_hash cs (transcript_hash rks) m)) (?k, u) = (Ok (), s)" "run_flight cs cb fl s = (Ok (), rks', u')"
    by (auto simp: bnd_Ok_iff)
  obtain u2 where "s = (?k, u2)" using reads_onlyD [OF assms(2)] s(1) by (metis surj_pair)
  with s(2) Cons.IH [of ?k u2] x show ?case by (simp add: digest_update_append [OF assms(1)])
qed

text \<open>The server's flight ends with a Finished that verifies.\<close>

lemma finished_flight:
  assumes laws: "kdf_laws cs" "digest_laws cs"
    and pre: "run_flight cs (server_verify_cb cs P) pre (rks, ST_ServerVerify, hs, p) = (Ok (), rks1, ST_ServerVerify, hs1, p1)"
    and no: "hs_certificate_request hs1 = None"
    and ts: "traffic_secret (r_state rks) = Initialized ts"
      "hmac_new cs (rfc_expand_label cs ts (ascii ''finished'') [] (HashOutputSize cs)) = Some mac"
    and v: "v = mac (digest_finalize cs (digest_update cs (transcript_hash rks) (concat (map fst pre))))"
    and h: "h = digest_update cs (transcript_hash rks) (concat (map fst pre) @ [20] @ prefixed24 v)"
  shows "run_flight cs (server_verify_cb cs P)
      (pre @ [([20] @ prefixed24 v, SH_Finished \<lparr>fin_verify = v, fin_hash = None\<rparr>)]) (rks, ST_ServerVerify, hs, p) =
    (Ok (), rks\<lparr>transcript_hash := h\<rparr>, ST_ClientFinished, hs1\<lparr>hs_traffic_hash := Some h\<rparr>, p1)"
proof -
  have rks1: "rks1 = rks\<lparr>transcript_hash := digest_update cs (transcript_hash rks) (concat (map fst pre))\<rparr>"
    by (rule run_flight_transcript [OF laws(2) server_verify_reads_only pre])
  have "make_expanded_hkdf_label cs (HashOutputSize cs) (Initialized ts) (ascii ''finished'') CT_None =
      Ok (rfc_expand_label cs ts (ascii ''finished'') [] (HashOutputSize cs))"
    using make_expanded_rfc [OF laws(1), of "ascii ''finished''" CT_None] by (simp add: context_bytes_def)
  then have "verify_server_finished cs \<lparr>fin_verify = v, fin_hash = Some (digest_finalize cs (transcript_hash rks1))\<rparr>
      (rks\<lparr>transcript_hash := h'\<rparr>) = Ok True" for h'
    using ts v by (simp add: verify_server_finished_def rks1)
  then show ?thesis
    using pre no h rks1
    by (simp add: run_flight_append bnd_def server_verify_cb_def with_hash_def digest_update_append [OF laws(2)])
qed

text \<open>The verify data of a Finished under a traffic state.\<close>

definition finished_mac :: "('h, 'k) TlsCipherSuite \<Rightarrow> 'k KeyScheduleState \<Rightarrow> 'h \<Rightarrow> bytes" where
  "finished_mac cs st h = (case traffic_secret st of Initialized ts \<Rightarrow>
     the (hmac_new cs (rfc_expand_label cs ts (ascii ''finished'') [] (HashOutputSize cs))) (digest_finalize cs h))"

definition finished_wire :: "bytes \<Rightarrow> bytes" where
  "finished_wire v = [20] @ prefixed24 v"

lemma traffic_state_zero: "counter (rfc_traffic cs k label h) = 0"
  by (simp add: rfc_traffic_def Let_def)

lemma hmac_length:
  assumes "kdf_laws cs" "hmac_new cs k = Some mac"
  shows "length (mac m) = HashOutputSize cs \<and> HashOutputSize cs < 16777216"
proof -
  from assms(1) obtain mac' where "hmac_new cs k = Some mac'" "length (mac' m) = HashOutputSize cs"
    unfolding kdf_laws_def by blast
  moreover have "HashOutputSize cs < 256" using assms(1) by (simp add: kdf_laws_def)
  ultimately show ?thesis using assms(2) by simp
qed

lemma hs_reach_step:
  "process_blocking rsa cs P T config st c = (Ok st', c') \<Longrightarrow> st \<noteq> ST_ApplicationData \<Longrightarrow>
     hs_reach rsa cs P T config (st', c') z \<Longrightarrow> hs_reach rsa cs P T config (st, c) z"
  by (meson hs_step.intros converse_rtranclp_into_rtranclp)

text \<open>The client against an honest server, without client authentication: \<open>shw\<close> is the ServerHello, \<open>pre\<close> are the
  messages of the protected flight before the Finished.\<close>

context duplex
begin

lemma handshake_reaches:
  fixes c :: "('t, 'h, 'k, 's, 'p) Conn"
  assumes laws: "kdf_laws cs" "digest_laws cs" "aead_laws cs seal" "8 \<le> IvLen cs"
    and c: "co_keys c = KeySchedule_new cs" "co_handshake c = Handshake_new" "wb_idle (co_tx c)" "good (co_transport c)"
      "rr_ok (co_reader c)" "rr_pending (co_reader c) = 0"
    and x: "cfg_psk config = None" "ClientHello_new P config (co_provider c) = (x, p1)"
      "ch = client_handshake_wire cs (public_key P) (CH_ClientHello x)"
    and sh: "parses (ServerHandshake_parse cs) shw (SH_ServerHello sh)"
      "ServerHello_calculate_shared_secret (diffie_hellman P) (ch_secret x) sh = Some dhe"
    and h: "h1 = digest_update cs (digest_new cs) (ch @ shw)"
      "sk = rfc_traffic cs (rfc_handshake cs None dhe) (ascii ''s hs traffic'') h1"
      "ck = rfc_traffic cs (rfc_handshake cs None dhe) (ascii ''c hs traffic'') h1"
      "fin = finished_wire (finished_mac cs sk (digest_update cs h1 (concat (map fst pre))))"
      "h2 = digest_update cs h1 (concat (map fst pre) @ fin)"
    and pre: "\<forall>(w, m) \<in> set pre. parses (ServerHandshake_parse cs) w m"
      "run_flight cs (server_verify_cb cs P) pre (\<lparr>r_state = sk, transcript_hash = h1\<rparr>, ST_ServerVerify, Handshake_new, p1) =
         (Ok (), rks1, ST_ServerVerify, hs1, p2)"
      "hs_certificate_request hs1 = None"
    and s: "stream (co_transport c) =
      record_header 22 3 3 shw @ shw @ sealed_record cs seal sk (concat (map fst pre) @ fin @ [22]) @ rest"
    and room: "5 + length ch \<le> length (wb_buffer (co_tx c))" "10 + HashOutputSize cs + TagSize cs \<le> length (wb_buffer (co_tx c))"
      "length shw \<le> length (rr_buf (co_reader c))" "length shw < 65536"
      "length (concat (map fst pre) @ fin @ [22]) + TagSize cs \<le> length (rr_buf (co_reader c))"
      "length (concat (map fst pre) @ fin @ [22]) + TagSize cs < 65536"
  shows "\<exists>c'. hs_reach rsa cs P T config (ST_ClientHello, c) (ST_ApplicationData, c') \<and>
    sent (co_transport c') = sent (co_transport c) @ [22, 3, 1] @ u16_to_be_bytes (of_nat (length ch)) @ ch @
      sealed_record cs seal ck (finished_wire (finished_mac cs ck h2) @ [22]) \<and>
    w_state (client_state (co_keys c')) = rfc_traffic cs (rfc_master cs None dhe) (ascii ''c ap traffic'') h2 \<and>
    r_state (server_state (co_keys c')) = rfc_traffic cs (rfc_master cs None dhe) (ascii ''s ap traffic'') h2 \<and>
    stream (co_transport c') = rest \<and> good (co_transport c') \<and> wb_idle (co_tx c') \<and> co_provider c' = p2 \<and>
    length (wb_buffer (co_tx c')) = length (wb_buffer (co_tx c)) \<and> rr_ok (co_reader c') \<and> rr_pending (co_reader c') = 0 \<and>
    length (rr_buf (co_reader c')) = length (rr_buf (co_reader c))"
proof -
  let ?k = "rfc_handshake cs None dhe"
  define v where "v = finished_mac cs sk (digest_update cs h1 (concat (map fst pre)))"
  let ?fl = "pre @ [([20] @ prefixed24 v, SH_Finished \<lparr>fin_verify = v, fin_hash = None\<rparr>)]"
  obtain ts where ts: "traffic_secret sk = Initialized ts"
    using rfc_traffic_secret [of cs ?k "ascii ''s hs traffic''" h1] h(2) by blast
  obtain mac where mac: "hmac_new cs (rfc_expand_label cs ts (ascii ''finished'') [] (HashOutputSize cs)) = Some mac"
    using laws(1) unfolding kdf_laws_def by blast
  have v: "v = mac (digest_finalize cs (digest_update cs h1 (concat (map fst pre))))" "fin = [20] @ prefixed24 v"
    using ts mac h(4) by (simp_all add: v_def finished_mac_def finished_wire_def)
  have lv: "length v = HashOutputSize cs" "length v < 16777216" using v(1) hmac_length [OF laws(1) mac] by auto
  have zk: "counter sk = 0" "counter ck = 0" "length (enc_iv sk) = IvLen cs" "length (enc_iv ck) = IvLen cs"
    using h(2,3) length_rfc_iv [OF laws(1)] by (simp_all add: traffic_state_zero)
  obtain flight where fl: "sealed_record cs seal sk (concat (map fst pre) @ fin @ [22]) = record_header 23 3 3 flight @ flight"
    "flight = seal (enc_key sk) (rfc_nonce (counter sk) (enc_iv sk)) (record_header 23 3 3 flight) (concat (map fst pre) @ fin @ [22])"
    "length flight = length (concat (map fst pre) @ fin @ [22]) + TagSize cs"
    using sealed_record_split [OF laws(3), of sk "concat (map fst pre) @ fin @ [22]"] .
  have z: "sh_secret (shared (co_keys c)) = rfc_zeros cs" "counter (w_state (client_state (co_keys c))) = 0"
    "transcript_hash (server_state (co_keys c)) = digest_new cs"
    by (simp_all add: c(1) KeySchedule_new_def SharedState_new_def rfc_zeros_def KeyScheduleState_new_def)
  obtain c1 where c1: "process_blocking rsa cs P T config ST_ClientHello c = (Ok ST_ServerHello, c1)"
    "sent (co_transport c1) = sent (co_transport c) @ [22, 3, 1] @ u16_to_be_bytes (of_nat (length ch)) @ ch"
    "stream (co_transport c1) = stream (co_transport c)" "good (co_transport c1)"
    "sh_secret (shared (co_keys c1)) = rfc_derived cs (rfc_early cs None)"
    "transcript_hash (server_state (co_keys c1)) = digest_update cs (digest_new cs) ch"
    "co_handshake c1 = (co_handshake c)\<lparr>hs_secret := Some (ch_secret x)\<rparr>" "co_reader c1 = co_reader c"
    "co_provider c1 = p1" "wb_idle (co_tx c1)" "length (wb_buffer (co_tx c1)) = length (wb_buffer (co_tx c))"
    using client_hello_runs [OF laws(1,2) c(4) _ c(3) room(1) [unfolded x(3)] z(1) x(2), of rsa] z(2,3) x(1,3) by auto
  have h1: "h1 = digest_update cs (transcript_hash (server_state (co_keys c1))) shw"
    using h(1) c1(6) by (simp add: digest_update_append [OF laws(2)])
  have s1: "stream (co_transport c1) = record_header 22 3 3 shw @ shw @ record_header 23 3 3 flight @ flight @ rest"
    using c1(3) s fl(1) by simp
  obtain c2 where c2: "process_blocking rsa cs P T config ST_ServerHello c1 = (Ok ST_ServerVerify, c2)"
    "w_state (client_state (co_keys c2)) = ck" "r_state (server_state (co_keys c2)) = sk"
    "transcript_hash (server_state (co_keys c2)) = h1" "sh_secret (shared (co_keys c2)) = rfc_derived cs ?k"
    "co_handshake c2 = Handshake_new" "co_provider c2 = p1" "co_tx c2 = co_tx c1" "rr_ok (co_reader c2)" "rr_pending (co_reader c2) = 0"
    "length (rr_buf (co_reader c2)) = length (rr_buf (co_reader c))"
    "stream (co_transport c2) = record_header 23 3 3 flight @ flight @ rest" "sent (co_transport c2) = sent (co_transport c1)"
    "good (co_transport c2)"
    using server_hello_runs [OF laws(1,2) c1(4) s1 room(4) _ _ _ sh(1) _ sh(2) c1(5) h1, of rsa config] c(2,5,6) c1(7-9) room(3)
      h(2,3) by (auto simp: Handshake_new_def)
  have rks: "server_state (co_keys c2) = \<lparr>r_state = sk, transcript_hash = h1\<rparr>" using c2(3,4) by simp
  have run: "run_flight cs (server_verify_cb cs P) ?fl (server_state (co_keys c2), ST_ServerVerify, co_handshake c2, co_provider c2) =
      (Ok (), (server_state (co_keys c2))\<lparr>transcript_hash := h2\<rparr>, ST_ClientFinished, hs1\<lparr>hs_traffic_hash := Some h2\<rparr>, p2)"
    unfolding rks c2(6,7) by (rule finished_flight [OF laws(1,2) pre(2,3)]) (use ts mac v h(5) in simp_all)
  have ps: "\<forall>(w, m) \<in> set ?fl. parses (ServerHandshake_parse cs) w m"
    using pre(1) Finished_message_parses [OF lv] by auto
  obtain c3 where c3: "process_blocking rsa cs P T config ST_ServerVerify c2 = (Ok ST_ClientFinished, c3)"
    "w_state (client_state (co_keys c3)) = ck" "shared (co_keys c3) = shared (co_keys c2)"
    "transcript_hash (server_state (co_keys c3)) = h2"
    "co_handshake c3 = hs1\<lparr>hs_traffic_hash := Some h2\<rparr>" "co_provider c3 = p2" "co_tx c3 = co_tx c1"
    "stream (co_transport c3) = rest" "sent (co_transport c3) = sent (co_transport c1)" "good (co_transport c3)"
    "rr_ok (co_reader c3)" "rr_pending (co_reader c3) = 0" "length (rr_buf (co_reader c3)) = length (rr_buf (co_reader c))"
    using server_verify_runs [OF laws(3) _ laws(4) c2(14,12) _ c2(9,10) _ _ ps run, of 0 rsa config]
      c2(2,3,7,8,11,13) room(5,6) fl(2,3) v(2) zk by auto
  obtain tc where tc: "traffic_secret ck = Initialized tc"
    using rfc_traffic_secret [of cs ?k "ascii ''c hs traffic''" h1] h(3) by blast
  obtain mc hdr c4 where c4: "hmac_new cs (rfc_expand_label cs tc (ascii ''finished'') [] (HashOutputSize cs)) = Some mc"
    "process_blocking rsa cs P T config ST_ClientFinished c3 = (Ok ST_ApplicationData, c4)"
    "hdr = [23, 3, 3] @ u16_to_be_bytes (of_nat (5 + HashOutputSize cs + TagSize cs))"
    "sent (co_transport c4) = sent (co_transport c3) @ hdr @ seal (enc_key ck) (rfc_nonce (counter ck) (enc_iv ck)) hdr
      ([20] @ prefixed24 (mc (digest_finalize cs h2)) @ [22])"
    "w_state (client_state (co_keys c4)) = rfc_traffic cs (rfc_master cs None dhe) (ascii ''c ap traffic'') h2"
    "r_state (server_state (co_keys c4)) = rfc_traffic cs (rfc_master cs None dhe) (ascii ''s ap traffic'') h2"
    "co_provider c4 = p2" "stream (co_transport c4) = rest" "good (co_transport c4)" "wb_idle (co_tx c4)"
    "length (wb_buffer (co_tx c4)) = length (wb_buffer (co_tx c))" "co_reader c4 = co_reader c3"
    using client_finished_runs [OF laws c3(10) _ _ _ c3(2) [symmetric] tc zk(4), of h2 None dhe rsa P config]
      c1(10,11) c2(5) c3 room(2) zk by auto
  have m: "finished_wire (finished_mac cs ck h2) = [20] @ prefixed24 (mc (digest_finalize cs h2))"
    using tc c4(1) by (simp add: finished_mac_def finished_wire_def)
  have "length (finished_wire (finished_mac cs ck h2) @ [22]) = 5 + HashOutputSize cs"
    unfolding m using hmac_length [OF laws(1) c4(1)] by (simp add: prefixed24_def)
  then have "sealed_record cs seal ck (finished_wire (finished_mac cs ck h2) @ [22]) =
      hdr @ seal (enc_key ck) (rfc_nonce (counter ck) (enc_iv ck)) hdr ([20] @ prefixed24 (mc (digest_finalize cs h2)) @ [22])"
    unfolding sealed_record_def Let_def c4(3) m by simp
  moreover have "hs_reach rsa cs P T config (ST_ClientHello, c) (ST_ApplicationData, c4)"
    by (rule hs_reach_step [OF c1(1) _ hs_reach_step [OF c2(1) _ hs_reach_step [OF c3(1) _
            hs_reach_step [OF c4(2) _ rtranclp.rtrancl_refl]]]]) simp_all
  ultimately show ?thesis using c4 c3(9,11-13) c1(2) by (intro exI [of _ c4]) simp
qed

end

section \<open>A transport in memory\<close>

text \<open>The chunked reader of the tests with a log of what is written.\<close>

record ChunkDuplex =
  cd_in :: ChunkRead
  cd_out :: bytes

definition chunk_transport :: "ChunkDuplex Transport" where
  "chunk_transport = \<lparr>
     t_read = (\<lambda>n. zoom cd_in (\<lambda>x d. d\<lparr>cd_in := x\<rparr>) (ChunkRead_read n)),
     t_write_all = (\<lambda>bs. modify (\<lambda>d. d\<lparr>cd_out := cd_out d @ bs\<rparr>)),
     t_flush = ret ()\<rparr>"

interpretation chunk_duplex: duplex chunk_transport "\<lambda>d. chunk_data (cd_in d)" "\<lambda>d. 0 < chunk_size (cd_in d)" cd_out
  by unfold_locales (auto simp: chunk_transport_def zoom_def ChunkRead_read_def Let_def)

end
