(* ===== verification/Toy_Server.thy ===== *)
theory Toy_Server
  imports Handshake_Run
begin

text \<open>
  A complete concrete handshake on the toy cipher suite, for the witnesses: a provider whose
  verifier rejects every certificate and signature, a configuration without PSK, and a server that
  answers with a ServerHello and a flight of EncryptedExtensions and Finished.
\<close>

definition toy_provider :: "(unit, bytes, bytes) CryptoProvider" where
  "toy_provider = \<lparr>rng_fill_bytes = (\<lambda>n p. (replicate n 7, p)), ephemeral_random = (\<lambda>p. ([4], p)),
     public_key = id, diffie_hellman = (\<lambda>s p. Some (s @ p)), prov_verifier = (\<lambda>_. True),
     set_hostname_verification = (\<lambda>_. ret ()), verify_certificate = (\<lambda>_ _. fail InvalidCertificate),
     verify_signature = (\<lambda>_. fail InvalidSignature), prov_signer = fail InvalidPrivateKey,
     prov_sign = (\<lambda>_ p. ([], p)), prov_client_cert = (\<lambda>p. (None, p))\<rparr>"

definition plain_config :: TlsConfig where
  "plain_config = \<lparr>cfg_server_name = None, cfg_alpn_protocols = None, cfg_psk = None,
     cfg_signature_schemes = [SS_Ed25519], cfg_named_groups = [NG_Secp256r1], cfg_max_fragment_length = None\<rparr>"

definition plain_hello :: "bytes ClientHello" where
  "plain_hello = \<lparr>ch_config = plain_config, ch_random = replicate 32 7, ch_secret = [4]\<rparr>"

definition toy_ch :: bytes where
  "toy_ch = client_handshake_wire toy_suite id (CH_ClientHello plain_hello)"

definition toy_share :: ServerHelloExtension where
  "toy_share = SHE_KeyShare (KeyShareServerHello \<lparr>group = NG_Secp256r1, opaque = [5]\<rparr>)"

definition toy_sh :: bytes where
  "toy_sh = [2] @ prefixed24 (u16_to_be_bytes 0x0303 @ replicate 32 9 @ [of_nat (length ([] :: bytes))] @ [] @ u16_to_be_bytes
     (CipherSuite_as_u16 CS_TlsAes128GcmSha256) @ [0] @ prefixed16 [0, 51, 0, 5, 0, 23, 0, 1, 5])"

lemma toy_share_parses: "parses (ServerHelloExtension_parse_vector 4) (prefixed16 [0, 51, 0, 5, 0, 23, 0, 1, 5]) [toy_share]"
proof -
  have "concat (map (item_wire ServerHelloExtension_type ServerHelloExtension_payload) [Known toy_share]) =
      [0, 51, 0, 5, 0, 23, 0, 1, 5]"
    by code_simp
  then show ?thesis
    using server_hello_ext.block_parses [of "[Known toy_share]" 4]
    by (simp add: item_ok_def toy_share_def KeyShareEntry_dom_def ServerHelloExtension_parse_vector_def KeyShareEntry_wire_def
        NamedGroup_wire_def prefixed16_def)
qed

lemma toy_sh_parses: "parses (ServerHandshake_parse toy_suite) toy_sh (SH_ServerHello (ServerHello [toy_share]))"
  unfolding toy_sh_def by (rule ServerHello_message_parses [OF _ _ toy_share_parses refl]) (simp_all add: prefixed16_def)

lemma toy_shared: "ServerHello_calculate_shared_secret (diffie_hellman toy_provider) [4] (ServerHello [toy_share]) = Some [4, 5]"
  by (simp add: ServerHello_calculate_shared_secret_def ServerHello_key_share_def toy_share_def toy_provider_def)

text \<open>The server's answer, and a transport that delivers it in pieces of seven bytes.\<close>

definition toy_pre :: "(bytes \<times> ServerHandshake) list" where
  "toy_pre = [([8] @ prefixed24 [0, 0], SH_EncryptedExtensions EncryptedExtensions)]"

definition toy_h1 :: bytes where
  "toy_h1 = digest_update toy_suite (digest_new toy_suite) (toy_ch @ toy_sh)"

definition toy_key :: "string \<Rightarrow> bytes KeyScheduleState" where
  "toy_key label = rfc_traffic toy_suite (rfc_handshake toy_suite None [4, 5]) (ascii label) toy_h1"

definition toy_fin :: bytes where
  "toy_fin = finished_wire (finished_mac toy_suite (toy_key ''s hs traffic'')
     (digest_update toy_suite toy_h1 (concat (map fst toy_pre))))"

definition toy_h2 :: bytes where
  "toy_h2 = digest_update toy_suite toy_h1 (concat (map fst toy_pre) @ toy_fin)"

definition toy_seal :: "bytes \<Rightarrow> bytes \<Rightarrow> bytes \<Rightarrow> bytes \<Rightarrow> bytes" where
  "toy_seal k n aad p = p @ toy_tag k n aad"

definition toy_answer :: bytes where
  "toy_answer = record_header 22 3 3 toy_sh @ toy_sh @
     sealed_record toy_suite toy_seal (toy_key ''s hs traffic'') (concat (map fst toy_pre) @ toy_fin @ [22])"

definition toy_socket :: "bytes \<Rightarrow> ChunkDuplex" where
  "toy_socket bs = \<lparr>cd_in = \<lparr>chunk_data = bs, chunk_size = 7\<rparr>, cd_out = []\<rparr>"

lemma toy_seal_laws: "aead_laws toy_suite toy_seal"
proof -
  have "toy_seal = (\<lambda>k n aad p. p @ toy_tag k n aad)" by (simp add: fun_eq_iff toy_seal_def)
  then show ?thesis using toy_aead_laws by simp
qed

lemma toy_hello_new: "ClientHello_new toy_provider plain_config p = (plain_hello, p)"
  by (simp add: ClientHello_new_def toy_provider_def plain_hello_def)

lemma toy_pre_parses: "\<forall>(w, m) \<in> set toy_pre. parses (ServerHandshake_parse toy_suite) w m"
proof -
  have "prefixed16 [] = [0, 0]" by (simp add: prefixed16_def u16_to_be_bytes_def)
  then have "parses (EncryptedExtensionsExtension_parse_vector 16) [0, 0] []"
    using encrypted_ext.block_parses [of "[]" 16] by (simp add: EncryptedExtensionsExtension_parse_vector_def)
  from EncryptedExtensions_message_parses [OF this, of toy_suite] show ?thesis by (simp add: toy_pre_def)
qed

lemma encrypted_extensions_flight:
  "run_flight cs (server_verify_cb cs P) [(w, SH_EncryptedExtensions e)] (rks, st, hs, p) =
     (Ok (), rks\<lparr>transcript_hash := digest_update cs (transcript_hash rks) w\<rparr>, st, hs, p)"
  by (simp add: bnd_def server_verify_cb_def with_hash_def)

lemma toy_ch_length: "length toy_ch \<le> 250"
  by (simp add: toy_ch_def client_handshake_wire_def client_hello_wire_def client_hello_extensions_def plain_hello_def
      plain_config_def option_list_def prefixed24_def prefixed16_def prefixed8_def ClientHelloExtension_wire_def ext_wire_def
      wire_size_simps)

lemma toy_sh_length: "length toy_sh = 53"
  by (simp add: toy_sh_def prefixed24_def prefixed16_def)

lemma toy_flight_length: "length (concat (map fst toy_pre) @ toy_fin @ [22]) = 15"
proof -
  obtain ts where ts: "traffic_secret (toy_key ''s hs traffic'') = Initialized ts"
    using rfc_traffic_secret [of toy_suite "rfc_handshake toy_suite None [4, 5]" "ascii ''s hs traffic''" toy_h1]
    unfolding toy_key_def by blast
  have "length (finished_mac toy_suite (toy_key ''s hs traffic'') h) = 4" for h
    by (simp add: finished_mac_def ts toy_suite_def)
  then show ?thesis by (simp add: toy_pre_def toy_fin_def finished_wire_def prefixed24_def)
qed

end
