(* ===== verification/Read_Buffer.thy ===== *)
theory Read_Buffer
  imports Record_Protection
begin

text \<open>
  Reading decrypted data: the \<open>ReadBuffer\<close> of \<open>src/src/read_buffer.rs\<close>, the bookkeeping of
  \<open>src/src/common/decrypted_buffer_info.rs\<close> and the record handler of
  \<open>src/src/common/decrypted_read_handler.rs\<close>. The \<open>&mut usize\<close> that a \<open>ReadBuffer\<close> borrows is
  written when it is dropped: \<open>rb_drop\<close> takes and returns it. Pointers into the read buffer are
  positions in it. The locale \<open>byte_source\<close> is the contract of a buffer that hands out its
  content piece by piece; the read buffer implements it.
\<close>

section \<open>The read buffer (read\_buffer.rs)\<close>

record ReadBuffer =
  rb_data :: bytes
  rb_consumed :: nat
  rb_used :: bool

definition ReadBuffer_new :: "bytes \<Rightarrow> ReadBuffer" where
  "ReadBuffer_new bs = \<lparr>rb_data = bs, rb_consumed = 0, rb_used = False\<rparr>"

definition rb_len :: "ReadBuffer \<Rightarrow> (nat, TlsError) result" where
  "rb_len b = (if rb_consumed b \<le> length (rb_data b) then Ok (length (rb_data b) - rb_consumed b) else Panic)"

definition rb_is_empty :: "ReadBuffer \<Rightarrow> (bool, TlsError) result" where
  "rb_is_empty b = and_then (rb_len b) (\<lambda>n. Ok (n = 0))"

definition rb_peek :: "nat \<Rightarrow> (ReadBuffer, bytes, TlsError) prog" where
  "rb_peek count = (\<lambda>b. case rb_len b of
     Ok n \<Rightarrow>
       let count = min n count; start = rb_consumed b in
       (Ok (slice_of (rb_data b) start (start + count)), b\<lparr>rb_used := True\<rparr>)
   | Err e \<Rightarrow> (Err e, b)
   | Panic \<Rightarrow> (Panic, b))"

definition rb_peek_all :: "(ReadBuffer, bytes, TlsError) prog" where
  "rb_peek_all = bnd (\<lambda>b. (rb_len b, b)) rb_peek"

definition rb_pop :: "nat \<Rightarrow> (ReadBuffer, bytes, TlsError) prog" where
  "rb_pop count = (\<lambda>b. case rb_len b of
     Ok n \<Rightarrow>
       let count = min n count; start = rb_consumed b in
       (Ok (slice_of (rb_data b) start (start + count)),
        b\<lparr>rb_consumed := rb_consumed b + count, rb_used := True\<rparr>)
   | Err e \<Rightarrow> (Err e, b)
   | Panic \<Rightarrow> (Panic, b))"

definition rb_pop_all :: "(ReadBuffer, bytes, TlsError) prog" where
  "rb_pop_all = bnd (\<lambda>b. (rb_len b, b)) rb_pop"

text \<open>\<open>pop_into(buf)\<close> with the mutated \<open>buf\<close> as a second result.\<close>

definition rb_pop_into :: "bytes \<Rightarrow> (ReadBuffer, nat \<times> bytes, TlsError) prog" where
  "rb_pop_into buf = bnd (rb_pop (length buf)) (\<lambda>to_copy.
     if length buf < length to_copy then panic
     else ret (length to_copy, write_at buf 0 to_copy))"

definition rb_revert :: "ReadBuffer \<Rightarrow> nat \<Rightarrow> nat" where
  "rb_revert b decrypted_consumed = decrypted_consumed"

definition rb_drop :: "ReadBuffer \<Rightarrow> nat \<Rightarrow> nat" where
  "rb_drop b decrypted_consumed =
     decrypted_consumed + (if rb_used b then rb_consumed b else length (rb_data b))"

section \<open>Decrypted data in the record buffer (decrypted\_buffer\_info.rs)\<close>

record DecryptedBufferInfo =
  di_offset :: nat
  di_len :: nat
  di_consumed :: nat

definition DecryptedBufferInfo_default :: DecryptedBufferInfo where
  "DecryptedBufferInfo_default = \<lparr>di_offset = 0, di_len = 0, di_consumed = 0\<rparr>"

definition di_create_read_buffer :: "bytes \<Rightarrow> DecryptedBufferInfo \<Rightarrow> (ReadBuffer, TlsError) result" where
  "di_create_read_buffer mem i =
     (let offset = di_offset i + di_consumed i; ende = di_offset i + di_len i in
      if ende < offset \<or> length mem < ende then Panic
      else Ok (ReadBuffer_new (slice_of mem offset ende)))"

definition di_remaining :: "DecryptedBufferInfo \<Rightarrow> (nat, TlsError) result" where
  "di_remaining i = (if di_consumed i \<le> di_len i then Ok (di_len i - di_consumed i) else Panic)"

definition di_is_empty :: "DecryptedBufferInfo \<Rightarrow> (bool, TlsError) result" where
  "di_is_empty i = and_then (di_remaining i) (\<lambda>n. Ok (n = 0))"

section \<open>The record handler (decrypted\_read\_handler.rs)\<close>

text \<open>The state is \<open>buffer_info\<close> and \<open>is_open\<close>; \<open>src_len\<close> is the length of \<open>source_buffer\<close>. The slice of an
  application data record starts at \<open>app_base\<close>, where its record starts in the source buffer,
  plus the offset of its window. The \<open>debug_assert\<close> is checked.\<close>

definition DecryptedReadHandler_handle ::
  "nat \<Rightarrow> ServerRecord \<Rightarrow> (DecryptedBufferInfo \<times> bool, unit, TlsError) prog" where
  "DecryptedReadHandler_handle src_len rec = (case rec of
     SR_ApplicationData data \<Rightarrow>
       (case cb_as_slice (app_data data) of
          Ok sl \<Rightarrow>
            let offset = app_base data + cb_offset (app_data data) in
            if offset < src_len \<and> offset + length sl < src_len
            then modify (\<lambda>(i, is_open). (i\<lparr>di_offset := offset, di_len := length sl, di_consumed := 0\<rparr>, is_open))
            else panic
        | Err e \<Rightarrow> fail e
        | Panic \<Rightarrow> panic)
   | SR_Alert alert \<Rightarrow>
       (if alert_description alert = AD_CloseNotify
        then seq (modify (\<lambda>(i, _). (i, False))) (fail ConnectionClosed)
        else fail InternalError)
   | SR_ChangeCipherSpec _ \<Rightarrow> fail InternalError
   | SR_Handshake (SH_NewSessionTicket _) \<Rightarrow> ret ()
   | SR_Handshake _ \<Rightarrow> panic)"

section \<open>Sources of bytes\<close>

text \<open>Taking pieces of the given sizes, one after the other.\<close>

fun take_pieces :: "(nat \<Rightarrow> ('s, bytes, TlsError) prog) \<Rightarrow> nat list \<Rightarrow> ('s, bytes list, TlsError) prog" where
  "take_pieces pop [] = ret []"
| "take_pieces pop (n # ns) = bnd (pop n) (\<lambda>x. bnd (take_pieces pop ns) (\<lambda>xs. ret (x # xs)))"

locale byte_source =
  fixes pop :: "nat \<Rightarrow> ('s, bytes, TlsError) prog"
    and content :: "'s \<Rightarrow> bytes"
    and good :: "'s \<Rightarrow> bool"
  assumes pop_some: "good s \<Longrightarrow>
      \<exists>s'. pop n s = (Ok (take n (content s)), s') \<and> content s' = drop n (content s) \<and> good s'"
begin

text \<open>The pieces are the content, in order, without gaps or overlaps.\<close>

lemma pieces_in_order:
  assumes "good s"
  shows "\<exists>xs s'. take_pieces pop ns s = (Ok xs, s') \<and> concat xs = take (sum_list ns) (content s) \<and>
    content s' = drop (sum_list ns) (content s) \<and> good s'"
  using assms
proof (induction ns arbitrary: s)
  case Nil
  then show ?case by simp
next
  case (Cons n ns)
  obtain s1 where 1: "pop n s = (Ok (take n (content s)), s1)" "content s1 = drop n (content s)" "good s1"
    using pop_some [OF Cons.prems] by blast
  obtain xs s2 where "take_pieces pop ns s1 = (Ok xs, s2)" "concat xs = take (sum_list ns) (content s1)"
    "content s2 = drop (sum_list ns) (content s1)" "good s2"
    using Cons.IH [OF 1(3)] by blast
  with 1 show ?case by (simp add: bnd_def take_add add.commute)
qed

end

definition rb_ok :: "ReadBuffer \<Rightarrow> bool" where
  "rb_ok b \<longleftrightarrow> rb_consumed b \<le> length (rb_data b)"

definition rb_left :: "ReadBuffer \<Rightarrow> bytes" where
  "rb_left b = drop (rb_consumed b) (rb_data b)"

lemma rb_len_ok: "rb_ok b \<Longrightarrow> rb_len b = Ok (length (rb_left b))"
  by (simp add: rb_len_def rb_ok_def rb_left_def)

lemma rb_slice: "slice_of (rb_data b) (rb_consumed b) (rb_consumed b + min (length (rb_left b)) n) = take n (rb_left b)"
  by (simp add: slice_of_def rb_left_def min_def)

lemma rb_peek_value: "rb_ok b \<Longrightarrow> rb_peek n b = (Ok (take n (rb_left b)), b\<lparr>rb_used := True\<rparr>)"
  by (simp add: rb_peek_def rb_len_ok Let_def rb_slice)

lemma rb_pop_value:
  "rb_ok b \<Longrightarrow> rb_pop n b = (Ok (take n (rb_left b)),
     b\<lparr>rb_consumed := rb_consumed b + min (length (rb_left b)) n, rb_used := True\<rparr>)"
  by (simp add: rb_pop_def rb_len_ok Let_def rb_slice)

lemma rb_left_pop:
  "rb_left (b\<lparr>rb_consumed := rb_consumed b + min (length (rb_left b)) n, rb_used := True\<rparr>) = drop n (rb_left b)"
  by (simp add: rb_left_def min_def add.commute)

lemma rb_pop_keeps:
  "rb_ok b \<Longrightarrow> rb_ok (b\<lparr>rb_consumed := rb_consumed b + min (length (rb_left b)) n, rb_used := True\<rparr>)"
  by (auto simp: rb_ok_def rb_left_def min_def)

interpretation read_buffer: byte_source rb_pop rb_left "\<lambda>b. rb_ok b \<and> rb_data b = xs" for xs
  by unfold_locales (simp add: rb_pop_value rb_left_pop rb_pop_keeps)

lemma pop_marks_used: "rb_pop n b = (Ok x, b') \<Longrightarrow> rb_used b'"
  by (auto simp: rb_pop_def Let_def split: result.splits)

lemma pieces_keep_used: "rb_used b \<Longrightarrow> take_pieces rb_pop ns b = (Ok xs, b') \<Longrightarrow> rb_used b'"
  by (induction ns arbitrary: b xs) (auto simp: bnd_Ok_iff dest: pop_marks_used)

lemma pieces_used: "take_pieces rb_pop ns b = (Ok xs, b') \<Longrightarrow> \<not> rb_used b \<Longrightarrow> rb_used b' \<longleftrightarrow> ns \<noteq> []"
  by (cases ns) (auto simp: bnd_Ok_iff dest: pop_marks_used pieces_keep_used)

section \<open>Decrypted bytes\<close>

definition di_ok :: "bytes \<Rightarrow> DecryptedBufferInfo \<Rightarrow> bool" where
  "di_ok mem i \<longleftrightarrow> di_consumed i \<le> di_len i \<and> di_offset i + di_len i \<le> length mem"

text \<open>The decrypted bytes that are not read yet.\<close>

definition di_left :: "bytes \<Rightarrow> DecryptedBufferInfo \<Rightarrow> bytes" where
  "di_left mem i = slice_of mem (di_offset i + di_consumed i) (di_offset i + di_len i)"

lemma di_create_value: "di_ok mem i \<Longrightarrow> di_create_read_buffer mem i = Ok (ReadBuffer_new (di_left mem i))"
  by (simp add: di_create_read_buffer_def di_ok_def di_left_def Let_def)

lemma di_left_length: "di_ok mem i \<Longrightarrow> length (di_left mem i) = di_len i - di_consumed i"
  by (simp add: di_left_def di_ok_def)

lemma di_is_empty_value: "di_ok mem i \<Longrightarrow> di_is_empty i = Ok (di_left mem i = [])"
  using di_left_length [of mem i] by (auto simp: di_is_empty_def di_remaining_def di_ok_def)

lemma di_advance:
  assumes "di_ok mem i" "n \<le> length (di_left mem i)"
  shows "di_ok mem (i\<lparr>di_consumed := di_consumed i + n\<rparr>)"
    and "di_left mem (i\<lparr>di_consumed := di_consumed i + n\<rparr>) = drop n (di_left mem i)"
  using assms di_left_length [OF assms(1)]
  by (auto simp: di_ok_def di_left_def slice_of_def drop_take add_ac)

lemma ReadBuffer_new_ok [simp]: "rb_ok (ReadBuffer_new xs)" "rb_left (ReadBuffer_new xs) = xs"
  by (simp_all add: ReadBuffer_new_def rb_ok_def rb_left_def)

lemma pop_into_value:
  "rb_pop_into buf (ReadBuffer_new xs) =
     (Ok (min (length xs) (length buf), write_at buf 0 (take (length buf) xs)),
      \<lparr>rb_data = xs, rb_consumed = min (length xs) (length buf), rb_used = True\<rparr>)"
  using rb_pop_value [of "ReadBuffer_new xs" "length buf"]
  by (simp add: rb_pop_into_def bnd_def) (simp add: ReadBuffer_new_def)

section \<open>Properties\<close>

text \<open>Popping pieces of any sizes from a read buffer hands out its bytes in order, without gaps or
  overlaps. Dropping the buffer afterwards consumes exactly the bytes that were handed out, or
  everything when the buffer was never used; reverting consumes nothing.\<close>

theorem read_buffer_pieces:
  "\<exists>xs b'. take_pieces rb_pop ns (ReadBuffer_new bs) = (Ok xs, b') \<and> concat xs = take (sum_list ns) bs \<and>
     rb_drop b' c = c + (if ns = [] then length bs else length (concat xs)) \<and> rb_revert b' c = c"
proof -
  have "rb_ok (ReadBuffer_new bs) \<and> rb_data (ReadBuffer_new bs) = bs" by (simp add: ReadBuffer_new_def rb_ok_def)
  from read_buffer.pieces_in_order [OF this, of ns] obtain xs b' where
    x: "take_pieces rb_pop ns (ReadBuffer_new bs) = (Ok xs, b')" "concat xs = take (sum_list ns) bs"
    "rb_left b' = drop (sum_list ns) bs" "rb_ok b'" "rb_data b' = bs" by auto
  have "rb_consumed b' = length (concat xs)"
    using arg_cong [OF x(3), of length] x(2,4,5) by (auto simp: rb_left_def rb_ok_def)
  moreover have "rb_used b' \<longleftrightarrow> ns \<noteq> []"
    by (rule pieces_used [OF x(1)]) (simp add: ReadBuffer_new_def)
  ultimately show ?thesis using x by (intro exI [of _ xs] exI [of _ b']) (simp add: rb_drop_def rb_revert_def)
qed

end
