(* ===== verification/Blocking.thy ===== *)
theory Blocking
  imports Connection Read_Buffer
begin

text \<open>
  The blocking connection of \<open>src/src/blocking.rs\<close>: \<open>TlsConnection\<close> and the two halves
  \<open>TlsReader\<close> and \<open>TlsWriter\<close> that \<open>split\<close> makes of it. The loops of \<open>open\<close> and \<open>read_buffered\<close>
  may run as long as the peer sends, so they are partial functions into \<^typ>\<open>'a option\<close>:
  \<^const>\<open>None\<close> is a loop that does not end. The implementations of the \<open>embedded_io\<close> traits
  call the inherent methods and are the same definitions.
\<close>

section \<open>The connection\<close>

record ('t, 'h, 'k) TlsConnection =
  tc_delegate :: 't
  tc_opened :: bool
  tc_key_schedule :: "('h, 'k) KeySchedule"
  tc_record_reader :: RecordReader
  tc_record_write_buf :: WriteBuffer
  tc_decrypted :: DecryptedBufferInfo
  tc_flush_policy :: FlushPolicy

definition TlsConnection_new ::
  "('h, 'k) TlsCipherSuite \<Rightarrow> 't \<Rightarrow> bytes \<Rightarrow> bytes \<Rightarrow> (('t, 'h, 'k) TlsConnection, TlsError) result" where
  "TlsConnection_new cs delegate record_read_buf record_write_buf =
     and_then (WriteBuffer_new record_write_buf) (\<lambda>w. Ok \<lparr>
       tc_delegate = delegate, tc_opened = False, tc_key_schedule = KeySchedule_new cs,
       tc_record_reader = RecordReader_new record_read_buf, tc_record_write_buf = w,
       tc_decrypted = DecryptedBufferInfo_default, tc_flush_policy = FlushPolicy_default\<rparr>)"

definition TlsConnection_set_flush_policy ::
  "FlushPolicy \<Rightarrow> ('t, 'h, 'k) TlsConnection \<Rightarrow> ('t, 'h, 'k) TlsConnection" where
  "TlsConnection_set_flush_policy policy k = k\<lparr>tc_flush_policy := policy\<rparr>"

abbreviation on_delegate :: "('t, 'a, 'e) prog \<Rightarrow> (('t, 'h, 'k) TlsConnection, 'a, 'e) prog" where
  "on_delegate \<equiv> zoom tc_delegate (\<lambda>x k. k\<lparr>tc_delegate := x\<rparr>)"

abbreviation on_schedule :: "(('h, 'k) KeySchedule, 'a, 'e) prog \<Rightarrow> (('t, 'h, 'k) TlsConnection, 'a, 'e) prog" where
  "on_schedule \<equiv> zoom tc_key_schedule (\<lambda>x k. k\<lparr>tc_key_schedule := x\<rparr>)"

abbreviation on_write_buf :: "(WriteBuffer, 'a, 'e) prog \<Rightarrow> (('t, 'h, 'k) TlsConnection, 'a, 'e) prog" where
  "on_write_buf \<equiv> zoom tc_record_write_buf (\<lambda>x k. k\<lparr>tc_record_write_buf := x\<rparr>)"

subsection \<open>Opening\<close>

partial_function (option) open_loop ::
  "bool \<Rightarrow> ('h, 'k) TlsCipherSuite \<Rightarrow> ('p, 's, 'h) CryptoProvider \<Rightarrow> 't Transport \<Rightarrow> TlsConfig \<Rightarrow>
     State \<Rightarrow> ('t, 'h, 'k, 's, 'p) Conn \<Rightarrow> ((unit, TlsError) result \<times> ('t, 'h, 'k, 's, 'p) Conn) option" where
  "open_loop rsa cs P T config state c =
     (if state = ST_ApplicationData then Some (Ok (), c)
      else case process_blocking rsa cs P T config state c of
        (Ok st, c') \<Rightarrow> open_loop rsa cs P T config st c'
      | (Err e, c') \<Rightarrow> Some (Err e, c')
      | (Panic, c') \<Rightarrow> Some (Panic, c'))"

text \<open>The fields that the handshake borrows, and what it leaves in them.\<close>

definition open_borrow :: "('t, 'h, 'k) TlsConnection \<Rightarrow> 'p \<Rightarrow> ('t, 'h, 'k, 's, 'p) Conn" where
  "open_borrow k p = \<lparr>co_transport = tc_delegate k, co_handshake = Handshake_new, co_reader = tc_record_reader k,
     co_tx = tc_record_write_buf k, co_keys = tc_key_schedule k, co_provider = p\<rparr>"

definition open_return :: "('t, 'h, 'k, 's, 'p) Conn \<Rightarrow> ('t, 'h, 'k) TlsConnection \<Rightarrow> ('t, 'h, 'k) TlsConnection" where
  "open_return c k = k\<lparr>tc_delegate := co_transport c, tc_record_reader := co_reader c,
     tc_record_write_buf := co_tx c, tc_key_schedule := co_keys c\<rparr>"

text \<open>The host name goes to the verifier when there are both.\<close>

definition open_hostname :: "('p, 's, 'h) CryptoProvider \<Rightarrow> TlsConfig \<Rightarrow> ('p, unit, TlsError) prog" where
  "open_hostname P config = (\<lambda>p. case (prov_verifier P p, cfg_server_name config) of
     (True, Some server_name) \<Rightarrow> set_hostname_verification P server_name p
   | _ \<Rightarrow> (Ok (), p))"

definition TlsConnection_open ::
  "bool \<Rightarrow> ('h, 'k) TlsCipherSuite \<Rightarrow> ('p, 's, 'h) CryptoProvider \<Rightarrow> 't Transport \<Rightarrow> TlsConfig \<Rightarrow>
     ('t, 'h, 'k) TlsConnection \<times> 'p \<Rightarrow> ((unit, TlsError) result \<times> ('t, 'h, 'k) TlsConnection \<times> 'p) option" where
  "TlsConnection_open rsa cs P T config = (\<lambda>(k, p).
     case open_hostname P config p of
       (Ok _, p1) \<Rightarrow>
         (case open_loop rsa cs P T config ST_ClientHello (open_borrow k p1) of
            None \<Rightarrow> None
          | Some (Ok _, c) \<Rightarrow> Some (Ok (), (open_return c k)\<lparr>tc_opened := True\<rparr>, co_provider c)
          | Some (Err e, c) \<Rightarrow> Some (Err e, open_return c k, co_provider c)
          | Some (Panic, c) \<Rightarrow> Some (Panic, open_return c k, co_provider c))
     | (Err e, p1) \<Rightarrow> Some (Err e, k, p1)
     | (Panic, p1) \<Rightarrow> Some (Panic, k, p1))"

subsection \<open>Writing\<close>

definition TlsConnection_flush_transport :: "'t Transport \<Rightarrow> (('t, 'h, 'k) TlsConnection, unit, TlsError) prog" where
  "TlsConnection_flush_transport T = map_err Io (on_delegate (t_flush T))"

definition TlsConnection_flush ::
  "('h, 'k) TlsCipherSuite \<Rightarrow> 't Transport \<Rightarrow> (('t, 'h, 'k) TlsConnection, unit, TlsError) prog" where
  "TlsConnection_flush cs T = (\<lambda>k.
     if wb_is_empty (tc_record_write_buf k) then (Ok (), k)
     else
       (bnd (on_write_buf (close_record cs (client_state (tc_key_schedule k)))) (\<lambda>slice.
        seq (map_err Io (on_delegate (t_write_all T slice))) (
        seq (on_schedule (on_client write_increment_counter)) (
        bnd (gets tc_flush_policy) (\<lambda>policy.
        if FlushPolicy_flush_transport policy then TlsConnection_flush_transport T else ret ()))))) k)"

definition TlsConnection_write ::
  "('h, 'k) TlsCipherSuite \<Rightarrow> 't Transport \<Rightarrow> bytes \<Rightarrow> (('t, 'h, 'k) TlsConnection, nat, TlsError) prog" where
  "TlsConnection_write cs T buf =
     bnd (gets tc_opened) (\<lambda>opened.
     if opened then
       bnd (gets tc_record_write_buf) (\<lambda>w.
       seq (if \<not> wb_contains RH_ApplicationData w
            then seq (TlsConnection_flush cs T) (on_write_buf (start_record RH_ApplicationData))
            else ret ()) (
       bnd (on_write_buf (wb_append buf)) (\<lambda>buffered.
       bnd (gets tc_record_write_buf) (\<lambda>w.
       bnd (from_result (wb_is_full w)) (\<lambda>full.
       seq (if full then TlsConnection_flush cs T else ret ()) (
       ret buffered))))))
     else fail MissingHandshake)"

subsection \<open>Reading\<close>

text \<open>The closure that hands records to \<open>DecryptedReadHandler::handle\<close>.\<close>

definition handler_cb :: "nat \<Rightarrow> ('h, 'k, DecryptedBufferInfo \<times> bool) record_cb" where
  "handler_cb src_len rec = (\<lambda>(rks, u). case DecryptedReadHandler_handle src_len rec u of (r, u') \<Rightarrow> (r, rks, u'))"

definition TlsConnection_read_application_data ::
  "('h, 'k) TlsCipherSuite \<Rightarrow> 't Transport \<Rightarrow> (('t, 'h, 'k) TlsConnection, unit, TlsError) prog" where
  "TlsConnection_read_application_data cs T = (\<lambda>k.
     let src_len = length (rr_buf (tc_record_reader k)) in
     case read_blocking cs (t_read T) (tc_record_reader k, tc_delegate k, server_state (tc_key_schedule k)) of
       (q, rr, t, rks) \<Rightarrow>
         let k1 = k\<lparr>tc_record_reader := rr, tc_delegate := t,
                    tc_key_schedule := (tc_key_schedule k)\<lparr>server_state := rks\<rparr>\<rparr> in
         (case q of
           Ok rec \<Rightarrow>
             (case decrypt_record cs rec (handler_cb src_len) (rr_buf rr, rks, tc_decrypted k, tc_opened k) of
                (r, mem, rks', i, opened) \<Rightarrow>
                  (r, k1\<lparr>tc_record_reader := rr\<lparr>rr_buf := mem\<rparr>,
                         tc_key_schedule := (tc_key_schedule k)\<lparr>server_state := rks'\<rparr>,
                         tc_decrypted := i, tc_opened := opened\<rparr>))
         | Err e \<Rightarrow> (Err e, k1)
         | Panic \<Rightarrow> (Panic, k1)))"

partial_function (option) read_loop ::
  "('h, 'k) TlsCipherSuite \<Rightarrow> 't Transport \<Rightarrow> ('t, 'h, 'k) TlsConnection \<Rightarrow>
     ((unit, TlsError) result \<times> ('t, 'h, 'k) TlsConnection) option" where
  "read_loop cs T k = (case di_is_empty (tc_decrypted k) of
     Ok is_empty \<Rightarrow>
       if \<not> is_empty then Some (Ok (), k)
       else (case TlsConnection_read_application_data cs T k of
           (Ok _, k') \<Rightarrow> read_loop cs T k'
         | (Err e, k') \<Rightarrow> Some (Err e, k')
         | (Panic, k') \<Rightarrow> Some (Panic, k'))
   | Err e \<Rightarrow> Some (Err e, k)
   | Panic \<Rightarrow> Some (Panic, k))"

definition TlsConnection_create_read_buffer :: "('t, 'h, 'k) TlsConnection \<Rightarrow> (ReadBuffer, TlsError) result" where
  "TlsConnection_create_read_buffer k = di_create_read_buffer (rr_buf (tc_record_reader k)) (tc_decrypted k)"

text \<open>The end of the borrow of a \<open>ReadBuffer\<close>: its \<open>drop\<close> writes the consumed count.\<close>

definition drop_read_buffer :: "ReadBuffer \<Rightarrow> ('t, 'h, 'k) TlsConnection \<Rightarrow> ('t, 'h, 'k) TlsConnection" where
  "drop_read_buffer b k = k\<lparr>tc_decrypted := (tc_decrypted k)\<lparr>di_consumed := rb_drop b (di_consumed (tc_decrypted k))\<rparr>\<rparr>"

definition TlsConnection_read_buffered ::
  "('h, 'k) TlsCipherSuite \<Rightarrow> 't Transport \<Rightarrow> ('t, 'h, 'k) TlsConnection \<Rightarrow>
     ((ReadBuffer, TlsError) result \<times> ('t, 'h, 'k) TlsConnection) option" where
  "TlsConnection_read_buffered cs T k =
     (if tc_opened k then
        (case read_loop cs T k of
           None \<Rightarrow> None
         | Some (Ok _, k') \<Rightarrow> Some (TlsConnection_create_read_buffer k', k')
         | Some (Err e, k') \<Rightarrow> Some (Err e, k')
         | Some (Panic, k') \<Rightarrow> Some (Panic, k'))
      else Some (Err MissingHandshake, k))"

text \<open>Using the read buffer until it is dropped; the result of \<open>read\<close> comes with the filled slice.\<close>

definition with_read_buffer ::
  "(ReadBuffer, 'a, TlsError) prog \<Rightarrow> ((ReadBuffer, TlsError) result \<times> ('t, 'h, 'k) TlsConnection) option \<Rightarrow>
     (('a, TlsError) result \<times> ('t, 'h, 'k) TlsConnection) option" where
  "with_read_buffer f m = (case m of
     None \<Rightarrow> None
   | Some (Ok b, k) \<Rightarrow> (case f b of (r, b') \<Rightarrow> Some (r, drop_read_buffer b' k))
   | Some (Err e, k) \<Rightarrow> Some (Err e, k)
   | Some (Panic, k) \<Rightarrow> Some (Panic, k))"

definition TlsConnection_read ::
  "('h, 'k) TlsCipherSuite \<Rightarrow> 't Transport \<Rightarrow> bytes \<Rightarrow> ('t, 'h, 'k) TlsConnection \<Rightarrow>
     ((nat \<times> bytes, TlsError) result \<times> ('t, 'h, 'k) TlsConnection) option" where
  "TlsConnection_read cs T buf k =
     (if buf = [] then Some (Ok (0, buf), k)
      else with_read_buffer (rb_pop_into buf) (TlsConnection_read_buffered cs T k))"

definition TlsConnection_fill_buf ::
  "('h, 'k) TlsCipherSuite \<Rightarrow> 't Transport \<Rightarrow> ('t, 'h, 'k) TlsConnection \<Rightarrow>
     ((bytes, TlsError) result \<times> ('t, 'h, 'k) TlsConnection) option" where
  "TlsConnection_fill_buf cs T k = with_read_buffer rb_peek_all (TlsConnection_read_buffered cs T k)"

definition TlsConnection_consume :: "nat \<Rightarrow> (('t, 'h, 'k) TlsConnection, unit, TlsError) prog" where
  "TlsConnection_consume amt = (\<lambda>k. case TlsConnection_create_read_buffer k of
     Ok b \<Rightarrow> (case rb_pop amt b of
         (Ok _, b') \<Rightarrow> (Ok (), drop_read_buffer b' k)
       | (Err e, b') \<Rightarrow> (Err e, drop_read_buffer b' k)
       | (Panic, b') \<Rightarrow> (Panic, drop_read_buffer b' k))
   | Err e \<Rightarrow> (Err e, k)
   | Panic \<Rightarrow> (Panic, k))"

subsection \<open>Closing\<close>

text \<open>\<open>record_write_buf.write_record(&record, write_key_schedule, Some(read_key_schedule))\<close>.\<close>

definition tc_write_record ::
  "('h, 'k) TlsCipherSuite \<Rightarrow> unit ClientRecord \<Rightarrow> (('t, 'h, 'k) TlsConnection, bytes, TlsError) prog" where
  "tc_write_record cs rec = (\<lambda>k.
     case write_record cs (\<lambda>_. []) rec (client_state (tc_key_schedule k))
       (tc_record_write_buf k, Some (transcript_hash (server_state (tc_key_schedule k)))) of
       (r, w, t) \<Rightarrow>
         (r, k\<lparr>tc_record_write_buf := w,
               tc_key_schedule := (case t of None \<Rightarrow> tc_key_schedule k
                                  | Some h \<Rightarrow> replace_transcript_hash h (tc_key_schedule k))\<rparr>))"

definition TlsConnection_close_internal ::
  "('h, 'k) TlsCipherSuite \<Rightarrow> 't Transport \<Rightarrow> (('t, 'h, 'k) TlsConnection, unit, TlsError) prog" where
  "TlsConnection_close_internal cs T =
     seq (TlsConnection_flush cs T) (
     bnd (gets tc_opened) (\<lambda>is_opened.
     bnd (tc_write_record cs (ClientRecord_close_notify is_opened)) (\<lambda>slice.
     seq (map_err Io (on_delegate (t_write_all T slice))) (
     seq (on_schedule (on_client write_increment_counter)) (
     TlsConnection_flush_transport T)))))"

definition TlsConnection_close ::
  "('h, 'k) TlsCipherSuite \<Rightarrow> 't Transport \<Rightarrow> ('t, 'h, 'k) TlsConnection \<Rightarrow> ('t, 't \<times> TlsError) result" where
  "TlsConnection_close cs T k = (case TlsConnection_close_internal cs T k of
     (Ok _, k') \<Rightarrow> Ok (tc_delegate k')
   | (Err e, k') \<Rightarrow> Err (tc_delegate k', e)
   | (Panic, _) \<Rightarrow> Panic)"

section \<open>The halves of a split connection\<close>

text \<open>\<open>opened\<close> is the atomic flag that both halves and the connection share, \<open>delegate\<close> a clone of the
  socket: a record holds what the half sees of them.\<close>

record ('t, 'h, 'k) TlsReader =
  tr_opened :: bool
  tr_delegate :: 't
  tr_key_schedule :: "('h, 'k) ReadKeySchedule"
  tr_record_reader :: RecordReader
  tr_decrypted :: DecryptedBufferInfo

record ('t, 'k) TlsWriter =
  tw_opened :: bool
  tw_delegate :: 't
  tw_key_schedule :: "'k WriteKeySchedule"
  tw_record_write_buf :: WriteBuffer
  tw_flush_policy :: FlushPolicy

definition TlsConnection_split ::
  "('t, 'h, 'k) TlsConnection \<Rightarrow> ('t, 'h, 'k) TlsReader \<times> ('t, 'k) TlsWriter" where
  "TlsConnection_split k =
     (\<lparr>tr_opened = tc_opened k, tr_delegate = tc_delegate k, tr_key_schedule = server_state (tc_key_schedule k),
       tr_record_reader = tc_record_reader k, tr_decrypted = tc_decrypted k\<rparr>,
      \<lparr>tw_opened = tc_opened k, tw_delegate = tc_delegate k, tw_key_schedule = client_state (tc_key_schedule k),
       tw_record_write_buf = tc_record_write_buf k, tw_flush_policy = tc_flush_policy k\<rparr>)"

subsection \<open>The reader\<close>

definition TlsReader_create_read_buffer :: "('t, 'h, 'k) TlsReader \<Rightarrow> (ReadBuffer, TlsError) result" where
  "TlsReader_create_read_buffer k = di_create_read_buffer (rr_buf (tr_record_reader k)) (tr_decrypted k)"

definition TlsReader_read_application_data ::
  "('h, 'k) TlsCipherSuite \<Rightarrow> 't Transport \<Rightarrow> (('t, 'h, 'k) TlsReader, unit, TlsError) prog" where
  "TlsReader_read_application_data cs T = (\<lambda>k.
     let src_len = length (rr_buf (tr_record_reader k)) in
     case read_blocking cs (t_read T) (tr_record_reader k, tr_delegate k, tr_key_schedule k) of
       (q, rr, t, rks) \<Rightarrow>
         let k1 = k\<lparr>tr_record_reader := rr, tr_delegate := t, tr_key_schedule := rks\<rparr> in
         (case q of
           Ok rec \<Rightarrow>
             let opened = tr_opened k in
             (case decrypt_record cs rec (handler_cb src_len) (rr_buf rr, rks, tr_decrypted k, opened) of
                (result, mem, rks', i, opened') \<Rightarrow>
                  let k2 = k1\<lparr>tr_record_reader := rr\<lparr>rr_buf := mem\<rparr>, tr_key_schedule := rks', tr_decrypted := i\<rparr> in
                  (result, if \<not> opened' then k2\<lparr>tr_opened := False\<rparr> else k2))
         | Err e \<Rightarrow> (Err e, k1)
         | Panic \<Rightarrow> (Panic, k1)))"

partial_function (option) reader_loop ::
  "('h, 'k) TlsCipherSuite \<Rightarrow> 't Transport \<Rightarrow> ('t, 'h, 'k) TlsReader \<Rightarrow>
     ((unit, TlsError) result \<times> ('t, 'h, 'k) TlsReader) option" where
  "reader_loop cs T k = (case di_is_empty (tr_decrypted k) of
     Ok is_empty \<Rightarrow>
       if \<not> is_empty then Some (Ok (), k)
       else (case TlsReader_read_application_data cs T k of
           (Ok _, k') \<Rightarrow> reader_loop cs T k'
         | (Err e, k') \<Rightarrow> Some (Err e, k')
         | (Panic, k') \<Rightarrow> Some (Panic, k'))
   | Err e \<Rightarrow> Some (Err e, k)
   | Panic \<Rightarrow> Some (Panic, k))"

definition TlsReader_read_buffered ::
  "('h, 'k) TlsCipherSuite \<Rightarrow> 't Transport \<Rightarrow> ('t, 'h, 'k) TlsReader \<Rightarrow>
     ((ReadBuffer, TlsError) result \<times> ('t, 'h, 'k) TlsReader) option" where
  "TlsReader_read_buffered cs T k =
     (if tr_opened k then
        (case reader_loop cs T k of
           None \<Rightarrow> None
         | Some (Ok _, k') \<Rightarrow> Some (TlsReader_create_read_buffer k', k')
         | Some (Err e, k') \<Rightarrow> Some (Err e, k')
         | Some (Panic, k') \<Rightarrow> Some (Panic, k'))
      else Some (Err MissingHandshake, k))"

definition drop_reader_buffer :: "ReadBuffer \<Rightarrow> ('t, 'h, 'k) TlsReader \<Rightarrow> ('t, 'h, 'k) TlsReader" where
  "drop_reader_buffer b k = k\<lparr>tr_decrypted := (tr_decrypted k)\<lparr>di_consumed := rb_drop b (di_consumed (tr_decrypted k))\<rparr>\<rparr>"

definition with_reader_buffer ::
  "(ReadBuffer, 'a, TlsError) prog \<Rightarrow> ((ReadBuffer, TlsError) result \<times> ('t, 'h, 'k) TlsReader) option \<Rightarrow>
     (('a, TlsError) result \<times> ('t, 'h, 'k) TlsReader) option" where
  "with_reader_buffer f m = (case m of
     None \<Rightarrow> None
   | Some (Ok b, k) \<Rightarrow> (case f b of (r, b') \<Rightarrow> Some (r, drop_reader_buffer b' k))
   | Some (Err e, k) \<Rightarrow> Some (Err e, k)
   | Some (Panic, k) \<Rightarrow> Some (Panic, k))"

definition TlsReader_read ::
  "('h, 'k) TlsCipherSuite \<Rightarrow> 't Transport \<Rightarrow> bytes \<Rightarrow> ('t, 'h, 'k) TlsReader \<Rightarrow>
     ((nat \<times> bytes, TlsError) result \<times> ('t, 'h, 'k) TlsReader) option" where
  "TlsReader_read cs T buf k =
     (if buf = [] then Some (Ok (0, buf), k)
      else with_reader_buffer (rb_pop_into buf) (TlsReader_read_buffered cs T k))"

definition TlsReader_fill_buf ::
  "('h, 'k) TlsCipherSuite \<Rightarrow> 't Transport \<Rightarrow> ('t, 'h, 'k) TlsReader \<Rightarrow>
     ((bytes, TlsError) result \<times> ('t, 'h, 'k) TlsReader) option" where
  "TlsReader_fill_buf cs T k = with_reader_buffer rb_peek_all (TlsReader_read_buffered cs T k)"

definition TlsReader_consume :: "nat \<Rightarrow> (('t, 'h, 'k) TlsReader, unit, TlsError) prog" where
  "TlsReader_consume amt = (\<lambda>k. case TlsReader_create_read_buffer k of
     Ok b \<Rightarrow> (case rb_pop amt b of
         (Ok _, b') \<Rightarrow> (Ok (), drop_reader_buffer b' k)
       | (Err e, b') \<Rightarrow> (Err e, drop_reader_buffer b' k)
       | (Panic, b') \<Rightarrow> (Panic, drop_reader_buffer b' k))
   | Err e \<Rightarrow> (Err e, k)
   | Panic \<Rightarrow> (Panic, k))"

subsection \<open>The writer\<close>

abbreviation on_writer_delegate :: "('t, 'a, 'e) prog \<Rightarrow> (('t, 'k) TlsWriter, 'a, 'e) prog" where
  "on_writer_delegate \<equiv> zoom tw_delegate (\<lambda>x k. k\<lparr>tw_delegate := x\<rparr>)"

abbreviation on_writer_buf :: "(WriteBuffer, 'a, 'e) prog \<Rightarrow> (('t, 'k) TlsWriter, 'a, 'e) prog" where
  "on_writer_buf \<equiv> zoom tw_record_write_buf (\<lambda>x k. k\<lparr>tw_record_write_buf := x\<rparr>)"

definition TlsWriter_flush_transport :: "'t Transport \<Rightarrow> (('t, 'k) TlsWriter, unit, TlsError) prog" where
  "TlsWriter_flush_transport T = map_err Io (on_writer_delegate (t_flush T))"

definition TlsWriter_flush ::
  "('h, 'k) TlsCipherSuite \<Rightarrow> 't Transport \<Rightarrow> (('t, 'k) TlsWriter, unit, TlsError) prog" where
  "TlsWriter_flush cs T = (\<lambda>k.
     if wb_is_empty (tw_record_write_buf k) then (Ok (), k)
     else
       (bnd (on_writer_buf (close_record cs (tw_key_schedule k))) (\<lambda>slice.
        seq (map_err Io (on_writer_delegate (t_write_all T slice))) (
        seq (zoom tw_key_schedule (\<lambda>x k. k\<lparr>tw_key_schedule := x\<rparr>) write_increment_counter) (
        bnd (gets tw_flush_policy) (\<lambda>policy.
        if FlushPolicy_flush_transport policy then TlsWriter_flush_transport T else ret ()))))) k)"

definition TlsWriter_write ::
  "('h, 'k) TlsCipherSuite \<Rightarrow> 't Transport \<Rightarrow> bytes \<Rightarrow> (('t, 'k) TlsWriter, nat, TlsError) prog" where
  "TlsWriter_write cs T buf =
     bnd (gets tw_opened) (\<lambda>opened.
     if opened then
       bnd (gets tw_record_write_buf) (\<lambda>w.
       seq (if \<not> wb_contains RH_ApplicationData w
            then seq (TlsWriter_flush cs T) (on_writer_buf (start_record RH_ApplicationData))
            else ret ()) (
       bnd (on_writer_buf (wb_append buf)) (\<lambda>buffered.
       bnd (gets tw_record_write_buf) (\<lambda>w.
       bnd (from_result (wb_is_full w)) (\<lambda>full.
       seq (if full then TlsWriter_flush cs T else ret ()) (
       ret buffered))))))
     else fail MissingHandshake)"

end
