(* ===== verification/Blocking_Open.thy ===== *)
theory Blocking_Open
  imports Blocking Handshake_Run
begin

text \<open>
  Opening a connection: the loop of \<open>TlsConnection::open\<close> in \<open>src/src/blocking.rs\<close> over the steps of the
  handshake state machine. It succeeds exactly when the state machine reaches application
  data, and it ends on every finite stream, since each step either takes a record off the
  stream or moves to a later state.
\<close>

section \<open>The loop and the state machine\<close>

lemma open_loop_reach:
  assumes "hs_reach rsa cs P T config (st, c) (ST_ApplicationData, c')"
  shows "open_loop rsa cs P T config st c = Some (Ok (), c')"
  using assms
proof (induction "(st, c)" arbitrary: st c rule: converse_rtranclp_induct)
  case base
  then show ?case by (simp add: open_loop.simps)
next
  case (step y)
  obtain st1 c1 where y: "y = (st1, c1)" by fastforce
  from step.hyps(1) y have "st \<noteq> ST_ApplicationData" "process_blocking rsa cs P T config st c = (Ok st1, c1)"
    by (simp_all add: hs_step_iff)
  with step.hyps(3) [OF y] show ?case by (simp add: open_loop.simps [of rsa cs P T config st c])
qed

lemma reach_open_loop:
  assumes "open_loop rsa cs P T config st c = Some (Ok (), c')"
  shows "hs_reach rsa cs P T config (st, c) (ST_ApplicationData, c')"
proof -
  have "fst y = Ok () \<longrightarrow> hs_reach rsa cs P T config (st, c) (ST_ApplicationData, snd y)"
    if "open_loop rsa cs P T config st c = Some y" for y
  proof (rule open_loop.raw_induct [OF _ that, of "\<lambda>((((((rsa, cs), P), T), config), st), c) y.
      fst y = Ok () \<longrightarrow> hs_reach rsa cs P T config (st, c) (ST_ApplicationData, snd y)", simplified split], goal_cases)
    case (1 f rsa cs P T config st c y)
    show ?case
    proof (cases "st = ST_ApplicationData")
      case True
      then show ?thesis using 1(2) by auto
    next
      case False
      obtain r c1 where p: "process_blocking rsa cs P T config st c = (r, c1)" by fastforce
      show ?thesis
      proof (cases r)
        case (Ok st1)
        with 1 False p have "fst y = Ok () \<longrightarrow> hs_reach rsa cs P T config (st1, c1) (ST_ApplicationData, snd y)" by simp
        with False p Ok show ?thesis using hs_reach_step by metis
      qed (use 1(2) False p in auto)
    qed
  qed
  with assms show ?thesis by fastforce
qed

section \<open>What the steps do to the transport\<close>

definition keeps_transport :: "(('t, 'h, 'k, 's, 'p) Conn, 'a, 'e) prog \<Rightarrow> bool" where
  "keeps_transport m \<longleftrightarrow> (\<forall>c. co_transport (snd (m c)) = co_transport c)"

named_theorems transport_intros \<open>programs that do not touch the transport\<close>

lemma keeps_transportD: "keeps_transport m \<Longrightarrow> m c = (r, c') \<Longrightarrow> co_transport c' = co_transport c"
  unfolding keeps_transport_def by (metis snd_conv)

lemma keeps_bnd [transport_intros]:
  "keeps_transport m \<Longrightarrow> (\<And>a. keeps_transport (f a)) \<Longrightarrow> keeps_transport (bnd m f)"
  unfolding keeps_transport_def bnd_def by (auto split: prod.splits result.splits) (metis snd_conv)+

lemma keeps_basic [transport_intros]:
  "keeps_transport (ret a)" "keeps_transport (fail e)" "keeps_transport panic" "keeps_transport (gets g)"
  "keeps_transport (from_result r)" "keeps_transport (ok_or e x)"
  by (simp_all add: keeps_transport_def ok_or_def split: option.splits)

lemma keeps_zoom [transport_intros]:
  "keeps_transport (on_keys m1)" "keeps_transport (on_handshake m2)" "keeps_transport (on_provider m3)"
  by (simp_all add: keeps_transport_def zoom_def split: prod.splits)

lemma keeps_map_err [transport_intros]: "keeps_transport m \<Longrightarrow> keeps_transport (map_err g m)"
  unfolding keeps_transport_def map_err_def by (auto split: prod.splits result.splits) (metis snd_conv)+

lemma keeps_attempt [transport_intros]: "keeps_transport m \<Longrightarrow> keeps_transport (attempt m)"
  unfolding keeps_transport_def attempt_def by (auto split: prod.splits result.splits) (metis snd_conv)+

lemma keeps_tx [transport_intros]: "keeps_transport (tx_write_record cs pk rec)"
  by (simp add: keeps_transport_def tx_write_record_def split: prod.splits)

lemma keeps_pure [transport_intros]: "keeps_transport (\<lambda>c. (g c, c))"
  by (simp add: keeps_transport_def)

lemma keeps_client_hello: "keeps_transport (client_hello cs P config)"
  unfolding client_hello_def
  by (intro transport_intros) (auto split: ClientRecord.splits ClientHandshake.splits intro!: transport_intros)

lemma keeps_server_hello: "keeps_transport (process_server_hello cs P rec)"
  unfolding process_server_hello_def
  by (auto split: ServerRecord.splits ServerHandshake.splits intro!: transport_intros)

lemma keeps_server_verify: "keeps_transport (process_server_verify cs P rec)"
  by (simp add: keeps_transport_def process_server_verify_def split: prod.splits)

lemma keeps_client_cert: "keeps_transport (client_cert cs P)"
  unfolding client_cert_def
  by (intro transport_intros) (auto split: option.splits prod.splits result.splits intro!: transport_intros)

lemma keeps_client_cert_verify: "keeps_transport (client_cert_verify rsa cs P)"
  unfolding client_cert_verify_def
  by (intro transport_intros) (auto split: option.splits prod.splits result.splits intro!: transport_intros)

lemma keeps_client_finished: "keeps_transport (client_finished cs pk)" "keeps_transport (client_finished_finalize cs)"
  unfolding client_finished_def client_finished_finalize_def by (intro transport_intros)+

lemmas step_keeps = keeps_client_hello keeps_server_hello keeps_server_verify keeps_client_cert
  keeps_client_cert_verify keeps_client_finished

text \<open>The order of the states.\<close>

fun state_rank :: "State \<Rightarrow> nat" where
  "state_rank ST_ClientHello = 6"
| "state_rank ST_ServerHello = 5"
| "state_rank ST_ServerVerify = 4"
| "state_rank ST_ClientCert = 3"
| "state_rank ST_ClientCertVerify = 2"
| "state_rank ST_ClientFinished = 1"
| "state_rank ST_ApplicationData = 0"

context duplex
begin

lemma respond_keeps_stream:
  assumes "good (co_transport c)" "respond_blocking T tx c = (Ok (), c')"
  shows "stream (co_transport c') = stream (co_transport c) \<and> good (co_transport c')"
proof -
  obtain t1 where 1: "t_write_all T tx (co_transport c) = (Ok (), t1)" "stream t1 = stream (co_transport c)" "good t1"
    using write_some [OF assms(1)] by blast
  obtain t2 where "t_flush T t1 = (Ok (), t2)" "stream t2 = stream t1" "good t2" using flush_some [OF 1(3)] by blast
  with 1 assms(2) show ?thesis
    by (auto simp: respond_blocking_def bnd_Ok_iff map_err_Ok_iff zoom_def split: prod.splits)
qed

lemma rx_shrinks:
  assumes "good (co_transport c)" "rx_read_record cs T c = (Ok rec, c')"
  shows "length (stream (co_transport c')) < length (stream (co_transport c)) \<and> good (co_transport c')"
proof -
  obtain r rr t rks where r: "read_blocking cs (t_read T) (co_reader c, co_transport c, server_state (co_keys c)) = (r, rr, t, rks)"
    by (metis prod.exhaust)
  with assms(2) have "r = Ok rec" "co_transport c' = t" by (auto simp: rx_read_record_def)
  with read_blocking_shrinks [OF assms(1)] r show ?thesis by (fastforce simp: RecordHeader_LEN_def)
qed

text \<open>A step either shortens the stream or moves to a later state.\<close>

lemma step_progress:
  assumes "good (co_transport c)" "process_blocking rsa cs P T config st c = (Ok st', c')" "st \<noteq> ST_ApplicationData"
  shows "good (co_transport c') \<and> (length (stream (co_transport c')) < length (stream (co_transport c)) \<or>
    stream (co_transport c') = stream (co_transport c) \<and> state_rank st' < state_rank st)"
proof -
  have sends: "good (co_transport c') \<and> stream (co_transport c') = stream (co_transport c)"
    if "keeps_transport m" "m c = (Ok (a, tx), c1)" "respond_blocking T tx c1 = (Ok (), c')" for m a tx c1
    using keeps_transportD [OF that(1,2)] respond_keeps_stream [OF _ that(3)] assms(1) by simp
  have receives: "good (co_transport c') \<and> length (stream (co_transport c')) < length (stream (co_transport c))"
    if "rx_read_record cs T c = (Ok rec, c1)" "m c1 = (r, c')" "keeps_transport m" for m rec c1 r
    using rx_shrinks [OF assms(1) that(1)] keeps_transportD [OF that(3,2)] by simp
  have nxt: "next_state st st'" by (rule process_blocking_next [OF assms(2)])
  show ?thesis
  proof (cases st)
    case ST_ClientHello
    with assms(2) obtain a tx c1 where "client_hello cs P config c = (Ok (a, tx), c1)" "respond_blocking T tx c1 = (Ok (), c')"
      by (auto simp: process_blocking_def bnd_Ok_iff)
    from sends [OF keeps_client_hello this] nxt ST_ClientHello show ?thesis by auto
  next
    case ST_ClientCert
    with assms(2) obtain a tx c1 where "client_cert cs P c = (Ok (a, tx), c1)" "respond_blocking T tx c1 = (Ok (), c')"
      by (auto simp: process_blocking_def bnd_Ok_iff)
    from sends [OF keeps_client_cert this] nxt ST_ClientCert show ?thesis by auto
  next
    case ST_ClientCertVerify
    with assms(2) obtain a tx c1 where "client_cert_verify rsa cs P c = (Ok (a, tx), c1)" "respond_blocking T tx c1 = (Ok (), c')"
      by (auto simp: process_blocking_def bnd_Ok_iff)
    from sends [OF keeps_client_cert_verify this] nxt ST_ClientCertVerify show ?thesis by auto
  next
    case ST_ServerHello
    with assms(2) obtain rec c1 where "rx_read_record cs T c = (Ok rec, c1)" "process_server_hello cs P rec c1 = (Ok st', c')"
      by (auto simp: process_blocking_def bnd_Ok_iff handle_processing_Ok_iff attempt_Ok_Ok_iff)
    from receives [OF this keeps_server_hello] show ?thesis by simp
  next
    case ST_ServerVerify
    with assms(2) obtain rec c1 where "rx_read_record cs T c = (Ok rec, c1)" "process_server_verify cs P rec c1 = (Ok st', c')"
      by (auto simp: process_blocking_def bnd_Ok_iff handle_processing_Ok_iff attempt_Ok_Ok_iff)
    from receives [OF this keeps_server_verify] show ?thesis by simp
  next
    case ST_ClientFinished
    then obtain tx c1 c2 where f: "client_finished cs (public_key P) c = (Ok tx, c1)" "respond_blocking T tx c1 = (Ok (), c2)"
      "client_finished_finalize cs c2 = (Ok st', c')"
      using assms(2) by (auto simp: process_blocking_def bnd_Ok_iff)
    from keeps_transportD [OF keeps_client_finished(1) f(1)] keeps_transportD [OF keeps_client_finished(2) f(3)]
      respond_keeps_stream [OF _ f(2)] assms(1) nxt ST_ClientFinished show ?thesis by simp
  qed (use assms(3) in simp)
qed

lemma open_loop_ends:
  assumes "good (co_transport c)"
  shows "\<exists>r c'. open_loop rsa cs P T config st c = Some (r, c')"
  using assms
proof (induction "(length (stream (co_transport c)), state_rank st)" arbitrary: st c
    rule: wf_induct_rule [OF wf_lex_prod [OF wf_less_than wf_less_than]])
  case (1 st c)
  show ?case
  proof (cases "st = ST_ApplicationData")
    case True
    then show ?thesis by (simp add: open_loop.simps)
  next
    case False
    obtain r c1 where p: "process_blocking rsa cs P T config st c = (r, c1)" by fastforce
    show ?thesis
    proof (cases r)
      case (Ok st1)
      have "\<exists>r c'. open_loop rsa cs P T config st1 c1 = Some (r, c')"
        using step_progress [OF 1(2) p [unfolded Ok] False] by (intro 1(1)) auto
      with False p Ok show ?thesis by (simp add: open_loop.simps [of rsa cs P T config st c])
    qed (use False p in \<open>simp_all add: open_loop.simps [of rsa cs P T config st c]\<close>)
  qed
qed

end

end
