(* ===== verification/Blocking_Writes.thy ===== *)
theory Blocking_Writes
  imports Blocking Handshake_Run
begin

text \<open>
  What the writing side of an open connection (\<open>write\<close>, \<open>flush\<close> and \<open>close\<close> of \<open>src/src/blocking.rs\<close>)
  puts on the wire. The specification is a stream of records: \<open>app_records\<close> seals a list of
  payloads under consecutive sequence numbers. Writes refine it: the payloads sent so far,
  with what is still buffered behind them, are the bytes that were accepted.
\<close>

section \<open>The record stream\<close>

definition next_counter :: "'k KeyScheduleState \<Rightarrow> 'k KeyScheduleState" where
  "next_counter st = st\<lparr>counter := counter st + 1\<rparr>"

fun app_records ::
  "('h, 'k) TlsCipherSuite \<Rightarrow> (bytes \<Rightarrow> bytes \<Rightarrow> bytes \<Rightarrow> bytes \<Rightarrow> bytes) \<Rightarrow> 'k KeyScheduleState \<Rightarrow> bytes list \<Rightarrow> bytes" where
  "app_records cs seal st [] = []"
| "app_records cs seal st (p # ps) = sealed_record cs seal st (p @ [23]) @ app_records cs seal (next_counter st) ps"

fun after_records :: "'k KeyScheduleState \<Rightarrow> nat \<Rightarrow> 'k KeyScheduleState" where
  "after_records st 0 = st"
| "after_records st (Suc n) = after_records (next_counter st) n"

lemma app_records_append:
  "app_records cs seal st (ps @ qs) = app_records cs seal st ps @ app_records cs seal (after_records st (length ps)) qs"
  by (induction ps arbitrary: st) simp_all

lemma after_records_add: "after_records st (m + n) = after_records (after_records st m) n"
  by (induction m arbitrary: st) simp_all

lemma after_records_value: "after_records st n = st\<lparr>counter := counter st + of_nat n\<rparr>"
  by (induction n arbitrary: st) (simp_all add: next_counter_def add.assoc)

lemma after_records_iv [simp]: "enc_iv (after_records st n) = enc_iv st"
  by (simp add: after_records_value)

lemma after_records_counter:
  assumes "unat (counter st) + n < 2 ^ 64"
  shows "unat (counter (after_records st n)) = unat (counter st) + n"
  using assms by (simp add: after_records_value unat_word_ariths unat_of_nat)

section \<open>An open connection\<close>

text \<open>\<open>writing cs k p\<close>: the connection is open, the bytes \<open>p\<close> wait in the write buffer, and there is room for
  at least one more.\<close>

definition writing :: "('h, 'k) TlsCipherSuite \<Rightarrow> ('t, 'h, 'k) TlsConnection \<Rightarrow> bytes \<Rightarrow> bool" where
  "writing cs k p \<longleftrightarrow> tc_opened k \<and>
     (wb_idle (tc_record_write_buf k) \<and> p = [] \<or> wb_holds (tc_record_write_buf k) RH_ApplicationData p) \<and>
     5 + length p + TLS_RECORD_OVERHEAD < length (wb_buffer (tc_record_write_buf k)) \<and>
     length (enc_iv (w_state (client_state (tc_key_schedule k)))) = IvLen cs"

abbreviation wstate :: "('t, 'h, 'k) TlsConnection \<Rightarrow> 'k KeyScheduleState" where
  "wstate k \<equiv> w_state (client_state (tc_key_schedule k))"

text \<open>What writing leaves alone.\<close>

definition same_reading :: "('t, 'h, 'k) TlsConnection \<Rightarrow> ('t, 'h, 'k) TlsConnection \<Rightarrow> bool" where
  "same_reading k k' \<longleftrightarrow> tc_opened k' = tc_opened k \<and> tc_record_reader k' = tc_record_reader k \<and>
     tc_decrypted k' = tc_decrypted k \<and> tc_flush_policy k' = tc_flush_policy k \<and>
     length (wb_buffer (tc_record_write_buf k')) = length (wb_buffer (tc_record_write_buf k)) \<and>
     r_state (server_state (tc_key_schedule k')) = r_state (server_state (tc_key_schedule k))"

lemma same_reading_refl: "same_reading k k"
  by (simp add: same_reading_def)

lemma same_reading_trans: "same_reading k k' \<Longrightarrow> same_reading k' k'' \<Longrightarrow> same_reading k k''"
  by (simp add: same_reading_def)

text \<open>Payloads that fit into the write buffer with the overhead of a record.\<close>

definition payloads_fit :: "('t, 'h, 'k) TlsConnection \<Rightarrow> bytes list \<Rightarrow> bool" where
  "payloads_fit k ps \<longleftrightarrow> list_all (\<lambda>p. 5 + length p + TLS_RECORD_OVERHEAD \<le> length (wb_buffer (tc_record_write_buf k))) ps"

lemma payloads_fit_append [simp]: "payloads_fit k (ps @ qs) \<longleftrightarrow> payloads_fit k ps \<and> payloads_fit k qs"
  by (simp add: payloads_fit_def)

lemma payloads_fit_same: "same_reading k k' \<Longrightarrow> payloads_fit k' ps \<longleftrightarrow> payloads_fit k ps"
  by (simp add: payloads_fit_def same_reading_def)

text \<open>A list of writes.\<close>

fun write_each ::
  "('h, 'k) TlsCipherSuite \<Rightarrow> 't Transport \<Rightarrow> bytes list \<Rightarrow> (('t, 'h, 'k) TlsConnection, nat list, TlsError) prog" where
  "write_each cs T [] = ret []"
| "write_each cs T (buf # bufs) = bnd (TlsConnection_write cs T buf) (\<lambda>n. bnd (write_each cs T bufs) (\<lambda>ns. ret (n # ns)))"

text \<open>The bytes that were accepted.\<close>

definition accepted :: "nat list \<Rightarrow> bytes list \<Rightarrow> bytes" where
  "accepted ns bufs = concat (map2 take ns bufs)"

text \<open>A protected alert on the wire.\<close>

lemma write_alert_sealed:
  assumes "aead_laws cs seal" "length (enc_iv (w_state wks)) = IvLen cs" "8 \<le> IvLen cs"
    and "wb_idle w" "8 + TagSize cs \<le> length (wb_buffer w)"
  shows "\<exists>w'. write_record cs pk (CR_Alert a True) wks (w, Some t) =
      (Ok (sealed_record cs seal (w_state wks) (Alert_wire a @ [21])), w', Some t) \<and> wb_idle w' \<and>
    length (wb_buffer w') = length (wb_buffer w)"
proof -
  have l: "length (Alert_wire a) = 2" by (simp add: Alert_wire_def)
  obtain w2 where w2: "wb_holds w2 (RH_Alert True) (Alert_wire a)" "length (wb_buffer w2) = length (wb_buffer w)"
    "write_record cs pk (CR_Alert a True) wks (w, Some t) = on_fst (close_record cs wks) (w2, Some t)"
    using write_record_steps [OF assms(4), of "CR_Alert a True" cs pk "Alert_wire a" wks t t]
      finish_alert [of _ cs pk a True wks t] assms(5) l by auto
  have "6 + length (Alert_wire a) + TagSize cs \<le> length (wb_buffer w2)" using w2(2) assms(5) l by simp
  from close_record_sealed [OF assms(1-3) w2(1) _ this refl] w2 show ?thesis
    by (auto simp: on_fst_def sealed_record_def Let_def add.commute add.left_commute)
qed

context duplex
begin

lemma flush_sends:
  assumes laws: "aead_laws cs seal" "8 \<le> IvLen cs" "TagSize cs < TLS_RECORD_OVERHEAD"
    and k: "wb_holds (tc_record_write_buf k) RH_ApplicationData p"
      "5 + length p + TLS_RECORD_OVERHEAD \<le> length (wb_buffer (tc_record_write_buf k))"
      "length (enc_iv (wstate k)) = IvLen cs" "unat (counter (wstate k)) + 1 < 2 ^ 64"
    and t: "good (tc_delegate k)"
  shows "\<exists>k'. TlsConnection_flush cs T k = (Ok (), k') \<and> wb_idle (tc_record_write_buf k') \<and>
    length (wb_buffer (tc_record_write_buf k')) = length (wb_buffer (tc_record_write_buf k)) \<and>
    wstate k' = next_counter (wstate k) \<and> same_reading k k' \<and>
    sent (tc_delegate k') = sent (tc_delegate k) @ sealed_record cs seal (wstate k) (p @ [23]) \<and>
    stream (tc_delegate k') = stream (tc_delegate k) \<and> good (tc_delegate k')"
proof -
  let ?w = "tc_record_write_buf k" and ?wks = "client_state (tc_key_schedule k)"
  let ?hdr = "[23, 3, 3] @ u16_to_be_bytes (of_nat (length p + 1 + TagSize cs))"
  let ?tx = "?hdr @ seal (enc_key (w_state ?wks)) (rfc_nonce (counter (w_state ?wks)) (enc_iv (w_state ?wks))) ?hdr (p @ [23])"
  have room: "6 + length p + TagSize cs \<le> length (wb_buffer ?w)" using k(2) laws(3) by (simp add: TLS_RECORD_OVERHEAD_def)
  obtain w' where w': "close_record cs ?wks ?w = (Ok ?tx, w')" "wb_idle w'" "length (wb_buffer w') = length (wb_buffer ?w)"
    using close_record_sealed [OF laws(1) k(3) laws(2) k(1) _ room refl] by auto
  have tx: "?tx = sealed_record cs seal (wstate k) (p @ [23])" by (simp add: sealed_record_def Let_def)
  obtain t1 where 1: "t_write_all T ?tx (tc_delegate k) = (Ok (), t1)" "stream t1 = stream (tc_delegate k)"
    "sent t1 = sent (tc_delegate k) @ ?tx" "good t1" using write_some [OF t] by blast
  obtain t2 where 2: "t_flush T t1 = (Ok (), t2)" "stream t2 = stream t1" "sent t2 = sent t1" "good t2"
    using flush_some [OF 1(4)] by blast
  let ?t = "if FlushPolicy_flush_transport (tc_flush_policy k) then t2 else t1"
  let ?k = "k\<lparr>tc_record_write_buf := w', tc_delegate := ?t, tc_key_schedule := bump_write (tc_key_schedule k)\<rparr>"
  have ne: "\<not> wb_is_empty ?w" using k(1) by (simp add: wb_holds_def wb_is_empty_def)
  have "TlsConnection_flush cs T k = (Ok (), ?k)"
    using ne w'(1) 1(1) 2(1) k(4)
    by (simp add: TlsConnection_flush_def bnd_def zoom_def map_err_def write_increment_counter_def state_increment_counter_def
        bump_write_def TlsConnection_flush_transport_def)
  moreover have "stream ?t = stream (tc_delegate k)" "sent ?t = sent (tc_delegate k) @ ?tx" "good ?t"
    using 1 2 by simp_all
  ultimately show ?thesis
    using w' tx by (intro exI [of _ ?k]) (simp add: bump_write_def next_counter_def same_reading_def)
qed

text \<open>Every write that starts with room accepts something, and sends at most one record.\<close>

lemma write_sends:
  assumes laws: "aead_laws cs seal" "8 \<le> IvLen cs" "TagSize cs < TLS_RECORD_OVERHEAD"
    and k: "writing cs k p" "unat (counter (wstate k)) + 1 < 2 ^ 64" "good (tc_delegate k)"
  shows "\<exists>n k' ps p'. TlsConnection_write cs T buf k = (Ok n, k') \<and> n \<le> length buf \<and> (buf \<noteq> [] \<longrightarrow> 0 < n) \<and>
    writing cs k' p' \<and> p @ take n buf = concat ps @ p' \<and> length ps \<le> 1 \<and> payloads_fit k ps \<and>
    wstate k' = after_records (wstate k) (length ps) \<and> same_reading k k' \<and>
    sent (tc_delegate k') = sent (tc_delegate k) @ app_records cs seal (wstate k) ps \<and>
    stream (tc_delegate k') = stream (tc_delegate k) \<and> good (tc_delegate k')"
proof -
  let ?w = "tc_record_write_buf k"
  have o: "tc_opened k" and room: "5 + length p + TLS_RECORD_OVERHEAD < length (wb_buffer ?w)"
    and iv: "length (enc_iv (wstate k)) = IvLen cs" using k(1) by (simp_all add: writing_def)
  obtain w1 where w1: "wb_holds w1 RH_ApplicationData p" "length (wb_buffer w1) = length (wb_buffer ?w)"
    "(if \<not> wb_contains RH_ApplicationData ?w
            then seq (TlsConnection_flush cs T) (on_write_buf (start_record RH_ApplicationData))
            else ret ()) k = (Ok (), k\<lparr>tc_record_write_buf := w1\<rparr>)"
  proof (cases "wb_holds ?w RH_ApplicationData p")
    case True
    then have "wb_contains RH_ApplicationData ?w" by (simp add: wb_contains_def wb_holds_def)
    with True show thesis using that [of ?w] by simp
  next
    case False
    then have i: "wb_idle ?w" "p = []" using k(1) by (auto simp: writing_def)
    obtain w1 where "start_record RH_ApplicationData ?w = (Ok (), w1)" "wb_holds w1 RH_ApplicationData []"
      "length (wb_buffer w1) = length (wb_buffer ?w)"
      using start_record_holds [OF i(1)] room by fastforce
    then show thesis using that [of w1] i
      by (simp add: wb_contains_def wb_idle_def bnd_def TlsConnection_flush_def wb_is_empty_def zoom_def)
  qed
  have pos1: "wb_pos w1 = 5 + length p" using w1(1) by (simp add: wb_holds_def)
  define m where "m = length (wb_buffer ?w) - TLS_RECORD_OVERHEAD - (5 + length p)"
  have m0: "0 < m" using room by (simp add: m_def)
  have a1: "TLS_RECORD_OVERHEAD \<le> length (wb_buffer w1)" "wb_pos w1 \<le> length (wb_buffer w1) - TLS_RECORD_OVERHEAD"
    using w1(2) pos1 room by linarith+
  obtain w2 where w2: "wb_append buf w1 = (Ok (min (length buf) m), w2)" "wb_holds w2 RH_ApplicationData (p @ take m buf)"
    "length (wb_buffer w2) = length (wb_buffer ?w)" "wb_pos w2 \<le> length (wb_buffer ?w) - TLS_RECORD_OVERHEAD"
    using wb_append_holds [OF w1(1) a1, of buf] unfolding w1(2) pos1 m_def by blast
  let ?p = "p @ take m buf" and ?k2 = "k\<lparr>tc_record_write_buf := w2\<rparr>" and ?n = "min (length buf) m"
  have pos2: "wb_pos w2 = 5 + length ?p" using w2(2) by (simp add: wb_holds_def)
  have full: "wb_is_full w2 = Ok (5 + length ?p = length (wb_buffer ?w) - TLS_RECORD_OVERHEAD)"
    using w2(3) room pos2 by (simp add: wb_is_full_def wb_max_block_size_def)
  have tk: "take ?n buf = take m buf" by (simp add: min_def)
  have n: "?n \<le> length buf" "buf \<noteq> [] \<longrightarrow> 0 < ?n" using m0 by auto
  show ?thesis
  proof (cases "5 + length ?p = length (wb_buffer ?w) - TLS_RECORD_OVERHEAD")
    case True
    then have r2: "5 + length ?p + TLS_RECORD_OVERHEAD \<le> length (wb_buffer w2)" using w2(3) room by simp
    obtain k' where k': "TlsConnection_flush cs T ?k2 = (Ok (), k')" "wb_idle (tc_record_write_buf k')"
      "length (wb_buffer (tc_record_write_buf k')) = length (wb_buffer w2)" "wstate k' = next_counter (wstate k)"
      "same_reading ?k2 k'" "sent (tc_delegate k') = sent (tc_delegate k) @ sealed_record cs seal (wstate k) (?p @ [23])"
      "stream (tc_delegate k') = stream (tc_delegate k)" "good (tc_delegate k')"
      using flush_sends [OF laws, of ?k2 ?p] w2(2) r2 iv k(2,3) by auto
    have "TlsConnection_write cs T buf k = (Ok ?n, k')"
      using o w1(3) w2(1) full True k'(1) by (simp add: TlsConnection_write_def bnd_def zoom_def)
    moreover have "writing cs k' []"
      using k'(2-5) o room w2(3) iv by (simp add: writing_def same_reading_def next_counter_def)
    ultimately show ?thesis
      using k'(3-) n tk r2 w2(3) by (intro exI [of _ ?n] exI [of _ k'] exI [of _ "[?p]"] exI [of _ "[]"])
        (simp add: same_reading_def payloads_fit_def)
  next
    case False
    then have "5 + length ?p + TLS_RECORD_OVERHEAD < length (wb_buffer w2)" using w2(3,4) pos2 room by simp
    then have "writing cs ?k2 ?p" using w2(2) o iv by (simp add: writing_def)
    moreover have "TlsConnection_write cs T buf k = (Ok ?n, ?k2)"
      using o w1(3) w2(1) full False by (simp add: TlsConnection_write_def bnd_def zoom_def)
    ultimately show ?thesis
      using k(3) n tk by (intro exI [of _ ?n] exI [of _ ?k2] exI [of _ "[]"] exI [of _ ?p])
        (simp add: same_reading_def payloads_fit_def w2(3))
  qed
qed

lemma writes_send:
  assumes laws: "aead_laws cs seal" "8 \<le> IvLen cs" "TagSize cs < TLS_RECORD_OVERHEAD"
    and "writing cs k p" "unat (counter (wstate k)) + length bufs < 2 ^ 64" "good (tc_delegate k)"
  shows "\<exists>ns k' ps p'. write_each cs T bufs k = (Ok ns, k') \<and> length ns = length bufs \<and>
    (\<forall>i < length bufs. ns ! i \<le> length (bufs ! i) \<and> (bufs ! i \<noteq> [] \<longrightarrow> 0 < ns ! i)) \<and>
    writing cs k' p' \<and> p @ accepted ns bufs = concat ps @ p' \<and> length ps \<le> length bufs \<and> payloads_fit k ps \<and>
    wstate k' = after_records (wstate k) (length ps) \<and> same_reading k k' \<and>
    sent (tc_delegate k') = sent (tc_delegate k) @ app_records cs seal (wstate k) ps \<and>
    stream (tc_delegate k') = stream (tc_delegate k) \<and> good (tc_delegate k')"
  using assms(4-)
proof (induction bufs arbitrary: k p)
  case Nil
  then show ?case by (intro exI [of _ "[]"] exI [of _ k] exI [of _ p]) (simp add: accepted_def same_reading_refl payloads_fit_def)
next
  case (Cons b bufs)
  have c1: "unat (counter (wstate k)) + 1 < 2 ^ 64" using Cons.prems(2) by simp
  obtain n k1 ps p1 where 1: "TlsConnection_write cs T b k = (Ok n, k1)" "n \<le> length b" "b \<noteq> [] \<longrightarrow> 0 < n"
    "writing cs k1 p1" "p @ take n b = concat ps @ p1" "length ps \<le> 1" "payloads_fit k ps" "wstate k1 = after_records (wstate k) (length ps)"
    "same_reading k k1" "sent (tc_delegate k1) = sent (tc_delegate k) @ app_records cs seal (wstate k) ps"
    "stream (tc_delegate k1) = stream (tc_delegate k)" "good (tc_delegate k1)"
    using write_sends [OF laws Cons.prems(1) c1 Cons.prems(3), of b] by blast
  have c2: "unat (counter (wstate k1)) + length bufs < 2 ^ 64"
    using 1(6,8) Cons.prems(2) after_records_counter [of "wstate k" "length ps"] by simp
  obtain ns k2 qs p2 where 2: "write_each cs T bufs k1 = (Ok ns, k2)" "length ns = length bufs"
    "\<forall>i < length bufs. ns ! i \<le> length (bufs ! i) \<and> (bufs ! i \<noteq> [] \<longrightarrow> 0 < ns ! i)"
    "writing cs k2 p2" "p1 @ accepted ns bufs = concat qs @ p2" "length qs \<le> length bufs" "payloads_fit k1 qs"
    "wstate k2 = after_records (wstate k1) (length qs)" "same_reading k1 k2"
    "sent (tc_delegate k2) = sent (tc_delegate k1) @ app_records cs seal (wstate k1) qs"
    "stream (tc_delegate k2) = stream (tc_delegate k1)" "good (tc_delegate k2)"
    using Cons.IH [OF 1(4) c2 1(12)] by blast
  have "p @ accepted (n # ns) (b # bufs) = concat (ps @ qs) @ p2"
    using 1(5) 2(5) by (simp add: accepted_def flip: append_assoc) (simp add: accepted_def)
  moreover have "\<forall>i < length (b # bufs). (n # ns) ! i \<le> length ((b # bufs) ! i) \<and> ((b # bufs) ! i \<noteq> [] \<longrightarrow> 0 < (n # ns) ! i)"
    using 1(2,3) 2(3) by (auto simp: nth_Cons split: nat.splits)
  moreover have "length (ps @ qs) \<le> length (b # bufs)" using 1(6) 2(6) by simp
  ultimately show ?case
    using 1(1,7,8,10,11) 2(1,2,4,7,8,10,11,12) same_reading_trans [OF 1(9) 2(9)] payloads_fit_same [OF 1(9)]
    by (intro exI [of _ "n # ns"] exI [of _ k2] exI [of _ "ps @ qs"] exI [of _ p2])
      (simp add: bnd_def app_records_append after_records_add)
qed

text \<open>Flushing empties the buffer; nothing is sent when no record is open.\<close>

lemma flush_writing:
  assumes laws: "aead_laws cs seal" "8 \<le> IvLen cs" "TagSize cs < TLS_RECORD_OVERHEAD"
    and k: "writing cs k p" "unat (counter (wstate k)) + 1 < 2 ^ 64" "good (tc_delegate k)"
  shows "\<exists>k' ps. TlsConnection_flush cs T k = (Ok (), k') \<and> writing cs k' [] \<and> wb_idle (tc_record_write_buf k') \<and>
    ps = (if wb_idle (tc_record_write_buf k) then [] else [p]) \<and> concat ps = p \<and> payloads_fit k ps \<and>
    wstate k' = after_records (wstate k) (length ps) \<and> same_reading k k' \<and>
    sent (tc_delegate k') = sent (tc_delegate k) @ app_records cs seal (wstate k) ps \<and>
    stream (tc_delegate k') = stream (tc_delegate k) \<and> good (tc_delegate k')"
proof (cases "wb_idle (tc_record_write_buf k)")
  case True
  then have "p = []" using k(1) by (auto simp: writing_def wb_idle_def wb_holds_def)
  with True k show ?thesis
    by (intro exI [of _ k] exI [of _ "[]"]) (simp add: TlsConnection_flush_def wb_is_empty_def wb_idle_def same_reading_refl payloads_fit_def)
next
  case False
  then have h: "wb_holds (tc_record_write_buf k) RH_ApplicationData p" using k(1) by (simp add: writing_def)
  obtain k' where k': "TlsConnection_flush cs T k = (Ok (), k')" "wb_idle (tc_record_write_buf k')"
    "length (wb_buffer (tc_record_write_buf k')) = length (wb_buffer (tc_record_write_buf k))"
    "wstate k' = next_counter (wstate k)" "same_reading k k'"
    "sent (tc_delegate k') = sent (tc_delegate k) @ sealed_record cs seal (wstate k) (p @ [23])"
    "stream (tc_delegate k') = stream (tc_delegate k)" "good (tc_delegate k')"
    using flush_sends [OF laws h _ _ k(2,3)] k(1) by (auto simp: writing_def)
  then have "writing cs k' []" using k(1) by (simp add: writing_def same_reading_def next_counter_def)
  moreover have "payloads_fit k [p]" using k(1) by (simp add: writing_def payloads_fit_def)
  ultimately show ?thesis using k' False by (intro exI [of _ k'] exI [of _ "[p]"]) simp
qed

text \<open>Writes and a flush.\<close>

lemma writes_flush_payloads:
  assumes laws: "aead_laws cs seal" "8 \<le> IvLen cs" "TagSize cs < TLS_RECORD_OVERHEAD"
    and k: "writing cs k []" "unat (counter (wstate k)) + length bufs + 1 < 2 ^ 64" "good (tc_delegate k)"
  shows "\<exists>ns k1 k2 ps. write_each cs T bufs k = (Ok ns, k1) \<and> TlsConnection_flush cs T k1 = (Ok (), k2) \<and>
    length ns = length bufs \<and> (\<forall>i < length bufs. ns ! i \<le> length (bufs ! i) \<and> (bufs ! i \<noteq> [] \<longrightarrow> 0 < ns ! i)) \<and>
    concat ps = accepted ns bufs \<and> payloads_fit k ps \<and> length ps \<le> length bufs + 1 \<and>
    sent (tc_delegate k2) = sent (tc_delegate k) @ app_records cs seal (wstate k) ps \<and>
    wstate k2 = after_records (wstate k) (length ps) \<and> writing cs k2 [] \<and> same_reading k k2 \<and>
    stream (tc_delegate k2) = stream (tc_delegate k) \<and> good (tc_delegate k2)"
proof -
  have c: "unat (counter (wstate k)) + length bufs < 2 ^ 64" using k(2) by simp
  obtain ns k1 ps p where 1: "write_each cs T bufs k = (Ok ns, k1)" "length ns = length bufs"
    "\<forall>i < length bufs. ns ! i \<le> length (bufs ! i) \<and> (bufs ! i \<noteq> [] \<longrightarrow> 0 < ns ! i)"
    "writing cs k1 p" "accepted ns bufs = concat ps @ p" "length ps \<le> length bufs" "payloads_fit k ps"
    "wstate k1 = after_records (wstate k) (length ps)" "same_reading k k1"
    "sent (tc_delegate k1) = sent (tc_delegate k) @ app_records cs seal (wstate k) ps"
    "stream (tc_delegate k1) = stream (tc_delegate k)" "good (tc_delegate k1)"
    using writes_send [OF laws k(1) c k(3)] by auto
  have c1: "unat (counter (wstate k1)) + 1 < 2 ^ 64"
    using 1(6,8) k(2) after_records_counter [of "wstate k" "length ps"] by simp
  obtain k2 qs where 2: "TlsConnection_flush cs T k1 = (Ok (), k2)" "writing cs k2 []" "wb_idle (tc_record_write_buf k2)"
    "qs = (if wb_idle (tc_record_write_buf k1) then [] else [p])" "concat qs = p" "payloads_fit k1 qs"
    "wstate k2 = after_records (wstate k1) (length qs)" "same_reading k1 k2"
    "sent (tc_delegate k2) = sent (tc_delegate k1) @ app_records cs seal (wstate k1) qs"
    "stream (tc_delegate k2) = stream (tc_delegate k1)" "good (tc_delegate k2)"
    using flush_writing [OF laws 1(4) c1 1(12)] by blast
  have "length (ps @ qs) \<le> length bufs + 1" using 1(6) 2(4) by simp
  moreover have "concat (ps @ qs) = accepted ns bufs" using 1(5) 2(5) by simp
  moreover have "payloads_fit k (ps @ qs)" using 1(7) 2(6) payloads_fit_same [OF 1(9)] by simp
  ultimately show ?thesis
    using 1(1-3,8,10,11) 2(1,2,7,9-11) same_reading_trans [OF 1(9) 2(8)]
    by (intro exI [of _ ns] exI [of _ k1] exI [of _ k2] exI [of _ "ps @ qs"])
      (simp add: app_records_append after_records_add del: concat_append)
qed

lemma written_payloads:
  assumes laws: "aead_laws cs seal" "8 \<le> IvLen cs" "TagSize cs < TLS_RECORD_OVERHEAD"
    and k: "writing cs k []" "unat (counter (wstate k)) + length bufs + 1 < 2 ^ 64" "good (tc_delegate k)"
    and w: "write_each cs T bufs k = (Ok ns, k1)" "TlsConnection_flush cs T k1 = (Ok (), k2)"
  shows "\<exists>ps. concat ps = accepted ns bufs \<and> payloads_fit k ps \<and> length ps \<le> length bufs + 1 \<and>
    sent (tc_delegate k2) = sent (tc_delegate k) @ app_records cs seal (wstate k) ps"
  using writes_flush_payloads [OF laws k] w by auto

lemma writes_then_flush:
  assumes laws: "aead_laws cs seal" "8 \<le> IvLen cs" "TagSize cs < TLS_RECORD_OVERHEAD"
    and k: "writing cs k []" "unat (counter (wstate k)) + length bufs + 1 < 2 ^ 64" "good (tc_delegate k)"
  shows "\<exists>ns k1 k2 ps. write_each cs T bufs k = (Ok ns, k1) \<and> TlsConnection_flush cs T k1 = (Ok (), k2) \<and>
    length ns = length bufs \<and> (\<forall>i < length bufs. ns ! i \<le> length (bufs ! i) \<and> (bufs ! i \<noteq> [] \<longrightarrow> 0 < ns ! i)) \<and>
    concat ps = accepted ns bufs \<and> payloads_fit k ps \<and>
    sent (tc_delegate k2) = sent (tc_delegate k) @ app_records cs seal (wstate k) ps \<and>
    wstate k2 = after_records (wstate k) (length ps) \<and> writing cs k2 [] \<and> same_reading k k2 \<and>
    stream (tc_delegate k2) = stream (tc_delegate k) \<and> good (tc_delegate k2)"
  using writes_flush_payloads [OF assms] by blast

text \<open>Closing sends what is buffered and then the protected \<open>close_notify\<close>.\<close>

lemma close_sends:
  assumes laws: "aead_laws cs seal" "8 \<le> IvLen cs" "TagSize cs + 3 \<le> TLS_RECORD_OVERHEAD"
    and k: "writing cs k p" "unat (counter (wstate k)) + 2 < 2 ^ 64" "good (tc_delegate k)"
    and ps: "ps = (if wb_idle (tc_record_write_buf k) then [] else [p])"
  shows "\<exists>t'. TlsConnection_close cs T k = Ok t' \<and>
    sent t' = sent (tc_delegate k) @ app_records cs seal (wstate k) ps @
      sealed_record cs seal (after_records (wstate k) (length ps)) ([1, 0] @ [21]) \<and>
    stream t' = stream (tc_delegate k)"
proof -
  have tag: "TagSize cs < TLS_RECORD_OVERHEAD" using laws(3) by simp
  have c1: "unat (counter (wstate k)) + 1 < 2 ^ 64" using k(2) by simp
  obtain k1 where k1: "TlsConnection_flush cs T k = (Ok (), k1)" "writing cs k1 []" "wb_idle (tc_record_write_buf k1)"
    "wstate k1 = after_records (wstate k) (length ps)" "same_reading k k1"
    "sent (tc_delegate k1) = sent (tc_delegate k) @ app_records cs seal (wstate k) ps"
    "stream (tc_delegate k1) = stream (tc_delegate k)" "good (tc_delegate k1)"
    using flush_writing [OF laws(1,2) tag k(1) c1 k(3)] ps by blast
  let ?wks = "client_state (tc_key_schedule k1)" and ?h = "transcript_hash (server_state (tc_key_schedule k1))"
  let ?rec = "CR_Alert (Alert_new AL_Warning AD_CloseNotify) True :: unit ClientRecord"
  have o: "tc_opened k1" and iv: "length (enc_iv (w_state ?wks)) = IvLen cs"
    and l: "8 + TagSize cs \<le> length (wb_buffer (tc_record_write_buf k1))"
    using k1(2) laws(3) by (simp_all add: writing_def TLS_RECORD_OVERHEAD_def)
  obtain w' where w': "write_record cs (\<lambda>_. []) ?rec ?wks (tc_record_write_buf k1, Some ?h) =
      (Ok (sealed_record cs seal (wstate k1) ([1, 0] @ [21])), w', Some ?h)"
    using write_alert_sealed [OF laws(1) iv laws(2) k1(3) l, of "\<lambda>_. []" "Alert_new AL_Warning AD_CloseNotify" ?h]
    by (auto simp: Alert_wire_def Alert_new_def)
  let ?tx = "sealed_record cs seal (wstate k1) ([1, 0] @ [21])"
  obtain t1 where 1: "t_write_all T ?tx (tc_delegate k1) = (Ok (), t1)" "stream t1 = stream (tc_delegate k1)"
    "sent t1 = sent (tc_delegate k1) @ ?tx" "good t1" using write_some [OF k1(8)] by blast
  obtain t2 where 2: "t_flush T t1 = (Ok (), t2)" "stream t2 = stream t1" "sent t2 = sent t1"
    using flush_some [OF 1(4)] by blast
  have "length ps \<le> 1" using ps by simp
  then have c: "unat (counter (wstate k1)) + 1 < 2 ^ 64"
    using k1(4) k(2) after_records_counter [of "wstate k" "length ps"] by simp
  have "\<exists>k'. TlsConnection_close_internal cs T k = (Ok (), k') \<and> tc_delegate k' = t2"
    using k1(1) o w' 1(1) 2(1) c
    by (simp add: TlsConnection_close_internal_def bnd_def tc_write_record_def ClientRecord_close_notify_def
        zoom_def map_err_def write_increment_counter_def state_increment_counter_def replace_transcript_hash_def
        TlsConnection_flush_transport_def)
  then have "TlsConnection_close cs T k = Ok t2" by (auto simp: TlsConnection_close_def)
  with 1 2 k1(4,6,7) show ?thesis by simp
qed

end

end
