(* ===== verification/Blocking_Reads.thy ===== *)
theory Blocking_Reads
  imports Blocking_Writes
begin

text \<open>
  What the reading side of an open connection (\<open>read\<close>, \<open>read_buffered\<close>, \<open>read_application_data\<close> of
  \<open>src/src/blocking.rs\<close>) delivers. When the stream holds application data records under
  consecutive sequence numbers, reads return their payloads in order, however the records and
  the buffers of the caller cut them.
\<close>

section \<open>An open connection\<close>

abbreviation rstate :: "('t, 'h, 'k) TlsConnection \<Rightarrow> 'k KeyScheduleState" where
  "rstate k \<equiv> r_state (server_state (tc_key_schedule k))"

abbreviation read_mem :: "('t, 'h, 'k) TlsConnection \<Rightarrow> bytes" where
  "read_mem k \<equiv> rr_buf (tc_record_reader k)"

text \<open>\<open>reading cs k p\<close>: the connection is open and the decrypted bytes \<open>p\<close> are not read yet.\<close>

definition reading :: "('h, 'k) TlsCipherSuite \<Rightarrow> ('t, 'h, 'k) TlsConnection \<Rightarrow> bytes \<Rightarrow> bool" where
  "reading cs k p \<longleftrightarrow> tc_opened k \<and> rr_ok (tc_record_reader k) \<and> rr_pending (tc_record_reader k) = 0 \<and>
     di_ok (read_mem k) (tc_decrypted k) \<and> di_left (read_mem k) (tc_decrypted k) = p \<and>
     length (enc_iv (rstate k)) = IvLen cs"

text \<open>Payloads whose records fit into a read buffer of the given size.\<close>

definition records_fit :: "('h, 'k) TlsCipherSuite \<Rightarrow> nat \<Rightarrow> bytes list \<Rightarrow> bool" where
  "records_fit cs room ps \<longleftrightarrow> list_all (\<lambda>p. length p + 1 + TagSize cs \<le> room \<and> length p + 1 + TagSize cs < 65536) ps"

text \<open>What reading leaves alone.\<close>

definition same_writing :: "('t, 'h, 'k) TlsConnection \<Rightarrow> ('t, 'h, 'k) TlsConnection \<Rightarrow> bool" where
  "same_writing k k' \<longleftrightarrow> tc_record_write_buf k' = tc_record_write_buf k \<and> tc_flush_policy k' = tc_flush_policy k \<and>
     client_state (tc_key_schedule k') = client_state (tc_key_schedule k) \<and>
     length (read_mem k') = length (read_mem k)"

lemma same_writing_refl: "same_writing k k"
  by (simp add: same_writing_def)

lemma same_writing_trans: "same_writing k k' \<Longrightarrow> same_writing k' k'' \<Longrightarrow> same_writing k k''"
  by (simp add: same_writing_def)

lemma same_writing_length: "same_writing k k' \<Longrightarrow> length (read_mem k') = length (read_mem k)"
  by (simp add: same_writing_def)

text \<open>A list of reads into buffers of the caller; the result of each is the filled part.\<close>

fun read_each ::
  "('h, 'k) TlsCipherSuite \<Rightarrow> 't Transport \<Rightarrow> bytes list \<Rightarrow> ('t, 'h, 'k) TlsConnection \<Rightarrow>
     ((bytes list, TlsError) result \<times> ('t, 'h, 'k) TlsConnection) option" where
  "read_each cs T [] k = Some (Ok [], k)"
| "read_each cs T (buf # bufs) k = (case TlsConnection_read cs T buf k of
     Some (Ok (n, filled), k') \<Rightarrow>
       (case read_each cs T bufs k' of
          Some (Ok xs, k'') \<Rightarrow> Some (Ok (take n filled # xs), k'')
        | x \<Rightarrow> x)
   | Some (Err e, k') \<Rightarrow> Some (Err e, k')
   | Some (Panic, k') \<Rightarrow> Some (Panic, k')
   | None \<Rightarrow> None)"

lemma handler_application_data:
  assumes "cb_ok d" "cb_view d = p" "app_base ad + cb_offset d + cb_len d < n"
  shows "handler_cb n (SR_ApplicationData (ad\<lparr>app_data := d\<rparr>)) (rks, i, opened) =
    (Ok (), rks, i\<lparr>di_offset := app_base ad + cb_offset d, di_len := length p, di_consumed := 0\<rparr>, opened)"
  using assms cb_view_length [OF assms(1)]
  by (simp add: handler_cb_def DecryptedReadHandler_handle_def Let_def)

lemma close_notify_parses:
  "fst (Alert_parse (pb_new [1, 0])) = Ok \<lparr>alert_level = AL_Warning, alert_description = AD_CloseNotify\<rparr>"
  "fst (Alert_parse (pb_new [2, 0])) = Ok \<lparr>alert_level = AL_Fatal, alert_description = AD_CloseNotify\<rparr>"
  by code_simp+

context duplex
begin

lemma protected_record_reads:
  assumes t: "good t" "stream t = record_header 23 v1 v2 payload @ payload @ rest" "length payload < 65536"
    and r: "rr_ok r" "rr_pending r = 0" "length payload \<le> length (rr_buf r)"
  shows "\<exists>t' rr base. read_blocking cs (t_read T) (r, t, rks) =
      (Ok (SR_ApplicationData \<lparr>app_header = RecordHeader (record_header 23 v1 v2 payload),
         app_data = cb_wrap_with_pos payload (length payload), app_base = base\<rparr>), rr, t', rks) \<and>
    rr_ok rr \<and> rr_pending rr = 0 \<and> length (rr_buf rr) = length (rr_buf r) \<and> base + length payload \<le> length (rr_buf r) \<and>
    stream t' = rest \<and> sent t' = sent t \<and> good t'"
proof -
  have ct: "ContentType_of 23 = Some CT_ApplicationData" by (simp add: ContentType_of_def)
  define base where "base = (if length (rr_buf r) < rr_decoded r + length payload then 0 else rr_decoded r)"
  have b: "base + length payload \<le> length (rr_buf r)" using r by (auto simp: base_def rr_ok_def)
  let ?rr = "\<lparr>rr_buf = write_at (rr_buf r) base payload, rr_decoded = base + length payload, rr_pending = 0\<rparr>"
  obtain t' where t': "read_blocking cs (t_read T) (r, t, rks) =
      (Ok (SR_ApplicationData \<lparr>app_header = RecordHeader (record_header 23 v1 v2 payload),
         app_data = cb_wrap_with_pos payload (length payload), app_base = base\<rparr>), ?rr, t', rks)"
    "stream t' = rest" "good t'"
    using read_record [OF t(1,2) record_header_length record_header_decodes [OF ct] record_header_content_length [OF t(3)] r base_def, of cs rks]
    by (auto simp: decode_protected_record [OF t(3)])
  have "sent t' = sent t"
    by (rule read_blocking_keeps [OF _ _ t'(1), where I = "\<lambda>u. sent u = sent t"])
      (use read_keeps_sent in \<open>metis surjective_pairing\<close>, simp)
  with t' b show ?thesis by (intro exI [of _ t'] exI [of _ ?rr] exI [of _ base]) (simp add: rr_ok_def)
qed

text \<open>One protected record: it is taken off the stream and opened, and its content goes to the handling of its
  type.\<close>

lemma sealed_record_opens:
  assumes laws: "aead_laws cs seal" "8 \<le> IvLen cs"
    and k: "reading cs k q" "good (tc_delegate k)" "ct \<noteq> CT_Invalid"
    and s: "stream (tc_delegate k) = sealed_record cs seal (rstate k) (content @ [ContentType_as_u8 ct]) @ rest"
    and fit: "records_fit cs (length (read_mem k)) [content]"
  obtains ad d rr t' where
    "read_blocking cs (t_read T) (tc_record_reader k, tc_delegate k, server_state (tc_key_schedule k)) =
      (Ok (SR_ApplicationData ad), rr, t', server_state (tc_key_schedule k))"
    "rr_ok rr" "rr_pending rr = 0" "length (rr_buf rr) = length (read_mem k)"
    "stream t' = rest" "sent t' = sent (tc_delegate k)" "good t'"
    "cb_ok d" "cb_view d = content" "cb_offset d = 0" "cb_len d < length (cb_buf d)"
    "app_base ad + length (cb_buf d) \<le> length (read_mem k)"
    "decrypt_record cs (SR_ApplicationData ad) (handler_cb (length (read_mem k)))
        (rr_buf rr, server_state (tc_key_schedule k), tc_decrypted k, tc_opened k) =
      (case dispatch_inner cs (handler_cb (length (read_mem k))) ad ct d (server_state (tc_key_schedule k), tc_decrypted k, tc_opened k) of
         (Ok _, rks', u') \<Rightarrow> (case read_increment_counter rks' of (r, rks'') \<Rightarrow> (r, app_store ad d (rr_buf rr), rks'', u'))
       | (Err e, rks', u') \<Rightarrow> (Err e, app_store ad d (rr_buf rr), rks', u')
       | (Panic, rks', u') \<Rightarrow> (Panic, app_store ad d (rr_buf rr), rks', u'))"
proof -
  let ?rks = "server_state (tc_key_schedule k)" and ?n = "length (read_mem k)" and ?c = "content @ [ContentType_as_u8 ct]"
  obtain payload where p: "sealed_record cs seal (rstate k) ?c = record_header 23 3 3 payload @ payload"
    "payload = seal (enc_key (rstate k)) (rfc_nonce (counter (rstate k)) (enc_iv (rstate k))) (record_header 23 3 3 payload) ?c"
    "length payload = length ?c + TagSize cs"
    using sealed_record_split [OF laws(1), of "rstate k" ?c] .
  have st: "stream (tc_delegate k) = record_header 23 3 3 payload @ payload @ rest" using s p(1) by simp
  have len: "length payload < 65536" "length payload \<le> ?n" using fit p(3) by (simp_all add: records_fit_def)
  have r: "rr_ok (tc_record_reader k)" "rr_pending (tc_record_reader k) = 0"
    "length (enc_iv (rstate k)) = IvLen cs" using k(1) by (simp_all add: reading_def)
  obtain t' rr base where rd: "read_blocking cs (t_read T) (tc_record_reader k, tc_delegate k, ?rks) =
      (Ok (SR_ApplicationData \<lparr>app_header = RecordHeader (record_header 23 3 3 payload),
         app_data = cb_wrap_with_pos payload (length payload), app_base = base\<rparr>), rr, t', ?rks)"
    and rr: "rr_ok rr" "rr_pending rr = 0" "length (rr_buf rr) = ?n" "base + length payload \<le> ?n"
    and t': "stream t' = rest" "sent t' = sent (tc_delegate k)" "good t'"
    using protected_record_reads [OF k(2) st len(1) r(1,2) len(2), of cs ?rks] by blast
  let ?ad = "\<lparr>app_header = RecordHeader (record_header 23 3 3 payload),
         app_data = cb_wrap_with_pos payload (length payload), app_base = base\<rparr>"
  have ad: "cb_ok (app_data ?ad)" "cb_view (app_data ?ad) = payload"
    by (simp_all add: cb_wrap_with_pos_def cb_ok_def cb_view_def slice_of_def)
  have v: "cb_view (app_data ?ad) = seal (enc_key (rstate k)) (rfc_nonce (counter (rstate k)) (enc_iv (rstate k)))
        (header_data (app_header ?ad)) (content @ [ContentType_as_u8 ct] @ replicate 0 0)"
    using ad(2) p(2) by simp
  from decrypt_sealed [OF laws(1) r(3) laws(2) ad(1) k(3) v, of "handler_cb ?n" "rr_buf rr" "(tc_decrypted k, tc_opened k)"]
  obtain d where "cb_ok d" "cb_view d = content" "cb_offset d = 0" "length (cb_buf d) = length payload"
    "cb_len d < length (cb_buf d)"
    "decrypt_record cs (SR_ApplicationData ?ad) (handler_cb ?n) (rr_buf rr, ?rks, tc_decrypted k, tc_opened k) =
      (case dispatch_inner cs (handler_cb ?n) ?ad ct d (?rks, tc_decrypted k, tc_opened k) of
         (Ok _, rks', u') \<Rightarrow> (case read_increment_counter rks' of (r, rks'') \<Rightarrow> (r, app_store ?ad d (rr_buf rr), rks'', u'))
       | (Err e, rks', u') \<Rightarrow> (Err e, app_store ?ad d (rr_buf rr), rks', u')
       | (Panic, rks', u') \<Rightarrow> (Panic, app_store ?ad d (rr_buf rr), rks', u'))"
    by (auto simp: cb_wrap_with_pos_def)
  then show thesis using that [OF rd rr(1-3) t', of d] rr(4) by simp
qed

lemma app_record_reads:
  assumes laws: "aead_laws cs seal" "8 \<le> IvLen cs"
    and k: "reading cs k q" "unat (counter (rstate k)) + 1 < 2 ^ 64" "good (tc_delegate k)"
    and s: "stream (tc_delegate k) = sealed_record cs seal (rstate k) (p @ [23]) @ rest"
    and fit: "records_fit cs (length (read_mem k)) [p]"
  shows "\<exists>k'. TlsConnection_read_application_data cs T k = (Ok (), k') \<and> reading cs k' p \<and> same_writing k k' \<and>
    rstate k' = next_counter (rstate k) \<and> stream (tc_delegate k') = rest \<and>
    sent (tc_delegate k') = sent (tc_delegate k) \<and> good (tc_delegate k')"
proof -
  let ?rks = "server_state (tc_key_schedule k)" and ?n = "length (read_mem k)"
  have nz: "CT_ApplicationData \<noteq> CT_Invalid" by simp
  have s': "stream (tc_delegate k) = sealed_record cs seal (rstate k) (p @ [ContentType_as_u8 CT_ApplicationData]) @ rest"
    using s by simp
  obtain ad d rr t' where rd: "read_blocking cs (t_read T) (tc_record_reader k, tc_delegate k, ?rks) =
      (Ok (SR_ApplicationData ad), rr, t', ?rks)"
    and rr: "rr_ok rr" "rr_pending rr = 0" "length (rr_buf rr) = ?n"
    and t': "stream t' = rest" "sent t' = sent (tc_delegate k)" "good t'"
    and d: "cb_ok d" "cb_view d = p" "cb_offset d = 0" "cb_len d < length (cb_buf d)" "app_base ad + length (cb_buf d) \<le> ?n"
    "decrypt_record cs (SR_ApplicationData ad) (handler_cb ?n) (rr_buf rr, ?rks, tc_decrypted k, tc_opened k) =
      (case dispatch_inner cs (handler_cb ?n) ad CT_ApplicationData d (?rks, tc_decrypted k, tc_opened k) of
         (Ok _, rks', u') \<Rightarrow> (case read_increment_counter rks' of (r, rks'') \<Rightarrow> (r, app_store ad d (rr_buf rr), rks'', u'))
       | (Err e, rks', u') \<Rightarrow> (Err e, app_store ad d (rr_buf rr), rks', u')
       | (Panic, rks', u') \<Rightarrow> (Panic, app_store ad d (rr_buf rr), rks', u'))"
    using sealed_record_opens [OF laws k(1,3) nz s' fit] .
  let ?i = "(tc_decrypted k)\<lparr>di_offset := app_base ad, di_len := length p, di_consumed := 0\<rparr>"
  let ?mem = "write_at (rr_buf rr) (app_base ad) (cb_buf d)" and ?rks' = "?rks\<lparr>r_state := next_counter (rstate k)\<rparr>"
  have lp: "length p = cb_len d" using cb_view_length [OF d(1)] d(2) by simp
  have "dispatch_inner cs (handler_cb ?n) ad CT_ApplicationData d (?rks, tc_decrypted k, tc_opened k) =
      (Ok (), ?rks, ?i, tc_opened k)"
    using handler_application_data [OF d(1,2), of ad ?n ?rks "tc_decrypted k" "tc_opened k"] d(1,3-5)
    by (simp add: dispatch_inner_def)
  then have dec: "decrypt_record cs (SR_ApplicationData ad) (handler_cb ?n) (rr_buf rr, ?rks, tc_decrypted k, tc_opened k) =
      (Ok (), ?mem, ?rks', ?i, tc_opened k)"
    using d(6) k(2) by (simp add: read_increment_counter_def zoom_def state_increment_counter_def next_counter_def app_store_def)
  have lm: "length ?mem = ?n" using rr(3) d(5) by simp
  have pv: "p = take (length p) (cb_buf d)" using d(2,3) lp by (simp add: cb_view_def slice_of_def)
  have "di_left ?mem ?i = p"
    unfolding di_left_def using pv rr(3) d(4,5) lp by (simp add: slice_of_def write_at_def)
  moreover have "di_ok ?mem ?i" using lm d(4,5) lp by (simp add: di_ok_def)
  ultimately show ?thesis
    using rd dec k(1) rr t' lm
    by (intro exI [of _ "k\<lparr>tc_record_reader := rr\<lparr>rr_buf := ?mem\<rparr>, tc_delegate := t',
        tc_key_schedule := (tc_key_schedule k)\<lparr>server_state := ?rks'\<rparr>, tc_decrypted := ?i\<rparr>"])
      (simp add: TlsConnection_read_application_data_def Let_def reading_def same_writing_def next_counter_def rr_ok_def)
qed

text \<open>The peer closes.\<close>

lemma close_notify_reads:
  assumes laws: "aead_laws cs seal" "8 \<le> IvLen cs"
    and k: "reading cs k []" "good (tc_delegate k)"
    and s: "stream (tc_delegate k) = sealed_record cs seal (rstate k) ([lv, 0] @ [21]) @ rest" "lv = 1 \<or> lv = 2"
    and fit: "records_fit cs (length (read_mem k)) [[lv, 0]]"
    and buf: "buf \<noteq> []"
  shows "\<exists>k'. TlsConnection_read cs T buf k = Some (Err ConnectionClosed, k') \<and> \<not> tc_opened k' \<and> same_writing k k' \<and>
    rstate k' = rstate k \<and> stream (tc_delegate k') = rest \<and> sent (tc_delegate k') = sent (tc_delegate k)"
proof -
  let ?rks = "server_state (tc_key_schedule k)" and ?n = "length (read_mem k)"
  have nz: "CT_Alert \<noteq> CT_Invalid" by simp
  have s': "stream (tc_delegate k) = sealed_record cs seal (rstate k) ([lv, 0] @ [ContentType_as_u8 CT_Alert]) @ rest"
    using s(1) by simp
  obtain ad d rr t' where rd: "read_blocking cs (t_read T) (tc_record_reader k, tc_delegate k, ?rks) =
      (Ok (SR_ApplicationData ad), rr, t', ?rks)"
    and rr: "rr_ok rr" "rr_pending rr = 0" "length (rr_buf rr) = ?n"
    and t': "stream t' = rest" "sent t' = sent (tc_delegate k)" "good t'"
    and d: "cb_ok d" "cb_view d = [lv, 0]" "cb_offset d = 0" "cb_len d < length (cb_buf d)" "app_base ad + length (cb_buf d) \<le> ?n"
    "decrypt_record cs (SR_ApplicationData ad) (handler_cb ?n) (rr_buf rr, ?rks, tc_decrypted k, tc_opened k) =
      (case dispatch_inner cs (handler_cb ?n) ad CT_Alert d (?rks, tc_decrypted k, tc_opened k) of
         (Ok _, rks', u') \<Rightarrow> (case read_increment_counter rks' of (r, rks'') \<Rightarrow> (r, app_store ad d (rr_buf rr), rks'', u'))
       | (Err e, rks', u') \<Rightarrow> (Err e, app_store ad d (rr_buf rr), rks', u')
       | (Panic, rks', u') \<Rightarrow> (Panic, app_store ad d (rr_buf rr), rks', u'))"
    using sealed_record_opens [OF laws k nz s' fit] .
  obtain level where a: "fst (Alert_parse (pb_new [lv, 0])) = Ok \<lparr>alert_level = level, alert_description = AD_CloseNotify\<rparr>"
    using s(2) close_notify_parses by blast
  have "dispatch_inner cs (handler_cb ?n) ad CT_Alert d (?rks, tc_decrypted k, tc_opened k) =
      (Err ConnectionClosed, ?rks, tc_decrypted k, False)"
    using d(1,2) a by (simp add: dispatch_inner_def bnd_def handler_cb_def DecryptedReadHandler_handle_def)
  then have dec: "decrypt_record cs (SR_ApplicationData ad) (handler_cb ?n) (rr_buf rr, ?rks, tc_decrypted k, tc_opened k) =
      (Err ConnectionClosed, app_store ad d (rr_buf rr), ?rks, tc_decrypted k, False)"
    using d(6) by simp
  let ?k = "k\<lparr>tc_record_reader := rr\<lparr>rr_buf := app_store ad d (rr_buf rr)\<rparr>, tc_delegate := t', tc_opened := False\<rparr>"
  have "TlsConnection_read_application_data cs T k = (Err ConnectionClosed, ?k)"
    using rd dec by (simp add: TlsConnection_read_application_data_def Let_def)
  moreover have "di_is_empty (tc_decrypted k) = Ok True" "tc_opened k"
    using k(1) di_is_empty_value [of "read_mem k" "tc_decrypted k"] by (simp_all add: reading_def)
  ultimately have "TlsConnection_read cs T buf k = Some (Err ConnectionClosed, ?k)"
    using buf by (simp add: TlsConnection_read_def TlsConnection_read_buffered_def read_loop.simps [of cs T k] with_read_buffer_def)
  moreover have "length (app_store ad d (rr_buf rr)) = ?n" using rr(3) d(5) by (simp add: app_store_def)
  ultimately show ?thesis using t' by (intro exI [of _ ?k]) (simp add: same_writing_def)
qed

text \<open>Of the handshake messages that may follow the handshake, only a ticket is handled.\<close>

lemma other_message_panics:
  assumes laws: "aead_laws cs seal" "8 \<le> IvLen cs"
    and k: "reading cs k []" "good (tc_delegate k)"
    and s: "stream (tc_delegate k) = sealed_record cs seal (rstate k) (w @ [22]) @ rest"
    and m: "parses (ServerHandshake_parse cs) w m" "\<forall>t. m \<noteq> SH_NewSessionTicket t"
    and fit: "records_fit cs (length (read_mem k)) [w]"
    and buf: "buf \<noteq> []"
  shows "\<exists>k'. TlsConnection_read cs T buf k = Some (Panic, k')"
proof -
  let ?rks = "server_state (tc_key_schedule k)" and ?n = "length (read_mem k)"
  have nz: "CT_Handshake \<noteq> CT_Invalid" by simp
  have s': "stream (tc_delegate k) = sealed_record cs seal (rstate k) (w @ [ContentType_as_u8 CT_Handshake]) @ rest"
    using s by simp
  obtain ad d rr t' where rd: "read_blocking cs (t_read T) (tc_record_reader k, tc_delegate k, ?rks) =
      (Ok (SR_ApplicationData ad), rr, t', ?rks)"
    and rr: "rr_ok rr" "rr_pending rr = 0" "length (rr_buf rr) = ?n"
    and t': "stream t' = rest" "sent t' = sent (tc_delegate k)" "good t'"
    and d: "cb_ok d" "cb_view d = w" "cb_offset d = 0" "cb_len d < length (cb_buf d)" "app_base ad + length (cb_buf d) \<le> ?n"
    "decrypt_record cs (SR_ApplicationData ad) (handler_cb ?n) (rr_buf rr, ?rks, tc_decrypted k, tc_opened k) =
      (case dispatch_inner cs (handler_cb ?n) ad CT_Handshake d (?rks, tc_decrypted k, tc_opened k) of
         (Ok _, rks', u') \<Rightarrow> (case read_increment_counter rks' of (r, rks'') \<Rightarrow> (r, app_store ad d (rr_buf rr), rks'', u'))
       | (Err e, rks', u') \<Rightarrow> (Err e, app_store ad d (rr_buf rr), rks', u')
       | (Panic, rks', u') \<Rightarrow> (Panic, app_store ad d (rr_buf rr), rks', u'))"
    using sealed_record_opens [OF laws k nz s' fit] .
  have h: "\<forall>t. with_hash cs h m \<noteq> SH_NewSessionTicket t" for h
    using m(2) by (auto simp: with_hash_def split: ServerHandshake.splits)
  have "fst (run_flight cs (handler_cb ?n) [(w, m)] (?rks, tc_decrypted k, tc_opened k)) = Panic"
    using h by (auto simp: bnd_def handler_cb_def DecryptedReadHandler_handle_def split: ServerHandshake.splits)
  moreover have "dispatch_inner cs (handler_cb ?n) ad CT_Handshake d (?rks, tc_decrypted k, tc_opened k) =
      run_flight cs (handler_cb ?n) [(w, m)] (?rks, tc_decrypted k, tc_opened k)"
    using d(1,2) handshake_loop_flight [of "[(w, m)]" cs "handler_cb ?n" "[]"] m(1) by (simp add: dispatch_inner_def pb_new_def)
  ultimately have "fst (decrypt_record cs (SR_ApplicationData ad) (handler_cb ?n) (rr_buf rr, ?rks, tc_decrypted k, tc_opened k)) = Panic"
    using d(6) by (auto split: prod.splits result.splits)
  then obtain mem rks' i o' where "decrypt_record cs (SR_ApplicationData ad) (handler_cb ?n)
      (rr_buf rr, ?rks, tc_decrypted k, tc_opened k) = (Panic, mem, rks', i, o')" by (metis prod.exhaust fst_conv)
  then obtain k' where "TlsConnection_read_application_data cs T k = (Panic, k')"
    using rd by (simp add: TlsConnection_read_application_data_def Let_def)
  moreover have "di_is_empty (tc_decrypted k) = Ok True" "tc_opened k"
    using k(1) di_is_empty_value [of "read_mem k" "tc_decrypted k"] by (simp_all add: reading_def)
  ultimately show ?thesis
    using buf by (simp add: TlsConnection_read_def TlsConnection_read_buffered_def read_loop.simps [of cs T k] with_read_buffer_def)
qed

text \<open>The loop skips empty records and stops at the first that holds data.\<close>

lemma read_loop_delivers:
  assumes laws: "aead_laws cs seal" "8 \<le> IvLen cs"
    and "reading cs k q" "unat (counter (rstate k)) + length ps < 2 ^ 64" "good (tc_delegate k)"
    and "stream (tc_delegate k) = app_records cs seal (rstate k) ps @ rest"
    and "records_fit cs (length (read_mem k)) ps" "q @ concat ps \<noteq> []"
  shows "\<exists>k' q' ps'. read_loop cs T k = Some (Ok (), k') \<and> reading cs k' q' \<and> q' \<noteq> [] \<and>
    q @ concat ps = q' @ concat ps' \<and> (\<exists>qs. ps = qs @ ps' \<and> rstate k' = after_records (rstate k) (length qs)) \<and>
    same_writing k k' \<and> sent (tc_delegate k') = sent (tc_delegate k) \<and>
    stream (tc_delegate k') = app_records cs seal (rstate k') ps' @ rest \<and> good (tc_delegate k')"
  using assms(3-)
proof (induction ps arbitrary: k q)
  case Nil
  then have "di_is_empty (tc_decrypted k) = Ok False"
    using di_is_empty_value [of "read_mem k" "tc_decrypted k"] by (simp add: reading_def)
  then show ?case using Nil
    by (intro exI [of _ k] exI [of _ q] exI [of _ "[]"]) (simp add: read_loop.simps same_writing_refl)
next
  case (Cons p ps)
  have e: "di_is_empty (tc_decrypted k) = Ok (q = [])"
    using Cons.prems(1) di_is_empty_value [of "read_mem k" "tc_decrypted k"] by (simp add: reading_def)
  show ?case
  proof (cases "q = []")
    case False
    with e Cons.prems show ?thesis
      by (intro exI [of _ k] exI [of _ q] exI [of _ "p # ps"]) (simp add: read_loop.simps same_writing_refl)
  next
    case True
    have fit: "records_fit cs (length (read_mem k)) [p]" "records_fit cs (length (read_mem k)) ps"
      using Cons.prems(5) by (simp_all add: records_fit_def)
    obtain k1 where k1: "TlsConnection_read_application_data cs T k = (Ok (), k1)" "reading cs k1 p" "same_writing k k1"
      "rstate k1 = next_counter (rstate k)" "stream (tc_delegate k1) = app_records cs seal (next_counter (rstate k)) ps @ rest"
      "sent (tc_delegate k1) = sent (tc_delegate k)" "good (tc_delegate k1)"
      using app_record_reads [OF laws Cons.prems(1) _ Cons.prems(3) _ fit(1), of "app_records cs seal (next_counter (rstate k)) ps @ rest"]
        Cons.prems(2,4) by auto
    have c: "unat (counter (rstate k1)) + length ps < 2 ^ 64"
      using after_records_counter [of "rstate k" 1] Cons.prems(2) k1(4) by simp
    obtain k2 q' ps' qs where 2: "read_loop cs T k1 = Some (Ok (), k2)" "reading cs k2 q'" "q' \<noteq> []"
      "p @ concat ps = q' @ concat ps'" "ps = qs @ ps'" "rstate k2 = after_records (rstate k1) (length qs)"
      "same_writing k1 k2" "sent (tc_delegate k2) = sent (tc_delegate k1)"
      "stream (tc_delegate k2) = app_records cs seal (rstate k2) ps' @ rest" "good (tc_delegate k2)"
      using Cons.IH [OF k1(2) c k1(7)] k1(4,5) same_writing_length [OF k1(3)] fit(2) Cons.prems(6) True by auto
    have "read_loop cs T k = Some (Ok (), k2)" using e True k1(1) 2(1) by (simp add: read_loop.simps [of cs T k])
    moreover have "p # ps = (p # qs) @ ps' \<and> rstate k2 = after_records (rstate k) (length (p # qs))"
      using 2(5,6) k1(4) by simp
    ultimately show ?thesis
      using 2 k1(6) True same_writing_trans [OF k1(3) 2(7)]
      by (intro exI [of _ k2] exI [of _ q'] exI [of _ ps']) auto
  qed
qed

lemma read_delivers:
  assumes laws: "aead_laws cs seal" "8 \<le> IvLen cs"
    and k: "reading cs k q" "unat (counter (rstate k)) + length ps < 2 ^ 64" "good (tc_delegate k)"
      "stream (tc_delegate k) = app_records cs seal (rstate k) ps @ rest"
      "records_fit cs (length (read_mem k)) ps" "q @ concat ps \<noteq> []"
    and buf: "buf \<noteq> []"
  shows "\<exists>n k' q' ps'. TlsConnection_read cs T buf k = Some (Ok (n, write_at buf 0 (take n (q @ concat ps))), k') \<and>
    0 < n \<and> n \<le> length buf \<and> n \<le> length (q @ concat ps) \<and> reading cs k' q' \<and>
    drop n (q @ concat ps) = q' @ concat ps' \<and> (\<exists>qs. ps = qs @ ps' \<and> rstate k' = after_records (rstate k) (length qs)) \<and>
    same_writing k k' \<and> sent (tc_delegate k') = sent (tc_delegate k) \<and>
    stream (tc_delegate k') = app_records cs seal (rstate k') ps' @ rest \<and> good (tc_delegate k')"
proof -
  obtain k1 q1 ps' qs where 1: "read_loop cs T k = Some (Ok (), k1)" "reading cs k1 q1" "q1 \<noteq> []"
    "q @ concat ps = q1 @ concat ps'" "ps = qs @ ps'" "rstate k1 = after_records (rstate k) (length qs)"
    "same_writing k k1" "sent (tc_delegate k1) = sent (tc_delegate k)"
    "stream (tc_delegate k1) = app_records cs seal (rstate k1) ps' @ rest" "good (tc_delegate k1)"
    using read_loop_delivers [OF laws k] by blast
  let ?n = "min (length q1) (length buf)"
  let ?b = "\<lparr>rb_data = q1, rb_consumed = ?n, rb_used = True\<rparr>"
  have i: "di_ok (read_mem k1) (tc_decrypted k1)" "di_left (read_mem k1) (tc_decrypted k1) = q1"
    using 1(2) by (simp_all add: reading_def)
  have o: "tc_opened k" using k(1) by (simp add: reading_def)
  have c: "TlsConnection_create_read_buffer k1 = Ok (ReadBuffer_new q1)"
    using di_create_value [OF i(1)] i(2) by (simp add: TlsConnection_create_read_buffer_def)
  have r: "TlsConnection_read cs T buf k = Some (Ok (?n, write_at buf 0 (take (length buf) q1)), drop_read_buffer ?b k1)"
    using buf o 1(1) c by (simp add: TlsConnection_read_def TlsConnection_read_buffered_def with_read_buffer_def pop_into_value)
  have d: "drop_read_buffer ?b k1 = k1\<lparr>tc_decrypted := (tc_decrypted k1)\<lparr>di_consumed := di_consumed (tc_decrypted k1) + ?n\<rparr>\<rparr>"
    by (simp add: drop_read_buffer_def rb_drop_def)
  have a: "di_ok (read_mem k1) ((tc_decrypted k1)\<lparr>di_consumed := di_consumed (tc_decrypted k1) + ?n\<rparr>)"
    "di_left (read_mem k1) ((tc_decrypted k1)\<lparr>di_consumed := di_consumed (tc_decrypted k1) + ?n\<rparr>) = drop ?n q1"
    using di_advance [OF i(1), of ?n] i(2) by simp_all
  have "reading cs (drop_read_buffer ?b k1) (drop ?n q1)"
    using 1(2) a unfolding d by (simp add: reading_def)
  moreover have "take (length buf) q1 = take ?n (q @ concat ps)" unfolding 1(4) by (simp add: min_def)
  moreover have "drop ?n (q @ concat ps) = drop ?n q1 @ concat ps'" unfolding 1(4) by simp
  moreover have "0 < ?n" using 1(3) buf by simp
  moreover have "?n \<le> length (q @ concat ps)" unfolding 1(4) by simp
  ultimately show ?thesis
    using r 1(5-) by (intro exI [of _ ?n] exI [of _ "drop_read_buffer ?b k1"] exI [of _ "drop ?n q1"] exI [of _ ps'])
      (auto simp: d same_writing_def)
qed

lemma reads_deliver:
  assumes laws: "aead_laws cs seal" "8 \<le> IvLen cs"
    and "reading cs k q" "unat (counter (rstate k)) + length ps < 2 ^ 64" "good (tc_delegate k)"
      "stream (tc_delegate k) = app_records cs seal (rstate k) ps @ rest" "records_fit cs (length (read_mem k)) ps"
    and "list_all (\<lambda>buf. buf \<noteq> []) bufs" "sum_list (map length bufs) \<le> length (q @ concat ps)"
  shows "\<exists>xs k' q' ps'. read_each cs T bufs k = Some (Ok xs, k') \<and> length xs = length bufs \<and>
    (\<forall>i < length bufs. xs ! i \<noteq> [] \<and> length (xs ! i) \<le> length (bufs ! i)) \<and>
    q @ concat ps = concat xs @ q' @ concat ps' \<and> reading cs k' q' \<and> same_writing k k' \<and>
    sent (tc_delegate k') = sent (tc_delegate k) \<and>
    stream (tc_delegate k') = app_records cs seal (rstate k') ps' @ rest \<and> good (tc_delegate k')"
  using assms(3-)
proof (induction bufs arbitrary: k q ps)
  case Nil
  then show ?case
    by (intro exI [of _ "[]"] exI [of _ k] exI [of _ q] exI [of _ ps]) (simp add: same_writing_refl)
next
  case (Cons buf bufs)
  have b: "buf \<noteq> []" using Cons.prems(6) by simp
  have ne: "q @ concat ps \<noteq> []" using Cons.prems(7) b by (cases "q @ concat ps") (simp_all del: append_is_Nil_conv)
  obtain n k1 q1 ps1 qs where 1: "TlsConnection_read cs T buf k = Some (Ok (n, write_at buf 0 (take n (q @ concat ps))), k1)"
    "0 < n" "n \<le> length buf" "n \<le> length (q @ concat ps)" "reading cs k1 q1" "drop n (q @ concat ps) = q1 @ concat ps1"
    "ps = qs @ ps1" "rstate k1 = after_records (rstate k) (length qs)" "same_writing k k1"
    "sent (tc_delegate k1) = sent (tc_delegate k)" "stream (tc_delegate k1) = app_records cs seal (rstate k1) ps1 @ rest"
    "good (tc_delegate k1)"
    using read_delivers [OF laws Cons.prems(1-5) ne b] by blast
  define x where "x = take n (q @ concat ps)"
  have x: "length x = n" "q @ concat ps = x @ q1 @ concat ps1"
    using 1(4) unfolding x_def 1(6) [symmetric] append_take_drop_id by simp_all
  have w: "take n (write_at buf 0 x) = x" "x \<noteq> []" using x(1) 1(2) by (auto simp: write_at_def)
  have c: "unat (counter (rstate k1)) + length ps1 < 2 ^ 64"
    using 1(7,8) Cons.prems(2) after_records_counter [of "rstate k" "length qs"] by simp
  have fit: "records_fit cs (length (read_mem k1)) ps1"
    using Cons.prems(5) same_writing_length [OF 1(9)] 1(7) by (simp add: records_fit_def)
  have l: "sum_list (map length bufs) \<le> length (q1 @ concat ps1)" unfolding 1(6) [symmetric] using Cons.prems(7) 1(3) by simp
  obtain xs k2 q2 ps2 where 2: "read_each cs T bufs k1 = Some (Ok xs, k2)" "length xs = length bufs"
    "\<forall>i < length bufs. xs ! i \<noteq> [] \<and> length (xs ! i) \<le> length (bufs ! i)"
    "q1 @ concat ps1 = concat xs @ q2 @ concat ps2" "reading cs k2 q2" "same_writing k1 k2"
    "sent (tc_delegate k2) = sent (tc_delegate k1)" "stream (tc_delegate k2) = app_records cs seal (rstate k2) ps2 @ rest"
    "good (tc_delegate k2)"
    using Cons.IH [OF 1(5) c 1(12,11) fit _ l] Cons.prems(6) by auto
  have "read_each cs T (buf # bufs) k = Some (Ok (x # xs), k2)" using 1(1) 2(1) w(1) by (simp add: x_def)
  moreover have "q @ concat ps = concat (x # xs) @ q2 @ concat ps2" unfolding x(2) 2(4) by simp
  moreover have "\<forall>i < length (buf # bufs). (x # xs) ! i \<noteq> [] \<and> length ((x # xs) ! i) \<le> length ((buf # bufs) ! i)"
    using 1(3) x(1) w(2) 2(3) by (auto simp: nth_Cons split: nat.splits)
  moreover have "length (x # xs) = length (buf # bufs)" "sent (tc_delegate k2) = sent (tc_delegate k)"
    using 2(2,7) 1(10) by simp_all
  ultimately show ?case using 2(5,8,9) same_writing_trans [OF 1(9) 2(6)] by blast
qed

end

end
