(* ===== verification/Split_Halves.thy ===== *)
theory Split_Halves
  imports Blocking
begin

text \<open>
  The halves of a split connection (\<open>TlsConnection::split\<close>, \<open>TlsReader\<close> and \<open>TlsWriter\<close> of
  \<open>src/src/blocking.rs\<close>) do exactly what the connection does. The locale \<open>part\<close> is a component of a state that
  can be read and replaced; a program of the part runs on the whole through \<open>zoom\<close>, and this
  commutes with the way programs are put together. The two halves are parts of the connection.
\<close>

section \<open>Parts of a state\<close>

locale part =
  fixes get :: "'s \<Rightarrow> 'x" and put :: "'x \<Rightarrow> 's \<Rightarrow> 's"
  assumes get_put [simp]: "get (put x s) = x"
    and put_put [simp]: "put y (put x s) = put y s"
    and put_get [simp]: "put (get s) s = s"
begin

lemma zoom_bnd: "zoom get put (bnd m f) = bnd (zoom get put m) (\<lambda>a. zoom get put (f a))"
  by (auto simp: fun_eq_iff zoom_def bnd_def split: prod.splits result.splits)

lemma zoom_ret: "zoom get put (ret a) = ret a"
  by (simp add: fun_eq_iff zoom_def)

lemma zoom_fail: "zoom get put (fail e) = fail e"
  by (simp add: fun_eq_iff zoom_def)

lemma zoom_from_result: "zoom get put (from_result r) = from_result r"
  by (simp add: fun_eq_iff zoom_def)

lemma zoom_gets: "zoom get put (gets f) = gets (\<lambda>s. f (get s))"
  by (simp add: fun_eq_iff zoom_def)

lemma zoom_if: "zoom get put (if b then m else n) = (if b then zoom get put m else zoom get put n)"
  by simp

lemma zoom_map_err: "zoom get put (map_err g m) = map_err g (zoom get put m)"
  by (auto simp: fun_eq_iff zoom_def map_err_def split: prod.splits result.splits)

lemmas zoom_simps = zoom_bnd zoom_ret zoom_fail zoom_from_result zoom_gets zoom_if zoom_map_err

end

text \<open>The same for a program that may not end.\<close>

definition zoom_option :: "('s \<Rightarrow> 'x) \<Rightarrow> ('x \<Rightarrow> 's \<Rightarrow> 's) \<Rightarrow> ('x \<Rightarrow> ('r \<times> 'x) option) \<Rightarrow> 's \<Rightarrow> ('r \<times> 's) option" where
  "zoom_option get put m s = map_option (\<lambda>(r, x). (r, put x s)) (m (get s))"

section \<open>The halves as parts of the connection\<close>

abbreviation writer_of :: "('t, 'h, 'k) TlsConnection \<Rightarrow> ('t, 'k) TlsWriter" where
  "writer_of k \<equiv> snd (TlsConnection_split k)"

abbreviation reader_of :: "('t, 'h, 'k) TlsConnection \<Rightarrow> ('t, 'h, 'k) TlsReader" where
  "reader_of k \<equiv> fst (TlsConnection_split k)"

text \<open>What the connection holds after a half has run: the half works on the borrowed fields, the shared
  flag and the socket.\<close>

definition put_writer :: "('t, 'k) TlsWriter \<Rightarrow> ('t, 'h, 'k) TlsConnection \<Rightarrow> ('t, 'h, 'k) TlsConnection" where
  "put_writer w k = k\<lparr>tc_opened := tw_opened w, tc_delegate := tw_delegate w,
     tc_key_schedule := (tc_key_schedule k)\<lparr>client_state := tw_key_schedule w\<rparr>,
     tc_record_write_buf := tw_record_write_buf w, tc_flush_policy := tw_flush_policy w\<rparr>"

definition put_reader :: "('t, 'h, 'k) TlsReader \<Rightarrow> ('t, 'h, 'k) TlsConnection \<Rightarrow> ('t, 'h, 'k) TlsConnection" where
  "put_reader r k = k\<lparr>tc_opened := tr_opened r, tc_delegate := tr_delegate r,
     tc_key_schedule := (tc_key_schedule k)\<lparr>server_state := tr_key_schedule r\<rparr>,
     tc_record_reader := tr_record_reader r, tc_decrypted := tr_decrypted r\<rparr>"

interpretation writer: part writer_of put_writer
  by unfold_locales (simp_all add: TlsConnection_split_def put_writer_def)

interpretation reader: part reader_of put_reader
  by unfold_locales (simp_all add: TlsConnection_split_def put_reader_def)

subsection \<open>Writing\<close>

lemma zoom_zoom:
  "zoom get put (zoom get' put' m) = zoom (\<lambda>s. get' (get s)) (\<lambda>x s. put (put' x (get s)) s) m"
  by (auto simp: fun_eq_iff zoom_def split: prod.splits)

lemma zoom_cong: "get = get' \<Longrightarrow> put = put' \<Longrightarrow> zoom get put m = zoom get' put' m"
  by simp

lemma writer_delegate: "zoom writer_of put_writer (on_writer_delegate m) = on_delegate m"
  unfolding zoom_zoom by (rule zoom_cong) (simp_all add: fun_eq_iff TlsConnection_split_def put_writer_def)

lemma writer_buf: "zoom writer_of put_writer (on_writer_buf m) = on_write_buf m"
  unfolding zoom_zoom by (rule zoom_cong) (simp_all add: fun_eq_iff TlsConnection_split_def put_writer_def)

lemma writer_keys:
  "zoom writer_of put_writer (zoom tw_key_schedule (\<lambda>x k. k\<lparr>tw_key_schedule := x\<rparr>) m) = on_schedule (on_client m)"
  unfolding zoom_zoom by (rule zoom_cong) (simp_all add: fun_eq_iff TlsConnection_split_def put_writer_def)

lemma writer_fields:
  "tw_opened (writer_of k) = tc_opened k" "tw_record_write_buf (writer_of k) = tc_record_write_buf k"
  "tw_flush_policy (writer_of k) = tc_flush_policy k" "tw_key_schedule (writer_of k) = client_state (tc_key_schedule k)"
  by (simp_all add: TlsConnection_split_def)

lemmas writer_simps = writer.zoom_simps writer_delegate writer_buf writer_keys writer_fields

lemma writer_flush_transport: "zoom writer_of put_writer (TlsWriter_flush_transport T) = TlsConnection_flush_transport T"
  by (simp add: TlsWriter_flush_transport_def TlsConnection_flush_transport_def writer_simps)

lemma zoom_apply_part: "zoom get put m s = (case m (get s) of (r, x) \<Rightarrow> (r, put x s))"
  by (simp add: zoom_def)

lemma writer_flush: "zoom writer_of put_writer (TlsWriter_flush cs T) k = TlsConnection_flush cs T k"
proof -
  let ?m = "bnd (on_writer_buf (close_record cs (client_state (tc_key_schedule k)))) (\<lambda>slice.
        seq (map_err Io (on_writer_delegate (t_write_all T slice))) (
        seq (zoom tw_key_schedule (\<lambda>x k. k\<lparr>tw_key_schedule := x\<rparr>) write_increment_counter) (
        bnd (gets tw_flush_policy) (\<lambda>policy.
        if FlushPolicy_flush_transport policy then TlsWriter_flush_transport T else ret ()))))"
  have "zoom writer_of put_writer (TlsWriter_flush cs T) k =
      (if wb_is_empty (tc_record_write_buf k) then (Ok (), k) else zoom writer_of put_writer ?m k)"
    by (simp add: zoom_apply_part TlsWriter_flush_def writer_fields)
  also have "\<dots> = TlsConnection_flush cs T k"
    by (simp add: TlsConnection_flush_def writer_simps writer_flush_transport cong: if_cong)
  finally show ?thesis .
qed

lemma writer_write: "zoom writer_of put_writer (TlsWriter_write cs T buf) = TlsConnection_write cs T buf"
  by (simp add: TlsWriter_write_def TlsConnection_write_def writer_simps writer_flush [THEN ext] cong: if_cong)

subsection \<open>Reading\<close>

lemma reader_fields:
  "tr_opened (reader_of k) = tc_opened k" "tr_decrypted (reader_of k) = tc_decrypted k"
  "tr_record_reader (reader_of k) = tc_record_reader k" "tr_delegate (reader_of k) = tc_delegate k"
  "tr_key_schedule (reader_of k) = server_state (tc_key_schedule k)"
  by (simp_all add: TlsConnection_split_def)

text \<open>What the callback keeps of its state, \<open>decrypt_record\<close> keeps.\<close>

lemma handshake_loop_keeps:
  assumes "\<And>rec rks u. I u \<Longrightarrow> I (snd (snd (cb rec (rks, u))))" "I (snd s)"
  shows "I (snd (snd (handshake_loop cs cb b s)))"
  using assms
proof (induction cs cb b s rule: handshake_loop.induct)
  case (1 cs cb b rks u)
  obtain q b' h where q: "ServerHandshake_read cs (b, transcript_hash rks) = (q, b', h)" by (metis prod.exhaust)
  show ?case
  proof (cases q)
    case (Ok m)
    obtain r k2 u2 where c: "cb (SR_Handshake m) (rks\<lparr>transcript_hash := h\<rparr>, u) = (r, k2, u2)" by (metis prod.exhaust)
    with 1(2) [of u] 1(3) have "I u2" by (metis snd_conv)
    with 1 q Ok c show ?thesis by (subst handshake_loop.simps) (cases r; simp)
  qed (use 1(3) q in \<open>simp_all add: handshake_loop.simps [of cs cb b]\<close>)
qed

lemma decrypt_record_keeps:
  assumes "\<And>rec rks u. I u \<Longrightarrow> I (snd (snd (cb rec (rks, u))))" "I u"
    and "decrypt_record cs rec cb (mem, rks, u) = (r, mem', rks', u')"
  shows "I u'"
proof -
  have d: "I (snd (snd (dispatch_inner cs cb ad ct d (rks, u))))" for ad ct d
    using assms(1) [OF assms(2), of _ rks] assms(2) handshake_loop_keeps [of I cb "(rks, u)" cs] assms(1)
    by (auto simp: dispatch_inner_def bnd_def split: result.splits ContentType.splits)
  show ?thesis
  proof (cases "\<exists>ad. rec = SR_ApplicationData ad")
    case False
    then show ?thesis using assms(1) [OF assms(2), of rec rks] assms(3)
      by (cases rec) (auto simp: decrypt_record_def split: prod.splits)
  next
    case True
    then obtain ad where ad: "rec = SR_ApplicationData ad" by blast
    show ?thesis using d assms(2,3) unfolding ad decrypt_record_def decrypt_app_def
      by (auto split: prod.splits result.splits) (metis snd_conv)+
  qed
qed

lemma handle_opened: "\<not> opened \<Longrightarrow> \<not> snd (snd (DecryptedReadHandler_handle n rec (i, opened)))"
  by (auto simp: DecryptedReadHandler_handle_def bnd_def Let_def split: ServerRecord.splits ServerHandshake.splits result.splits)

lemma handler_opened:
  assumes "decrypt_record cs rec (handler_cb n) (mem, rks, i, opened) = (r, mem', rks', i', opened')" "\<not> opened"
  shows "\<not> opened'"
proof -
  have "(\<lambda>(i, opened). \<not> opened) (i', opened')"
    by (rule decrypt_record_keeps [OF _ _ assms(1)])
      (use assms(2) handle_opened [of False] in \<open>auto simp: handler_cb_def split: prod.splits\<close>, metis snd_conv)
  then show ?thesis by simp
qed

lemma reader_read_application_data:
  "zoom reader_of put_reader (TlsReader_read_application_data cs T) k = TlsConnection_read_application_data cs T k"
proof -
  obtain q rr t rks where q: "read_blocking cs (t_read T) (tc_record_reader k, tc_delegate k, server_state (tc_key_schedule k)) =
      (q, rr, t, rks)" by (metis prod.exhaust)
  show ?thesis
  proof (cases q)
    case (Ok rec)
    let ?n = "length (rr_buf (tc_record_reader k))"
    obtain r mem rks' i opened where d: "decrypt_record cs rec (handler_cb ?n) (rr_buf rr, rks, tc_decrypted k, tc_opened k) =
        (r, mem, rks', i, opened)" by (metis prod.exhaust)
    have o: "opened \<longrightarrow> tc_opened k" using handler_opened [OF d] by blast
    from d q Ok show ?thesis
      by (simp add: zoom_def TlsReader_read_application_data_def TlsConnection_read_application_data_def
          reader_fields Let_def put_reader_def)
        (use o in \<open>auto intro!: TlsConnection.equality simp: reader_fields\<close>)
  qed (simp_all add: zoom_def TlsReader_read_application_data_def TlsConnection_read_application_data_def
          reader_fields Let_def put_reader_def q)
qed

lemma reader_step:
  assumes "TlsConnection_read_application_data cs T k = (r, k')"
  shows "TlsReader_read_application_data cs T (reader_of k) = (r, reader_of k')" "k' = put_reader (reader_of k') k"
proof -
  obtain q x where x: "TlsReader_read_application_data cs T (reader_of k) = (q, x)" by fastforce
  with reader_read_application_data [of cs T k] assms have "r = q" "k' = put_reader x k" by (simp_all add: zoom_def)
  with x show "TlsReader_read_application_data cs T (reader_of k) = (r, reader_of k')" "k' = put_reader (reader_of k') k"
    by simp_all
qed

lemma put_reader_trans: "k' = put_reader (reader_of k') k \<Longrightarrow> k2 = put_reader (reader_of k2) k' \<Longrightarrow> k2 = put_reader (reader_of k2) k"
  by (metis reader.put_put)

lemma reader_loop_some:
  assumes "read_loop cs T k = Some y"
  shows "reader_loop cs T (reader_of k) = Some (fst y, reader_of (snd y)) \<and> snd y = put_reader (reader_of (snd y)) k"
proof (rule read_loop.raw_induct [OF _ assms, of "\<lambda>cs T k y.
    reader_loop cs T (reader_of k) = Some (fst y, reader_of (snd y)) \<and> snd y = put_reader (reader_of (snd y)) k"], goal_cases)
  case (1 f cs T k y)
  obtain r k' where d: "TlsConnection_read_application_data cs T k = (r, k')" by fastforce
  note 2 = reader_step [OF d]
  show ?case
  proof (cases "di_is_empty (tc_decrypted k) = Ok True \<and> r = Ok ()")
    case True
    then have "reader_loop cs T (reader_of k') = Some (fst y, reader_of (snd y)) \<and> snd y = put_reader (reader_of (snd y)) k'"
      using 1 d by simp
    moreover have "reader_loop cs T (reader_of k) = reader_loop cs T (reader_of k')"
      using True 2(1) by (subst reader_loop.simps) (simp add: reader_fields)
    ultimately show ?thesis using put_reader_trans [OF 2(2)] by metis
  next
    case False
    then show ?thesis
      using 1(2) d 2 by (cases y; subst reader_loop.simps) (auto simp: reader_fields split: result.split_asm if_splits)
  qed
qed

lemma read_loop_some:
  assumes "reader_loop cs T x = Some y" "x = reader_of k"
  shows "read_loop cs T k = Some (fst y, put_reader (snd y) k)"
proof -
  have "\<forall>k. x = reader_of k \<longrightarrow> read_loop cs T k = Some (fst y, put_reader (snd y) k)"
  proof (rule reader_loop.raw_induct [OF _ assms(1), of "\<lambda>cs T x y.
      \<forall>k. x = reader_of k \<longrightarrow> read_loop cs T k = Some (fst y, put_reader (snd y) k)"], goal_cases)
    case (1 f cs T x y)
    show ?case
    proof (intro allI impI)
      fix k assume x: "x = reader_of k"
      obtain r k' where d: "TlsConnection_read_application_data cs T k = (r, k')" by fastforce
      note 2 = reader_step [OF d]
      show "read_loop cs T k = Some (fst y, put_reader (snd y) k)"
      proof (cases "di_is_empty (tc_decrypted k) = Ok True \<and> r = Ok ()")
        case True
        then have "read_loop cs T k' = Some (fst y, put_reader (snd y) k')" using 1 2(1) x by (simp add: reader_fields)
        moreover have "read_loop cs T k = read_loop cs T k'"
          using True d by (subst read_loop.simps) simp
        moreover have "put_reader (snd y) k' = put_reader (snd y) k" using 2(2) by (metis reader.put_put)
        ultimately show ?thesis by simp
      next
        case False
        then show ?thesis
          using 1(2) d 2 x
          by (cases y; subst read_loop.simps) (auto simp: reader_fields split: result.split_asm if_splits)
      qed
    qed
  qed
  with assms(2) show ?thesis by blast
qed

lemma reader_loop_zoom: "zoom_option reader_of put_reader (reader_loop cs T) k = read_loop cs T k"
proof (cases "read_loop cs T k")
  case None
  then have "reader_loop cs T (reader_of k) = None"
    using read_loop_some [of cs T "reader_of k"] by (metis not_Some_eq option.distinct(1))
  with None show ?thesis by (simp add: zoom_option_def)
next
  case (Some y)
  with reader_loop_some [OF this] show ?thesis by (cases y) (simp add: zoom_option_def)
qed

lemma reader_read_buffered: "zoom_option reader_of put_reader (TlsReader_read_buffered cs T) k = TlsConnection_read_buffered cs T k"
  unfolding TlsReader_read_buffered_def TlsConnection_read_buffered_def reader_loop_zoom [symmetric]
  by (auto simp: zoom_option_def reader_fields TlsReader_create_read_buffer_def TlsConnection_create_read_buffer_def
      put_reader_def split: option.splits result.splits)

lemma drop_reader: "put_reader (drop_reader_buffer b x) k = drop_read_buffer b (put_reader x k)"
  by (simp add: drop_reader_buffer_def drop_read_buffer_def put_reader_def)

lemma reader_with_buffer:
  "with_read_buffer f (zoom_option reader_of put_reader m k) = zoom_option reader_of put_reader (\<lambda>x. with_reader_buffer f (m x)) k"
  by (auto simp: zoom_option_def with_read_buffer_def with_reader_buffer_def drop_reader
      split: option.splits result.splits prod.splits)

lemma reader_consume: "zoom reader_of put_reader (TlsReader_consume amt) k = TlsConnection_consume amt k"
  by (auto simp: zoom_def TlsReader_consume_def TlsConnection_consume_def TlsReader_create_read_buffer_def
      TlsConnection_create_read_buffer_def reader_fields drop_reader split: result.splits prod.splits)

section \<open>Properties\<close>

text \<open>C9. Splitting does not change what the connection does: every operation of \<open>TlsWriter\<close> and \<open>TlsReader\<close>
  returns what the operation of \<open>TlsConnection\<close> returns, ends when it ends, and leaves the connection
  in the same state, with exactly the fields of that half, the shared flag and the socket changed.\<close>

theorem split_halves_equivalent:
  "TlsConnection_write cs T buf = zoom writer_of put_writer (TlsWriter_write cs T buf) \<and>
   TlsConnection_flush cs T = zoom writer_of put_writer (TlsWriter_flush cs T) \<and>
   TlsConnection_read_buffered cs T = zoom_option reader_of put_reader (TlsReader_read_buffered cs T) \<and>
   TlsConnection_read cs T buf = zoom_option reader_of put_reader (TlsReader_read cs T buf) \<and>
   TlsConnection_fill_buf cs T = zoom_option reader_of put_reader (TlsReader_fill_buf cs T) \<and>
   TlsConnection_consume amt = zoom reader_of put_reader (TlsReader_consume amt)"
proof (intro conjI ext)
  fix k
  show "TlsConnection_read cs T buf k = zoom_option reader_of put_reader (TlsReader_read cs T buf) k"
    unfolding TlsConnection_read_def reader_read_buffered [symmetric] reader_with_buffer
    by (simp add: zoom_option_def TlsReader_read_def)
  show "TlsConnection_fill_buf cs T k = zoom_option reader_of put_reader (TlsReader_fill_buf cs T) k"
    unfolding TlsConnection_fill_buf_def reader_read_buffered [symmetric] reader_with_buffer
    by (simp add: zoom_option_def TlsReader_fill_buf_def)
qed (simp_all only: writer_write writer_flush reader_read_buffered reader_consume)

end
