(* ===== verification/Blocking_Session.thy ===== *)
theory Blocking_Session
  imports Toy_Server Blocking_Open Blocking_Reads Split_Halves
begin

text \<open>
  Properties of whole sessions of the blocking connection (\<open>src/src/blocking.rs\<close>): opening it against a server,
  writing, reading and closing, each with a run on the toy cipher suite as a witness.
\<close>

section \<open>Opening\<close>

context duplex
begin

lemma open_runs:
  fixes cs :: "('h, 'k) TlsCipherSuite" and P :: "('p, 's, 'h) CryptoProvider"
  assumes laws: "kdf_laws cs" "digest_laws cs" "aead_laws cs seal" "8 \<le> IvLen cs"
    and k: "TlsConnection_new cs t rbuf wbuf = Ok k" "good t"
    and p: "open_hostname P config p = (Ok (), p0)"
    and x: "cfg_psk config = None" "ClientHello_new P config p0 = (x, p1)"
      "ch = client_handshake_wire cs (public_key P) (CH_ClientHello x)"
    and sh: "parses (ServerHandshake_parse cs) shw (SH_ServerHello sh)"
      "ServerHello_calculate_shared_secret (diffie_hellman P) (ch_secret x) sh = Some dhe"
    and h: "h1 = digest_update cs (digest_new cs) (ch @ shw)"
      "sk = rfc_traffic cs (rfc_handshake cs None dhe) (ascii ''s hs traffic'') h1"
      "ck = rfc_traffic cs (rfc_handshake cs None dhe) (ascii ''c hs traffic'') h1"
      "fin = finished_wire (finished_mac cs sk (digest_update cs h1 (concat (map fst pre))))"
      "h2 = digest_update cs h1 (concat (map fst pre) @ fin)"
    and pre: "\<forall>(w, m) \<in> set pre. parses (ServerHandshake_parse cs) w m"
      "run_flight cs (server_verify_cb cs P) pre (\<lparr>r_state = sk, transcript_hash = h1\<rparr>, ST_ServerVerify, Handshake_new, p1) =
         (Ok (), rks1, ST_ServerVerify, hs1, p2)"
      "hs_certificate_request hs1 = None"
    and s: "stream t = record_header 22 3 3 shw @ shw @ sealed_record cs seal sk (concat (map fst pre) @ fin @ [22]) @ rest"
    and room: "5 + length ch \<le> length wbuf" "10 + HashOutputSize cs + TagSize cs \<le> length wbuf"
      "5 + TLS_RECORD_OVERHEAD < length wbuf" "length shw \<le> length rbuf" "length shw < 65536"
      "length (concat (map fst pre) @ fin @ [22]) + TagSize cs \<le> length rbuf"
      "length (concat (map fst pre) @ fin @ [22]) + TagSize cs < 65536"
  shows "\<exists>k'. TlsConnection_open rsa cs P T config (k, p) = Some (Ok (), k', p2) \<and>
    sent (tc_delegate k') = sent t @ [22, 3, 1] @ u16_to_be_bytes (of_nat (length ch)) @ ch @
      sealed_record cs seal ck (finished_wire (finished_mac cs ck h2) @ [22]) \<and>
    wstate k' = rfc_traffic cs (rfc_master cs None dhe) (ascii ''c ap traffic'') h2 \<and>
    rstate k' = rfc_traffic cs (rfc_master cs None dhe) (ascii ''s ap traffic'') h2 \<and>
    stream (tc_delegate k') = rest \<and> good (tc_delegate k') \<and> writing cs k' [] \<and> reading cs k' []"
proof -
  define c :: "('t, 'h, 'k, 's, 'p) Conn" where "c = open_borrow k p0"
  have k': "k = \<lparr>tc_delegate = t, tc_opened = False, tc_key_schedule = KeySchedule_new cs,
       tc_record_reader = RecordReader_new rbuf, tc_record_write_buf = \<lparr>wb_buffer = wbuf, wb_pos = 0, wb_current_header = None\<rparr>,
       tc_decrypted = DecryptedBufferInfo_default, tc_flush_policy = FlushPolicy_default\<rparr>"
    using k(1) by (auto simp: TlsConnection_new_def and_then_Ok_iff WriteBuffer_new_def split: if_splits)
  have c: "co_keys c = KeySchedule_new cs" "co_handshake c = Handshake_new" "wb_idle (co_tx c)" "good (co_transport c)"
    "rr_ok (co_reader c)" "rr_pending (co_reader c) = 0" "co_provider c = p0" "co_transport c = t"
    "wb_buffer (co_tx c) = wbuf" "rr_buf (co_reader c) = rbuf"
    using k(2) by (simp_all add: c_def k' open_borrow_def wb_idle_def RecordReader_new_def rr_ok_def)
  obtain c' where c': "hs_reach rsa cs P T config (ST_ClientHello, c) (ST_ApplicationData, c')"
    "sent (co_transport c') = sent t @ [22, 3, 1] @ u16_to_be_bytes (of_nat (length ch)) @ ch @
      sealed_record cs seal ck (finished_wire (finished_mac cs ck h2) @ [22])"
    "w_state (client_state (co_keys c')) = rfc_traffic cs (rfc_master cs None dhe) (ascii ''c ap traffic'') h2"
    "r_state (server_state (co_keys c')) = rfc_traffic cs (rfc_master cs None dhe) (ascii ''s ap traffic'') h2"
    "stream (co_transport c') = rest" "good (co_transport c')" "wb_idle (co_tx c')" "co_provider c' = p2"
    "length (wb_buffer (co_tx c')) = length wbuf" "rr_ok (co_reader c')" "rr_pending (co_reader c') = 0"
    using handshake_reaches [OF laws c(1-6) x(1) _ x(3) sh h pre, of rest rsa] x(2) s room c(7-10) by auto
  have l: "open_loop rsa cs P T config ST_ClientHello c = Some (Ok (), c')" by (rule open_loop_reach [OF c'(1)])
  let ?k = "(open_return c' k)\<lparr>tc_opened := True\<rparr>"
  have o: "TlsConnection_open rsa cs P T config (k, p) = Some (Ok (), ?k, p2)"
    using p l c'(8) by (simp add: TlsConnection_open_def c_def)
  have "writing cs ?k []" "reading cs ?k []"
    using c'(3,4,7,9-11) room(3) length_rfc_iv [OF laws(1)]
    by (simp_all add: writing_def reading_def open_return_def k' DecryptedBufferInfo_default_def di_ok_def di_left_def slice_of_def)
  with o c' show ?thesis by (intro exI [of _ ?k]) (simp add: open_return_def)
qed

end

section \<open>Properties\<close>

text \<open>C1. Opening a fresh connection against an honest server succeeds: the client sends exactly its
  ClientHello and its protected Finished, accepts the server's flight, and ends open, ready to
  write and read, with the application traffic keys of RFC 8446 in both directions. The
  transport may cut the stream in any way; \<open>pre\<close> are the messages before the server's Finished.\<close>

theorem open_completes:
  assumes "duplex T stream good sent"
    and "kdf_laws cs" and "digest_laws cs" and "aead_laws cs seal" and "8 \<le> IvLen cs"
    and "TlsConnection_new cs t rbuf wbuf = Ok k" and "good t" and "open_hostname P config p = (Ok (), p0)"
    and "cfg_psk config = None" and "ClientHello_new P config p0 = (x, p1)"
    and "ch = client_handshake_wire cs (public_key P) (CH_ClientHello x)"
    and "parses (ServerHandshake_parse cs) shw (SH_ServerHello sh)"
    and "ServerHello_calculate_shared_secret (diffie_hellman P) (ch_secret x) sh = Some dhe"
    and "h1 = digest_update cs (digest_new cs) (ch @ shw)"
    and "sk = rfc_traffic cs (rfc_handshake cs None dhe) (ascii ''s hs traffic'') h1"
    and "ck = rfc_traffic cs (rfc_handshake cs None dhe) (ascii ''c hs traffic'') h1"
    and "fin = finished_wire (finished_mac cs sk (digest_update cs h1 (concat (map fst pre))))"
    and "h2 = digest_update cs h1 (concat (map fst pre) @ fin)"
    and "\<forall>(w, m) \<in> set pre. parses (ServerHandshake_parse cs) w m"
    and "run_flight cs (server_verify_cb cs P) pre (\<lparr>r_state = sk, transcript_hash = h1\<rparr>, ST_ServerVerify, Handshake_new, p1) =
         (Ok (), rks1, ST_ServerVerify, hs1, p2)" and "hs_certificate_request hs1 = None"
    and "stream t = record_header 22 3 3 shw @ shw @ sealed_record cs seal sk (concat (map fst pre) @ fin @ [22]) @ rest"
    and "5 + length ch \<le> length wbuf" and "10 + HashOutputSize cs + TagSize cs \<le> length wbuf"
    and "5 + TLS_RECORD_OVERHEAD < length wbuf" and "length shw \<le> length rbuf" and "length shw < 65536"
    and "length (concat (map fst pre) @ fin @ [22]) + TagSize cs \<le> length rbuf"
    and "length (concat (map fst pre) @ fin @ [22]) + TagSize cs < 65536"
  shows "\<exists>k'. TlsConnection_open rsa cs P T config (k, p) = Some (Ok (), k', p2) \<and>
    sent (tc_delegate k') = sent t @ [22, 3, 1] @ u16_to_be_bytes (of_nat (length ch)) @ ch @
      sealed_record cs seal ck (finished_wire (finished_mac cs ck h2) @ [22]) \<and>
    wstate k' = rfc_traffic cs (rfc_master cs None dhe) (ascii ''c ap traffic'') h2 \<and>
    rstate k' = rfc_traffic cs (rfc_master cs None dhe) (ascii ''s ap traffic'') h2 \<and>
    stream (tc_delegate k') = rest \<and> good (tc_delegate k') \<and> writing cs k' [] \<and> reading cs k' []"
  by (rule duplex.open_runs [OF assms])

text \<open>The connection of the witnesses, before the handshake.\<close>

definition toy_conn :: "bytes \<Rightarrow> (ChunkDuplex, bytes, bytes) TlsConnection" where
  "toy_conn bs = \<lparr>tc_delegate = toy_socket bs, tc_opened = False, tc_key_schedule = KeySchedule_new toy_suite,
     tc_record_reader = RecordReader_new (replicate 300 0),
     tc_record_write_buf = \<lparr>wb_buffer = replicate 300 0, wb_pos = 0, wb_current_header = None\<rparr>,
     tc_decrypted = DecryptedBufferInfo_default, tc_flush_policy = FlushPolicy_default\<rparr>"

lemma toy_conn_new: "TlsConnection_new toy_suite (toy_socket bs) (replicate 300 0) (replicate 300 0) = Ok (toy_conn bs)"
  by (simp add: TlsConnection_new_def WriteBuffer_new_def TLS_RECORD_OVERHEAD_def toy_conn_def)

lemma toy_hostname: "open_hostname toy_provider plain_config p = (Ok (), p)"
  by (simp add: open_hostname_def plain_config_def toy_provider_def)

lemma toy_provider_sel: "public_key toy_provider = id" "prov_verifier toy_provider p" "ch_secret plain_hello = [4]"
  "cfg_psk plain_config = None"
  by (simp_all add: toy_provider_def plain_hello_def plain_config_def)

lemma toy_socket_sel: "0 < chunk_size (cd_in (toy_socket bs))" "chunk_data (cd_in (toy_socket bs)) = bs" "cd_out (toy_socket bs) = []"
  by (simp_all add: toy_socket_def)

lemma toy_run_pre:
  "run_flight toy_suite (server_verify_cb toy_suite toy_provider) toy_pre
     (\<lparr>r_state = toy_key ''s hs traffic'', transcript_hash = toy_h1\<rparr>, ST_ServerVerify, Handshake_new, p) =
   (Ok (), \<lparr>r_state = toy_key ''s hs traffic'', transcript_hash = toy_h1 @ [8] @ prefixed24 [0, 0]\<rparr>, ST_ServerVerify, Handshake_new, p)"
  unfolding toy_pre_def encrypted_extensions_flight by simp

lemma toy_room:
  "5 + length toy_ch \<le> length (replicate 300 0 :: bytes)" "5 + TLS_RECORD_OVERHEAD < length (replicate 300 0 :: bytes)"
  "10 + HashOutputSize toy_suite + TagSize toy_suite \<le> length (replicate 300 0 :: bytes)"
  "length toy_sh \<le> length (replicate 300 0 :: bytes)" "length toy_sh < 65536"
  "length (concat (map fst toy_pre) @ toy_fin @ [22]) + TagSize toy_suite \<le> length (replicate 300 0 :: bytes)"
  "length (concat (map fst toy_pre) @ toy_fin @ [22]) + TagSize toy_suite < 65536"
  using toy_ch_length toy_sh_length toy_flight_length by (simp_all add: TLS_RECORD_OVERHEAD_def)

lemma toy_run:
  "toy_ch = client_handshake_wire toy_suite (public_key toy_provider) (CH_ClientHello plain_hello)"
  "ServerHello_calculate_shared_secret (diffie_hellman toy_provider) (ch_secret plain_hello) (ServerHello [toy_share]) = Some [4, 5]"
  "hs_certificate_request Handshake_new = None"
  "chunk_data (cd_in (toy_socket (toy_answer @ rest))) = record_header 22 3 3 toy_sh @ toy_sh @
      sealed_record toy_suite toy_seal (toy_key ''s hs traffic'') (concat (map fst toy_pre) @ toy_fin @ [22]) @ rest"
  "8 \<le> IvLen toy_suite"
  by (simp_all add: toy_ch_def toy_provider_sel toy_shared Handshake_new_def toy_socket_sel toy_answer_def)

lemma toy_opens:
  "\<exists>k'. TlsConnection_open rsa toy_suite toy_provider chunk_transport plain_config (toy_conn (toy_answer @ rest), ()) =
      Some (Ok (), k', ())"
  using chunk_duplex.open_runs [OF toy_kdf_laws toy_digest_laws toy_seal_laws toy_run(5) toy_conn_new toy_socket_sel(1)
      toy_hostname toy_provider_sel(4) toy_hello_new toy_run(1) toy_sh_parses toy_run(2) toy_h1_def toy_key_def toy_key_def
      toy_fin_def toy_h2_def toy_pre_parses toy_run_pre toy_run(3) toy_run(4) toy_room(1,3,2,4-7), of rsa] by blast

theorem open_completes_witness:
  "\<exists>k'. TlsConnection_open False toy_suite toy_provider chunk_transport plain_config (toy_conn (toy_answer @ [1, 2, 3]), ()) =
      Some (Ok (), k', ()) \<and>
    chunk_data (cd_in (tc_delegate k')) = [1, 2, 3] \<and> writing toy_suite k' [] \<and> reading toy_suite k' []"
  using open_completes [OF chunk_duplex.duplex_axioms toy_kdf_laws toy_digest_laws toy_seal_laws toy_run(5) toy_conn_new
      toy_socket_sel(1) toy_hostname toy_provider_sel(4) toy_hello_new toy_run(1) toy_sh_parses toy_run(2) toy_h1_def toy_key_def
      toy_key_def toy_fin_def toy_h2_def toy_pre_parses toy_run_pre toy_run(3) toy_run(4) toy_room(1,3,2,4-7), of False] by blast

text \<open>C4. Opening ends on every finite stream, whatever the peer sends and whatever the provider does: each step of
  the handshake takes a record off the stream or moves to a later state.\<close>

theorem open_terminates:
  assumes "duplex T stream good sent" and "good (tc_delegate k)"
  shows "\<exists>r k' p'. TlsConnection_open rsa cs P T config (k, p) = Some (r, k', p')"
proof -
  obtain q p1 where p1: "open_hostname P config p = (q, p1)" by fastforce
  have "good (co_transport (open_borrow k p1))" using assms(2) by (simp add: open_borrow_def)
  then obtain r c where "open_loop rsa cs P T config ST_ClientHello (open_borrow k p1) = Some (r, c)"
    using duplex.open_loop_ends [OF assms(1)] by blast
  with p1 show ?thesis by (cases q; cases r) (simp_all add: TlsConnection_open_def)
qed

theorem open_terminates_witness:
  "\<exists>r k' p'. TlsConnection_open True toy_suite toy_provider chunk_transport plain_config (toy_conn [22, 3, 3, 0, 1, 99], ()) =
     Some (r, k', p')"
  by (rule open_terminates [OF chunk_duplex.duplex_axioms]) (simp add: toy_conn_def toy_socket_def)

text \<open>C2. Opening succeeds only through a server Finished: on the way there is a step in which the client, waiting
  for the server to prove itself, reads a record that holds, after decryption, a Finished whose
  verify data checks against the transcript under the server's handshake traffic secret, and
  the states follow the order of the protocol from there.\<close>

theorem open_needs_server_finished:
  assumes "TlsConnection_open rsa cs P T config (k, p) = Some (Ok (), k', p')"
  shows "\<exists>p0 c c1 rec c1' f rks st2 c2. open_hostname P config p = (Ok (), p0) \<and> k' = (open_return c k)\<lparr>tc_opened := True\<rparr> \<and>
    hs_reach rsa cs P T config (ST_ClientHello, open_borrow k p0) (ST_ServerVerify, c1) \<and>
    rx_read_record cs T c1 = (Ok rec, c1') \<and>
    (SR_Handshake (SH_Finished f), rks) \<in> set (record_log cs rec (rr_buf (co_reader c1')) (server_state (co_keys c1'))) \<and>
    verify_server_finished cs f rks = Ok True \<and> r_state rks = r_state (server_state (co_keys c1')) \<and>
    hs_step rsa cs P T config (ST_ServerVerify, c1) (st2, c2) \<and> next_state ST_ServerVerify st2 \<and>
    hs_reach rsa cs P T config (st2, c2) (ST_ApplicationData, c)"
proof -
  obtain p0 c where c: "open_hostname P config p = (Ok (), p0)" "k' = (open_return c k)\<lparr>tc_opened := True\<rparr>"
    "open_loop rsa cs P T config ST_ClientHello (open_borrow k p0) = Some (Ok (), c)"
    using assms by (auto simp: TlsConnection_open_def split: prod.split_asm result.split_asm option.split_asm)
  obtain c1 st2 c2 where r: "hs_reach rsa cs P T config (ST_ClientHello, open_borrow k p0) (ST_ServerVerify, c1)"
    "server_finished cs T c1" "hs_step rsa cs P T config (ST_ServerVerify, c1) (st2, c2)"
    "hs_reach rsa cs P T config (st2, c2) (ST_ApplicationData, c)"
    using reach_finished [OF reach_open_loop [OF c(3)]] by blast
  have "next_state ST_ServerVerify st2" using r(3) by (intro process_blocking_next) (simp add: hs_step_iff)
  with c(1,2) r show ?thesis unfolding server_finished_def by blast
qed

theorem open_needs_server_finished_witness:
  "\<exists>rec c c' f rks. rx_read_record toy_suite chunk_transport c = (Ok rec, c' :: (ChunkDuplex, bytes, bytes, bytes, unit) Conn) \<and>
    (SR_Handshake (SH_Finished f), rks) \<in> set (record_log toy_suite rec (rr_buf (co_reader c')) (server_state (co_keys c'))) \<and>
    verify_server_finished toy_suite f rks = Ok True"
proof -
  obtain k' where "TlsConnection_open False toy_suite toy_provider chunk_transport plain_config (toy_conn (toy_answer @ []), ()) =
      Some (Ok (), k', ())" using toy_opens by blast
  from open_needs_server_finished [OF this] show ?thesis by blast
qed

text \<open>C17. Server authentication can be skipped: without a PSK, and with a verifier configured, a server that sends
  only EncryptedExtensions and Finished, neither Certificate nor CertificateVerify, is accepted. The
  verifier's checks are never asked, whatever they would say.\<close>

theorem server_authentication_skipped:
  assumes "duplex T stream good sent"
    and "kdf_laws cs" and "digest_laws cs" and "aead_laws cs seal" and "8 \<le> IvLen cs"
    and "TlsConnection_new cs t rbuf wbuf = Ok k" and "good t" and "open_hostname P config p = (Ok (), p0)"
    and "prov_verifier P p1"
    and "cfg_psk config = None" and "ClientHello_new P config p0 = (x, p1)"
    and "ch = client_handshake_wire cs (public_key P) (CH_ClientHello x)"
    and "parses (ServerHandshake_parse cs) shw (SH_ServerHello sh)"
    and "ServerHello_calculate_shared_secret (diffie_hellman P) (ch_secret x) sh = Some dhe"
    and "h1 = digest_update cs (digest_new cs) (ch @ shw)"
    and "sk = rfc_traffic cs (rfc_handshake cs None dhe) (ascii ''s hs traffic'') h1"
    and "parses (ServerHandshake_parse cs) ee (SH_EncryptedExtensions EncryptedExtensions)"
    and "fin = finished_wire (finished_mac cs sk (digest_update cs h1 ee))"
    and "stream t = record_header 22 3 3 shw @ shw @ sealed_record cs seal sk (ee @ fin @ [22]) @ rest"
    and "5 + length ch \<le> length wbuf" and "10 + HashOutputSize cs + TagSize cs \<le> length wbuf"
    and "5 + TLS_RECORD_OVERHEAD < length wbuf" and "length shw \<le> length rbuf" and "length shw < 65536"
    and "length (ee @ fin @ [22]) + TagSize cs \<le> length rbuf" and "length (ee @ fin @ [22]) + TagSize cs < 65536"
  shows "\<exists>k'. TlsConnection_open rsa cs P T config (k, p) = Some (Ok (), k', p1) \<and> tc_opened k'"
proof -
  let ?pre = "[(ee, SH_EncryptedExtensions EncryptedExtensions)]"
  have pre: "\<forall>(w, m) \<in> set ?pre. parses (ServerHandshake_parse cs) w m" using assms(17) by simp
  have no: "hs_certificate_request Handshake_new = None" by (simp add: Handshake_new_def)
  have fin: "fin = finished_wire (finished_mac cs sk (digest_update cs h1 (concat (map fst ?pre))))" using assms(18) by simp
  have s: "stream t = record_header 22 3 3 shw @ shw @ sealed_record cs seal sk (concat (map fst ?pre) @ fin @ [22]) @ rest"
    using assms(19) by simp
  show ?thesis
    using duplex.open_runs [OF assms(1-8,10-16) refl fin refl pre encrypted_extensions_flight no s assms(20-24), of rsa] assms(25,26)
    by (auto simp: writing_def)
qed

theorem server_authentication_skipped_witness:
  "(\<forall>c. fst (verify_signature toy_provider c ()) = Err InvalidSignature) \<and>
   (\<exists>k'. TlsConnection_open False toy_suite toy_provider chunk_transport plain_config (toy_conn (toy_answer @ []), ()) =
      Some (Ok (), k', ()) \<and> tc_opened k')"
proof -
  let ?ee = "[8] @ prefixed24 [0, 0] :: bytes"
  have c: "concat (map fst toy_pre) = ?ee" by (simp add: toy_pre_def)
  have ee: "parses (ServerHandshake_parse toy_suite) ?ee (SH_EncryptedExtensions EncryptedExtensions)"
    using toy_pre_parses by (simp add: toy_pre_def)
  have "\<exists>k'. TlsConnection_open False toy_suite toy_provider chunk_transport plain_config (toy_conn (toy_answer @ []), ()) =
      Some (Ok (), k', ()) \<and> tc_opened k'"
    by (rule server_authentication_skipped [OF chunk_duplex.duplex_axioms toy_kdf_laws toy_digest_laws toy_seal_laws toy_run(5) toy_conn_new
        toy_socket_sel(1) toy_hostname toy_provider_sel(2,4) toy_hello_new toy_run(1) toy_sh_parses toy_run(2) toy_h1_def toy_key_def ee
        toy_fin_def [unfolded c] toy_run(4) [unfolded c] toy_room(1,3,2,4,5) toy_room(6,7) [unfolded c]])
  then show ?thesis by (simp add: toy_provider_def)
qed

text \<open>C6. Writing refines a stream of records: a sequence of writes on an open connection, and a flush, all
  succeed; every write of something accepts at least a byte; what goes out is one list of payloads,
  each sealed in its own record under the next sequence number, and the payloads together are exactly
  the accepted bytes in order. Nothing stays behind in the buffer.\<close>

theorem writes_refine_stream:
  assumes "duplex T stream good sent" and "aead_laws cs seal" and "8 \<le> IvLen cs" and "TagSize cs < TLS_RECORD_OVERHEAD"
    and "writing cs k []" and "unat (counter (wstate k)) + length bufs + 1 < 2 ^ 64" and "good (tc_delegate k)"
  shows "\<exists>ns k1 k2 ps. write_each cs T bufs k = (Ok ns, k1) \<and> TlsConnection_flush cs T k1 = (Ok (), k2) \<and>
    length ns = length bufs \<and> (\<forall>i < length bufs. ns ! i \<le> length (bufs ! i) \<and> (bufs ! i \<noteq> [] \<longrightarrow> 0 < ns ! i)) \<and>
    concat ps = accepted ns bufs \<and> payloads_fit k ps \<and>
    sent (tc_delegate k2) = sent (tc_delegate k) @ app_records cs seal (wstate k) ps \<and>
    wstate k2 = after_records (wstate k) (length ps) \<and> writing cs k2 [] \<and> same_reading k k2 \<and>
    stream (tc_delegate k2) = stream (tc_delegate k) \<and> good (tc_delegate k2)"
  by (rule duplex.writes_then_flush [OF assms])

definition toy_session :: "bytes \<Rightarrow> (ChunkDuplex, bytes, bytes) TlsConnection" where
  "toy_session bs = \<lparr>tc_delegate = toy_socket bs, tc_opened = True,
     tc_key_schedule = (KeySchedule_new toy_suite)\<lparr>client_state := toy_wks, server_state := toy_rks\<rparr>,
     tc_record_reader = RecordReader_new (replicate 300 0),
     tc_record_write_buf = \<lparr>wb_buffer = replicate 300 0, wb_pos = 0, wb_current_header = None\<rparr>,
     tc_decrypted = DecryptedBufferInfo_default, tc_flush_policy = Relaxed\<rparr>"

lemma toy_session_ready: "writing toy_suite (toy_session bs) []" "reading toy_suite (toy_session bs) []"
  using toy_wks_sel(1) toy_rks_sel(1)
  by (simp_all add: writing_def reading_def toy_session_def wb_idle_def TLS_RECORD_OVERHEAD_def RecordReader_new_def rr_ok_def
      DecryptedBufferInfo_default_def di_ok_def di_left_def slice_of_def)

lemma toy_session_sel: "tc_delegate (toy_session bs) = toy_socket bs" "wstate (toy_session bs) = r_state toy_rks"
  "rstate (toy_session bs) = r_state toy_rks" "length (read_mem (toy_session bs)) = 300"
  "length (wb_buffer (tc_record_write_buf (toy_session bs))) = 300" "counter (r_state toy_rks) = 0"
  by (simp_all add: toy_session_def toy_wks_sel(4) RecordReader_new_def toy_rks_sel)

lemma toy_tag_room: "TagSize toy_suite < TLS_RECORD_OVERHEAD" "TagSize toy_suite + 3 \<le> TLS_RECORD_OVERHEAD" "8 \<le> IvLen toy_suite"
  by (simp_all add: TLS_RECORD_OVERHEAD_def)

theorem writes_refine_stream_witness:
  "\<exists>ns k1 k2 ps. write_each toy_suite chunk_transport [[1, 2], replicate 500 3] (toy_session []) = (Ok ns, k1) \<and>
    TlsConnection_flush toy_suite chunk_transport k1 = (Ok (), k2) \<and> concat ps = accepted ns [[1, 2], replicate 500 3] \<and>
    cd_out (tc_delegate k2) = app_records toy_suite toy_seal (r_state toy_rks) ps"
proof -
  have "unat (counter (wstate (toy_session []))) + length [[1, 2], replicate 500 3 :: bytes] + 1 < 2 ^ 64"
    by (simp add: toy_session_sel)
  from writes_refine_stream [OF chunk_duplex.duplex_axioms toy_seal_laws toy_tag_room(3,1) toy_session_ready(1) this]
  show ?thesis by (simp add: toy_session_sel toy_socket_sel) blast
qed

text \<open>C7. Reading returns the stream in order: when the transport holds records of application data under
  consecutive sequence numbers (empty records among them), a sequence of reads into non-empty buffers that the
  data can fill all return, each with at least a byte and at most its buffer, and the pieces are the
  payloads in order with nothing lost or repeated; what is left stays readable.\<close>

theorem reads_deliver_stream:
  assumes "duplex T stream good sent" and "aead_laws cs seal" and "8 \<le> IvLen cs"
    and "reading cs k q" and "unat (counter (rstate k)) + length ps < 2 ^ 64" and "good (tc_delegate k)"
    and "stream (tc_delegate k) = app_records cs seal (rstate k) ps @ rest" and "records_fit cs (length (read_mem k)) ps"
    and "list_all (\<lambda>buf. buf \<noteq> []) bufs" and "sum_list (map length bufs) \<le> length (q @ concat ps)"
  shows "\<exists>xs k' q' ps'. read_each cs T bufs k = Some (Ok xs, k') \<and> length xs = length bufs \<and>
    (\<forall>i < length bufs. xs ! i \<noteq> [] \<and> length (xs ! i) \<le> length (bufs ! i)) \<and>
    q @ concat ps = concat xs @ q' @ concat ps' \<and> reading cs k' q' \<and> same_writing k k' \<and>
    sent (tc_delegate k') = sent (tc_delegate k) \<and>
    stream (tc_delegate k') = app_records cs seal (rstate k') ps' @ rest \<and> good (tc_delegate k')"
  by (rule duplex.reads_deliver [OF assms])

theorem reads_deliver_stream_witness:
  "\<exists>xs k' q' ps'. read_each toy_suite chunk_transport [[0, 0], [0, 0, 0]]
      (toy_session (app_records toy_suite toy_seal (r_state toy_rks) [[1], [], [2, 3, 4, 5]] @ [])) = Some (Ok xs, k') \<and>
    [1, 2, 3, 4, 5] = concat xs @ q' @ concat ps' \<and> length xs = 2"
proof -
  let ?ps = "[[1], [], [2, 3, 4, 5]] :: bytes list"
  let ?k = "toy_session (app_records toy_suite toy_seal (r_state toy_rks) ?ps @ [])"
  have s: "chunk_data (cd_in (tc_delegate ?k)) = app_records toy_suite toy_seal (rstate ?k) ?ps @ []"
    by (simp only: toy_session_sel toy_socket_sel)
  have g: "0 < chunk_size (cd_in (tc_delegate ?k))" by (simp only: toy_session_sel toy_socket_sel)
  have c: "unat (counter (rstate ?k)) + length ?ps < 2 ^ 64" by (simp add: toy_session_sel(3,6))
  have f: "records_fit toy_suite (length (read_mem ?k)) ?ps" unfolding toy_session_sel by (simp add: records_fit_def)
  have b: "list_all (\<lambda>buf. buf \<noteq> []) [[0, 0], [0, 0, 0] :: bytes]"
    "sum_list (map length [[0, 0], [0, 0, 0] :: bytes]) \<le> length ([] @ concat ?ps)" by simp_all
  from reads_deliver_stream [OF chunk_duplex.duplex_axioms toy_seal_laws toy_tag_room(3) toy_session_ready(2) c g s f b]
  obtain xs k' q' ps' where "read_each toy_suite chunk_transport [[0, 0], [0, 0, 0]] ?k = Some (Ok xs, k')"
    "length xs = length [[0, 0], [0, 0, 0] :: bytes]" "[] @ concat ?ps = concat xs @ q' @ concat ps'" by blast
  then show ?thesis by (intro exI [of _ xs] exI [of _ k'] exI [of _ q'] exI [of _ ps']) simp
qed

text \<open>C8. What one connection writes another reads: take the bytes that a sequence of writes and a flush send; a peer
  whose read keys are the writer's write keys, whose transport delivers those bytes and whose buffer fits the
  writer's records returns, in reads that ask for no more than was accepted, exactly a prefix of the accepted bytes,
  and keeps the rest for later reads.\<close>

theorem written_bytes_are_read:
  assumes "duplex T stream good sent" and "duplex T2 stream2 good2 sent2"
    and "aead_laws cs seal" and "8 \<le> IvLen cs" and "TagSize cs < TLS_RECORD_OVERHEAD"
    and "writing cs k []" and "unat (counter (wstate k)) + length bufs + 1 < 2 ^ 64" and "good (tc_delegate k)"
    and "write_each cs T bufs k = (Ok ns, k1)" and "TlsConnection_flush cs T k1 = (Ok (), k2)"
    and "reading cs peer []" and "rstate peer = wstate k" and "good2 (tc_delegate peer)"
    and "sent (tc_delegate k2) = sent (tc_delegate k) @ stream2 (tc_delegate peer)"
    and "length (wb_buffer (tc_record_write_buf k)) \<le> length (read_mem peer)" and "length (wb_buffer (tc_record_write_buf k)) < 65536"
    and "list_all (\<lambda>buf. buf \<noteq> []) into" and "sum_list (map length into) \<le> length (accepted ns bufs)"
  shows "\<exists>xs peer' q ps'. read_each cs T2 into peer = Some (Ok xs, peer') \<and> length xs = length into \<and>
    accepted ns bufs = concat xs @ q @ concat ps' \<and> reading cs peer' q \<and>
    stream2 (tc_delegate peer') = app_records cs seal (rstate peer') ps'"
proof -
  obtain ps where ps: "concat ps = accepted ns bufs" "payloads_fit k ps" "length ps \<le> length bufs + 1"
    "sent (tc_delegate k2) = sent (tc_delegate k) @ app_records cs seal (wstate k) ps"
    using duplex.written_payloads [OF assms(1,3-10)] by blast
  have st: "stream2 (tc_delegate peer) = app_records cs seal (rstate peer) ps @ []" using assms(12,14) ps(4) by simp
  have fit: "records_fit cs (length (read_mem peer)) ps"
    using ps(2) assms(5,15,16) by (auto simp: payloads_fit_def records_fit_def list_all_iff TLS_RECORD_OVERHEAD_def)
  have c: "unat (counter (rstate peer)) + length ps < 2 ^ 64" using assms(7,12) ps(3) by simp
  have l: "sum_list (map length into) \<le> length ([] @ concat ps)" using assms(18) ps(1) by simp
  from duplex.reads_deliver [OF assms(2,3,4,11) c assms(13) st fit assms(17) l] ps(1) show ?thesis by auto
qed

theorem written_bytes_are_read_witness:
  "\<exists>ns k1 k2 xs peer' q ps'. write_each toy_suite chunk_transport [[1, 2], [3]] (toy_session []) = (Ok ns, k1) \<and>
    TlsConnection_flush toy_suite chunk_transport k1 = (Ok (), k2) \<and>
    read_each toy_suite chunk_transport [[0], [0]] (toy_session (cd_out (tc_delegate k2))) = Some (Ok xs, peer') \<and>
    length xs = 2 \<and> accepted ns [[1, 2], [3]] = concat xs @ q @ concat ps'"
proof -
  have c: "unat (counter (wstate (toy_session []))) + length [[1, 2], [3] :: bytes] + 1 < 2 ^ 64"
    by (simp add: toy_session_sel)
  have g: "0 < chunk_size (cd_in (tc_delegate (toy_session bs)))" for bs by (simp only: toy_session_sel toy_socket_sel)
  obtain ns k1 k2 where w: "write_each toy_suite chunk_transport [[1, 2], [3]] (toy_session []) = (Ok ns, k1)"
    "TlsConnection_flush toy_suite chunk_transport k1 = (Ok (), k2)" "length ns = 2"
    "\<forall>i < length [[1, 2], [3 :: u8]]. ns ! i \<le> length ([[1, 2], [3 :: u8]] ! i) \<and> ([[1, 2], [3 :: u8]] ! i \<noteq> [] \<longrightarrow> 0 < ns ! i)"
    using chunk_duplex.writes_then_flush [OF toy_seal_laws toy_tag_room(3,1) toy_session_ready(1) c g] by auto
  obtain a b where ns: "ns = [a, b]" using w(3) by (auto simp: length_Suc_conv numeral_2_eq_2)
  have ab: "0 < a" "0 < b" using w(4) [THEN spec [of _ 0]] w(4) [THEN spec [of _ 1]] by (simp_all add: ns)
  let ?p = "toy_session (cd_out (tc_delegate k2))"
  have s: "cd_out (tc_delegate k2) = cd_out (tc_delegate (toy_session [])) @ chunk_data (cd_in (tc_delegate ?p))"
    by (simp add: toy_session_sel toy_socket_sel)
  have r: "rstate ?p = wstate (toy_session [])" by (simp only: toy_session_sel)
  have l: "length (wb_buffer (tc_record_write_buf (toy_session []))) \<le> length (read_mem ?p)"
    "length (wb_buffer (tc_record_write_buf (toy_session []))) < 65536" by (simp_all add: toy_session_sel)
  have i: "list_all (\<lambda>buf. buf \<noteq> []) [[0], [0 :: u8]]" "sum_list (map length [[0], [0 :: u8]]) \<le> length (accepted ns [[1, 2], [3]])"
    using ab by (cases a; cases b; simp add: ns accepted_def)+
  from written_bytes_are_read [OF chunk_duplex.duplex_axioms chunk_duplex.duplex_axioms toy_seal_laws toy_tag_room(3,1)
      toy_session_ready(1) c g w(1,2) toy_session_ready(2) r g s l i]
  obtain xs peer' q ps' where "read_each toy_suite chunk_transport [[0], [0]] ?p = Some (Ok xs, peer')"
    "length xs = length [[0], [0 :: u8]]" "accepted ns [[1, 2], [3]] = concat xs @ q @ concat ps'" by blast
  moreover have "length [[0], [0 :: u8]] = 2" by simp
  ultimately show ?thesis using w(1,2) by metis
qed

text \<open>C29. Closing an open connection sends what is still buffered as a last record, if there is one, and then a protected
  \<open>close_notify\<close> alert under the next sequence number, and returns the transport.\<close>

theorem close_sends_close_notify:
  assumes "duplex T stream good sent" and "aead_laws cs seal" and "8 \<le> IvLen cs" and "TagSize cs + 3 \<le> TLS_RECORD_OVERHEAD"
    and "writing cs k p" and "unat (counter (wstate k)) + 2 < 2 ^ 64" and "good (tc_delegate k)"
    and "ps = (if wb_idle (tc_record_write_buf k) then [] else [p])"
  shows "\<exists>t'. TlsConnection_close cs T k = Ok t' \<and>
    sent t' = sent (tc_delegate k) @ app_records cs seal (wstate k) ps @
      sealed_record cs seal (after_records (wstate k) (length ps)) ([1, 0] @ [21]) \<and>
    stream t' = stream (tc_delegate k)"
  by (rule duplex.close_sends [OF assms])

theorem close_sends_close_notify_witness:
  "\<exists>t'. TlsConnection_close toy_suite chunk_transport (toy_session [9]) = Ok t' \<and>
    cd_out t' = sealed_record toy_suite toy_seal (r_state toy_rks) [1, 0, 21] \<and> chunk_data (cd_in t') = [9]"
proof -
  have c: "unat (counter (wstate (toy_session [9]))) + 2 < 2 ^ 64" by (simp add: toy_session_sel)
  have g: "0 < chunk_size (cd_in (tc_delegate (toy_session [9])))" by (simp only: toy_session_sel toy_socket_sel)
  have i: "[] = (if wb_idle (tc_record_write_buf (toy_session [9])) then [] else [[]])"
    by (simp add: toy_session_def wb_idle_def)
  from close_sends_close_notify [OF chunk_duplex.duplex_axioms toy_seal_laws toy_tag_room(3,2) toy_session_ready(1) c g i]
  show ?thesis by (simp add: toy_session_sel toy_socket_sel)
qed

text \<open>C28. The peer closes: a protected \<open>close_notify\<close> ends the session. The read returns \<open>ConnectionClosed\<close>; from then on
  writes and reads fail with \<open>MissingHandshake\<close> and leave the connection, and so the transport, untouched.\<close>

theorem close_notify_ends_session:
  assumes "duplex T stream good sent" and "aead_laws cs seal" and "8 \<le> IvLen cs"
    and "reading cs k []" and "good (tc_delegate k)"
    and "stream (tc_delegate k) = sealed_record cs seal (rstate k) ([lv, 0] @ [21]) @ rest" and "lv = 1 \<or> lv = 2"
    and "records_fit cs (length (read_mem k)) [[lv, 0]]" and "buf \<noteq> []"
  shows "\<exists>k'. TlsConnection_read cs T buf k = Some (Err ConnectionClosed, k') \<and>
    sent (tc_delegate k') = sent (tc_delegate k) \<and> stream (tc_delegate k') = rest \<and>
    (\<forall>bs. TlsConnection_write cs T bs k' = (Err MissingHandshake, k')) \<and>
    (\<forall>bs. TlsConnection_read cs T bs k' = Some (if bs = [] then Ok (0, []) else Err MissingHandshake, k'))"
proof -
  obtain k' where "TlsConnection_read cs T buf k = Some (Err ConnectionClosed, k')" "\<not> tc_opened k'"
    "stream (tc_delegate k') = rest" "sent (tc_delegate k') = sent (tc_delegate k)"
    using duplex.close_notify_reads [OF assms] by blast
  then show ?thesis
    by (intro exI [of _ k']) (simp add: TlsConnection_write_def TlsConnection_read_def TlsConnection_read_buffered_def with_read_buffer_def)
qed

theorem close_notify_ends_session_witness:
  "\<exists>k'. TlsConnection_read toy_suite chunk_transport [0]
      (toy_session (sealed_record toy_suite toy_seal (r_state toy_rks) ([1, 0] @ [21]) @ [])) = Some (Err ConnectionClosed, k') \<and>
    TlsConnection_write toy_suite chunk_transport [5] k' = (Err MissingHandshake, k')"
proof -
  let ?k = "toy_session (sealed_record toy_suite toy_seal (r_state toy_rks) ([1, 0] @ [21]) @ [])"
  have s: "chunk_data (cd_in (tc_delegate ?k)) = sealed_record toy_suite toy_seal (rstate ?k) ([1, 0] @ [21]) @ []"
    by (simp only: toy_session_sel toy_socket_sel)
  have g: "0 < chunk_size (cd_in (tc_delegate ?k))" by (simp only: toy_session_sel toy_socket_sel)
  have f: "records_fit toy_suite (length (read_mem ?k)) [[1, 0]]" unfolding toy_session_sel by (simp add: records_fit_def)
  from close_notify_ends_session [OF chunk_duplex.duplex_axioms toy_seal_laws toy_tag_room(3) toy_session_ready(2) g s _ f, of "[0]"]
  show ?thesis by blast
qed

text \<open>After the handshake, a protected record with any handshake message but NewSessionTicket makes the read panic at
  \<open>unimplemented!()\<close> instead of failing with an error: a server that holds the keys can crash the client.\<close>

theorem post_handshake_message_panics:
  assumes "duplex T stream good sent" and "aead_laws cs seal" and "8 \<le> IvLen cs"
    and "reading cs k []" and "good (tc_delegate k)"
    and "stream (tc_delegate k) = sealed_record cs seal (rstate k) (w @ [22]) @ rest"
    and "parses (ServerHandshake_parse cs) w m" and "\<forall>t. m \<noteq> SH_NewSessionTicket t"
    and "records_fit cs (length (read_mem k)) [w]" and "buf \<noteq> []"
  shows "\<exists>k'. TlsConnection_read cs T buf k = Some (Panic, k')"
  by (rule duplex.other_message_panics [OF assms])

theorem post_handshake_message_panics_witness:
  "\<exists>k'. TlsConnection_read toy_suite chunk_transport [0]
      (toy_session (sealed_record toy_suite toy_seal (r_state toy_rks) (([20] @ prefixed24 [1, 2, 3, 4]) @ [22]) @ [])) = Some (Panic, k')"
proof -
  let ?w = "[20] @ prefixed24 [1, 2, 3, 4] :: bytes"
  let ?k = "toy_session (sealed_record toy_suite toy_seal (r_state toy_rks) (?w @ [22]) @ [])"
  have s: "chunk_data (cd_in (tc_delegate ?k)) = sealed_record toy_suite toy_seal (rstate ?k) (?w @ [22]) @ []"
    by (simp only: toy_session_sel toy_socket_sel)
  have g: "0 < chunk_size (cd_in (tc_delegate ?k))" by (simp only: toy_session_sel toy_socket_sel)
  have f: "records_fit toy_suite (length (read_mem ?k)) [?w]" unfolding toy_session_sel by (simp add: records_fit_def prefixed24_def)
  have p: "parses (ServerHandshake_parse toy_suite) ?w (SH_Finished \<lparr>fin_verify = [1, 2, 3, 4], fin_hash = None\<rparr>)"
    by (rule Finished_message_parses) simp_all
  show ?thesis
    by (rule post_handshake_message_panics [OF chunk_duplex.duplex_axioms toy_seal_laws toy_tag_room(3) toy_session_ready(2) g s p _ f])
      simp_all
qed

end
