(* ===== verification/Connection_Invariant.thy ===== *)
theory Connection_Invariant
  imports Blocking_Session
begin

text \<open>
  The state of a connection between calls. \<open>conn_ok\<close> is what every method of \<open>TlsConnection\<close>
  (\<open>src/src/blocking.rs\<close>) finds and leaves, whatever the transport does: errors in the middle of a
  record, short reads and any bytes from the peer. The calls of a client are the steps of an
  inductive relation, and the invariant is proved by rule induction over them. Inside
  it, writing never panics before the sequence numbers run out, and reading ends on every
  finite stream. Two things the invariant does not give: a failed write leaves the
  sequence number of a record that was already sealed, and a failed read
  leaves a reader that panics on the next record.
\<close>

section \<open>Reading a record from any state of the reader\<close>

text \<open>A read that failed in the middle of a record leaves its bytes pending, so nothing is assumed of
  them here.\<close>

lemma ensure_contiguous_any:
  assumes "rr_ok r" "ensure_contiguous len r = (q, r')"
  shows "rr_ok r' \<and> length (rr_buf r') = length (rr_buf r)"
proof (cases "length (rr_buf r) < rr_decoded r + len \<and> len \<le> length (rr_buf r)")
  case True
  with assms show ?thesis by (auto simp: ensure_contiguous_def rr_ok_def)
next
  case False
  with assms have "r' = r" by (auto simp: ensure_contiguous_def split: if_split_asm)
  with assms(1) show ?thesis by simp
qed

lemma advance_loop_any:
  assumes "rr_ok r" "advance_loop rd amount remain (r, t) = (q, r', t')"
  shows "rr_ok r' \<and> length (rr_buf r') = length (rr_buf r)"
  using assms
proof (induction remain arbitrary: r t rule: less_induct)
  case (less remain)
  let ?r = "\<lambda>bs. r\<lparr>rr_buf := write_at (rr_buf r) (rr_decoded r + rr_pending r) bs, rr_pending := rr_pending r + length bs\<rparr>"
  obtain s u where rd: "rd remain t = (s, u)" by fastforce
  show ?case
  proof (cases "\<exists>bs. s = Ok bs \<and> bs \<noteq> [] \<and> length bs \<le> remain \<and> \<not> amount \<le> rr_pending r \<and>
      rr_decoded r + rr_pending r + remain \<le> length (rr_buf r)")
    case True
    then obtain bs where bs: "s = Ok bs" "bs \<noteq> []" "length bs \<le> remain" "\<not> amount \<le> rr_pending r"
      "rr_decoded r + rr_pending r + remain \<le> length (rr_buf r)" by blast
    have "advance_loop rd amount (remain - length bs) (?r bs, u) = (q, r', t')"
      using less.prems(2) rd bs by (subst (asm) advance_loop.simps) auto
    moreover have "rr_ok (?r bs)" "length (rr_buf (?r bs)) = length (rr_buf r)" "remain - length bs < remain"
      using bs(2,3,5) by (cases bs; simp add: rr_ok_def)+
    ultimately show ?thesis using less.IH by metis
  next
    case False
    then show ?thesis
      using less.prems rd by (subst (asm) advance_loop.simps) (auto split: if_split_asm result.split_asm)
  qed
qed

lemma decode_app_window:
  assumes "ServerRecord_decode cs header base data h = (Ok rec, h')"
  shows "\<forall>ad. rec = SR_ApplicationData ad \<longrightarrow> app_data ad = cb_wrap_with_pos data (length data) \<and> app_base ad = base"
  using assms by (auto simp: ServerRecord_decode_def bnd_Ok_iff split: if_split_asm result.split_asm ContentType.split_asm prod.split_asm)

text \<open>The window of a protected record lies in the buffer.\<close>

definition app_fits :: "nat \<Rightarrow> ServerRecord \<Rightarrow> bool" where
  "app_fits n rec \<longleftrightarrow> (case rec of
     SR_ApplicationData ad \<Rightarrow> cb_ok (app_data ad) \<and> app_base ad + length (cb_buf (app_data ad)) \<le> n
   | _ \<Rightarrow> True)"

lemma rr_consume_any:
  assumes "rr_ok r" "rr_consume cs header (r, h) = (q, r', h')" "q \<noteq> Panic"
  shows "rr_ok r' \<and> length (rr_buf r') = length (rr_buf r) \<and> (\<forall>rec. q = Ok rec \<longrightarrow> app_fits (length (rr_buf r)) rec)"
proof -
  let ?l = "RecordHeader_content_length header"
  let ?data = "slice_of (rr_buf r) (rr_decoded r) (rr_decoded r + ?l)"
  have l: "rr_decoded r + ?l \<le> length (rr_buf r)" "?l \<le> rr_pending r"
    using assms(2,3) by (auto simp: rr_consume_def Let_def not_less [symmetric] split: if_split_asm)
  then have r': "r' = r\<lparr>rr_decoded := rr_decoded r + ?l, rr_pending := rr_pending r - ?l\<rparr>"
    and d: "ServerRecord_decode cs header (rr_decoded r) ?data h = (q, h')"
    using assms(2) by (simp_all add: rr_consume_def Let_def split: prod.split_asm)
  have "app_fits (length (rr_buf r)) rec" if "q = Ok rec" for rec
    using decode_app_window [OF d [unfolded that]] l
    by (auto simp: app_fits_def cb_wrap_with_pos_def cb_ok_def split: ServerRecord.split)
  with r' l assms(1) show ?thesis by (simp add: rr_ok_def)
qed

lemma read_blocking_any:
  assumes "rr_ok r" "read_blocking cs rd (r, t, rks) = (q, r', t', rks')" "q \<noteq> Panic"
  shows "rr_ok r' \<and> length (rr_buf r') = length (rr_buf r) \<and> r_state rks' = r_state rks \<and>
    (\<forall>rec. q = Ok rec \<longrightarrow> app_fits (length (rr_buf r)) rec)"
proof -
  obtain hq t1 where h: "next_record_header_blocking rd t = (hq, t1)" by fastforce
  show ?thesis
  proof (cases hq)
    case (Ok header)
    let ?l = "RecordHeader_content_length header"
    obtain eq r1 where e: "ensure_contiguous ?l r = (eq, r1)" by fastforce
    note r1 = ensure_contiguous_any [OF assms(1) e]
    obtain aq r2 t2 where a: "advance_blocking rd ?l (r, t1) = (aq, r2, t2)" by (metis prod.exhaust)
    then have r2: "rr_ok r2 \<and> length (rr_buf r2) = length (rr_buf r)"
      using e r1 advance_loop_any [of r1 rd ?l ?l t1 aq r2 t2]
      by (cases eq) (auto simp: advance_blocking_def)
    show ?thesis
    proof (cases aq)
      case ok2: (Ok x)
      obtain cq r3 h3 where c: "rr_consume cs header (r2, transcript_hash rks) = (cq, r3, h3)" by (metis prod.exhaust)
      with assms(2) h Ok a ok2 have "q = cq" "r' = r3" "rks' = rks\<lparr>transcript_hash := h3\<rparr>"
        by (simp_all add: read_blocking_def)
      with rr_consume_any [OF _ c] r2 assms(3) show ?thesis by simp
    qed (use assms(2,3) h Ok a r2 in \<open>auto simp: read_blocking_def\<close>)
  qed (use assms h in \<open>auto simp: read_blocking_def\<close>)
qed

section \<open>Opening a record\<close>

lemma inner_plaintext_buf: "inner_plaintext d = (q, d') \<Longrightarrow> cb_buf d' = cb_buf d"
  by (auto simp: inner_plaintext_def bnd_def cb_truncate_def ok_or_def split: if_split_asm result.split_asm option.split_asm prod.split_asm)

text \<open>What every call of the closure keeps, the loop over coalesced messages and the dispatch keep.\<close>

lemma handshake_loop_invariant:
  assumes cb: "\<And>m rks u r rks' u'. J rks u \<Longrightarrow> cb (SR_Handshake m) (rks, u) = (r, rks', u') \<Longrightarrow> r \<noteq> Panic \<Longrightarrow> J rks' u'"
    and hash: "\<And>rks u h. J rks u \<Longrightarrow> J (rks\<lparr>transcript_hash := h\<rparr>) u"
    and "J rks u" "handshake_loop cs cb b (rks, u) = (r, rks', u')" "r \<noteq> Panic"
  shows "J rks' u'"
  using assms(3,4)
proof (induction "length (buffer b) - pos b" arbitrary: b rks u rule: less_induct)
  case less
  obtain mq b' h where m: "ServerHandshake_read cs (b, transcript_hash rks) = (mq, b', h)" by (metis prod.exhaust)
  have j: "J (rks\<lparr>transcript_hash := h\<rparr>) u" by (rule hash [OF less.prems(1)])
  show ?case
  proof (cases "length (buffer b) \<le> pos b \<or> (\<forall>x. mq \<noteq> Ok x)")
    case True
    then show ?thesis
      using less.prems m j assms(5) by (cases mq) (auto simp: handshake_loop.simps [of _ _ b] split: if_split_asm)
  next
    case False
    then obtain x where x: "mq = Ok x" and p: "pos b < length (buffer b)" by auto
    obtain cq rks2 u2 where c: "cb (SR_Handshake x) (rks\<lparr>transcript_hash := h\<rparr>, u) = (cq, rks2, u2)" by (metis prod.exhaust)
    show ?thesis
    proof (cases cq)
      case (Ok y)
      then have "handshake_loop cs cb b' (rks2, u2) = (r, rks', u')" "J rks2 u2"
        using less.prems(2) m x p c cb [OF j c] by (simp_all add: handshake_loop.simps [of _ _ b])
      with less.hyps [OF ServerHandshake_read_progress [OF m [unfolded x] p]] show ?thesis by blast
    next
      case (Err e)
      then show ?thesis using less.prems(2) m x p c cb [OF j c] by (auto simp: handshake_loop.simps [of _ _ b])
    next
      case Panic
      then show ?thesis using less.prems(2) m x p c assms(5) by (simp add: handshake_loop.simps [of _ _ b])
    qed
  qed
qed

lemma dispatch_inner_invariant:
  assumes cb: "\<And>rec rks u r rks' u'. J rks u \<Longrightarrow> cb rec (rks, u) = (r, rks', u') \<Longrightarrow> r \<noteq> Panic \<Longrightarrow> J rks' u'"
    and hash: "\<And>rks u h. J rks u \<Longrightarrow> J (rks\<lparr>transcript_hash := h\<rparr>) u"
    and "J rks u" "dispatch_inner cs cb ad ct d (rks, u) = (r, rks', u')" "r \<noteq> Panic"
  shows "J rks' u'"
proof (cases "cb_as_slice d :: (bytes, TlsError) result")
  case (Ok s)
  show ?thesis
  proof (cases ct)
    case CT_Handshake
    with handshake_loop_invariant [of J cb, OF cb hash assms(3) _ assms(5)] Ok assms(4) show ?thesis
      by (simp add: dispatch_inner_def)
  next
    case CT_Alert
    then show ?thesis
      using Ok assms(3-5) cb by (auto simp: dispatch_inner_def bnd_def split: result.split_asm)
  qed (use Ok assms cb in \<open>auto simp: dispatch_inner_def\<close>)
qed (use assms in \<open>auto simp: dispatch_inner_def\<close>)

text \<open>The closure of \<open>read_application_data\<close> leaves the keys alone and records only windows inside the
  buffer.\<close>

lemma handler_cb_invariant:
  assumes "handler_cb n rec (rks, i, opened) = (r, rks', i', opened')" "r \<noteq> Panic" "di_ok mem i" "length mem = n"
  shows "rks' = rks \<and> di_ok mem i'"
  using assms
  by (auto simp: handler_cb_def DecryptedReadHandler_handle_def Let_def di_ok_def bnd_def
      split: ServerRecord.split_asm ServerHandshake.split_asm result.split_asm if_split_asm)

lemma opened_length:
  assumes "decrypts_in_place cs" "cb_ok b"
    and "bnd (map_err f (aead_decrypt_in_place cs key nonce aad)) (\<lambda>_. inner_plaintext) b = (q, b')"
  shows "length (cb_buf b') = length (cb_buf b)"
proof -
  obtain aq b1 where a: "aead_decrypt_in_place cs key nonce aad b = (aq, b1)" by fastforce
  with assms(1,2) have "length (cb_buf b1) = length (cb_buf b)" unfolding decrypts_in_place_def by (metis (mono_tags, lifting) case_prod_conv)
  with a assms(3) show ?thesis by (cases aq) (auto simp: bnd_def map_err_def dest: inner_plaintext_buf)
qed

lemma increment_iv: "enc_iv (r_state (snd (read_increment_counter rks))) = enc_iv (r_state rks)"
  by (simp add: read_increment_counter_def zoom_def state_increment_counter_def)

lemma decrypt_app_invariant:
  assumes law: "decrypts_in_place cs" and w: "cb_ok (app_data ad)" "app_base ad + length (cb_buf (app_data ad)) \<le> length mem"
    and i: "di_ok mem i" and n: "read_get_nonce cs rks = Ok nonce"
    and d: "decrypt_app cs ad (handler_cb (length mem)) (mem, rks, i, opened) = (r, mem', rks', i', opened')" "r \<noteq> Panic"
  shows "length mem' = length mem \<and> di_ok mem' i' \<and> enc_iv (r_state rks') = enc_iv (r_state rks)"
proof -
  let ?J = "\<lambda>rks1 (i1, o1 :: bool). r_state rks1 = r_state rks \<and> di_ok mem i1"
  obtain dq b where b: "bnd (map_err (\<lambda>_. CryptoError)
      (aead_decrypt_in_place cs (read_get_key rks) nonce (header_data (app_header ad)))) (\<lambda>_. inner_plaintext) (app_data ad) = (dq, b)"
    by (metis prod.exhaust)
  have lm: "length (app_store ad b mem) = length mem" using opened_length [OF law w(1) b] w(2) by (simp add: app_store_def)
  show ?thesis
  proof (cases dq)
    case (Ok ct)
    obtain iq rks1 i1 o1 where x: "dispatch_inner cs (handler_cb (length mem)) ad ct b (rks, i, opened) = (iq, rks1, i1, o1)"
      by (metis prod.exhaust)
    have j: "?J rks1 (i1, o1)" if "iq \<noteq> Panic"
      by (rule dispatch_inner_invariant [of ?J, OF _ _ _ x that]) (auto dest: handler_cb_invariant [where mem = mem] simp: i)
    show ?thesis
    proof (cases iq)
      case ok2: (Ok y)
      then show ?thesis
        using d(1) b n Ok x lm increment_iv [of rks1] j by (auto simp: decrypt_app_def di_ok_def split: prod.split_asm)
    next
      case (Err e)
      then show ?thesis using d(1) b n Ok x lm j by (auto simp: decrypt_app_def di_ok_def)
    next
      case Panic
      then show ?thesis using d b n Ok x by (auto simp: decrypt_app_def)
    qed
  qed (use d b n lm i in \<open>auto simp: decrypt_app_def di_ok_def\<close>)
qed

lemma decrypt_unprotected:
  assumes "\<nexists>ad. rec = SR_ApplicationData ad"
  shows "decrypt_record cs rec cb (mem, rks, u) = (case cb rec (rks, u) of (r, rks', u') \<Rightarrow> (r, mem, rks', u'))"
  using assms by (simp add: decrypt_record_def split: ServerRecord.split)

lemma decrypt_record_invariant:
  assumes law: "decrypts_in_place cs" and fit: "app_fits (length mem) rec" and i: "di_ok mem i"
    and d: "decrypt_record cs rec (handler_cb (length mem)) (mem, rks, i, opened) = (r, mem', rks', i', opened')" "r \<noteq> Panic"
  shows "length mem' = length mem \<and> di_ok mem' i' \<and> enc_iv (r_state rks') = enc_iv (r_state rks)"
proof (cases "\<exists>ad. rec = SR_ApplicationData ad")
  case False
  then have h: "handler_cb (length mem) rec (rks, i, opened) = (r, rks', i', opened')" and "mem' = mem"
    using d(1) by (simp_all add: decrypt_unprotected split: prod.split_asm)
  with handler_cb_invariant [OF h d(2) i refl] show ?thesis by simp
next
  case True
  then obtain ad where ad: "rec = SR_ApplicationData ad" by blast
  show ?thesis
  proof (cases "read_get_nonce cs rks")
    case (Ok nonce)
    show ?thesis by (rule decrypt_app_invariant [OF law _ _ i Ok d(1) [unfolded ad decrypt_record_def, simplified] d(2)])
      (use fit ad in \<open>simp_all add: app_fits_def\<close>)
  qed (use d ad i in \<open>simp_all add: decrypt_record_def decrypt_app_def\<close>)
qed

section \<open>The invariant\<close>

text \<open>The write buffer is idle, or an application data record with room for its overhead is open in it.\<close>

definition wb_ready :: "WriteBuffer \<Rightarrow> bool" where
  "wb_ready w \<longleftrightarrow> 5 + TLS_RECORD_OVERHEAD < length (wb_buffer w) \<and>
     (wb_idle w \<or> (\<exists>p. wb_holds w RH_ApplicationData p) \<and> wb_pos w + TLS_RECORD_OVERHEAD \<le> length (wb_buffer w))"

definition conn_ok :: "('h, 'k) TlsCipherSuite \<Rightarrow> ('t, 'h, 'k) TlsConnection \<Rightarrow> bool" where
  "conn_ok cs k \<longleftrightarrow> wb_ready (tc_record_write_buf k) \<and> rr_ok (tc_record_reader k) \<and>
     di_ok (read_mem k) (tc_decrypted k) \<and> length (enc_iv (wstate k)) = IvLen cs \<and> length (enc_iv (rstate k)) = IvLen cs"

text \<open>The parts of the state that writing touches.\<close>

lemma conn_ok_writing:
  assumes "conn_ok cs k" "same_reading k k'" "wb_ready (tc_record_write_buf k')" "enc_iv (wstate k') = enc_iv (wstate k)"
  shows "conn_ok cs k'"
  using assms by (simp add: conn_ok_def same_reading_def)

text \<open>The sizes the methods rely on: the tag fits into the overhead that the write buffer keeps free.\<close>

definition sizes_ok :: "('h, 'k) TlsCipherSuite \<Rightarrow> bool" where
  "sizes_ok cs \<longleftrightarrow> 8 \<le> IvLen cs \<and> TagSize cs < TLS_RECORD_OVERHEAD"

text \<open>A transport that fails instead of panicking.\<close>

definition writes_return :: "'t Transport \<Rightarrow> bool" where
  "writes_return T \<longleftrightarrow> (\<forall>bs t. fst (t_write_all T bs t) \<noteq> Panic) \<and> (\<forall>t. fst (t_flush T t) \<noteq> Panic)"

section \<open>Writing keeps it\<close>

lemma close_ready:
  assumes "aead_laws cs seal" "sizes_ok cs" "conn_ok cs k" "\<not> wb_is_empty (tc_record_write_buf k)"
  shows "\<exists>tx w'. close_record cs (client_state (tc_key_schedule k)) (tc_record_write_buf k) = (Ok tx, w') \<and> wb_idle w' \<and>
    length (wb_buffer w') = length (wb_buffer (tc_record_write_buf k))"
proof -
  let ?w = "tc_record_write_buf k"
  obtain p where p: "wb_holds ?w RH_ApplicationData p" and room: "wb_pos ?w + TLS_RECORD_OVERHEAD \<le> length (wb_buffer ?w)"
    using assms(3,4) by (auto simp: conn_ok_def wb_ready_def wb_idle_def wb_is_empty_def)
  have "6 + length p + TagSize cs \<le> length (wb_buffer ?w)" using p room assms(2) by (simp add: wb_holds_def sizes_ok_def)
  from close_record_sealed [OF assms(1) _ _ p _ this refl] assms(2,3) show ?thesis
    by (fastforce simp: conn_ok_def wb_ready_def sizes_ok_def)
qed

lemma flush_keeps:
  assumes laws: "aead_laws cs seal" "sizes_ok cs" and k: "conn_ok cs k" and f: "TlsConnection_flush cs T k = (q, k')"
  shows "conn_ok cs k' \<and> wb_idle (tc_record_write_buf k') \<and> tc_opened k' = tc_opened k \<and>
    (writes_return T \<longrightarrow> unat (counter (wstate k)) + 1 < 2 ^ 64 \<longrightarrow> q \<noteq> Panic)"
proof (cases "wb_is_empty (tc_record_write_buf k)")
  case True
  then have "wb_idle (tc_record_write_buf k)"
    using k by (auto simp: conn_ok_def wb_ready_def wb_idle_def wb_is_empty_def wb_holds_def)
  with True k f show ?thesis by (auto simp: TlsConnection_flush_def)
next
  case False
  from close_ready [OF laws k this] obtain tx w' where
    c: "close_record cs (client_state (tc_key_schedule k)) (tc_record_write_buf k) = (Ok tx, w')" "wb_idle w'"
      "length (wb_buffer w') = length (wb_buffer (tc_record_write_buf k))" by blast
  obtain aq t1 where a: "t_write_all T tx (tc_delegate k) = (aq, t1)" by fastforce
  obtain fq t2 where b: "t_flush T t1 = (fq, t2)" by fastforce
  have np: "writes_return T \<Longrightarrow> aq \<noteq> Panic" "writes_return T \<Longrightarrow> fq \<noteq> Panic"
    using a b by (metis writes_return_def fst_conv)+
  have "tc_record_write_buf k' = w' \<and> same_reading k k' \<and> enc_iv (wstate k') = enc_iv (wstate k) \<and>
      (writes_return T \<longrightarrow> unat (counter (wstate k)) + 1 < 2 ^ 64 \<longrightarrow> q \<noteq> Panic)"
    using f False c(1,3) a b np
    by (cases aq; cases fq)
      (auto simp: TlsConnection_flush_def bnd_def zoom_def map_err_def write_increment_counter_def state_increment_counter_def
        TlsConnection_flush_transport_def same_reading_def split: if_split_asm)
  moreover have "wb_ready w'" using k c(2,3) by (simp add: conn_ok_def wb_ready_def)
  ultimately show ?thesis using conn_ok_writing [OF k, of k'] c(2) by (auto simp: same_reading_def)
qed

text \<open>A write first makes sure that an application data record is open, then fills it.\<close>

lemma write_opens_record:
  assumes laws: "aead_laws cs seal" "sizes_ok cs" and k: "conn_ok cs k"
  shows "\<exists>w1. (if \<not> wb_contains RH_ApplicationData (tc_record_write_buf k)
          then seq (TlsConnection_flush cs T) (on_write_buf (start_record RH_ApplicationData))
          else ret ()) k = (Ok (), k\<lparr>tc_record_write_buf := w1\<rparr>) \<and>
    (\<exists>p. wb_holds w1 RH_ApplicationData p) \<and> wb_pos w1 + TLS_RECORD_OVERHEAD \<le> length (wb_buffer w1) \<and>
    length (wb_buffer w1) = length (wb_buffer (tc_record_write_buf k))"
proof (cases "wb_idle (tc_record_write_buf k)")
  case True
  then obtain w1 where w1: "start_record RH_ApplicationData (tc_record_write_buf k) = (Ok (), w1)"
    "wb_holds w1 RH_ApplicationData []" "length (wb_buffer w1) = length (wb_buffer (tc_record_write_buf k))"
    using start_record_holds [OF True] k by (fastforce simp: conn_ok_def wb_ready_def)
  moreover have "wb_pos w1 = 5" using w1(2) by (simp add: wb_holds_def)
  ultimately show ?thesis
    using True k by (intro exI [of _ w1])
      (auto simp: wb_contains_def wb_idle_def bnd_def TlsConnection_flush_def wb_is_empty_def zoom_def conn_ok_def wb_ready_def)
next
  case False
  with k have "wb_contains RH_ApplicationData (tc_record_write_buf k)"
    by (auto simp: conn_ok_def wb_ready_def wb_contains_def wb_holds_def)
  with False k show ?thesis
    by (intro exI [of _ "tc_record_write_buf k"]) (auto simp: conn_ok_def wb_ready_def)
qed

lemma write_keeps:
  assumes laws: "aead_laws cs seal" "sizes_ok cs" and k: "conn_ok cs k" and f: "TlsConnection_write cs T buf k = (q, k')"
  shows "conn_ok cs k' \<and>
    (writes_return T \<longrightarrow> unat (counter (wstate k)) + 1 < 2 ^ 64 \<longrightarrow> q \<noteq> Panic)"
proof (cases "tc_opened k")
  case True
  obtain w1 p where w1: "(if \<not> wb_contains RH_ApplicationData (tc_record_write_buf k)
        then seq (TlsConnection_flush cs T) (on_write_buf (start_record RH_ApplicationData))
        else ret ()) k = (Ok (), k\<lparr>tc_record_write_buf := w1\<rparr>)"
    "wb_holds w1 RH_ApplicationData p" "wb_pos w1 + TLS_RECORD_OVERHEAD \<le> length (wb_buffer w1)"
    "length (wb_buffer w1) = length (wb_buffer (tc_record_write_buf k))" using write_opens_record [OF laws k] by blast
  have r1: "TLS_RECORD_OVERHEAD \<le> length (wb_buffer w1)" "wb_pos w1 \<le> length (wb_buffer w1) - TLS_RECORD_OVERHEAD"
    using w1(3) by simp_all
  obtain n w2 p2 where w2: "wb_append buf w1 = (Ok n, w2)" "wb_holds w2 RH_ApplicationData p2"
    "length (wb_buffer w2) = length (wb_buffer w1)" "wb_pos w2 \<le> length (wb_buffer w1) - TLS_RECORD_OVERHEAD"
    using wb_append_holds [OF w1(2) r1, of buf] by blast
  have ready: "wb_ready w2" using k w1(4) w2 r1 by (auto simp: conn_ok_def wb_ready_def)
  then have k2: "conn_ok cs (k\<lparr>tc_record_write_buf := w2\<rparr>)" using k by (simp add: conn_ok_def)
  have full: "wb_is_full w2 = Ok (wb_pos w2 = length (wb_buffer w2) - TLS_RECORD_OVERHEAD)"
    using w2(3) r1 by (simp add: wb_is_full_def wb_max_block_size_def)
  obtain fq k3 where f3: "TlsConnection_flush cs T (k\<lparr>tc_record_write_buf := w2\<rparr>) = (fq, k3)" by fastforce
  have "(q, k') = ((Ok n, k\<lparr>tc_record_write_buf := w2\<rparr>) :: (nat, TlsError) result \<times> _) \<or>
      k' = k3 \<and> (q = Panic \<longleftrightarrow> fq = Panic)"
    using f True w1(1) w2(1) full f3
    by (cases fq) (auto simp: TlsConnection_write_def bnd_def zoom_def split: if_split_asm)
  with k2 flush_keeps [OF laws k2 f3] show ?thesis by auto
qed (use f k in \<open>auto simp: TlsConnection_write_def\<close>)

section \<open>Reading keeps it\<close>

lemma read_application_data_keeps:
  assumes "decrypts_in_place cs" and k: "conn_ok cs k" and f: "TlsConnection_read_application_data cs T k = (q, k')" "q \<noteq> Panic"
  shows "conn_ok cs k'"
proof -
  let ?n = "length (read_mem k)"
  obtain rq rr t rks where r: "read_blocking cs (t_read T) (tc_record_reader k, tc_delegate k, server_state (tc_key_schedule k)) =
      (rq, rr, t, rks)" by (metis prod.exhaust)
  with f have "rq \<noteq> Panic" by (auto simp: TlsConnection_read_application_data_def Let_def)
  with read_blocking_any [OF _ r] k have rr: "rr_ok rr" "length (rr_buf rr) = ?n" "r_state rks = rstate k"
    "\<And>rec. rq = Ok rec \<Longrightarrow> app_fits ?n rec" by (auto simp: conn_ok_def)
  show ?thesis
  proof (cases rq)
    case (Ok rec)
    obtain dq mem rks' i o' where d: "decrypt_record cs rec (handler_cb (length (rr_buf rr))) (rr_buf rr, rks, tc_decrypted k, tc_opened k) =
        (dq, mem, rks', i, o')" by (metis prod.exhaust)
    have i: "di_ok (rr_buf rr) (tc_decrypted k)" using k rr(2) by (simp add: conn_ok_def di_ok_def)
    from f(1) r Ok d rr(2) have x: "dq = q" and k': "k' = k\<lparr>tc_record_reader := rr\<lparr>rr_buf := mem\<rparr>, tc_delegate := t,
        tc_key_schedule := (tc_key_schedule k)\<lparr>server_state := rks'\<rparr>, tc_decrypted := i, tc_opened := o'\<rparr>"
      by (auto simp: TlsConnection_read_application_data_def Let_def)
    from decrypt_record_invariant [OF assms(1) _ i d] rr(2,4) Ok x f(2)
    have "length mem = length (rr_buf rr)" "di_ok mem i" "enc_iv (r_state rks') = enc_iv (r_state rks)" by auto
    with k k' rr show ?thesis by (simp add: conn_ok_def rr_ok_def)
  next
    case (Err e)
    with f(1) r k rr show ?thesis by (auto simp: TlsConnection_read_application_data_def Let_def conn_ok_def di_ok_def)
  next
    case Panic
    with \<open>rq \<noteq> Panic\<close> show ?thesis by simp
  qed
qed

lemma read_loop_keeps:
  assumes "read_loop cs T k = Some (q, k')" "q \<noteq> Panic" "decrypts_in_place cs" "conn_ok cs k"
  shows "conn_ok cs k'"
proof -
  let ?P = "\<lambda>cs T k y. decrypts_in_place cs \<longrightarrow> conn_ok cs k \<longrightarrow> fst y \<noteq> Panic \<longrightarrow> conn_ok cs (snd y)"
  have "?P cs T k (q, k')"
  proof (rule read_loop.raw_induct [OF _ assms(1), of ?P], goal_cases)
    case (1 rl cs T k y)
    obtain dq k1 where d: "TlsConnection_read_application_data cs T k = (dq, k1)" by fastforce
    obtain yq yk where y: "y = (yq, yk)" by fastforce
    with 1(2) 1(1) [of cs T k1 y] d show ?case
      by (auto dest: read_application_data_keeps [OF _ _ d] split: result.split_asm if_split_asm)
  qed
  with assms show ?thesis by simp
qed

text \<open>The read buffer that a call hands out is dropped at the latest before the next call.\<close>

definition buffer_client :: "(ReadBuffer, 'a, TlsError) prog \<Rightarrow> bool" where
  "buffer_client f \<longleftrightarrow> (\<forall>b. rb_ok b \<longrightarrow>
     fst (f b) \<noteq> Panic \<and> rb_ok (snd (f b)) \<and> rb_data (snd (f b)) = rb_data b)"

lemma drop_keeps:
  assumes "conn_ok cs k" "rb_ok b" "rb_data b = di_left (read_mem k) (tc_decrypted k)"
  shows "conn_ok cs (drop_read_buffer b k)"
proof -
  have i: "di_ok (read_mem k) (tc_decrypted k)" using assms(1) by (simp add: conn_ok_def)
  have "di_consumed (tc_decrypted k) + (if rb_used b then rb_consumed b else length (rb_data b)) \<le> di_len (tc_decrypted k)"
    using assms(2,3) di_left_length [OF i] i by (auto simp: rb_ok_def di_ok_def)
  with assms(1) show ?thesis by (simp add: conn_ok_def drop_read_buffer_def rb_drop_def di_ok_def)
qed

lemma read_buffered_keeps:
  assumes "decrypts_in_place cs" "conn_ok cs k" "TlsConnection_read_buffered cs T k = Some (q, k')" "q \<noteq> Panic"
  shows "conn_ok cs k' \<and> (\<forall>b. q = Ok b \<longrightarrow> b = ReadBuffer_new (di_left (read_mem k') (tc_decrypted k')))"
proof (cases "tc_opened k")
  case True
  with assms(3) obtain lq k1 where l: "read_loop cs T k = Some (lq, k1)" "k' = k1"
    "q = (case lq of Ok _ \<Rightarrow> TlsConnection_create_read_buffer k1 | Err e \<Rightarrow> Err e | Panic \<Rightarrow> Panic)"
    by (auto simp: TlsConnection_read_buffered_def split: option.split_asm result.split_asm prod.split_asm)
  with assms(4) have "lq \<noteq> Panic" by auto
  from read_loop_keeps [OF l(1) this assms(1,2)] l show ?thesis
    by (auto simp: TlsConnection_create_read_buffer_def conn_ok_def di_create_value split: result.split_asm)
qed (use assms in \<open>auto simp: TlsConnection_read_buffered_def\<close>)

lemma with_read_buffer_keeps:
  assumes "decrypts_in_place cs" "conn_ok cs k" "buffer_client f"
    and "with_read_buffer f (TlsConnection_read_buffered cs T k) = Some (q, k')" "q \<noteq> Panic"
  shows "conn_ok cs k'"
proof -
  obtain bq k1 where b: "TlsConnection_read_buffered cs T k = Some (bq, k1)" "bq \<noteq> Panic"
    using assms(4,5) by (auto simp: with_read_buffer_def split: option.split_asm result.split_asm)
  note k1 = read_buffered_keeps [OF assms(1,2) b]
  show ?thesis
  proof (cases bq)
    case (Ok rb)
    with k1 assms(3) have "rb_ok (snd (f rb))" "rb_data (snd (f rb)) = di_left (read_mem k1) (tc_decrypted k1)"
      by (auto simp: buffer_client_def) (simp add: ReadBuffer_new_def)
    moreover have "k' = drop_read_buffer (snd (f rb)) k1" using assms(4) b Ok by (simp add: with_read_buffer_def split: prod.split_asm)
    ultimately show ?thesis using drop_keeps k1 by metis
  qed (use assms(4) b k1 in \<open>auto simp: with_read_buffer_def\<close>)
qed

lemma buffer_client_bnd:
  assumes "buffer_client f" "\<And>x. buffer_client (g x)"
  shows "buffer_client (bnd f g)"
proof (unfold buffer_client_def, intro allI impI)
  fix b assume b: "rb_ok b"
  obtain r b' where f: "f b = (r, b')" by fastforce
  with assms(1) b have "r \<noteq> Panic" "rb_ok b'" "rb_data b' = rb_data b" by (metis buffer_client_def fst_conv snd_conv)+
  with f assms(2) show "fst (bnd f g b) \<noteq> Panic \<and> rb_ok (snd (bnd f g b)) \<and> rb_data (snd (bnd f g b)) = rb_data b"
    by (cases r) (simp_all add: bnd_def buffer_client_def)
qed

lemma buffer_client_ret: "buffer_client (ret x)"
  by (simp add: buffer_client_def)

lemma buffer_client_pop: "buffer_client (rb_pop n)"
  by (simp add: buffer_client_def rb_pop_value rb_pop_keeps)

lemma buffer_client_peek: "buffer_client (rb_peek n)"
  by (simp add: buffer_client_def rb_peek_value rb_ok_def)

lemma buffer_client_len: "buffer_client (\<lambda>b. (rb_len b, b))"
  by (simp add: buffer_client_def rb_len_ok)

lemma buffer_client_pieces: "buffer_client (take_pieces rb_pop ns)"
  by (induction ns) (unfold take_pieces.simps, intro buffer_client_ret, intro buffer_client_bnd buffer_client_pop buffer_client_ret)

lemma buffer_client_pop_into: "buffer_client (rb_pop_into buf)"
  by (simp add: buffer_client_def rb_pop_into_def bnd_def rb_pop_value rb_pop_keeps)

lemma buffer_client_peek_all: "buffer_client rb_peek_all"
  unfolding rb_peek_all_def by (intro buffer_client_bnd buffer_client_len buffer_client_peek)

lemma consume_keeps:
  assumes "conn_ok cs k" "TlsConnection_consume n k = (q, k')"
  shows "conn_ok cs k' \<and> q = Ok ()"
proof -
  let ?b = "ReadBuffer_new (di_left (read_mem k) (tc_decrypted k))"
  have c: "TlsConnection_create_read_buffer k = Ok ?b"
    using assms(1) by (simp add: TlsConnection_create_read_buffer_def conn_ok_def di_create_value)
  obtain x b' where p: "rb_pop n ?b = (Ok x, b')" "rb_ok b'" "rb_data b' = rb_data ?b"
    using rb_pop_keeps [of ?b n] by (simp add: rb_pop_value)
  then have "TlsConnection_consume n k = (Ok (), drop_read_buffer b' k)" using c by (simp add: TlsConnection_consume_def)
  with drop_keeps [OF assms(1) p(2)] p(3) assms(2) show ?thesis by (simp add: ReadBuffer_new_def)
qed

section \<open>What a client can do with a connection\<close>

text \<open>One call that returned, with an error or without. \<open>read_buffered\<close> is used through the buffer it returns,
  which is popped piece by piece and dropped, or reverted. Between the calls the socket may change
  as it likes.\<close>

inductive conn_step ::
  "('h, 'k) TlsCipherSuite \<Rightarrow> 't Transport \<Rightarrow> ('t, 'h, 'k) TlsConnection \<Rightarrow> ('t, 'h, 'k) TlsConnection \<Rightarrow> bool"
  for cs T where
  step_write: "TlsConnection_write cs T buf k = (q, k') \<Longrightarrow> q \<noteq> Panic \<Longrightarrow> conn_step cs T k k'"
| step_flush: "TlsConnection_flush cs T k = (q, k') \<Longrightarrow> q \<noteq> Panic \<Longrightarrow> conn_step cs T k k'"
| step_read: "TlsConnection_read cs T buf k = Some (q, k') \<Longrightarrow> q \<noteq> Panic \<Longrightarrow> conn_step cs T k k'"
| step_pieces: "with_read_buffer (take_pieces rb_pop ns) (TlsConnection_read_buffered cs T k) = Some (q, k') \<Longrightarrow>
    q \<noteq> Panic \<Longrightarrow> conn_step cs T k k'"
| step_revert: "TlsConnection_read_buffered cs T k = Some (q, k') \<Longrightarrow> q \<noteq> Panic \<Longrightarrow> conn_step cs T k k'"
| step_fill: "TlsConnection_fill_buf cs T k = Some (q, k') \<Longrightarrow> q \<noteq> Panic \<Longrightarrow> conn_step cs T k k'"
| step_consume: "TlsConnection_consume n k = (q, k') \<Longrightarrow> q \<noteq> Panic \<Longrightarrow> conn_step cs T k k'"
| step_policy: "conn_step cs T k (TlsConnection_set_flush_policy policy k)"
| step_socket: "conn_step cs T k (k\<lparr>tc_delegate := t\<rparr>)"

inductive_cases conn_stepE: "conn_step cs T k k'"

lemma conn_step_keeps:
  assumes "aead_laws cs seal" "sizes_ok cs" "decrypts_in_place cs" "conn_step cs T k k'" "conn_ok cs k"
  shows "conn_ok cs k'"
  using assms(4,5)
proof (cases rule: conn_step.cases)
  case (step_write buf q)
  with write_keeps [OF assms(1,2,5)] show ?thesis by blast
next
  case (step_flush q)
  with flush_keeps [OF assms(1,2,5)] show ?thesis by blast
next
  case (step_read buf q)
  with with_read_buffer_keeps [OF assms(3,5) buffer_client_pop_into] assms(5) show ?thesis
    by (cases "buf = []") (auto simp: TlsConnection_read_def)
next
  case (step_pieces ns q)
  then show ?thesis by (rule with_read_buffer_keeps [OF assms(3,5) buffer_client_pieces])
next
  case (step_revert q)
  with read_buffered_keeps [OF assms(3,5)] show ?thesis by blast
next
  case (step_fill q)
  with with_read_buffer_keeps [OF assms(3,5) buffer_client_peek_all] show ?thesis by (simp add: TlsConnection_fill_buf_def)
next
  case (step_consume n q)
  with consume_keeps [OF assms(5)] show ?thesis by blast
qed (use assms(5) in \<open>simp_all add: TlsConnection_set_flush_policy_def conn_ok_def\<close>)

lemma conn_steps_keep:
  assumes "aead_laws cs seal" "sizes_ok cs" "decrypts_in_place cs" "(conn_step cs T)\<^sup>*\<^sup>* k k'" "conn_ok cs k"
  shows "conn_ok cs k'"
  using assms(4,5) by (induction rule: rtranclp_induct) (auto dest: conn_step_keeps [OF assms(1-3)])

lemma open_connection_ok: "writing cs k p \<Longrightarrow> reading cs k q \<Longrightarrow> conn_ok cs k"
  by (auto simp: writing_def reading_def conn_ok_def wb_ready_def wb_holds_def)

section \<open>Reading ends\<close>

context duplex
begin

lemma read_application_data_shrinks:
  assumes "good (tc_delegate k)" "TlsConnection_read_application_data cs T k = (Ok (), k')"
  shows "good (tc_delegate k') \<and> length (stream (tc_delegate k')) < length (stream (tc_delegate k))"
proof -
  obtain rec rr t rks where r: "read_blocking cs (t_read T) (tc_record_reader k, tc_delegate k, server_state (tc_key_schedule k)) =
      (Ok rec, rr, t, rks)" and t: "tc_delegate k' = t"
    using assms(2) by (auto simp: TlsConnection_read_application_data_def Let_def split: prod.split_asm result.split_asm)
  from read_blocking_shrinks [OF assms(1) r] t show ?thesis by (simp add: RecordHeader_LEN_def)
qed

lemma read_loop_ends:
  assumes "good (tc_delegate k)"
  shows "\<exists>r k'. read_loop cs T k = Some (r, k')"
  using assms
proof (induction "length (stream (tc_delegate k))" arbitrary: k rule: less_induct)
  case less
  obtain r k1 where a: "TlsConnection_read_application_data cs T k = (r, k1)" by fastforce
  have "\<exists>r k'. read_loop cs T k1 = Some (r, k')" if "r = Ok ()"
    using read_application_data_shrinks [OF less.prems a [unfolded that]] by (intro less.hyps) auto
  with a show ?case by (subst read_loop.simps) (cases "di_is_empty (tc_decrypted k)"; cases r; auto)
qed

end

section \<open>Failures of the transport\<close>

text \<open>What a flush hands to the transport; the rest of it depends on the answer.\<close>

lemma flush_seals:
  assumes laws: "aead_laws cs seal" "sizes_ok cs" and k: "conn_ok cs k"
    and p: "wb_holds (tc_record_write_buf k) RH_ApplicationData p"
  shows "\<exists>w'. TlsConnection_flush cs T k =
      seq (map_err Io (on_delegate (t_write_all T (sealed_record cs seal (wstate k) (p @ [23]))))) (
      seq (on_schedule (on_client write_increment_counter)) (
      bnd (gets tc_flush_policy) (\<lambda>policy.
      if FlushPolicy_flush_transport policy then TlsConnection_flush_transport T else ret ()))) (k\<lparr>tc_record_write_buf := w'\<rparr>) \<and>
    wb_idle w' \<and> length (wb_buffer w') = length (wb_buffer (tc_record_write_buf k))"
proof -
  let ?w = "tc_record_write_buf k"
  have ne: "\<not> wb_is_empty ?w" and "\<not> wb_idle ?w" using p by (simp_all add: wb_holds_def wb_is_empty_def wb_idle_def)
  then have room: "6 + length p + TagSize cs \<le> length (wb_buffer ?w)" "length (enc_iv (wstate k)) = IvLen cs" "8 \<le> IvLen cs"
    using k p laws(2) by (auto simp: conn_ok_def wb_ready_def wb_holds_def sizes_ok_def)
  obtain w' where c: "close_record cs (client_state (tc_key_schedule k)) ?w = (Ok (sealed_record cs seal (wstate k) (p @ [23])), w')"
    "wb_idle w'" "length (wb_buffer w') = length (wb_buffer ?w)"
    using close_record_sealed [OF laws(1) room(2,3) p _ room(1) refl] by (auto simp: sealed_record_def Let_def)
  have "on_write_buf (close_record cs (client_state (tc_key_schedule k))) k =
      (Ok (sealed_record cs seal (wstate k) (p @ [23])), k\<lparr>tc_record_write_buf := w'\<rparr>)" using c(1) by (simp add: zoom_def)
  with ne c show ?thesis by (intro exI [of _ w']) (simp add: TlsConnection_flush_def bnd_ok)
qed

text \<open>A write that does not fill the buffer of an idle connection only puts its bytes into an open record.\<close>

lemma write_buffers:
  assumes "tc_opened k" "wb_idle (tc_record_write_buf k)" "5 + length buf + TLS_RECORD_OVERHEAD < length (wb_buffer (tc_record_write_buf k))"
  shows "\<exists>w'. TlsConnection_write cs T buf k = (Ok (length buf), k\<lparr>tc_record_write_buf := w'\<rparr>) \<and>
    wb_holds w' RH_ApplicationData buf \<and> length (wb_buffer w') = length (wb_buffer (tc_record_write_buf k))"
proof -
  let ?w = "tc_record_write_buf k"
  obtain w1 where w1: "start_record RH_ApplicationData ?w = (Ok (), w1)" "wb_holds w1 RH_ApplicationData []"
    "length (wb_buffer w1) = length (wb_buffer ?w)"
    using start_record_holds [OF assms(2)] assms(3) by fastforce
  have pos: "wb_pos w1 = 5" using w1(2) by (simp add: wb_holds_def)
  define m where "m = length (wb_buffer w1) - TLS_RECORD_OVERHEAD - wb_pos w1"
  have r1: "TLS_RECORD_OVERHEAD \<le> length (wb_buffer w1)" "wb_pos w1 \<le> length (wb_buffer w1) - TLS_RECORD_OVERHEAD"
    using assms(3) w1(3) pos by simp_all
  have m: "length buf < m" using assms(3) w1(3) pos by (simp add: m_def)
  obtain w2 where w2: "wb_append buf w1 = (Ok (length buf), w2)" "wb_holds w2 RH_ApplicationData buf"
    "length (wb_buffer w2) = length (wb_buffer w1)"
    using wb_append_holds [OF w1(2) r1, of buf] m unfolding m_def [symmetric] by (auto simp: min_def)
  have "wb_is_full w2 = Ok False"
    using w2(2,3) assms(3) w1(3) by (simp add: wb_is_full_def wb_max_block_size_def wb_holds_def)
  then have "TlsConnection_write cs T buf k = (Ok (length buf), k\<lparr>tc_record_write_buf := w2\<rparr>)"
    using assms(1,2) w1(1) w2(1)
    by (simp add: TlsConnection_write_def bnd_def zoom_def wb_contains_def wb_idle_def TlsConnection_flush_def wb_is_empty_def)
  with w2 w1(3) show ?thesis by (intro exI [of _ w2]) simp
qed

text \<open>A read that fails behind the first bytes of a record has lost the header and keeps the bytes pending.\<close>

lemma read_interrupted:
  assumes r: "rr_ok r" "rr_pending r = 0"
    and h: "next_record_header_blocking rd t = (Ok header, t1)" "RecordHeader_content_length header \<le> length (rr_buf r)"
    and bs: "rd (RecordHeader_content_length header) t1 = (Ok bs, t2)" "bs \<noteq> []" "length bs < RecordHeader_content_length header"
    and e: "rd (RecordHeader_content_length header - length bs) t2 = (Err e, t3)"
  shows "\<exists>r'. read_blocking cs rd (r, t, rks) = (Err (Io e), r', t3, rks) \<and> rr_ok r' \<and>
    rr_pending r' = length bs \<and> length (rr_buf r') = length (rr_buf r)"
proof -
  let ?l = "RecordHeader_content_length header"
  obtain r1 where r1: "ensure_contiguous ?l r = (Ok (), r1)" "rr_pending r1 = 0" "length (rr_buf r1) = length (rr_buf r)"
    "rr_decoded r1 + ?l \<le> length (rr_buf r1)"
    using ensure_contiguous_ok [OF r(1), of ?l] r(2) h(2) by auto
  let ?r = "r1\<lparr>rr_buf := write_at (rr_buf r1) (rr_decoded r1) bs, rr_pending := length bs\<rparr>"
  have "advance_loop rd ?l (?l - length bs) (?r, t2) = (Err (Io e), ?r, t3)"
    using e bs(3) r1(4) by (subst advance_loop.simps) simp
  moreover have "advance_loop rd ?l ?l (r1, t1) = advance_loop rd ?l (?l - length bs) (?r, t2)"
    using bs r1(2,4) by (subst advance_loop.simps) simp
  ultimately have "read_blocking cs rd (r, t, rks) = (Err (Io e), ?r, t3, rks)"
    using h(1) r1(1) by (simp add: read_blocking_def advance_blocking_def)
  moreover have "rr_ok ?r" using bs(3) r1(4) by (simp add: rr_ok_def)
  ultimately show ?thesis using r1(3,4) bs(3) by (intro exI [of _ ?r]) simp
qed

text \<open>With bytes pending, the slice for the whole payload starts behind them.\<close>

lemma read_pending_panics:
  assumes "rr_ok r" "next_record_header_blocking rd t = (Ok header, t1)"
    and "rr_pending r < RecordHeader_content_length header" "RecordHeader_content_length header \<le> length (rr_buf r)"
    and "length (rr_buf r) < rr_pending r + RecordHeader_content_length header"
  shows "\<exists>r' t'. read_blocking cs rd (r, t, rks) = (Panic, r', t', rks)"
proof -
  let ?l = "RecordHeader_content_length header"
  obtain r1 where r1: "ensure_contiguous ?l r = (Ok (), r1)" "rr_pending r1 = rr_pending r" "length (rr_buf r1) = length (rr_buf r)"
    using ensure_contiguous_ok [OF assms(1), of ?l] assms(3,4) by auto
  have "advance_loop rd ?l ?l (r1, t1) = (Panic, r1, t1)" using r1(2,3) assms(3,5) by (subst advance_loop.simps) simp
  with assms(2) r1(1) show ?thesis by (simp add: read_blocking_def advance_blocking_def)
qed

text \<open>How a read of the connection ends when its first record does not arrive.\<close>

lemma read_ends_without_record:
  assumes "buf \<noteq> []" "tc_opened k" "di_ok (read_mem k) (tc_decrypted k)" "di_left (read_mem k) (tc_decrypted k) = []"
    and "read_blocking cs (t_read T) (tc_record_reader k, tc_delegate k, server_state (tc_key_schedule k)) =
      (q, r', t', server_state (tc_key_schedule k))" and "\<And>x. q \<noteq> Ok x"
  shows "TlsConnection_read cs T buf k =
    Some (case q of Err e \<Rightarrow> Err e | _ \<Rightarrow> Panic, k\<lparr>tc_record_reader := r', tc_delegate := t'\<rparr>)"
proof -
  let ?k = "k\<lparr>tc_record_reader := r', tc_delegate := t'\<rparr>"
  have "TlsConnection_read_application_data cs T k = (case q of Err e \<Rightarrow> Err e | _ \<Rightarrow> Panic, ?k)"
    using assms(5,6) by (cases q) (auto simp: TlsConnection_read_application_data_def Let_def)
  moreover have "di_is_empty (tc_decrypted k) = Ok True" using di_is_empty_value [OF assms(3)] assms(4) by simp
  ultimately show ?thesis
    using assms(1,2,6) by (cases q)
      (auto simp: TlsConnection_read_def TlsConnection_read_buffered_def read_loop.simps [of cs T k] with_read_buffer_def)
qed

section \<open>A transport that fails\<close>

text \<open>What arrives, with \<^const>\<open>None\<close> for an error; whether the next write fails behind its bytes; what went out.\<close>

record FlakySocket =
  fl_in :: "bytes option list"
  fl_fail :: bool
  fl_out :: "bytes list"

fun flaky_next :: "nat \<Rightarrow> bytes option list \<Rightarrow> (bytes, ErrorKind) result \<times> bytes option list" where
  "flaky_next n [] = (Ok [], [])"
| "flaky_next n (None # s) = (Err 7, s)"
| "flaky_next n (Some bs # s) = (Ok (take n bs), if length bs \<le> n then s else Some (drop n bs) # s)"

definition flaky :: "FlakySocket Transport" where
  "flaky = \<lparr>t_read = (\<lambda>n s. case flaky_next n (fl_in s) of (r, rest) \<Rightarrow> (r, s\<lparr>fl_in := rest\<rparr>)),
     t_write_all = (\<lambda>bs s. (if fl_fail s then Err 7 else Ok (), s\<lparr>fl_fail := False, fl_out := fl_out s @ [bs]\<rparr>)),
     t_flush = (\<lambda>s. (Ok (), s))\<rparr>"

lemma flaky_sel: "t_write_all flaky bs s = (if fl_fail s then Err 7 else Ok (), s\<lparr>fl_fail := False, fl_out := fl_out s @ [bs]\<rparr>)"
  "t_flush flaky s = (Ok (), s)"
  by (simp_all add: flaky_def)

lemma flaky_returns: "writes_return flaky"
  by (simp add: writes_return_def flaky_sel)

text \<open>An open connection over it.\<close>

definition flaky_session :: "FlakySocket \<Rightarrow> (FlakySocket, bytes, bytes) TlsConnection" where
  "flaky_session s = \<lparr>tc_delegate = s, tc_opened = True,
     tc_key_schedule = (KeySchedule_new toy_suite)\<lparr>client_state := toy_wks, server_state := toy_rks\<rparr>,
     tc_record_reader = RecordReader_new (replicate 300 0),
     tc_record_write_buf = \<lparr>wb_buffer = replicate 300 0, wb_pos = 0, wb_current_header = None\<rparr>,
     tc_decrypted = DecryptedBufferInfo_default, tc_flush_policy = Relaxed\<rparr>"

lemma flaky_session_ready: "writing toy_suite (flaky_session s) []" "reading toy_suite (flaky_session s) []"
  using toy_wks_sel(1) toy_rks_sel(1)
  by (simp_all add: writing_def reading_def flaky_session_def wb_idle_def TLS_RECORD_OVERHEAD_def RecordReader_new_def rr_ok_def
      DecryptedBufferInfo_default_def di_ok_def di_left_def slice_of_def)

lemma flaky_session_sel: "tc_delegate (flaky_session s) = s" "wstate (flaky_session s) = r_state toy_rks"
  "length (read_mem (flaky_session s)) = 300" "length (wb_buffer (tc_record_write_buf (flaky_session s))) = 300"
  by (simp_all add: flaky_session_def toy_wks_sel(4) RecordReader_new_def toy_rks_sel)

lemma toy_sizes_ok: "sizes_ok toy_suite"
  by (simp add: sizes_ok_def TLS_RECORD_OVERHEAD_def)

definition failing :: FlakySocket where
  "failing = \<lparr>fl_in = [], fl_fail = True, fl_out = []\<rparr>"

lemma flaky_writes:
  "\<exists>k1. TlsConnection_write toy_suite flaky [1, 2] (flaky_session s) = (Ok 2, k1) \<and>
    wb_holds (tc_record_write_buf k1) RH_ApplicationData [1, 2] \<and> length (wb_buffer (tc_record_write_buf k1)) = 300 \<and>
    conn_ok toy_suite k1 \<and> tc_delegate k1 = s \<and> wstate k1 = r_state toy_rks \<and> tc_opened k1 \<and> tc_flush_policy k1 = Relaxed"
proof -
  let ?k = "flaky_session s"
  have "tc_opened ?k" "wb_idle (tc_record_write_buf ?k)" "tc_flush_policy ?k = Relaxed" by (simp_all add: flaky_session_def wb_idle_def)
  moreover from this(1,2) obtain w where w: "TlsConnection_write toy_suite flaky [1, 2] ?k = (Ok (length [1 :: u8, 2]), ?k\<lparr>tc_record_write_buf := w\<rparr>)"
    "wb_holds w RH_ApplicationData [1, 2]" "length (wb_buffer w) = 300"
    using write_buffers [of ?k "[1, 2]" toy_suite flaky] by (auto simp: flaky_session_sel TLS_RECORD_OVERHEAD_def)
  moreover have "conn_ok toy_suite (?k\<lparr>tc_record_write_buf := w\<rparr>)"
    by (rule write_keeps [OF toy_seal_laws toy_sizes_ok open_connection_ok [OF flaky_session_ready] w(1), THEN conjunct1])
  ultimately show ?thesis
    by (intro exI [of _ "?k\<lparr>tc_record_write_buf := w\<rparr>"]) (simp add: flaky_session_sel)
qed

lemma flaky_flush_fails:
  "\<exists>k1 k2. TlsConnection_write toy_suite flaky [1, 2] (flaky_session failing) = (Ok 2, k1) \<and>
    TlsConnection_flush toy_suite flaky k1 = (Err (Io 7), k2) \<and> wstate k2 = r_state toy_rks \<and>
    (conn_step toy_suite flaky)\<^sup>*\<^sup>* (flaky_session failing) k2"
proof -
  obtain k1 where k1: "TlsConnection_write toy_suite flaky [1, 2] (flaky_session failing) = (Ok 2, k1)"
    "wb_holds (tc_record_write_buf k1) RH_ApplicationData [1, 2]" "conn_ok toy_suite k1" "tc_delegate k1 = failing" "wstate k1 = r_state toy_rks"
    using flaky_writes [of failing] by blast
  from flush_seals [OF toy_seal_laws toy_sizes_ok k1(3,2), of flaky] k1(4,5)
  obtain k2 where k2: "TlsConnection_flush toy_suite flaky k1 = (Err (Io 7), k2)" "wstate k2 = r_state toy_rks"
    by (auto simp: bnd_def map_err_def zoom_def flaky_sel failing_def)
  have "conn_step toy_suite flaky (flaky_session failing) k1" "conn_step toy_suite flaky k1 k2"
    by (rule step_write [OF k1(1)], simp, rule step_flush [OF k2(1)], simp)
  with k1(1) k2 show ?thesis by (meson rtranclp.rtrancl_into_rtrancl rtranclp.rtrancl_refl)
qed

section \<open>Properties\<close>

text \<open>C10. The state of a connection stays well formed: from an open connection, any sequence of writes, flushes, reads
  (through the caller's slice, the read buffer or the buffered-read trait) and changes of the flush policy that return, with
  success or with an error, over a transport that may fail or deliver anything at any time, ends in a state where
  the write buffer is idle or holds an application data record with room for its overhead, the
  cursors of the reader and the window of the decrypted bytes lie in the read buffer, and the IVs have the length of the
  cipher suite.\<close>

theorem connection_stays_well_formed:
  assumes "aead_laws cs seal" and "sizes_ok cs" and "decrypts_in_place cs"
    and "writing cs k p" and "reading cs k q" and "(conn_step cs T)\<^sup>*\<^sup>* k k'"
  shows "conn_ok cs k'"
  by (rule conn_steps_keep [OF assms(1-3,6) open_connection_ok [OF assms(4,5)]])

theorem connection_stays_well_formed_witness:
  "\<exists>k1 k2. TlsConnection_write toy_suite flaky [1, 2] (flaky_session failing) = (Ok 2, k1) \<and>
    TlsConnection_flush toy_suite flaky k1 = (Err (Io 7), k2) \<and> conn_ok toy_suite k2"
proof -
  obtain k1 k2 where k: "TlsConnection_write toy_suite flaky [1, 2] (flaky_session failing) = (Ok 2, k1)"
    "TlsConnection_flush toy_suite flaky k1 = (Err (Io 7), k2)" "(conn_step toy_suite flaky)\<^sup>*\<^sup>* (flaky_session failing) k2"
    using flaky_flush_fails by blast
  from connection_stays_well_formed [OF toy_seal_laws toy_sizes_ok toy_decrypts_in_place flaky_session_ready k(3)] k show ?thesis
    by blast
qed

text \<open>C21. Writing never panics: on every connection that a client can have reached, while there is a sequence number left and the
  transport reports its failures as errors, \<open>write\<close> and \<open>flush\<close> return; \<open>consume\<close>
  always succeeds.\<close>

theorem writing_never_panics:
  assumes "aead_laws cs seal" and "sizes_ok cs" and "decrypts_in_place cs"
    and "writing cs k p" and "reading cs k q" and "(conn_step cs T)\<^sup>*\<^sup>* k k'"
    and "writes_return T" and "unat (counter (wstate k')) + 1 < 2 ^ 64"
  shows "fst (TlsConnection_write cs T buf k') \<noteq> Panic \<and> fst (TlsConnection_flush cs T k') \<noteq> Panic \<and>
    fst (TlsConnection_consume n k') = Ok ()"
proof -
  have k': "conn_ok cs k'" by (rule conn_steps_keep [OF assms(1-3,6) open_connection_ok [OF assms(4,5)]])
  show ?thesis
    using write_keeps [OF assms(1,2) k'] flush_keeps [OF assms(1,2) k'] consume_keeps [OF k'] assms(7,8)
    by (metis prod.collapse)
qed

theorem writing_never_panics_witness:
  "\<exists>k1 k2. TlsConnection_write toy_suite flaky [1, 2] (flaky_session failing) = (Ok 2, k1) \<and>
    TlsConnection_flush toy_suite flaky k1 = (Err (Io 7), k2) \<and> fst (TlsConnection_write toy_suite flaky [3] k2) \<noteq> Panic"
proof -
  obtain k1 k2 where k: "TlsConnection_write toy_suite flaky [1, 2] (flaky_session failing) = (Ok 2, k1)"
    "TlsConnection_flush toy_suite flaky k1 = (Err (Io 7), k2)" "wstate k2 = r_state toy_rks"
    "(conn_step toy_suite flaky)\<^sup>*\<^sup>* (flaky_session failing) k2"
    using flaky_flush_fails by blast
  have "unat (counter (wstate k2)) + 1 < 2 ^ 64" by (simp add: k(3) toy_session_sel(6))
  from writing_never_panics [OF toy_seal_laws toy_sizes_ok toy_decrypts_in_place flaky_session_ready k(4) flaky_returns this, of "[3]" 0] k
  show ?thesis by blast
qed

text \<open>C22. A read ends on every finite stream, whatever the peer sends: it returns data or an error, or
  panics, but never waits for more than the stream holds. The state of the connection does not matter.\<close>

theorem read_terminates:
  assumes "duplex T stream good sent" and "good (tc_delegate k)"
  shows "\<exists>r k'. TlsConnection_read cs T buf k = Some (r, k')"
proof -
  obtain r k1 where "read_loop cs T k = Some (r, k1)" using duplex.read_loop_ends [OF assms] by blast
  then show ?thesis
    by (cases r; cases "TlsConnection_create_read_buffer k1")
      (auto simp: TlsConnection_read_def TlsConnection_read_buffered_def with_read_buffer_def split: prod.split)
qed

theorem read_terminates_witness:
  "\<exists>r k'. TlsConnection_read toy_suite chunk_transport [0, 0] (toy_session [23, 3, 3, 0, 4, 9, 9, 9, 9, 23, 3]) = Some (r, k')"
  by (rule read_terminates [OF chunk_duplex.duplex_axioms]) (simp add: toy_session_sel toy_socket_sel)

text \<open>C15. A failed write reuses its nonce: when the transport fails to take the record of a flush, the record was already sealed
  (and may be on the wire in part), its bytes are dropped, and the sequence number stays. The connection is still open, so the
  next bytes written are sealed under the same key, nonce and sequence number.\<close>

theorem failed_write_reuses_nonce:
  assumes "aead_laws cs seal" and "sizes_ok cs" and "conn_ok cs k" and "tc_opened k" and "unat (counter (wstate k)) + 1 < 2 ^ 64"
    and "wb_holds (tc_record_write_buf k) RH_ApplicationData p"
    and "5 + length buf + TLS_RECORD_OVERHEAD < length (wb_buffer (tc_record_write_buf k))"
    and "t_write_all T (sealed_record cs seal (wstate k) (p @ [23])) (tc_delegate k) = (Err e, t1)"
    and "t_write_all T (sealed_record cs seal (wstate k) (buf @ [23])) t1 = (Ok (), t2)" and "t_flush T t2 = (Ok (), t3)"
  shows "\<exists>k1 k2 k3. TlsConnection_flush cs T k = (Err (Io e), k1) \<and> tc_delegate k1 = t1 \<and> tc_opened k1 \<and>
    TlsConnection_write cs T buf k1 = (Ok (length buf), k2) \<and> TlsConnection_flush cs T k2 = (Ok (), k3) \<and>
    tc_delegate k3 = (if FlushPolicy_flush_transport (tc_flush_policy k) then t3 else t2)"
proof -
  obtain w1 where w1: "TlsConnection_flush cs T k = (Err (Io e), k\<lparr>tc_record_write_buf := w1, tc_delegate := t1\<rparr>)" "wb_idle w1"
    "length (wb_buffer w1) = length (wb_buffer (tc_record_write_buf k))"
    using flush_seals [OF assms(1-3,6), of T] assms(8) by (auto simp: bnd_def map_err_def zoom_def)
  let ?k1 = "k\<lparr>tc_record_write_buf := w1, tc_delegate := t1\<rparr>"
  obtain w2 where w2: "TlsConnection_write cs T buf ?k1 = (Ok (length buf), ?k1\<lparr>tc_record_write_buf := w2\<rparr>)"
    "wb_holds w2 RH_ApplicationData buf" "length (wb_buffer w2) = length (wb_buffer w1)"
    using write_buffers [of ?k1 buf cs T] assms(4,7) w1(2,3) by auto
  let ?k2 = "?k1\<lparr>tc_record_write_buf := w2\<rparr>"
  have k2: "conn_ok cs ?k2" by (rule write_keeps [OF assms(1,2) _ w2(1), THEN conjunct1], rule flush_keeps [OF assms(1-3) w1(1), THEN conjunct1])
  have "\<exists>k3. TlsConnection_flush cs T ?k2 = (Ok (), k3) \<and>
      tc_delegate k3 = (if FlushPolicy_flush_transport (tc_flush_policy k) then t3 else t2)"
    using flush_seals [OF assms(1,2) k2, of buf T] w2(2) assms(5,9,10)
    by (auto simp: bnd_def map_err_def zoom_def write_increment_counter_def state_increment_counter_def TlsConnection_flush_transport_def)
  then obtain k3 where k3: "TlsConnection_flush cs T ?k2 = (Ok (), k3)"
    "tc_delegate k3 = (if FlushPolicy_flush_transport (tc_flush_policy k) then t3 else t2)" by blast
  show ?thesis
    by (rule exI [of _ ?k1], rule exI [of _ ?k2], rule exI [of _ k3]) (use w1(1) w2(1) k3 assms(4) in simp)
qed

theorem failed_write_reuses_nonce_witness:
  "\<exists>k k1 k2 k3. TlsConnection_write toy_suite flaky [1, 2] (flaky_session failing) = (Ok 2, k) \<and>
    TlsConnection_flush toy_suite flaky k = (Err (Io 7), k1) \<and> TlsConnection_write toy_suite flaky [3] k1 = (Ok 1, k2) \<and>
    TlsConnection_flush toy_suite flaky k2 = (Ok (), k3) \<and>
    fl_out (tc_delegate k3) = [sealed_record toy_suite toy_seal (r_state toy_rks) ([1, 2] @ [23]),
      sealed_record toy_suite toy_seal (r_state toy_rks) ([3] @ [23])]"
proof -
  let ?rec = "\<lambda>p. sealed_record toy_suite toy_seal (r_state toy_rks) (p @ [23])"
  let ?t1 = "\<lparr>fl_in = [], fl_fail = False, fl_out = [?rec [1, 2]]\<rparr>"
  let ?t2 = "?t1\<lparr>fl_out := [?rec [1, 2], ?rec [3]]\<rparr>"
  obtain k where k: "TlsConnection_write toy_suite flaky [1, 2] (flaky_session failing) = (Ok 2, k)"
    "wb_holds (tc_record_write_buf k) RH_ApplicationData [1, 2]" "length (wb_buffer (tc_record_write_buf k)) = 300"
    "conn_ok toy_suite k" "tc_delegate k = failing" "wstate k = r_state toy_rks" "tc_opened k" "tc_flush_policy k = Relaxed"
    using flaky_writes [of failing] by blast
  have c: "unat (counter (wstate k)) + 1 < 2 ^ 64" by (simp add: k(6) toy_session_sel(6))
  have r: "5 + length [3 :: u8] + TLS_RECORD_OVERHEAD < length (wb_buffer (tc_record_write_buf k))"
    by (simp add: k(3) TLS_RECORD_OVERHEAD_def)
  have "t_write_all flaky (?rec [1, 2]) (tc_delegate k) = (Err 7, ?t1)" "t_write_all flaky (?rec [3]) ?t1 = (Ok (), ?t2)"
    "t_flush flaky ?t2 = (Ok (), ?t2)" by (simp_all only: k(5)) (simp_all add: flaky_sel failing_def)
  from failed_write_reuses_nonce [OF toy_seal_laws toy_sizes_ok k(4,7) c k(2) r, unfolded k(6,8), OF this] k(1)
  show ?thesis by fastforce
qed

text \<open>C39. A read that was interrupted makes a later one panic: when the transport fails after some of the payload of a record
  arrived, the error is returned, but the bytes stay pending and the header is lost. The connection is still open; if the next header
  announces a payload that fits the buffer but not behind the pending bytes, the slice for the whole
  payload is taken behind them, out of range.\<close>

theorem interrupted_read_panics:
  assumes "reading cs k []" and "buf \<noteq> []"
    and "next_record_header_blocking (t_read T) (tc_delegate k) = (Ok header, t1)"
    and "RecordHeader_content_length header \<le> length (read_mem k)"
    and "t_read T (RecordHeader_content_length header) t1 = (Ok bs, t2)"
    and "bs \<noteq> []" and "length bs < RecordHeader_content_length header"
    and "t_read T (RecordHeader_content_length header - length bs) t2 = (Err e, t3)"
    and "next_record_header_blocking (t_read T) t3 = (Ok header', t4)"
    and "length bs < RecordHeader_content_length header'" and "RecordHeader_content_length header' \<le> length (read_mem k)"
    and "length (read_mem k) < length bs + RecordHeader_content_length header'"
  shows "\<exists>k1 k2. TlsConnection_read cs T buf k = Some (Err (Io e), k1) \<and> tc_opened k1 \<and>
    TlsConnection_read cs T buf k1 = Some (Panic, k2)"
proof -
  have k: "tc_opened k" "rr_ok (tc_record_reader k)" "rr_pending (tc_record_reader k) = 0" "di_ok (read_mem k) (tc_decrypted k)"
    "di_left (read_mem k) (tc_decrypted k) = []" using assms(1) by (simp_all add: reading_def)
  obtain r1 where r1: "read_blocking cs (t_read T) (tc_record_reader k, tc_delegate k, server_state (tc_key_schedule k)) =
      (Err (Io e), r1, t3, server_state (tc_key_schedule k))" "rr_ok r1" "rr_pending r1 = length bs" "length (rr_buf r1) = length (read_mem k)"
    using read_interrupted [OF k(2,3) assms(3-8)] by blast
  let ?k1 = "k\<lparr>tc_record_reader := r1, tc_delegate := t3\<rparr>"
  have 1: "TlsConnection_read cs T buf k = Some (Err (Io e), ?k1)"
    using read_ends_without_record [OF assms(2) k(1,4,5) r1(1)] by simp
  obtain r2 t5 where r2: "read_blocking cs (t_read T) (r1, t3, server_state (tc_key_schedule k)) =
      (Panic, r2, t5, server_state (tc_key_schedule k))"
    using read_pending_panics [OF r1(2) assms(9), of cs "server_state (tc_key_schedule k)"] assms(10-12) r1(3,4) by auto
  have "di_ok (rr_buf r1) (tc_decrypted k)" "di_left (rr_buf r1) (tc_decrypted k) = []"
    using k(4,5) r1(4) di_left_length [OF k(4)] by (simp_all add: di_ok_def di_left_def slice_of_def)
  then have "TlsConnection_read cs T buf ?k1 = Some (Panic, ?k1\<lparr>tc_record_reader := r2, tc_delegate := t5\<rparr>)"
    using read_ends_without_record [OF assms(2), of ?k1 cs T Panic r2 t5] k(1) r2 by simp
  with 1 k(1) show ?thesis by auto
qed

theorem interrupted_read_panics_witness:
  "\<exists>k1 k2. TlsConnection_read toy_suite flaky [0, 0] (flaky_session \<lparr>fl_in = [Some [23, 3, 3, 1, 0], Some (replicate 60 9), None,
        Some [23, 3, 3, 1, 0]], fl_fail = False, fl_out = []\<rparr>) = Some (Err (Io 7), k1) \<and>
    TlsConnection_read toy_suite flaky [0, 0] k1 = Some (Panic, k2)"
proof -
  let ?s = "\<lambda>xs. \<lparr>fl_in = xs, fl_fail = False, fl_out = []\<rparr>"
  let ?h = "RecordHeader [23, 3, 3, 1, 0]"
  have h: "RecordHeader_decode [23, 3, 3, 1, 0] = Ok ?h" "RecordHeader_content_length ?h = 256" by code_simp+
  have n: "next_record_header_blocking (t_read flaky) (?s (Some [23, 3, 3, 1, 0] # xs)) = (Ok ?h, ?s xs)" for xs
    by (simp add: next_record_header_blocking_def bnd_def header_loop.simps flaky_def RecordHeader_LEN_def h(1))
  have r: "t_read flaky (RecordHeader_content_length ?h) (?s (Some (replicate 60 9) # xs)) = (Ok (replicate 60 9), ?s xs)" for xs
    by (simp add: h(2) flaky_def)
  have e: "t_read flaky n (?s (None # xs)) = (Err 7, ?s xs)" for n xs by (simp add: flaky_def)
  show ?thesis
    using interrupted_read_panics [OF flaky_session_ready(2), unfolded flaky_session_sel, OF _ n _ r _ _ e n, of "[0, 0]"]
    by (simp add: h(2)) blast
qed

end
