(* ===== verification/Read_Integrity.thy ===== *)
theory Read_Integrity
  imports Connection_Invariant
begin

text \<open>
  Where the bytes come from that a read returns. Whatever stands in the stream, data reach the application only out of
  a protected record that was sealed under the read key with the sequence number that is next, taken off the
  stream as a whole. The direction is the opposite of \<open>Blocking_Reads\<close>: from the outcome of \<open>read\<close> back to
  the stream. Records that are not protected are still handled after the handshake; what that allows without any key is shown
  too.
\<close>

section \<open>What a record took off the stream\<close>

context stream_reader
begin

lemma read_blocking_takes:
  assumes t: "good t" and r: "rr_ok r" "rr_pending r = 0"
    and e: "read_blocking cs rd (r, t, rks) = (Ok rec, r', t', rks')"
  shows "\<exists>hdr payload base. stream t = hdr @ payload @ stream t' \<and> length hdr = RecordHeader_LEN \<and> good t' \<and>
    r' = \<lparr>rr_buf = write_at (rr_buf r) base payload, rr_decoded = base + length payload, rr_pending = 0\<rparr> \<and>
    base + length payload \<le> length (rr_buf r) \<and> r_state rks' = r_state rks \<and>
    fst (ServerRecord_decode cs (RecordHeader hdr) base payload (transcript_hash rks)) = Ok rec"
proof -
  obtain hdr header t1 where h: "header_loop rd [] t = (Ok hdr, t1)" "RecordHeader_decode hdr = Ok header"
    "next_record_header_blocking rd t = (Ok header, t1)"
    using e by (auto simp: read_blocking_def next_record_header_blocking_def bnd_Ok_iff split: prod.split_asm result.split_asm)
  let ?l = "RecordHeader_content_length header"
  from header_loop_takes [OF t _ h(1)] have t1: "good t1" "length hdr = RecordHeader_LEN" "stream t = hdr @ stream t1" by auto
  have header: "header = RecordHeader hdr" using h(2) by (auto simp: RecordHeader_decode_def split: option.split_asm)
  obtain r1 where a: "advance_blocking rd ?l (r, t1) = (Ok (), r1, t')"
    using e h(3) by (auto simp: read_blocking_def split: prod.split_asm result.split_asm)
  then obtain r0 where r0: "ensure_contiguous ?l r = (Ok (), r0)" "advance_loop rd ?l ?l (r0, t1) = (Ok (), r1, t')"
    by (auto simp: advance_blocking_def split: prod.split_asm result.split_asm)
  have l: "?l \<le> length (rr_buf r)" "rr_pending r0 = 0"
    using r0(1) r(2) by (auto simp: ensure_contiguous_def split: if_split_asm)
  from advance_loop_takes [OF t1(1) _ r0(2)] l(2) obtain payload where
    p: "stream t1 = payload @ stream t'" "length payload = ?l" "good t'" by auto
  define base where "base = (if length (rr_buf r) < rr_decoded r + length payload then 0 else rr_decoded r)"
  have "stream t = hdr @ payload @ stream t'" using t1(3) p(1) by simp
  from read_record [OF t this t1(2) h(2) p(2) r _ base_def, of cs rks] e l(1) p(2)
  have d: "Ok rec = fst (ServerRecord_decode cs header base payload (transcript_hash rks))"
    "r' = \<lparr>rr_buf = write_at (rr_buf r) base payload, rr_decoded = base + length payload, rr_pending = 0\<rparr>"
    "r_state rks' = r_state rks" by auto
  have "base + length payload \<le> length (rr_buf r)" using l(1) p(2) by (auto simp: base_def)
  with d t1 p header show ?thesis by (intro exI [of _ hdr] exI [of _ payload] exI [of _ base]) simp
qed

end

section \<open>What the content of a record is\<close>

lemma trailing_zeros: "xs = replicate (length xs) 0 \<or> (\<exists>pt c n. c \<noteq> 0 \<and> xs = pt @ [c] @ replicate n (0 :: u8))"
proof (induction xs rule: rev_induct)
  case (snoc x xs)
  show ?case
  proof (cases "x = 0")
    case True
    from snoc show ?thesis
    proof
      assume "xs = replicate (length xs) 0"
      with True show ?thesis by (metis length_append_singleton replicate_append_same replicate_Suc)
    next
      assume "\<exists>pt c n. c \<noteq> 0 \<and> xs = pt @ [c] @ replicate n 0"
      then obtain pt c n where "c \<noteq> 0" "xs = pt @ [c] @ replicate n 0" by blast
      with True have "c \<noteq> 0 \<and> xs @ [x] = pt @ [c] @ replicate (Suc n) 0" by (simp add: replicate_append_same)
      then show ?thesis by blast
    qed
  next
    case False
    then have "x \<noteq> 0 \<and> xs @ [x] = xs @ [x] @ replicate 0 0" by simp
    then show ?thesis by blast
  qed
qed simp

lemma rfind_nonzero_zeros: "rfind_nonzero (replicate n 0) = None"
proof -
  have "dropWhile (\<lambda>(_, b). b = 0) (rev (List.enumerate 0 (replicate n (0 :: u8)))) = []"
    unfolding dropWhile_eq_Nil_conv by (auto simp: in_set_enumerate_eq)
  then show ?thesis by (simp only: rfind_nonzero_def list.case)
qed

lemma inner_plaintext_Ok:
  assumes b: "cb_ok b" and e: "inner_plaintext b = (Ok ct, b')" and ct: "ct \<noteq> CT_Invalid"
  shows "\<exists>pt n. cb_view b = pt @ [ContentType_as_u8 ct] @ replicate n 0 \<and> b' = b\<lparr>cb_len := length pt\<rparr>"
  using trailing_zeros [of "cb_view b"]
proof
  assume z: "cb_view b = replicate (length (cb_view b)) 0"
  then have f: "rfind_nonzero (cb_view b) = None" using rfind_nonzero_zeros by metis
  have "cb_view b \<noteq> []" using e inner_plaintext_empty [OF b] by auto
  moreover from this z have "last (cb_view b) = 0" by (metis last_replicate length_0_conv)
  ultimately have False using e b f ct by (simp add: inner_plaintext_def bnd_def ContentType_of_def ok_or_def split: prod.split_asm result.split_asm)
  then show ?thesis ..
next
  assume "\<exists>pt c n. c \<noteq> 0 \<and> cb_view b = pt @ [c] @ replicate n 0"
  then obtain pt c n where c: "c \<noteq> 0" "cb_view b = pt @ [c] @ replicate n 0" by blast
  have "cb_truncate (length pt + 1) b = (Ok (), b\<lparr>cb_len := length pt + 1\<rparr>)"
    using b cb_view_length [OF b] c(2) by (simp add: cb_truncate_ok)
  moreover from cb_view_shorten [OF b, of "pt @ [c]" "replicate n 0"] c(2)
  have "cb_ok (b\<lparr>cb_len := length pt + 1\<rparr>)" "cb_view (b\<lparr>cb_len := length pt + 1\<rparr>) = pt @ [c]" by simp_all
  ultimately have "ContentType_of c = Some ct"
    using e b c rfind_nonzero_padded [OF c(1), of pt n]
    by (simp add: inner_plaintext_def bnd_def ok_or_def split: option.split_asm prod.split_asm result.split_asm)
  then have "c = ContentType_as_u8 ct" using content_type_code.as_of by simp
  with c inner_plaintext_padded [OF b _ ct, of pt n] e show ?thesis by auto
qed

text \<open>\<open>opens_to cs seal st hdr payload content\<close>: under the key and the sequence number of \<open>st\<close> and with its header as additional
  data, the payload is the sealed form of the content, the type of application data and some padding.\<close>

definition opens_to ::
  "(bytes \<Rightarrow> bytes \<Rightarrow> bytes \<Rightarrow> bytes \<Rightarrow> bytes) \<Rightarrow> 'k KeyScheduleState \<Rightarrow> bytes \<Rightarrow> bytes \<Rightarrow> bytes \<Rightarrow> bool" where
  "opens_to seal st hdr payload content \<longleftrightarrow>
     (\<exists>n. payload = seal (enc_key st) (rfc_nonce (counter st) (enc_iv st)) hdr (content @ [23] @ replicate n 0))"

text \<open>The state behind a record of the next sequence number.\<close>

definition counted :: "'k KeyScheduleState \<Rightarrow> 'k KeyScheduleState \<Rightarrow> bool" where
  "counted st st' \<longleftrightarrow> unat (counter st) + 1 < 2 ^ 64 \<and> st' = next_counter st"

lemma slice_in_written:
  assumes "b + length xs \<le> length mem" "i + l \<le> length xs"
  shows "slice_of (write_at mem b xs) (b + i) (b + i + l) = slice_of xs i (i + l)"
  using assms by (simp add: slice_of_def write_at_def)

lemma handler_handshake:
  "handler_cb n (SR_Handshake m) (rks, i, opened) = (r, rks', i', opened') \<Longrightarrow> rks' = rks \<and> i' = i \<and> opened' = opened"
  by (auto simp: handler_cb_def DecryptedReadHandler_handle_def split: ServerHandshake.split_asm)

lemma handshake_loop_handler:
  assumes "handshake_loop cs (handler_cb n) b (rks, i, opened) = (Ok (), rks', i', opened')"
  shows "r_state rks' = r_state rks \<and> i' = i \<and> opened' = opened"
proof -
  let ?J = "\<lambda>rks1 u1. r_state rks1 = r_state rks \<and> u1 = (i, opened)"
  have "?J rks' (i', opened')"
    by (rule handshake_loop_invariant [of ?J "handler_cb n", OF _ _ _ assms]) (auto dest: handler_handshake)
  then show ?thesis by simp
qed

lemma record_content:
  assumes laws: "aead_laws cs seal" "length (enc_iv (r_state rks)) = IvLen cs" "8 \<le> IvLen cs"
    and ad: "cb_ok (app_data ad)" "app_base ad + length (cb_buf (app_data ad)) \<le> length mem"
    and ct: "ct \<noteq> CT_Invalid" and v: "cb_view (app_data ad) = seal (enc_key (r_state rks))
       (rfc_nonce (counter (r_state rks)) (enc_iv (r_state rks))) (header_data (app_header ad))
       (content @ [ContentType_as_u8 ct] @ replicate n 0)"
    and d: "decrypt_record cs (SR_ApplicationData ad) (handler_cb (length mem)) (mem, rks, i, opened) = (Ok (), mem', rks', i', opened')"
  shows "length mem' = length mem \<and> opened' = opened \<and> counted (r_state rks) (r_state rks') \<and>
    (i' = i \<or> ct = CT_ApplicationData \<and> di_ok mem' i' \<and> di_left mem' i' = content)"
proof -
  obtain b where b: "cb_ok b" "cb_view b = content" "cb_offset b = cb_offset (app_data ad)"
    "length (cb_buf b) = length (cb_buf (app_data ad))" "cb_offset b + cb_len b < length (cb_buf b)"
    and e: "decrypt_record cs (SR_ApplicationData ad) (handler_cb (length mem)) (mem, rks, i, opened) =
      (case dispatch_inner cs (handler_cb (length mem)) ad ct b (rks, i, opened) of
         (Ok _, rks', u') \<Rightarrow> (case read_increment_counter rks' of (r, rks'') \<Rightarrow> (r, app_store ad b mem, rks'', u'))
       | (Err e, rks', u') \<Rightarrow> (Err e, app_store ad b mem, rks', u')
       | (Panic, rks', u') \<Rightarrow> (Panic, app_store ad b mem, rks', u'))"
    using decrypt_sealed [OF laws ad(1) ct v, of "handler_cb (length mem)" mem "(i, opened)"] by blast
  obtain rks1 where x: "dispatch_inner cs (handler_cb (length mem)) ad ct b (rks, i, opened) = (Ok (), rks1, i', opened')"
    "read_increment_counter rks1 = (Ok (), rks')" and mem': "mem' = app_store ad b mem"
    using d e by (auto split: prod.split_asm result.split_asm)
  have lm: "length mem' = length mem" using mem' ad(2) b(4) by (simp add: app_store_def)
  have c: "counted (r_state rks1) (r_state rks')"
    using x(2) by (auto simp: read_increment_counter_def zoom_def state_increment_counter_def counted_def next_counter_def split: if_split_asm)
  have s: "cb_as_slice b = (Ok content :: (bytes, TlsError) result)" using b(1,2) by simp
  show ?thesis
  proof (cases ct)
    case CT_Handshake
    then have "handshake_loop cs (handler_cb (length mem)) (pb_new content) (rks, i, opened) = (Ok (), rks1, i', opened')"
      using x(1) s by (simp add: dispatch_inner_def)
    from handshake_loop_handler [OF this] c lm show ?thesis by simp
  next
    case CT_ApplicationData
    have h: "handler_cb (length mem) (SR_ApplicationData (ad\<lparr>app_data := b\<rparr>)) (rks, i, opened) =
      (Ok (), rks, i\<lparr>di_offset := app_base ad + cb_offset b, di_len := length content, di_consumed := 0\<rparr>, opened)"
      by (rule handler_application_data [OF b(1,2)]) (use ad(2) b(4,5) in simp)
    have l: "length content = cb_len b" using cb_view_length [OF b(1)] b(2) by simp
    have i': "i' = i\<lparr>di_offset := app_base ad + cb_offset b, di_len := cb_len b, di_consumed := 0\<rparr>"
      and "rks1 = rks" "opened' = opened" using x(1) s h l CT_ApplicationData by (auto simp: dispatch_inner_def)
    moreover have "di_left mem' i' = content"
      using slice_in_written [of "app_base ad" "cb_buf b" mem "cb_offset b" "cb_len b"] ad(2) b(2,4,5) i' mem'
      by (simp add: di_left_def app_store_def cb_view_def)
    moreover have "di_ok mem' i'" using i' lm ad(2) b(4,5) by (simp add: di_ok_def)
    ultimately show ?thesis using c lm CT_ApplicationData by simp
  next
    case CT_Alert
    then obtain a where "handler_cb (length mem) (SR_Alert a) (rks, i, opened) = (Ok (), rks1, i', opened')"
      using x(1) s by (auto simp: dispatch_inner_def bnd_Ok_iff)
    then show ?thesis by (simp add: handler_cb_def DecryptedReadHandler_handle_def bnd_def split: if_split_asm)
  qed (use x(1) s ct in \<open>auto simp: dispatch_inner_def\<close>)
qed

text \<open>A protected record is handled without an error only when it was sealed.\<close>

lemma opened_record_sealed:
  assumes laws: "aead_laws cs seal" "length (enc_iv (r_state rks)) = IvLen cs" "8 \<le> IvLen cs" and ad: "cb_ok (app_data ad)"
    and d: "decrypt_record cs (SR_ApplicationData ad) cb (mem, rks, u) = (Ok (), s)"
  shows "\<exists>ct content n. ct \<noteq> CT_Invalid \<and> cb_view (app_data ad) = seal (enc_key (r_state rks))
       (rfc_nonce (counter (r_state rks)) (enc_iv (r_state rks))) (header_data (app_header ad))
       (content @ [ContentType_as_u8 ct] @ replicate n 0)"
proof -
  let ?n = "rfc_nonce (counter (r_state rks)) (enc_iv (r_state rks))" and ?h = "header_data (app_header ad)"
  let ?open = "aead_decrypt_in_place cs (read_get_key rks) ?n ?h (app_data ad)"
  have n: "read_get_nonce cs rks = Ok ?n" by (rule read_nonce_value [OF laws(2,3)])
  obtain b1 where o: "?open = (Ok (), b1)"
    using d n by (cases ?open rule: prod.exhaust, rename_tac q b, case_tac q)
      (auto simp: decrypt_record_def decrypt_app_def bnd_def map_err_def split: prod.split_asm)
  have "\<exists>p. cb_view (app_data ad) = seal (enc_key (r_state rks)) ?n ?h p"
  proof (rule ccontr)
    assume "\<nexists>p. cb_view (app_data ad) = seal (enc_key (r_state rks)) ?n ?h p"
    then obtain b' where "?open = (Err (), b')"
      using laws(1) ad unfolding aead_laws_def read_get_key_def state_get_key_def by metis
    with o show False by simp
  qed
  then obtain p where p: "cb_view (app_data ad) = seal (enc_key (r_state rks)) ?n ?h p" by blast
  with o decrypt_app_sealed [OF laws ad p] have b1: "cb_ok b1" "cb_view b1 = p" by auto
  obtain iq b2 where i: "inner_plaintext b1 = (iq, b2)" by fastforce
  with d n o obtain ct where ct: "iq = Ok ct" "fst (dispatch_inner cs cb ad ct b2 (rks, u)) = Ok ()"
    by (cases iq) (auto simp: decrypt_record_def decrypt_app_def bnd_def map_err_def split: prod.split_asm result.split_asm)
  then have "ct \<noteq> CT_Invalid"
    by (cases "cb_as_slice b2 :: (bytes, TlsError) result") (auto simp: dispatch_inner_def)
  with inner_plaintext_Ok [OF b1(1) i [unfolded ct(1)]] b1(2) p show ?thesis by metis
qed

text \<open>What a record of the stream leaves: nothing new, or the content that was sealed in it.\<close>

lemma record_outcome:
  assumes laws: "aead_laws cs seal" "length (enc_iv (r_state rks)) = IvLen cs" "8 \<le> IvLen cs"
    and dec: "fst (ServerRecord_decode cs (RecordHeader hdr) base payload h) = Ok rec" "base + length payload \<le> length mem"
    and d: "decrypt_record cs rec (handler_cb (length mem)) (mem, rks, i, opened) = (Ok (), mem', rks', i', opened')"
  shows "length mem' = length mem \<and> opened' = opened \<and>
    (i' = i \<and> (r_state rks' = r_state rks \<or> counted (r_state rks) (r_state rks')) \<or>
     (\<exists>content. opens_to seal (r_state rks) hdr payload content \<and> di_ok mem' i' \<and> di_left mem' i' = content \<and>
        counted (r_state rks) (r_state rks')))"
proof (cases "\<exists>ad. rec = SR_ApplicationData ad")
  case False
  then have h: "handler_cb (length mem) rec (rks, i, opened) = (Ok (), rks', i', opened')" "mem' = mem"
    using d by (simp_all add: decrypt_unprotected split: prod.split_asm)
  from h(1) False have "rks' = rks" "i' = i" "opened' = opened"
    by (auto simp: handler_cb_def DecryptedReadHandler_handle_def bnd_def split: ServerRecord.split_asm ServerHandshake.split_asm if_split_asm)
  with h(2) show ?thesis by simp
next
  case True
  then obtain ad where ad: "rec = SR_ApplicationData ad" by blast
  have w: "app_data ad = cb_wrap_with_pos payload (length payload)" "app_base ad = base" "app_header ad = RecordHeader hdr"
    using dec ad by (auto simp: ServerRecord_decode_def bnd_def split: if_split_asm result.split_asm ContentType.split_asm prod.split_asm)
  then have ok: "cb_ok (app_data ad)" "app_base ad + length (cb_buf (app_data ad)) \<le> length mem"
    and v: "cb_view (app_data ad) = payload"
    using dec(2) by (simp_all add: cb_wrap_with_pos_def cb_ok_def cb_view_def slice_of_def)
  obtain ct content n where ct: "ct \<noteq> CT_Invalid" "cb_view (app_data ad) = seal (enc_key (r_state rks))
     (rfc_nonce (counter (r_state rks)) (enc_iv (r_state rks))) (header_data (app_header ad))
     (content @ [ContentType_as_u8 ct] @ replicate n 0)"
    using opened_record_sealed [OF laws ok(1) d [unfolded ad]] by blast
  note x = record_content [OF laws ok ct d [unfolded ad]]
  have "opens_to seal (r_state rks) hdr payload content" if "ct = CT_ApplicationData"
    using ct(2) that v w(3) by (auto simp: opens_to_def)
  with x show ?thesis by auto
qed

context duplex
begin

text \<open>One round of the loop of \<open>read_buffered\<close>: it skips something, or it takes the next sealed record.\<close>

lemma application_data_source:
  assumes laws: "aead_laws cs seal" "8 \<le> IvLen cs" and k: "reading cs k []" "good (tc_delegate k)"
    and e: "TlsConnection_read_application_data cs T k = (Ok (), k')"
  shows "\<exists>hdr payload. stream (tc_delegate k) = hdr @ payload @ stream (tc_delegate k') \<and> length hdr = RecordHeader_LEN \<and>
    good (tc_delegate k') \<and>
    (reading cs k' [] \<and> (rstate k' = rstate k \<or> counted (rstate k) (rstate k')) \<or>
     (\<exists>content. opens_to seal (rstate k) hdr payload content \<and> reading cs k' content \<and> counted (rstate k) (rstate k')))"
proof -
  let ?rks = "server_state (tc_key_schedule k)" and ?n = "length (read_mem k)"
  have k0: "tc_opened k" "rr_ok (tc_record_reader k)" "rr_pending (tc_record_reader k) = 0" "di_ok (read_mem k) (tc_decrypted k)"
    "di_left (read_mem k) (tc_decrypted k) = []" "length (enc_iv (rstate k)) = IvLen cs" using k(1) by (simp_all add: reading_def)
  obtain rec rr t rks where r: "read_blocking cs (t_read T) (tc_record_reader k, tc_delegate k, ?rks) = (Ok rec, rr, t, rks)"
    using e by (auto simp: TlsConnection_read_application_data_def Let_def split: prod.split_asm result.split_asm)
  obtain hdr payload base where s: "stream (tc_delegate k) = hdr @ payload @ stream t" "length hdr = RecordHeader_LEN" "good t"
    and rr: "rr = \<lparr>rr_buf = write_at (read_mem k) base payload, rr_decoded = base + length payload, rr_pending = 0\<rparr>"
      "base + length payload \<le> ?n" "r_state rks = rstate k"
    and dec: "fst (ServerRecord_decode cs (RecordHeader hdr) base payload (transcript_hash ?rks)) = Ok rec"
    using read_blocking_takes [OF k(2) k0(2,3) r] by blast
  have lm: "length (rr_buf rr) = ?n" using rr(1,2) by simp
  obtain mem rks' i o' where d: "decrypt_record cs rec (handler_cb (length (rr_buf rr))) (rr_buf rr, rks, tc_decrypted k, tc_opened k) =
      (Ok (), mem, rks', i, o')" and k': "k' = k\<lparr>tc_record_reader := rr\<lparr>rr_buf := mem\<rparr>, tc_delegate := t,
        tc_key_schedule := (tc_key_schedule k)\<lparr>server_state := rks'\<rparr>, tc_decrypted := i, tc_opened := o'\<rparr>"
    using e r lm by (auto simp: TlsConnection_read_application_data_def Let_def split: prod.split_asm)
  have iv: "length (enc_iv (r_state rks)) = IvLen cs" using k0(6) rr(3) by simp
  note x = record_outcome [OF laws(1) iv laws(2) dec _ d, unfolded rr(3) lm, OF rr(2)]
  have "reading cs k' q" if "di_ok mem i" "di_left mem i = q" "rstate k' = rstate k \<or> counted (rstate k) (rstate k')" for q
    using that x k' rr(1,2) k0(1,6) by (auto simp: reading_def rr_ok_def counted_def next_counter_def)
  moreover have "di_ok mem i \<and> di_left mem i = []" if "i = tc_decrypted k"
    using that x k0(4,5) di_left_length [OF k0(4)] by (simp add: di_ok_def) (simp add: di_left_def slice_of_def)
  ultimately show ?thesis using x s k' by (intro exI [of _ hdr] exI [of _ payload]) auto
qed

text \<open>The whole loop: the data that end it were sealed under a sequence number that is not used before.\<close>

lemma read_loop_source:
  assumes laws: "aead_laws cs seal" "8 \<le> IvLen cs" and "reading cs k []" "good (tc_delegate k)"
    and "read_loop cs T k = Some (Ok (), k')"
  shows "\<exists>pre hdr payload content st n. stream (tc_delegate k) = pre @ hdr @ payload @ stream (tc_delegate k') \<and>
    length hdr = RecordHeader_LEN \<and> st = after_records (rstate k) n \<and> unat (counter (rstate k)) + n < 2 ^ 64 \<and>
    opens_to seal st hdr payload content \<and> content \<noteq> [] \<and> reading cs k' content \<and> rstate k' = after_records (rstate k) (Suc n)"
  using assms(3-)
proof (induction "length (stream (tc_delegate k))" arbitrary: k rule: less_induct)
  case less
  have "di_is_empty (tc_decrypted k) = Ok True"
    using less.prems(1) di_is_empty_value [of "read_mem k" "tc_decrypted k"] by (simp add: reading_def)
  with less.prems(3) obtain k1 where k1: "TlsConnection_read_application_data cs T k = (Ok (), k1)" "read_loop cs T k1 = Some (Ok (), k')"
    by (subst (asm) read_loop.simps) (auto split: prod.split_asm result.split_asm)
  from application_data_source [OF laws less.prems(1,2) k1(1)] obtain hdr payload where
    s: "stream (tc_delegate k) = hdr @ payload @ stream (tc_delegate k1)" "length hdr = RecordHeader_LEN" "good (tc_delegate k1)"
    and c: "reading cs k1 [] \<and> (rstate k1 = rstate k \<or> counted (rstate k) (rstate k1)) \<or>
     (\<exists>content. opens_to seal (rstate k) hdr payload content \<and> reading cs k1 content \<and> counted (rstate k) (rstate k1))" by blast
  show ?case
  proof (cases "reading cs k1 []")
    case True
    with c have c1: "rstate k1 = rstate k \<or> counted (rstate k) (rstate k1)" by auto
    have "length (stream (tc_delegate k1)) < length (stream (tc_delegate k))" using s by (simp add: RecordHeader_LEN_def)
    from less.hyps [OF this True s(3) k1(2)] obtain pre hdr' payload' content n where
      ih: "stream (tc_delegate k1) = pre @ hdr' @ payload' @ stream (tc_delegate k')" "length hdr' = RecordHeader_LEN"
        "unat (counter (rstate k1)) + n < 2 ^ 64" "opens_to seal (after_records (rstate k1) n) hdr' payload' content" "content \<noteq> []"
        "reading cs k' content" "rstate k' = after_records (rstate k1) (Suc n)" by blast
    from c1 obtain m where m: "after_records (rstate k1) n = after_records (rstate k) m"
      "after_records (rstate k1) (Suc n) = after_records (rstate k) (Suc m)" "unat (counter (rstate k)) + m < 2 ^ 64"
      using ih(3) after_records_counter [of "rstate k" 1] by (auto simp: counted_def intro: that [of n] that [of "Suc n"])
    with ih s(1) show ?thesis
      by (intro exI [of _ "hdr @ payload @ pre"] exI [of _ hdr'] exI [of _ payload'] exI [of _ content] exI [of _ "after_records (rstate k) m"]
          exI [of _ m]) simp
  next
    case False
    with c obtain content where x: "opens_to seal (rstate k) hdr payload content" "reading cs k1 content" "counted (rstate k) (rstate k1)"
      by blast
    with False have "content \<noteq> []" by auto
    moreover from this x(2) have "k' = k1"
      using k1(2) di_is_empty_value [of "read_mem k1" "tc_decrypted k1"] by (subst (asm) read_loop.simps) (simp add: reading_def)
    moreover have "rstate k1 = after_records (rstate k) (Suc 0)" using x(3) by (simp add: counted_def)
    ultimately show ?thesis
      using x s unsigned_less [of "counter (rstate k)", where ?'a = nat]
      by (intro exI [of _ "[]"] exI [of _ hdr] exI [of _ payload] exI [of _ content] exI [of _ "rstate k"] exI [of _ 0]) simp
  qed
qed

end

section \<open>Records without protection\<close>

lemma decode_alert_record:
  assumes "length payload < 65536"
  shows "ServerRecord_decode cs (RecordHeader (record_header 21 v1 v2 payload)) base payload h =
    (case fst (Alert_parse (pb_new payload)) of Ok a \<Rightarrow> (Ok (SR_Alert a), h) | Err e \<Rightarrow> (Err e, h) | Panic \<Rightarrow> (Panic, h))"
proof -
  have "RecordHeader_content_type (RecordHeader (record_header 21 v1 v2 payload)) = Ok CT_Alert"
    by (simp add: RecordHeader_content_type_def record_header_def ContentType_of_def)
  then show ?thesis
    using record_header_content_length [OF assms, of 21 v1 v2] by (simp add: ServerRecord_decode_def bnd_def split: result.split)
qed

context duplex
begin

text \<open>A record of another type than application data goes to the handler as it was read.\<close>

lemma plain_record_handled:
  fixes cs :: "('h, 'k) TlsCipherSuite"
  assumes k: "reading cs k []" "good (tc_delegate k)" and ct: "ContentType_of ty = Some ct"
    and s: "stream (tc_delegate k) = record_header ty v1 v2 payload @ payload @ rest" "length payload < 65536" "length payload \<le> length (read_mem k)"
    and d: "\<And>base h. fst (ServerRecord_decode cs (RecordHeader (record_header ty v1 v2 payload)) base payload h) = Ok (rec h)"
      "\<And>h. \<nexists>ad. rec h = SR_ApplicationData ad"
    and h: "\<And>h (rks :: ('h, 'k) ReadKeySchedule). handler_cb (length (read_mem k)) (rec h) (rks, tc_decrypted k, tc_opened k) = (q, rks, tc_decrypted k, opened')"
      "\<And>x. q \<noteq> Ok x" and buf: "buf \<noteq> []"
  shows "\<exists>k'. TlsConnection_read cs T buf k = Some (case q of Err e \<Rightarrow> Err e | _ \<Rightarrow> Panic, k') \<and> tc_opened k' = opened' \<and>
    rstate k' = rstate k \<and> stream (tc_delegate k') = rest"
proof -
  let ?rks = "server_state (tc_key_schedule k)" and ?n = "length (read_mem k)"
  have r: "rr_ok (tc_record_reader k)" "rr_pending (tc_record_reader k) = 0" using k(1) by (simp_all add: reading_def)
  let ?rec = "rec (transcript_hash ?rks)"
  obtain rr t h' where rd: "read_blocking cs (t_read T) (tc_record_reader k, tc_delegate k, ?rks) = (Ok ?rec, rr, t, ?rks\<lparr>transcript_hash := h'\<rparr>)"
    "stream t = rest"
    using read_record [OF k(2) s(1) record_header_length record_header_decodes [OF ct] record_header_content_length [OF s(2)] r s(3) refl, of cs ?rks] d(1)
    by auto
  have "decrypt_record cs ?rec (handler_cb ?n) (rr_buf rr, ?rks\<lparr>transcript_hash := h'\<rparr>, tc_decrypted k, tc_opened k) =
      (q, rr_buf rr, ?rks\<lparr>transcript_hash := h'\<rparr>, tc_decrypted k, opened')"
    using h(1) by (simp add: decrypt_unprotected [OF d(2)])
  with rd obtain k' where k': "TlsConnection_read_application_data cs T k = (q, k')" "tc_opened k' = opened'" "rstate k' = rstate k"
    "stream (tc_delegate k') = rest" by (simp add: TlsConnection_read_application_data_def Let_def)
  moreover have "di_is_empty (tc_decrypted k) = Ok True" "tc_opened k"
    using k(1) di_is_empty_value [of "read_mem k" "tc_decrypted k"] by (simp_all add: reading_def)
  ultimately show ?thesis
    using buf h(2) by (cases q) (auto simp: TlsConnection_read_def TlsConnection_read_buffered_def read_loop.simps [of cs T k] with_read_buffer_def)
qed

end

section \<open>Properties\<close>

text \<open>C5. A read returns only authentic data, whatever stands in the stream: when a read of a connection with nothing left to hand out
  returns bytes, they are the front of the content of one record of the stream, which was taken off the stream as a whole and
  which was sealed, with its header as additional data, under the read key and a sequence number at or behind the next one; the
  connection goes on behind that number, so that it is not used again. The rest of the content stays readable, in order.\<close>

theorem read_returns_sealed_data:
  assumes "duplex T stream good sent" and "aead_laws cs seal" and "8 \<le> IvLen cs"
    and "reading cs k []" and "good (tc_delegate k)" and "buf \<noteq> []"
    and "TlsConnection_read cs T buf k = Some (Ok (n, filled), k')"
  shows "\<exists>pre hdr payload content seqs.
    stream (tc_delegate k) = pre @ hdr @ payload @ stream (tc_delegate k') \<and> length hdr = RecordHeader_LEN \<and>
    unat (counter (rstate k)) + seqs < 2 ^ 64 \<and> opens_to seal (after_records (rstate k) seqs) hdr payload content \<and>
    0 < n \<and> n = min (length content) (length buf) \<and> take n filled = take n content \<and> reading cs k' (drop n content) \<and>
    rstate k' = after_records (rstate k) (Suc seqs)"
proof -
  obtain k1 where l: "read_loop cs T k = Some (Ok (), k1)" and m: "Some (Ok (n, filled), k') =
      with_read_buffer (rb_pop_into buf) (Some (TlsConnection_create_read_buffer k1, k1))"
    using assms(4,6,7) by (auto simp: TlsConnection_read_def TlsConnection_read_buffered_def reading_def with_read_buffer_def
        split: option.split_asm prod.split_asm result.split_asm)
  obtain pre hdr payload content seqs where s: "stream (tc_delegate k) = pre @ hdr @ payload @ stream (tc_delegate k1)"
    "length hdr = RecordHeader_LEN" "unat (counter (rstate k)) + seqs < 2 ^ 64"
    "opens_to seal (after_records (rstate k) seqs) hdr payload content" "content \<noteq> []" "reading cs k1 content"
    "rstate k1 = after_records (rstate k) (Suc seqs)"
    using duplex.read_loop_source [OF assms(1-5) l] by blast
  have d: "di_ok (read_mem k1) (tc_decrypted k1)" "di_left (read_mem k1) (tc_decrypted k1) = content" using s(6) by (simp_all add: reading_def)
  let ?n = "min (length content) (length buf)"
  have "n = ?n" "filled = write_at buf 0 (take (length buf) content)" "k' = k1\<lparr>tc_decrypted :=
      (tc_decrypted k1)\<lparr>di_consumed := di_consumed (tc_decrypted k1) + ?n\<rparr>\<rparr>"
    using m d by (simp_all add: with_read_buffer_def TlsConnection_create_read_buffer_def di_create_value pop_into_value
        drop_read_buffer_def rb_drop_def)
  moreover have "take ?n (write_at buf 0 (take (length buf) content)) = take ?n content"
    by (simp add: write_at_def min_def)
  moreover have "0 < ?n" using s(5) assms(6) by simp
  moreover have "reading cs (k1\<lparr>tc_decrypted := (tc_decrypted k1)\<lparr>di_consumed := di_consumed (tc_decrypted k1) + ?n\<rparr>\<rparr>) (drop ?n content)"
    using s(6) di_advance [OF d(1), of ?n] d(2) by (simp add: reading_def)
  ultimately show ?thesis
    using s(1-4,7) by (intro exI [of _ pre] exI [of _ hdr] exI [of _ payload] exI [of _ content] exI [of _ seqs]) simp
qed

theorem read_returns_sealed_data_witness:
  "\<exists>n filled k' pre hdr payload content seqs.
    TlsConnection_read toy_suite chunk_transport [0, 0] (toy_session (app_records toy_suite toy_seal (r_state toy_rks) [[], [7, 8, 9]] @ [])) =
      Some (Ok (n, filled), k') \<and>
    app_records toy_suite toy_seal (r_state toy_rks) [[], [7, 8, 9]] = pre @ hdr @ payload @ chunk_data (cd_in (tc_delegate k')) \<and>
    opens_to toy_seal (after_records (r_state toy_rks) seqs) hdr payload content \<and> 0 < n \<and> take n filled = take n content"
proof -
  let ?ps = "[[], [7, 8, 9]] :: bytes list"
  let ?k = "toy_session (app_records toy_suite toy_seal (r_state toy_rks) ?ps @ [])"
  have s: "chunk_data (cd_in (tc_delegate ?k)) = app_records toy_suite toy_seal (rstate ?k) ?ps @ []"
    by (simp only: toy_session_sel toy_socket_sel)
  have g: "0 < chunk_size (cd_in (tc_delegate ?k))" by (simp only: toy_session_sel toy_socket_sel)
  have c: "unat (counter (rstate ?k)) + length ?ps < 2 ^ 64" by (simp add: toy_session_sel(3,6))
  have f: "records_fit toy_suite (length (read_mem ?k)) ?ps" unfolding toy_session_sel by (simp add: records_fit_def)
  have b: "list_all (\<lambda>buf. buf \<noteq> []) [[0, 0] :: bytes]" "sum_list (map length [[0, 0] :: bytes]) \<le> length ([] @ concat ?ps)" "[0, 0 :: u8] \<noteq> []"
    by simp_all
  from chunk_duplex.reads_deliver [OF toy_seal_laws toy_tag_room(3) toy_session_ready(2) c g s f b(1,2)]
  obtain n filled k' where r: "TlsConnection_read toy_suite chunk_transport [0, 0] ?k = Some (Ok (n, filled), k')"
    by (auto split: option.split_asm prod.split_asm result.split_asm)
  from read_returns_sealed_data [OF chunk_duplex.duplex_axioms toy_seal_laws toy_tag_room(3) toy_session_ready(2) g b(3) r]
  obtain pre hdr payload content seqs where
    x: "chunk_data (cd_in (tc_delegate ?k)) = pre @ hdr @ payload @ chunk_data (cd_in (tc_delegate k'))"
    "opens_to toy_seal (after_records (rstate ?k) seqs) hdr payload content" "0 < n" "take n filled = take n content" by blast
  have "app_records toy_suite toy_seal (r_state toy_rks) ?ps = pre @ hdr @ payload @ chunk_data (cd_in (tc_delegate k'))"
    using x(1) s by (simp only: toy_session_sel append_Nil2)
  with r x(2-) show ?thesis unfolding toy_session_sel by blast
qed

text \<open>C16. Records without protection are handled after the handshake as if they were protected, so no key is needed to end or
  to crash a session: an alert record in the clear with a close_notify closes the connection, and a handshake record in the clear
  with any message but NewSessionTicket makes the read panic.\<close>

theorem unprotected_records_accepted:
  fixes cs :: "('h, 'k) TlsCipherSuite"
  assumes "duplex T stream good sent" and "reading cs k []" and "good (tc_delegate k)" and "buf \<noteq> []"
    and "stream (tc_delegate k) = record_header ty v1 v2 payload @ payload @ rest"
    and "length payload < 65536" and "length payload \<le> length (read_mem k)"
  shows "(ty = 21 \<and> payload \<in> {[1, 0], [2, 0]} \<longrightarrow>
      (\<exists>k'. TlsConnection_read cs T buf k = Some (Err ConnectionClosed, k') \<and> \<not> tc_opened k')) \<and>
    (ty = 22 \<and> parses (ServerHandshake_parse cs) payload m \<and> (\<forall>t. m \<noteq> SH_NewSessionTicket t) \<longrightarrow>
      (\<exists>k'. TlsConnection_read cs T buf k = Some (Panic, k')))"
proof (intro conjI impI)
  assume a: "ty = 21 \<and> payload \<in> {[1, 0], [2, 0]}"
  then obtain level where p: "fst (Alert_parse (pb_new payload)) = Ok \<lparr>alert_level = level, alert_description = AD_CloseNotify\<rparr>"
    using close_notify_parses by blast
  have "ContentType_of ty = Some CT_Alert" using a by (simp add: ContentType_of_def)
  from duplex.plain_record_handled [OF assms(1-3) this assms(5-7), where q = "Err ConnectionClosed" and opened' = False and
      rec = "\<lambda>_. SR_Alert \<lparr>alert_level = level, alert_description = AD_CloseNotify\<rparr>" and buf = buf] a p assms(4)
  show "\<exists>k'. TlsConnection_read cs T buf k = Some (Err ConnectionClosed, k') \<and> \<not> tc_opened k'"
    by (auto simp: decode_alert_record handler_cb_def DecryptedReadHandler_handle_def bnd_def)
next
  assume a: "ty = 22 \<and> parses (ServerHandshake_parse cs) payload m \<and> (\<forall>t. m \<noteq> SH_NewSessionTicket t)"
  then have w: "\<forall>t. with_hash cs h m \<noteq> SH_NewSessionTicket t" for h by (auto simp: with_hash_def split: ServerHandshake.splits)
  have "handler_cb (length (read_mem k)) (SR_Handshake (with_hash cs h m)) (rks, tc_decrypted k, tc_opened k) =
      (Panic, rks, tc_decrypted k, tc_opened k)" for h and rks :: "('h, 'k) ReadKeySchedule"
    using w [of h] by (auto simp: handler_cb_def DecryptedReadHandler_handle_def split: ServerHandshake.splits)
  moreover have "ContentType_of ty = Some CT_Handshake" using a by (simp add: ContentType_of_def)
  ultimately show "\<exists>k'. TlsConnection_read cs T buf k = Some (Panic, k')"
    using duplex.plain_record_handled [OF assms(1-3) _ assms(5-7), where q = Panic and opened' = "tc_opened k" and
      rec = "\<lambda>h. SR_Handshake (with_hash cs h m)" and buf = buf and ct = CT_Handshake] a assms(4,6)
    by (auto simp: decode_handshake_record)
qed

theorem unprotected_records_accepted_witness:
  "(\<exists>k'. TlsConnection_read toy_suite chunk_transport [0] (toy_session (record_header 21 3 3 [1, 0] @ [1, 0] @ [])) =
      Some (Err ConnectionClosed, k') \<and> \<not> tc_opened k') \<and>
   (\<exists>k'. TlsConnection_read toy_suite chunk_transport [0] (toy_session (record_header 22 3 3 ([20] @ prefixed24 [1, 2, 3, 4]) @
      ([20] @ prefixed24 [1, 2, 3, 4]) @ [])) = Some (Panic, k'))"
proof -
  let ?w = "[20] @ prefixed24 [1, 2, 3, 4] :: bytes"
  let ?k = "\<lambda>ty w. toy_session (record_header ty 3 3 w @ w @ [])"
  have s: "chunk_data (cd_in (tc_delegate (?k ty w))) = record_header ty 3 3 w @ w @ []" for ty w by (simp only: toy_session_sel toy_socket_sel)
  have g: "0 < chunk_size (cd_in (tc_delegate (?k ty w)))" for ty w by (simp only: toy_session_sel toy_socket_sel)
  have l: "length [1 :: u8, 0] < 65536" "length [1 :: u8, 0] \<le> length (read_mem (?k 21 [1, 0]))" "[0 :: u8] \<noteq> []"
    "length ?w < 65536" "length ?w \<le> length (read_mem (?k 22 ?w))" by (simp_all add: toy_session_sel prefixed24_def)
  have p: "parses (ServerHandshake_parse toy_suite) ?w (SH_Finished \<lparr>fin_verify = [1, 2, 3, 4], fin_hash = None\<rparr>)"
    by (rule Finished_message_parses) simp_all
  from unprotected_records_accepted [OF chunk_duplex.duplex_axioms toy_session_ready(2) g l(3) s l(1,2)]
    unprotected_records_accepted [OF chunk_duplex.duplex_axioms toy_session_ready(2) g l(3) s l(4,5)] p
  show ?thesis by blast
qed

end
