(* ===== verification/Hostname.thy ===== *)
theory Hostname
  imports Tls_Error
begin

text \<open>
  Matching a host name against the names of a certificate: \<open>CertificateNames\<close>,
  \<open>tls_hostname_match\<close> and \<open>tls_hostname_match_impl\<close> of \<open>src/src/pki.rs\<close>. Names are byte strings
  of at most 64 bytes, so the counters of the loops are natural numbers. The reference
  definition \<open>name_matches\<close> splits both names into their labels; the two passes, the counters
  and the index loops of the code are shown to compute it.
\<close>

section \<open>The code\<close>

record CertificateNames =
  common_name :: "bytes option"
  san_dns_names :: "bytes list"

text \<open>\<open>b'a'..=b'z' | b'A'..=b'Z' | b'0'..=b'9' | b'-' | b'.'\<close>, and \<open>u8::to_ascii_lowercase\<close>.\<close>

definition host_byte :: "u8 \<Rightarrow> bool" where
  "host_byte b \<longleftrightarrow> 97 \<le> b \<and> b \<le> 122 \<or> 65 \<le> b \<and> b \<le> 90 \<or> 48 \<le> b \<and> b \<le> 57 \<or> b = 45 \<or> b = 46"

definition to_ascii_lowercase :: "u8 \<Rightarrow> u8" where
  "to_ascii_lowercase b = (if 65 \<le> b \<and> b \<le> 90 then b + 32 else b)"

text \<open>The two scans; \<^const>\<open>None\<close> is the early \<open>return false\<close>.\<close>

fun scan_cn :: "bytes \<Rightarrow> nat \<Rightarrow> nat \<Rightarrow> (nat \<times> nat) option" where
  "scan_cn [] cn_labels stars = Some (cn_labels, stars)"
| "scan_cn (b # cn) cn_labels stars =
     (if \<not> (host_byte b \<or> b = 42) then None
      else scan_cn cn (if b = 46 then cn_labels + 1 else cn_labels) (if b = 42 then stars + 1 else stars))"

fun scan_host :: "bytes \<Rightarrow> nat \<Rightarrow> nat option" where
  "scan_host [] host_labels = Some host_labels"
| "scan_host (b # host) host_labels =
     (if \<not> host_byte b then None else scan_host host (if b = 46 then host_labels + 1 else host_labels))"

text \<open>\<open>for i in 0..a.len() { if a[i].to_ascii_lowercase() != b[i].to_ascii_lowercase() { return false } }\<close>
  after the comparison of the lengths.\<close>

definition same_ignoring_case :: "bytes \<Rightarrow> bytes \<Rightarrow> bool" where
  "same_ignoring_case a b \<longleftrightarrow> length a = length b \<and>
     list_all (\<lambda>i. to_ascii_lowercase (a ! i) = to_ascii_lowercase (b ! i)) [0..<length a]"

definition tls_hostname_match_impl :: "bytes \<Rightarrow> bytes \<Rightarrow> bool" where
  "tls_hostname_match_impl cn host = (case scan_cn cn 1 0 of
     None \<Rightarrow> False
   | Some (cn_labels, stars) \<Rightarrow>
       (case scan_host host 1 of
          None \<Rightarrow> False
        | Some host_labels \<Rightarrow>
            if stars = 0 then same_ignoring_case cn host
            else if stars \<noteq> 1 then False
            else if take 2 cn \<noteq> [42, 46] then False
            else if cn_labels < 3 then False
            else if cn_labels \<noteq> host_labels then False
            else (case find (\<lambda>i. host ! i = 46) [0..<length host] of
                    None \<Rightarrow> False
                  | Some dot_idx \<Rightarrow> same_ignoring_case (drop 2 cn) (drop (dot_idx + 1) host))))"

definition tls_hostname_match :: "CertificateNames \<Rightarrow> bytes option \<Rightarrow> bool" where
  "tls_hostname_match names hostname = (case hostname of
     None \<Rightarrow> common_name names = None \<and> san_dns_names names = []
   | Some hostname \<Rightarrow>
       if list_ex (\<lambda>san. tls_hostname_match_impl san hostname) (san_dns_names names) then True
       else (case common_name names of
               Some cn \<Rightarrow> tls_hostname_match_impl cn hostname
             | None \<Rightarrow> False))"

section \<open>The reference definition\<close>

text \<open>The labels of a name, split at the dots.\<close>

fun labels :: "bytes \<Rightarrow> bytes list" where
  "labels [] = [[]]"
| "labels (b # bs) = (if b = 46 then [] # labels bs
     else case labels bs of [] \<Rightarrow> [[b]] | l # ls \<Rightarrow> (b # l) # ls)"

definition lower :: "bytes \<Rightarrow> bytes" where
  "lower = map to_ascii_lowercase"

definition name_matches :: "bytes \<Rightarrow> bytes \<Rightarrow> bool" where
  "name_matches cn host \<longleftrightarrow>
     (\<forall>b \<in> set cn. host_byte b \<or> b = 42) \<and> (\<forall>b \<in> set host. host_byte b) \<and>
     (42 \<notin> set cn \<and> lower cn = lower host \<or>
      (\<exists>rest first others. labels cn = [42] # rest \<and> (\<forall>l \<in> set rest. 42 \<notin> set l) \<and> 2 \<le> length rest \<and>
         labels host = first # others \<and> map lower others = map lower rest))"

subsection \<open>Labels\<close>

lemma labels_not_Nil [simp]: "labels bs \<noteq> []" "[] \<noteq> labels bs"
  by (induction bs) (auto split: list.splits)

lemma labels_length: "length (labels bs) = Suc (length (filter ((=) 46) bs))"
  by (induction bs) (auto split: list.splits)

lemma labels_no_dot: "46 \<notin> set bs \<Longrightarrow> labels bs = [bs]"
  by (induction bs) auto

lemma labels_dot: "46 \<notin> set bs \<Longrightarrow> labels (bs @ 46 # cs) = bs # labels cs"
  by (induction bs) auto

lemma labels_star: "labels bs = [42] # rest \<Longrightarrow> rest \<noteq> [] \<Longrightarrow> \<exists>cs. bs = 42 # 46 # cs \<and> rest = labels cs"
  by (cases bs rule: labels.cases; cases "tl bs" rule: labels.cases) (auto split: if_splits list.splits)

lemma set_labels: "(\<Union>l \<in> set (labels bs). set l) = set bs - {46}"
proof (induction bs)
  case (Cons b bs)
  then show ?case by (cases "labels bs") auto
qed simp

lemma star_labels: "(\<forall>l \<in> set (labels bs). 42 \<notin> set l) \<longleftrightarrow> 42 \<notin> set bs"
  using set_labels [of bs] by auto

lemma lower_simps [simp]: "lower [] = []" "lower (b # bs) = to_ascii_lowercase b # lower bs"
  by (simp_all add: lower_def)

lemma lower_dot [simp]: "to_ascii_lowercase b = 46 \<longleftrightarrow> b = 46"
proof
  assume a: "to_ascii_lowercase b = 46"
  show "b = 46"
  proof (cases "65 \<le> b \<and> b \<le> 90")
    case True
    then have "65 \<le> unat b" "unat b \<le> 90" by (simp_all add: word_le_nat_alt)
    moreover from a True have "unat (b + 32) = 46" by (simp add: to_ascii_lowercase_def)
    ultimately show ?thesis by (simp add: unat_word_ariths)
  qed (use a in \<open>auto simp: to_ascii_lowercase_def\<close>)
qed (simp add: to_ascii_lowercase_def)

text \<open>Folding the case keeps the dots, so it goes through the split.\<close>

lemma labels_lower: "labels (lower bs) = map lower (labels bs)"
  by (induction bs) (auto split: list.splits)

lemma labels_inj: "labels as = labels bs \<Longrightarrow> as = bs"
proof (induction as arbitrary: bs)
  case Nil
  then show ?case by (cases bs) (auto split: if_splits list.splits)
next
  case (Cons a as)
  then show ?case
    by (cases bs) (auto split: if_splits list.splits)
qed

lemma lower_labels_iff: "map lower (labels as) = map lower (labels bs) \<longleftrightarrow> lower as = lower bs"
  using labels_inj [of "lower as" "lower bs"] by (auto simp flip: labels_lower)

subsection \<open>The loops\<close>

lemma scan_cn_spec:
  "scan_cn cn l s = (if \<forall>b \<in> set cn. host_byte b \<or> b = 42
     then Some (l + length (filter ((=) 46) cn), s + length (filter ((=) 42) cn)) else None)"
  by (induction cn arbitrary: l s) auto

lemma scan_host_spec:
  "scan_host host l = (if \<forall>b \<in> set host. host_byte b then Some (l + length (filter ((=) 46) host)) else None)"
  by (induction host arbitrary: l) auto

lemma same_ignoring_case_iff: "same_ignoring_case a b \<longleftrightarrow> lower a = lower b"
proof -
  have "lower a = lower b \<longleftrightarrow> length a = length b \<and>
      (\<forall>i < length a. to_ascii_lowercase (a ! i) = to_ascii_lowercase (b ! i))"
    unfolding lower_def list_eq_iff_nth_eq by auto
  then show ?thesis by (auto simp: same_ignoring_case_def list_all_iff)
qed

lemma find_map: "find p (map f xs) = map_option f (find (p \<circ> f) xs)"
  by (induction xs) auto

lemma find_first:
  "find (\<lambda>i. xs ! i = x) [0..<length xs] =
     (if x \<in> set xs then Some (length (takeWhile (\<lambda>y. y \<noteq> x) xs)) else None)"
proof (induction xs)
  case (Cons y ys)
  have "find (\<lambda>i. (y # ys) ! i = x) [Suc 0..<Suc (length ys)] =
      map_option Suc (find (\<lambda>i. ys ! i = x) [0..<length ys])"
    unfolding map_Suc_upt [symmetric] by (simp add: find_map comp_def)
  with Cons show ?case by (simp add: upt_conv_Cons del: upt_Suc)
qed simp

subsection \<open>The code computes the reference definition\<close>

lemma lower_labels_length: "lower as = lower bs \<Longrightarrow> length (labels as) = length (labels bs)"
  by (metis labels_lower length_map)

text \<open>The host part of the wildcard branch, at the first dot.\<close>

lemma wildcard_branch:
  "(case find (\<lambda>i. host ! i = 46) [0..<length host] of None \<Rightarrow> False
    | Some dot_idx \<Rightarrow> same_ignoring_case cs (drop (dot_idx + 1) host)) \<longleftrightarrow>
   (\<exists>first others. labels host = first # others \<and> others \<noteq> [] \<and> map lower others = map lower (labels cs))"
proof (cases "46 \<in> set host")
  case True
  then obtain pre post where host: "host = pre @ 46 # post" and pre: "46 \<notin> set pre"
    by (meson split_list_first)
  have "takeWhile (\<lambda>b. b \<noteq> 46) host = pre"
    using pre unfolding host by (subst takeWhile_append2) auto
  then have "find (\<lambda>i. host ! i = 46) [0..<length host] = Some (length pre)"
    using True by (simp add: find_first)
  moreover have "drop (length pre + 1) host = post" by (simp add: host)
  moreover have "labels host = pre # labels post" unfolding host by (rule labels_dot [OF pre])
  ultimately show ?thesis by (simp add: same_ignoring_case_iff flip: lower_labels_iff) metis
next
  case False
  then show ?thesis by (auto simp: find_first labels_no_dot)
qed

lemma one_star: "length (filter ((=) 42) cn) = 0 \<longleftrightarrow> 42 \<notin> set cn"
  by (auto simp: filter_empty_conv)

lemma wildcard_only: "labels cn = [42] # rest \<Longrightarrow> 42 \<in> set cn"
  using set_labels [of cn] by auto

lemma hostname_match_impl_spec: "tls_hostname_match_impl cn host \<longleftrightarrow> name_matches cn host"
proof (cases "(\<forall>b \<in> set cn. host_byte b \<or> b = 42) \<and> (\<forall>b \<in> set host. host_byte b)")
  case True
  note sc = scan_cn_spec [of cn 1 0] scan_host_spec [of host 1]
  show ?thesis
  proof (cases "take 2 cn = [42, 46]")
    case wild: True
    then obtain cs where cn: "cn = 42 # 46 # cs"
      by (metis append_Cons append_Nil append_take_drop_id)
    let ?h = "\<exists>first others. labels host = first # others \<and> others \<noteq> [] \<and> map lower others = map lower (labels cs)"
    have d: "drop 2 cn = cs" by (simp add: cn)
    have count: "1 + length (filter ((=) 46) xs) = length (labels xs)" for xs
      by (simp add: labels_length)
    have "tls_hostname_match_impl cn host \<longleftrightarrow>
        42 \<notin> set cs \<and> 3 \<le> length (labels cn) \<and> length (labels cn) = length (labels host) \<and> ?h"
      unfolding tls_hostname_match_impl_def sc count if_P [OF True [THEN conjunct1]] if_P [OF True [THEN conjunct2]]
        wildcard_branch [symmetric] d
      by (auto simp: cn filter_empty_conv)
    also have "\<dots> \<longleftrightarrow> 42 \<notin> set cs \<and> 3 \<le> length (labels cn) \<and>
        (\<exists>first others. labels host = first # others \<and> map lower others = map lower (labels cs))"
      by (auto simp: cn) (metis length_map)+
    also have "\<dots> \<longleftrightarrow> name_matches cn host"
      using True by (auto simp: name_matches_def cn star_labels)
    finally show ?thesis .
  next
    case False
    have "labels cn = [42] # rest \<Longrightarrow> 2 \<le> length rest \<Longrightarrow> False" for rest
      using labels_star [of cn rest] False by (cases rest) auto
    then have "name_matches cn host \<longleftrightarrow> 42 \<notin> set cn \<and> lower cn = lower host"
      using True by (auto simp: name_matches_def)
    then show ?thesis
      unfolding tls_hostname_match_impl_def sc if_P [OF True [THEN conjunct1]] if_P [OF True [THEN conjunct2]]
      using False by (auto simp: same_ignoring_case_iff filter_empty_conv one_star split: if_splits)
  qed
next
  case False
  then show ?thesis
    by (auto simp: tls_hostname_match_impl_def name_matches_def scan_cn_spec scan_host_spec)
qed

section \<open>What matching guarantees\<close>

text \<open>A wildcard stands for one label and no more: when a name of a certificate matches a host name,
  the two have the same number of labels, and every label but the leftmost is the same up to case;
  the leftmost may differ only when the certificate's is a star, followed by at least two labels.\<close>

theorem wildcard_one_label:
  assumes "tls_hostname_match_impl cn host"
  shows "length (labels cn) = length (labels host)"
    and "map lower (tl (labels cn)) = map lower (tl (labels host))"
    and "lower (hd (labels cn)) = lower (hd (labels host)) \<or> hd (labels cn) = [42] \<and> 3 \<le> length (labels cn)"
proof -
  have "length (labels cn) = length (labels host) \<and> map lower (tl (labels cn)) = map lower (tl (labels host)) \<and>
    (lower (hd (labels cn)) = lower (hd (labels host)) \<or> hd (labels cn) = [42] \<and> 3 \<le> length (labels cn))"
  proof (cases "lower cn = lower host")
    case True
    then have "map lower (labels cn) = map lower (labels host)" by (simp add: lower_labels_iff)
    then show ?thesis by (cases "labels cn"; cases "labels host") (auto dest: map_eq_imp_length_eq)
  next
    case False
    with assms show ?thesis
      by (auto simp: hostname_match_impl_spec name_matches_def dest: map_eq_imp_length_eq)
  qed
  then show "length (labels cn) = length (labels host)"
    and "map lower (tl (labels cn)) = map lower (tl (labels host))"
    and "lower (hd (labels cn)) = lower (hd (labels host)) \<or> hd (labels cn) = [42] \<and> 3 \<le> length (labels cn)"
    by blast+
qed

text \<open>\<open>*.ex.co\<close> and \<open>A.EX.CO\<close>.\<close>

theorem wildcard_one_label_witness:
  "length (labels [42, 46, 101, 120, 46, 99, 111]) = length (labels [65, 46, 69, 88, 46, 67, 79])"
  by (rule wildcard_one_label(1)) code_simp

text \<open>C13. With a host name, a certificate is accepted exactly when one of its DNS names or its common name
  matches, the common name also when there are DNS names; without a host name, exactly when it has no name at
  all. That a name matches is what \<open>name_matches\<close> says: both names use only letters, digits, hyphens and dots (and stars in
  the certificate's name); without a star the names are equal up to the case of ASCII letters; with one, the star is
  the whole leftmost label, at least two labels follow it, none of them has a star, and the host name has any one
  label followed by the same labels up to case.\<close>

theorem hostname_match_names:
  "(tls_hostname_match \<lparr>common_name = cn, san_dns_names = sans\<rparr> (Some host) \<longleftrightarrow>
     (\<exists>name. (name \<in> set sans \<or> cn = Some name) \<and> name_matches name host)) \<and>
   (tls_hostname_match \<lparr>common_name = cn, san_dns_names = sans\<rparr> None \<longleftrightarrow> cn = None \<and> sans = [])"
  by (auto simp: tls_hostname_match_def hostname_match_impl_spec list_ex_iff split: option.splits)

end
