(* ===== verification/Der_Certificate.thy ===== *)
theory Der_Certificate
  imports Handshake_Messages
begin

text \<open>
  The decoded certificate of \<open>src/src/der_certificate.rs\<close> and the extraction of its names. The
  \<open>der\<close> crate is not part of the repository: its readers, the decoder that its derive macros
  generate for \<open>DecodedCertificate\<close> and \<open>Tag::assert_eq\<close> are the operations of the record \<open>Der\<close>, an
  argument of every definition, and its value types appear as what the code reads of them (an
  \<open>AnyRef\<close> as tag and value, a \<open>BitStringRef\<close> as the result of \<open>as_bytes\<close>, a time as its
  Unix seconds). The locale \<open>der_slice_reader\<close> states what the reader of a slice promises.
\<close>

section \<open>Values of the der crate\<close>

datatype DerTag = Tag_Null | Tag_Sequence | Tag_Set | Tag_OctetString | Tag_Utf8String | Tag_Ia5String | Tag_Other u8

datatype DerError = DE_Value DerTag | DE_Incomplete nat nat | DE_Other nat

type_synonym ObjectIdentifier = "nat list"
type_synonym BitStringRef = "bytes option"

record AnyRef =
  any_tag :: DerTag
  any_value :: bytes

definition AnyRef_NULL :: AnyRef where
  "AnyRef_NULL = \<lparr>any_tag = Tag_Null, any_value = []\<rparr>"

record DerHeader =
  dh_tag :: DerTag
  dh_length :: nat

section \<open>Certificates (der\_certificate.rs)\<close>

definition MAX_SAN_DNS_NAMES :: nat where
  "MAX_SAN_DNS_NAMES = 3"

definition HOSTNAME_MAXLEN :: nat where
  "HOSTNAME_MAXLEN = 64"

definition DNS_NAME_TAG :: u8 where
  "DNS_NAME_TAG = 0x82"

definition COMMON_NAME_OID :: ObjectIdentifier where
  "COMMON_NAME_OID = [2, 5, 4, 3]"

definition SUBJECT_ALT_NAME_OID :: ObjectIdentifier where
  "SUBJECT_ALT_NAME_OID = [2, 5, 29, 17]"

record AlgorithmIdentifier =
  alg_oid :: ObjectIdentifier
  alg_parameters :: "AnyRef option"

definition ECDSA_SHA256 :: AlgorithmIdentifier where
  "ECDSA_SHA256 = \<lparr>alg_oid = [1, 2, 840, 10045, 4, 3, 2], alg_parameters = None\<rparr>"

definition ECDSA_SHA384 :: AlgorithmIdentifier where
  "ECDSA_SHA384 = \<lparr>alg_oid = [1, 2, 840, 10045, 4, 3, 3], alg_parameters = None\<rparr>"

definition ED25519 :: AlgorithmIdentifier where
  "ED25519 = \<lparr>alg_oid = [1, 3, 101, 112], alg_parameters = None\<rparr>"

definition RSA_PKCS1_SHA256 :: AlgorithmIdentifier where
  "RSA_PKCS1_SHA256 = \<lparr>alg_oid = [1, 2, 840, 113549, 1, 1, 11], alg_parameters = Some AnyRef_NULL\<rparr>"

definition RSA_PKCS1_SHA384 :: AlgorithmIdentifier where
  "RSA_PKCS1_SHA384 = \<lparr>alg_oid = [1, 2, 840, 113549, 1, 1, 12], alg_parameters = Some AnyRef_NULL\<rparr>"

definition RSA_PKCS1_SHA512 :: AlgorithmIdentifier where
  "RSA_PKCS1_SHA512 = \<lparr>alg_oid = [1, 2, 840, 113549, 1, 1, 13], alg_parameters = Some AnyRef_NULL\<rparr>"

datatype CertVersion = CV_V1 | CV_V2 | CV_V3

definition CertVersion_default :: CertVersion where
  "CertVersion_default = CV_V1"

record AttributeTypeAndValue =
  attr_oid :: ObjectIdentifier
  attr_value :: AnyRef

record ExtensionIdAndValue =
  extn_id :: ObjectIdentifier
  extn_critical :: "bool option"
  extn_value :: AnyRef

datatype CertTime = UtcTime u64 | GeneralTime u64

record Validity =
  not_before :: CertTime
  not_after :: CertTime

record SubjectPublicKeyInfoRef =
  spki_algorithm :: AlgorithmIdentifier
  spki_public_key :: BitStringRef

record TbsCertificate =
  tbs_version :: CertVersion
  tbs_serial_number :: bytes
  tbs_signature :: AlgorithmIdentifier
  tbs_issuer :: "AttributeTypeAndValue list list"
  tbs_validity :: Validity
  tbs_subject :: "AttributeTypeAndValue list list"
  tbs_subject_public_key_info :: SubjectPublicKeyInfoRef
  tbs_issuer_unique_id :: "BitStringRef option"
  tbs_subject_unique_id :: "BitStringRef option"
  tbs_extensions :: "ExtensionIdAndValue list option"

record DecodedCertificate =
  dc_tbs_certificate :: TbsCertificate
  dc_signature_algorithm :: AlgorithmIdentifier
  dc_signature :: BitStringRef

text \<open>The operations of the \<open>der\<close> crate on a reader of type \<open>'r\<close>.\<close>

record 'r Der =
  SliceReader_new :: "bytes \<Rightarrow> ('r, DerError) result"
  Header_decode :: "('r, DerHeader, DerError) prog"
  Header_peek :: "('r, DerHeader, DerError) prog"
  read_slice :: "nat \<Rightarrow> ('r, bytes, DerError) prog"
  peek_byte :: "'r \<Rightarrow> u8 option"
  is_finished :: "'r \<Rightarrow> bool"
  tlv_bytes :: "('r, bytes, DerError) prog"
  tag_assert_eq :: "DerTag \<Rightarrow> DerTag \<Rightarrow> (DerTag, DerError) result"
  Certificate_from_der :: "bytes \<Rightarrow> (DecodedCertificate, DerError) result"

section \<open>UTF-8\<close>

text \<open>What \<open>core::str::from_utf8\<close> accepts: the well-formed sequences of Unicode, table 3-7.\<close>

definition utf8_cont :: "u8 \<Rightarrow> bool" where
  "utf8_cont b \<longleftrightarrow> 0x80 \<le> b \<and> b \<le> 0xBF"

definition utf8_second3 :: "u8 \<Rightarrow> u8 \<Rightarrow> bool" where
  "utf8_second3 a b \<longleftrightarrow> a = 0xE0 \<and> 0xA0 \<le> b \<and> b \<le> 0xBF \<or> a = 0xED \<and> 0x80 \<le> b \<and> b \<le> 0x9F \<or>
     (0xE1 \<le> a \<and> a \<le> 0xEC \<or> 0xEE \<le> a \<and> a \<le> 0xEF) \<and> utf8_cont b"

definition utf8_second4 :: "u8 \<Rightarrow> u8 \<Rightarrow> bool" where
  "utf8_second4 a b \<longleftrightarrow> a = 0xF0 \<and> 0x90 \<le> b \<and> b \<le> 0xBF \<or> a = 0xF4 \<and> 0x80 \<le> b \<and> b \<le> 0x8F \<or>
     0xF1 \<le> a \<and> a \<le> 0xF3 \<and> utf8_cont b"

fun utf8_valid :: "bytes \<Rightarrow> bool" where
  "utf8_valid [] \<longleftrightarrow> True"
| "utf8_valid (a # bs) \<longleftrightarrow>
     (if a < 0x80 then utf8_valid bs
      else case bs of
        [] \<Rightarrow> False
      | b # cs \<Rightarrow>
          if 0xC2 \<le> a \<and> a \<le> 0xDF then utf8_cont b \<and> utf8_valid cs
          else case cs of
            [] \<Rightarrow> False
          | c # ds \<Rightarrow>
              if utf8_second3 a b then utf8_cont c \<and> utf8_valid ds
              else case ds of
                [] \<Rightarrow> False
              | d # es \<Rightarrow> utf8_second4 a b \<and> utf8_cont c \<and> utf8_cont d \<and> utf8_valid es)"

lemma utf8_ascii: "list_all (\<lambda>b. b < 0x80) bs \<Longrightarrow> utf8_valid bs"
  by (induction bs) auto

section \<open>The common name\<close>

fun common_name_loop ::
  "AttributeTypeAndValue list list \<Rightarrow> bytes option \<Rightarrow> (bytes option, DerError) result" where
  "common_name_loop [] common_name = Ok common_name"
| "common_name_loop (elems # subject) common_name = (case elems of
     [] \<Rightarrow> Err (DE_Value Tag_Set)
   | attrs # _ \<Rightarrow>
       if attr_oid attrs = COMMON_NAME_OID then
         (case vec_extend HOSTNAME_MAXLEN [] (any_value (attr_value attrs)) of
            None \<Rightarrow> Err (DE_Value Tag_Utf8String)
          | Some v \<Rightarrow> common_name_loop subject (if utf8_valid v then Some v else None))
       else common_name_loop subject common_name)"

definition extract_common_name :: "TbsCertificate \<Rightarrow> (bytes option, DerError) result" where
  "extract_common_name tbs = common_name_loop (tbs_subject tbs) None"

section \<open>The DNS names\<close>

text \<open>The loop over the general names of the extension; it ends when the reader does, so it is a partial
  function, \<^const>\<open>None\<close> when it does not end.\<close>

partial_function (option) general_names_loop ::
  "'r Der \<Rightarrow> 'r \<Rightarrow> bytes list \<Rightarrow> (bytes list, DerError) result option" where
  "general_names_loop D gn_reader dns_names =
     (if is_finished D gn_reader then Some (Ok dns_names)
      else case peek_byte D gn_reader of
        None \<Rightarrow> Some (Err (DE_Incomplete 1 0))
      | Some tag_byte \<Rightarrow>
          (case bnd (Header_decode D) (\<lambda>gn_header. read_slice D (dh_length gn_header)) gn_reader of
             (Ok gn_value, gn_reader') \<Rightarrow>
               if tag_byte = DNS_NAME_TAG then
                 if \<not> utf8_valid gn_value then Some (Err (DE_Value Tag_Ia5String))
                 else if HOSTNAME_MAXLEN < length gn_value then Some (Err (DE_Value Tag_Ia5String))
                 else
                   let dns_names' = (case vec_push MAX_SAN_DNS_NAMES dns_names gn_value of
                         Some xs \<Rightarrow> xs | None \<Rightarrow> dns_names) in
                   if length dns_names' = MAX_SAN_DNS_NAMES then Some (Ok dns_names')
                   else general_names_loop D gn_reader' dns_names'
               else general_names_loop D gn_reader' dns_names
           | (Err e, _) \<Rightarrow> Some (Err e)
           | (Panic, _) \<Rightarrow> Some Panic))"

text \<open>The content of the SEQUENCE in the extension's OCTET STRING.\<close>

definition san_content :: "'r Der \<Rightarrow> AnyRef \<Rightarrow> ('r, DerError) result" where
  "san_content D val =
     and_then (tag_assert_eq D (any_tag val) Tag_OctetString) (\<lambda>_.
     and_then (SliceReader_new D (any_value val)) (\<lambda>san_reader.
     case Header_decode D san_reader of
       (Ok san_header, san_reader') \<Rightarrow>
         and_then (tag_assert_eq D (dh_tag san_header) Tag_Sequence) (\<lambda>_.
         case read_slice D (dh_length san_header) san_reader' of
           (Ok content, _) \<Rightarrow> SliceReader_new D content
         | (Err e, _) \<Rightarrow> Err e
         | (Panic, _) \<Rightarrow> Panic)
     | (Err e, _) \<Rightarrow> Err e
     | (Panic, _) \<Rightarrow> Panic))"

fun san_loop ::
  "'r Der \<Rightarrow> ExtensionIdAndValue list \<Rightarrow> bytes list \<Rightarrow> (bytes list, DerError) result option" where
  "san_loop D [] dns_names = Some (Ok dns_names)"
| "san_loop D (elems # extensions) dns_names =
     (if extn_id elems \<noteq> SUBJECT_ALT_NAME_OID then san_loop D extensions dns_names
      else case san_content D (extn_value elems) of
        Ok gn_reader \<Rightarrow>
          (case general_names_loop D gn_reader dns_names of
             None \<Rightarrow> None
           | Some (Ok dns_names') \<Rightarrow> san_loop D extensions dns_names'
           | Some (Err e) \<Rightarrow> Some (Err e)
           | Some Panic \<Rightarrow> Some Panic)
      | Err e \<Rightarrow> Some (Err e)
      | Panic \<Rightarrow> Some Panic)"

definition extract_san_dns_names :: "'r Der \<Rightarrow> TbsCertificate \<Rightarrow> (bytes list, DerError) result option" where
  "extract_san_dns_names D tbs = (case tbs_extensions tbs of
     Some extensions \<Rightarrow> san_loop D extensions []
   | None \<Rightarrow> Some (Ok []))"

section \<open>What the reader of a slice promises\<close>

text \<open>\<open>rest r\<close> are the bytes that the reader has not read. No operation goes back, and decoding a header
  reads at least its tag.\<close>

locale der_slice_reader =
  fixes D :: "'r Der" and rest :: "'r \<Rightarrow> bytes"
  assumes new_no_panic: "SliceReader_new D bs \<noteq> Panic"
    and assert_no_panic: "tag_assert_eq D t u \<noteq> Panic"
    and finished: "is_finished D r \<longleftrightarrow> rest r = []"
    and peek: "peek_byte D r = (case rest r of [] \<Rightarrow> None | b # _ \<Rightarrow> Some b)"
    and decode_progress: "Header_decode D r = (q, r') \<Longrightarrow> q \<noteq> Panic \<and>
      (\<forall>h. q = Ok h \<longrightarrow> length (rest r') < length (rest r))"
    and slice_progress: "read_slice D n r = (s, r') \<Longrightarrow> s \<noteq> Panic \<and> length (rest r') \<le> length (rest r)"
begin

lemma name_progress:
  assumes "bnd (Header_decode D) (\<lambda>h. read_slice D (dh_length h)) r = (q, r')"
  shows "q \<noteq> Panic \<and> (\<forall>v. q = Ok v \<longrightarrow> length (rest r') < length (rest r))"
proof -
  obtain hq r1 where h: "Header_decode D r = (hq, r1)" by fastforce
  note p = decode_progress [OF h]
  show ?thesis
  proof (cases hq)
    case (Ok hd)
    then show ?thesis
      using assms h p slice_progress [of "dh_length hd" r1 q r'] by (auto simp: bnd_def)
  qed (use assms h p in \<open>auto simp: bnd_def\<close>)
qed

text \<open>The loop ends; its result is a vector of at most three names that fit.\<close>

lemma general_names_total:
  assumes "length dns \<le> 3" "\<forall>n \<in> set dns. utf8_valid n \<and> length n \<le> 64"
  shows "\<exists>q. general_names_loop D r dns = Some q \<and> q \<noteq> Panic \<and>
    (\<forall>ns. q = Ok ns \<longrightarrow> length ns \<le> 3 \<and> (\<forall>n \<in> set ns. utf8_valid n \<and> length n \<le> 64))"
  using assms
proof (induction "length (rest r)" arbitrary: r dns rule: less_induct)
  case less
  obtain q r' where b: "bnd (Header_decode D) (\<lambda>h. read_slice D (dh_length h)) r = (q, r')" by fastforce
  note p = name_progress [OF b]
  show ?case
  proof (cases "rest r")
    case Nil
    with less.prems show ?thesis by (subst general_names_loop.simps) (simp add: finished)
  next
    case (Cons t xs)
    show ?thesis
    proof (cases q)
      case (Ok v)
      with p have l: "length (rest r') < length (rest r)" by simp
      let ?dns = "if length dns < 3 then dns @ [v] else dns"
      have p: "vec_push MAX_SAN_DNS_NAMES dns v = (if length dns < 3 then Some (dns @ [v]) else None)"
        by (simp add: vec_push_def MAX_SAN_DNS_NAMES_def)
      have "utf8_valid v \<Longrightarrow> length v \<le> 64 \<Longrightarrow> length ?dns \<le> 3 \<and> (\<forall>n \<in> set ?dns. utf8_valid n \<and> length n \<le> 64)"
        using less.prems by auto
      with less.hyps [OF l, of ?dns] less.hyps [OF l less.prems] less.prems Cons b Ok p show ?thesis
        by (subst general_names_loop.simps)
          (auto simp: finished peek HOSTNAME_MAXLEN_def MAX_SAN_DNS_NAMES_def Let_def not_less)
    next
      case (Err e)
      with Cons b show ?thesis by (subst general_names_loop.simps) (simp add: finished peek)
    qed (use p in simp)
  qed
qed

lemma san_content_no_panic: "san_content D v \<noteq> Panic"
proof -
  have r: "read_slice D n r \<noteq> (Panic, r')" for n r r' using slice_progress by blast
  have c: "(case read_slice D n r of (Ok content, _) \<Rightarrow> SliceReader_new D content
      | (Err e, _) \<Rightarrow> Err e | (Panic, _) \<Rightarrow> Panic) \<noteq> Panic" for n r
    using r [of n r] new_no_panic by (auto split: prod.splits result.splits)
  have d: "Header_decode D r \<noteq> (Panic, r')" for r r' using decode_progress by blast
  have "(case Header_decode D r of
       (Ok h, r') \<Rightarrow> and_then (tag_assert_eq D (dh_tag h) Tag_Sequence) (\<lambda>_.
         case read_slice D (dh_length h) r' of
           (Ok content, _) \<Rightarrow> SliceReader_new D content | (Err e, _) \<Rightarrow> Err e | (Panic, _) \<Rightarrow> Panic)
     | (Err e, _) \<Rightarrow> Err e | (Panic, _) \<Rightarrow> Panic) \<noteq> Panic" for r
    using d [of r] by (auto simp: and_then_no_panic assert_no_panic c split: prod.splits result.splits)
  then show ?thesis
    unfolding san_content_def by (intro and_then_no_panic assert_no_panic new_no_panic)
qed

lemma san_loop_total:
  assumes "length dns \<le> 3" "\<forall>n \<in> set dns. utf8_valid n \<and> length n \<le> 64"
  shows "\<exists>q. san_loop D es dns = Some q \<and> q \<noteq> Panic \<and>
    (\<forall>ns. q = Ok ns \<longrightarrow> length ns \<le> 3 \<and> (\<forall>n \<in> set ns. utf8_valid n \<and> length n \<le> 64))"
  using assms
proof (induction es arbitrary: dns)
  case (Cons e es)
  show ?case
  proof (cases "san_content D (extn_value e)")
    case (Ok r)
    obtain q where "general_names_loop D r dns = Some q" "q \<noteq> Panic"
      "\<forall>ns. q = Ok ns \<longrightarrow> length ns \<le> 3 \<and> (\<forall>n \<in> set ns. utf8_valid n \<and> length n \<le> 64)"
      using general_names_total [OF Cons.prems] by blast
    with Cons Ok show ?thesis by (cases q) auto
  qed (use Cons san_content_no_panic in auto)
qed simp

lemma extract_san_total:
  "\<exists>q. extract_san_dns_names D tbs = Some q \<and> q \<noteq> Panic \<and>
    (\<forall>ns. q = Ok ns \<longrightarrow> length ns \<le> 3 \<and> (\<forall>n \<in> set ns. utf8_valid n \<and> length n \<le> 64))"
  using san_loop_total [of "[]"] by (cases "tbs_extensions tbs") (auto simp: extract_san_dns_names_def)

end

text \<open>General names as pairs of a tag octet and a value, their DER encoding for a given encoding \<open>hdr\<close> of the headers,
  and the DNS names among them.\<close>

definition name_enc :: "(u8 \<Rightarrow> nat \<Rightarrow> bytes) \<Rightarrow> u8 \<times> bytes \<Rightarrow> bytes" where
  "name_enc hdr = (\<lambda>(b, v). hdr b (length v) @ v)"

definition name_ok :: "(u8 \<Rightarrow> DerTag option) \<Rightarrow> u8 \<times> bytes \<Rightarrow> bool" where
  "name_ok tag_of = (\<lambda>(b, v). tag_of b \<noteq> None \<and> length v < 65536)"

text \<open>A DNS name that can be kept is valid UTF-8 and fits the string.\<close>

definition dns_ok :: "bytes \<Rightarrow> bool" where
  "dns_ok v \<longleftrightarrow> utf8_valid v \<and> length v \<le> HOSTNAME_MAXLEN"

definition dns_of :: "(u8 \<times> bytes) list \<Rightarrow> bytes list" where
  "dns_of gns = map snd (filter (\<lambda>(b, v). b = DNS_NAME_TAG) gns)"

definition san_value :: "(u8 \<Rightarrow> nat \<Rightarrow> bytes) \<Rightarrow> (u8 \<times> bytes) list \<Rightarrow> AnyRef" where
  "san_value hdr gns = \<lparr>any_tag = Tag_OctetString,
     any_value = hdr 0x30 (length (concat (map (name_enc hdr) gns))) @ concat (map (name_enc hdr) gns)\<rparr>"

text \<open>What decoding gives on well-formed input: \<open>hdr t n\<close> is the DER header with tag octet \<open>t\<close> of a value of
  \<open>n\<close> bytes, for the tags that the crate knows.\<close>

locale der_encoding = der_slice_reader D rest for D :: "'r Der" and rest +
  fixes hdr :: "u8 \<Rightarrow> nat \<Rightarrow> bytes" and tag_of :: "u8 \<Rightarrow> DerTag option"
  assumes new_ok: "length bs < 65536 \<Longrightarrow> \<exists>r. SliceReader_new D bs = Ok r \<and> rest r = bs"
    and assert_same: "tag_assert_eq D t t = Ok t"
    and tag_sequence: "tag_of 0x30 = Some Tag_Sequence"
    and hdr_tag: "\<exists>ls. hdr b n = b # ls"
    and decode_hdr: "tag_of b = Some t \<Longrightarrow> n < 65536 \<Longrightarrow> rest r = hdr b n @ xs \<Longrightarrow>
      \<exists>r'. Header_decode D r = (Ok \<lparr>dh_tag = t, dh_length = n\<rparr>, r') \<and> rest r' = xs"
    and slice_ok: "rest r = ys @ xs \<Longrightarrow> \<exists>r'. read_slice D (length ys) r = (Ok ys, r') \<and> rest r' = xs"
begin

lemma read_name:
  assumes "tag_of b = Some t" "length v < 65536" "rest r = name_enc hdr (b, v) @ xs"
  shows "peek_byte D r = Some b \<and> \<not> is_finished D r \<and>
    (\<exists>r'. bnd (Header_decode D) (\<lambda>h. read_slice D (dh_length h)) r = (Ok v, r') \<and> rest r' = xs)"
proof -
  have r: "rest r = hdr b (length v) @ (v @ xs)" using assms(3) by (simp add: name_enc_def)
  obtain ls where "hdr b (length v) = b # ls" using hdr_tag by blast
  then have "peek_byte D r = Some b" "\<not> is_finished D r" by (simp_all add: peek finished r)
  moreover obtain r1 where h: "Header_decode D r = (Ok \<lparr>dh_tag = t, dh_length = length v\<rparr>, r1)" "rest r1 = v @ xs"
    using decode_hdr [OF assms(1,2) r] by blast
  moreover obtain r2 where "read_slice D (length v) r1 = (Ok v, r2)" "rest r2 = xs"
    using slice_ok [OF h(2)] by blast
  ultimately show ?thesis by (simp add: bnd_def)
qed

text \<open>Names are looked at until three DNS names are collected; one of them that cannot be kept is an error.\<close>

lemma general_names_read:
  assumes "rest r = concat (map (name_enc hdr) gns)" "list_all (name_ok tag_of) gns" "length dns < 3"
  shows "general_names_loop D r dns = Some
    (if list_all dns_ok (take (3 - length dns) (dns_of gns)) then Ok (take 3 (dns @ dns_of gns)) else Err (DE_Value Tag_Ia5String))"
  using assms
proof (induction gns arbitrary: r dns)
  case Nil
  then show ?case by (subst general_names_loop.simps) (simp add: finished dns_of_def)
next
  case (Cons gn gns)
  obtain b v where gn: "gn = (b, v)" by fastforce
  obtain t where t: "tag_of b = Some t" using Cons.prems(2) by (auto simp: gn name_ok_def)
  have v: "length v < 65536" using Cons.prems(2) by (auto simp: gn name_ok_def)
  obtain r' where r': "peek_byte D r = Some b" "\<not> is_finished D r"
    "bnd (Header_decode D) (\<lambda>h. read_slice D (dh_length h)) r = (Ok v, r')" "rest r' = concat (map (name_enc hdr) gns)"
    using read_name [OF t v, of r "concat (map (name_enc hdr) gns)"] Cons.prems(1) by (auto simp: gn)
  have tl: "list_all (name_ok tag_of) gns" using Cons.prems(2) by simp
  show ?case
  proof (cases "b = DNS_NAME_TAG")
    case True
    have push: "vec_push MAX_SAN_DNS_NAMES dns v = Some (dns @ [v])"
      using Cons.prems(3) by (simp add: vec_push_def MAX_SAN_DNS_NAMES_def)
    have d: "dns_of (gn # gns) = v # dns_of gns" "take (3 - length dns) (v # ws) = v # take (2 - length dns) ws" for ws
      using Cons.prems(3) by (simp_all add: dns_of_def gn True take_Cons' numeral_3_eq_3 numeral_2_eq_2)
    consider "\<not> dns_ok v" | "dns_ok v" "length dns = 2" | "dns_ok v" "length (dns @ [v]) < 3" using Cons.prems(3) by force
    then show ?thesis
    proof cases
      case 1
      with r' True show ?thesis
        unfolding d by (subst general_names_loop.simps) (auto simp: dns_ok_def)
    next
      case 2
      with r' True push show ?thesis
        unfolding d by (subst general_names_loop.simps) (simp add: dns_ok_def [of v] MAX_SAN_DNS_NAMES_def not_less)
    next
      case 3
      from Cons.IH [OF r'(4) tl 3(2)] r' 3 True push show ?thesis
        unfolding d by (subst general_names_loop.simps) (simp add: dns_ok_def [of v] MAX_SAN_DNS_NAMES_def not_less)
    qed
  next
    case False
    with Cons.IH [OF r'(4) tl Cons.prems(3)] r' show ?thesis
      by (subst general_names_loop.simps) (simp add: dns_of_def gn)
  qed
qed

lemma san_content_read:
  assumes "length (any_value (san_value hdr gns)) < 65536"
  shows "\<exists>r. san_content D (san_value hdr gns) = Ok r \<and> rest r = concat (map (name_enc hdr) gns)"
proof -
  let ?c = "concat (map (name_enc hdr) gns)"
  have l: "length ?c < 65536" using assms by (simp add: san_value_def)
  obtain r where r: "SliceReader_new D (any_value (san_value hdr gns)) = Ok r" "rest r = hdr 0x30 (length ?c) @ ?c"
    using new_ok [OF assms] by (auto simp: san_value_def)
  obtain r1 where r1: "Header_decode D r = (Ok \<lparr>dh_tag = Tag_Sequence, dh_length = length ?c\<rparr>, r1)" "rest r1 = ?c"
    using decode_hdr [OF tag_sequence l r(2)] by blast
  obtain r2 where r2: "read_slice D (length ?c) r1 = (Ok ?c, r2)"
    using slice_ok [of r1 ?c "[]"] r1(2) by auto
  obtain r3 where "SliceReader_new D ?c = Ok r3" "rest r3 = ?c" using new_ok [OF l] by blast
  then show ?thesis using r r1 r2 assert_same by (simp add: san_content_def san_value_def)
qed

lemma san_loop_other: "\<forall>e \<in> set es. extn_id e \<noteq> SUBJECT_ALT_NAME_OID \<Longrightarrow> san_loop D (es @ fs) dns = san_loop D fs dns"
  by (induction es) auto

text \<open>The extraction returns the first three DNS names of the extension, or fails when one of them cannot be kept.\<close>

lemma extract_san_names:
  assumes "tbs_extensions tbs = Some (es @ san # fs)"
    and "\<forall>e \<in> set es \<union> set fs. extn_id e \<noteq> SUBJECT_ALT_NAME_OID" and "extn_id san = SUBJECT_ALT_NAME_OID"
    and "extn_value san = san_value hdr gns" and "list_all (name_ok tag_of) gns" and "length (any_value (san_value hdr gns)) < 65536"
  shows "extract_san_dns_names D tbs = Some (if list_all dns_ok (take 3 (dns_of gns))
    then Ok (take 3 (dns_of gns)) else Err (DE_Value Tag_Ia5String))"
proof -
  obtain r where "san_content D (san_value hdr gns) = Ok r" "rest r = concat (map (name_enc hdr) gns)"
    using san_content_read [OF assms(6)] by blast
  moreover from this(2) have "general_names_loop D r [] = Some (if list_all dns_ok (take 3 (dns_of gns))
      then Ok (take 3 (dns_of gns)) else Err (DE_Value Tag_Ia5String))"
    using general_names_read [OF _ assms(5), of r "[]"] by simp
  moreover have "san_loop D fs dns = Some (Ok dns)" for dns using san_loop_other [of fs "[]" dns] assms(2) by simp
  ultimately show ?thesis using assms(1-4) by (simp add: extract_san_dns_names_def san_loop_other)
qed

end

section \<open>A reader of slices\<close>

text \<open>DER headers with definite lengths of at most two octets (X.690, 8.1.3), as operations on the bytes that are
  left; the decoder of whole certificates is an argument.\<close>

definition der_tag_of :: "u8 \<Rightarrow> DerTag option" where
  "der_tag_of b =
     (if unat b mod 32 = 31 then None
      else Some (if b = 0x30 then Tag_Sequence else if b = 0x31 then Tag_Set else if b = 0x04 then Tag_OctetString
        else if b = 0x05 then Tag_Null else if b = 0x0C then Tag_Utf8String else if b = 0x16 then Tag_Ia5String
        else Tag_Other b))"

definition der_hdr :: "u8 \<Rightarrow> nat \<Rightarrow> bytes" where
  "der_hdr b n = b # (if n < 128 then [of_nat n] else if n < 256 then [0x81, of_nat n] else 0x82 # u16_to_be_bytes (of_nat n))"

fun der_length :: "bytes \<Rightarrow> (nat \<times> bytes) option" where
  "der_length [] = None"
| "der_length (l # xs) =
     (if l < 0x80 then Some (unat l, xs)
      else if l = 0x81 then (case xs of a # ys \<Rightarrow> if a < 0x80 then None else Some (unat a, ys) | [] \<Rightarrow> None)
      else if l = 0x82 then
        (case xs of a # b # ys \<Rightarrow> if a = 0 then None else Some (unat (u16_from_be_bytes a b), ys) | _ \<Rightarrow> None)
      else None)"

definition der_header :: "(bytes, DerHeader, DerError) prog" where
  "der_header r = (case r of
     [] \<Rightarrow> (Err (DE_Incomplete 1 0), r)
   | b # xs \<Rightarrow> (case (der_tag_of b, der_length xs) of
        (Some t, Some (n, ys)) \<Rightarrow> (Ok \<lparr>dh_tag = t, dh_length = n\<rparr>, ys)
      | _ \<Rightarrow> (Err (DE_Other 0), r)))"

definition der_take :: "nat \<Rightarrow> (bytes, bytes, DerError) prog" where
  "der_take n r = (if length r < n then (Err (DE_Incomplete n (length r)), r) else (Ok (take n r), drop n r))"

definition slice_der :: "(bytes \<Rightarrow> (DecodedCertificate, DerError) result) \<Rightarrow> bytes Der" where
  "slice_der dec = \<lparr>
     SliceReader_new = (\<lambda>bs. if length bs < 65536 then Ok bs else Err (DE_Other 0)),
     Header_decode = der_header,
     Header_peek = (\<lambda>r. (fst (der_header r), r)),
     read_slice = der_take,
     peek_byte = (\<lambda>r. case r of [] \<Rightarrow> None | b # _ \<Rightarrow> Some b),
     is_finished = (\<lambda>r. r = []),
     tlv_bytes = (\<lambda>r. case der_header r of
         (Ok h, xs) \<Rightarrow> der_take (length r - length xs + dh_length h) r
       | (Err e, _) \<Rightarrow> (Err e, r) | (Panic, _) \<Rightarrow> (Panic, r)),
     tag_assert_eq = (\<lambda>t u. if t = u then Ok t else Err (DE_Value t)),
     Certificate_from_der = dec\<rparr>"

lemma der_length_progress: "der_length xs = Some (n, ys) \<Longrightarrow> length ys < length xs"
  by (cases xs) (auto split: if_splits list.splits)

lemma der_length_hdr:
  assumes "n < 65536"
  shows "der_length (tl (der_hdr b n) @ xs) = Some (n, xs)"
proof -
  have w: "(of_nat n :: u8) < 0x80" if "n < 128" using that by (simp add: word_less_nat_alt)
  have v: "\<not> (of_nat n :: u8) < 0x80" if "128 \<le> n" "n < 256" using that by (simp add: word_less_nat_alt)
  have u: "of_nat (n div 256) \<noteq> (0 :: u8)" if "256 \<le> n"
  proof -
    have "1 \<le> n div 256" "n div 256 < 256" using that assms by (simp_all add: less_mult_imp_div_less)
    then have "unat (of_nat (n div 256) :: u8) \<noteq> 0" by simp
    then show ?thesis by (metis unat_0)
  qed
  have b: "u16_to_be_bytes (of_nat n) = [of_nat (n div 256), of_nat n]"
    using assms by (simp add: u16_to_be_bytes_def)
  have t: "u16_from_be_bytes (of_nat (n div 256)) (of_nat n) = of_nat n"
    using u16_from_to [of "of_nat n"] assms by simp
  show ?thesis using w v u assms by (auto simp: der_hdr_def b t)
qed

interpretation slice_encoding: der_encoding "slice_der dec" "\<lambda>r. r" der_hdr der_tag_of for dec
proof unfold_locales
  show "Header_decode (slice_der dec) r = (q, r') \<Longrightarrow> q \<noteq> Panic \<and> (\<forall>h. q = Ok h \<longrightarrow> length r' < length r)" for r q r'
    by (auto simp: slice_der_def der_header_def dest!: der_length_progress split: list.splits option.splits)
  show "der_tag_of b = Some t \<Longrightarrow> n < 65536 \<Longrightarrow> r = der_hdr b n @ xs \<Longrightarrow>
      \<exists>r'. Header_decode (slice_der dec) r = (Ok \<lparr>dh_tag = t, dh_length = n\<rparr>, r') \<and> r' = xs" for b t n r xs
    using der_length_hdr [of n b xs] by (simp add: slice_der_def der_header_def der_hdr_def)
qed (auto simp: slice_der_def der_take_def der_hdr_def der_tag_of_def split: if_splits list.splits)

section \<open>What the extraction guarantees\<close>

definition example_tbs :: "(u8 \<times> bytes) list \<Rightarrow> TbsCertificate" where
  "example_tbs gns = \<lparr>tbs_version = CV_V3, tbs_serial_number = [1], tbs_signature = ECDSA_SHA256, tbs_issuer = [],
     tbs_validity = \<lparr>not_before = UtcTime 0, not_after = GeneralTime 100\<rparr>,
     tbs_subject = [[\<lparr>attr_oid = COMMON_NAME_OID, attr_value = \<lparr>any_tag = Tag_Utf8String, any_value = [99]\<rparr>\<rparr>]],
     tbs_subject_public_key_info = \<lparr>spki_algorithm = ECDSA_SHA256, spki_public_key = Some [7]\<rparr>,
     tbs_issuer_unique_id = None, tbs_subject_unique_id = None,
     tbs_extensions = Some [\<lparr>extn_id = [2, 5, 29, 15], extn_critical = None, extn_value = AnyRef_NULL\<rparr>,
       \<lparr>extn_id = SUBJECT_ALT_NAME_OID, extn_critical = None, extn_value = san_value der_hdr gns\<rparr>]\<rparr>"

text \<open>\<open>extract_san_dns_names\<close> always returns, whatever bytes the certificate carries: the loop over the general
  names ends because every header read takes at least a byte from the reader. It does not panic, and the
  names it returns are at most three, valid UTF-8 and at most 64 bytes long.\<close>

theorem extract_san_terminates:
  assumes "der_slice_reader D rest"
  shows "\<exists>q. extract_san_dns_names D tbs = Some q \<and> q \<noteq> Panic \<and>
    (\<forall>ns. q = Ok ns \<longrightarrow> length ns \<le> MAX_SAN_DNS_NAMES \<and> (\<forall>n \<in> set ns. utf8_valid n \<and> length n \<le> HOSTNAME_MAXLEN))"
  using der_slice_reader.extract_san_total [OF assms, of tbs]
  by (simp add: MAX_SAN_DNS_NAMES_def HOSTNAME_MAXLEN_def)

theorem extract_san_terminates_witness:
  "\<exists>q. extract_san_dns_names (slice_der (\<lambda>_. Err (DE_Other 0)))
     ((example_tbs [])\<lparr>tbs_extensions := Some [\<lparr>extn_id = SUBJECT_ALT_NAME_OID, extn_critical = None,
        extn_value = \<lparr>any_tag = Tag_OctetString, any_value = [0x30, 0x05, 0x82, 0x09]\<rparr>\<rparr>]\<rparr>) = Some q"
  using extract_san_terminates [OF slice_encoding.der_slice_reader_axioms] by blast

text \<open>C34. On a certificate with one subject alternative name extension, well-formed DER with general names of any kind and
  content, the extraction looks at the first three DNS names only: it returns these three, in their order, when each of them
  is valid UTF-8 of at most 64 bytes, and fails when one is not. All DNS names behind them are dropped without an
  error, bad ones too.\<close>

theorem extract_san_first_three:
  assumes "der_encoding D rest hdr tag_of" and "tbs_extensions tbs = Some (es @ san # fs)"
    and "\<forall>e \<in> set es \<union> set fs. extn_id e \<noteq> SUBJECT_ALT_NAME_OID" and "extn_id san = SUBJECT_ALT_NAME_OID"
    and "extn_value san = san_value hdr gns" and "list_all (name_ok tag_of) gns"
    and "length (any_value (san_value hdr gns)) < 65536"
  shows "extract_san_dns_names D tbs = Some (if list_all dns_ok (take MAX_SAN_DNS_NAMES (dns_of gns))
    then Ok (take MAX_SAN_DNS_NAMES (dns_of gns)) else Err (DE_Value Tag_Ia5String))"
  using der_encoding.extract_san_names [OF assms] by (simp add: MAX_SAN_DNS_NAMES_def)

text \<open>The fourth DNS name is not valid UTF-8 and is not looked at; as the second one it is an error.\<close>

theorem extract_san_first_three_witness:
  "extract_san_dns_names (slice_der (\<lambda>_. Err (DE_Other 0)))
     (example_tbs [(0x82, [97]), (0x81, [98]), (0x82, [99]), (0x82, [100]), (0x82, [0xFF])]) =
   Some (Ok [[97], [99], [100]]) \<and>
   extract_san_dns_names (slice_der (\<lambda>_. Err (DE_Other 0))) (example_tbs [(0x82, [97]), (0x82, [0xFF])]) =
   Some (Err (DE_Value Tag_Ia5String))"
proof -
  let ?gns = "[(0x82, [97]), (0x81, [98]), (0x82, [99]), (0x82, [100]), (0x82, [0xFF])] :: (u8 \<times> bytes) list"
    and ?bad = "[(0x82, [97]), (0x82, [0xFF])] :: (u8 \<times> bytes) list"
  have "list_all (name_ok der_tag_of) ?gns" "list_all (name_ok der_tag_of) ?bad" by (simp_all add: name_ok_def der_tag_of_def)
  moreover have "length (any_value (san_value der_hdr ?gns)) < 65536" "length (any_value (san_value der_hdr ?bad)) < 65536"
    by (simp_all add: san_value_def name_enc_def der_hdr_def)
  moreover have "take MAX_SAN_DNS_NAMES (dns_of ?gns) = [[97], [99], [100]]" "list_all dns_ok [[97], [99], [100 :: u8]]"
    "\<not> list_all dns_ok (take MAX_SAN_DNS_NAMES (dns_of ?bad))"
    by code_simp+
  ultimately show ?thesis
    using extract_san_first_three [OF slice_encoding.der_encoding_axioms, of "example_tbs ?gns"
        "[\<lparr>extn_id = [2, 5, 29, 15], extn_critical = None, extn_value = AnyRef_NULL\<rparr>]" _ "[]" ?gns]
      extract_san_first_three [OF slice_encoding.der_encoding_axioms, of "example_tbs ?bad"
        "[\<lparr>extn_id = [2, 5, 29, 15], extn_critical = None, extn_value = AnyRef_NULL\<rparr>]" _ "[]" ?bad]
    by (simp add: example_tbs_def SUBJECT_ALT_NAME_OID_def)
qed

end
