(* ===== verification/Pki.thy ===== *)
theory Pki
  imports Hostname Der_Certificate Client_Hello
begin

text \<open>
  The certificate verifier of \<open>src/src/pki.rs\<close>: the walk over the chain, the verification of one link, the
  signature of CertificateVerify and the \<open>TlsVerifier\<close> operations of \<open>CertVerifier\<close>. The signature crates
  (\<open>p256\<close>, \<open>p384\<close>, \<open>ed25519_dalek\<close>, \<open>rsa\<close>) are not part of the repository: each is a record \<open>SigCrate\<close> of
  what the code asks of it, on the encoded key and signature. The cargo features are a record of flags. The
  result of a definition that extracts DNS names is an option, \<^const>\<open>None\<close> when that loop does not end.
\<close>

section \<open>The signature crates\<close>

record SigCrate =
  sc_key_ok :: "bytes \<Rightarrow> bool"
  sc_sig_ok :: "bytes \<Rightarrow> bool"
  sc_verify :: "bytes \<Rightarrow> bytes \<Rightarrow> bytes \<Rightarrow> bool"

record PkiCrypto =
  pc_p256 :: SigCrate
  pc_p384 :: SigCrate
  pc_ed25519 :: SigCrate
  pc_rsa_pss :: "nat \<Rightarrow> SigCrate"
  pc_rsa_pkcs1 :: "nat \<Rightarrow> SigCrate"

record PkiFeatures =
  feat_p384 :: bool
  feat_ed25519 :: bool
  feat_rsa :: bool

text \<open>\<open>VerifyingKey::from...(key)\<close>, then \<open>Signature::from...(signature)\<close>, then \<open>verify(message, &signature).is_ok()\<close>.\<close>

definition crate_verify ::
  "SigCrate \<Rightarrow> (bool, TlsError) result \<Rightarrow> TlsError \<Rightarrow> bytes \<Rightarrow> bytes option \<Rightarrow> bytes \<Rightarrow> (bool, TlsError) result" where
  "crate_verify crate on_key sig_error key sg message =
     (if \<not> sc_key_ok crate key then on_key
      else case sg of
        None \<Rightarrow> Err sig_error
      | Some s \<Rightarrow> if \<not> sc_sig_ok crate s then Err sig_error else Ok (sc_verify crate key message s))"

abbreviation decode_err :: "('a, 'e) result \<Rightarrow> ('a, TlsError) result" where
  "decode_err \<equiv> res_map_err (\<lambda>_. DecodeError)"

section \<open>The signature of CertificateVerify\<close>

definition scheme_verified ::
  "PkiFeatures \<Rightarrow> PkiCrypto \<Rightarrow> SignatureScheme \<Rightarrow> bytes \<Rightarrow> bytes \<Rightarrow> bytes \<Rightarrow> (bool, TlsError) result" where
  "scheme_verified F C scheme key sg message =
     (let verify = (\<lambda>crate failure. crate_verify crate failure DecodeError key (Some sg) message) in
      case scheme of
        SS_EcdsaSecp256r1Sha256 \<Rightarrow> verify (pc_p256 C) (Err DecodeError)
      | SS_EcdsaSecp384r1Sha384 \<Rightarrow>
          if feat_p384 F then verify (pc_p384 C) (Err DecodeError) else Err InvalidSignatureScheme
      | SS_Ed25519 \<Rightarrow>
          if feat_ed25519 F
          then (if length key \<noteq> 32 then Panic else verify (pc_ed25519 C) (Err DecodeError))
          else Err InvalidSignatureScheme
      | SS_RsaPssRsaeSha256 \<Rightarrow> if feat_rsa F then verify (pc_rsa_pss C 256) Panic else Err InvalidSignatureScheme
      | SS_RsaPssRsaeSha384 \<Rightarrow>
          if feat_rsa F then verify (pc_rsa_pss C 384) (Err DecodeError) else Err InvalidSignatureScheme
      | SS_RsaPssRsaeSha512 \<Rightarrow>
          if feat_rsa F then verify (pc_rsa_pss C 512) (Err DecodeError) else Err InvalidSignatureScheme
      | _ \<Rightarrow> Err InvalidSignatureScheme)"

definition pki_verify_signature ::
  "PkiFeatures \<Rightarrow> PkiCrypto \<Rightarrow> 'r Der \<Rightarrow> bytes \<Rightarrow> CertificateRef \<Rightarrow> CertificateVerify \<Rightarrow> (unit, TlsError) result" where
  "pki_verify_signature F C D message certificate verify = (case cr_entries certificate of
     CER_X509 cert # _ \<Rightarrow>
       and_then (decode_err (Certificate_from_der D cert)) (\<lambda>decoded.
       and_then (or_err DecodeError
           (spki_public_key (tbs_subject_public_key_info (dc_tbs_certificate decoded)))) (\<lambda>key.
       and_then (scheme_verified F C (signature_scheme verify) key (signature verify) message) (\<lambda>verified.
       if \<not> verified then Err InvalidSignature else Ok ())))
   | _ \<Rightarrow> Err DecodeError)"

section \<open>One link of the chain\<close>

definition get_certificate_tlv_bytes :: "'r Der \<Rightarrow> bytes \<Rightarrow> (bytes, DerError) result" where
  "get_certificate_tlv_bytes D input =
     and_then (SliceReader_new D input) (\<lambda>reader.
     fst (bnd (Header_decode D) (\<lambda>top_header.
          seq (from_result (tag_assert_eq D (dh_tag top_header) Tag_Sequence)) (
          bnd (Header_peek D) (\<lambda>header.
          seq (from_result (tag_assert_eq D (dh_tag header) Tag_Sequence)) (
          tlv_bytes D)))) reader))"

fun get_cert_time :: "CertTime \<Rightarrow> u64" where
  "get_cert_time (UtcTime utc_time) = utc_time"
| "get_cert_time (GeneralTime generalized_time) = generalized_time"

definition check_validity :: "Validity \<Rightarrow> u64 option \<Rightarrow> (unit, TlsError) result" where
  "check_validity v now = (case now of
     Some now \<Rightarrow>
       if get_cert_time (not_before v) > now \<or> get_cert_time (not_after v) < now then Err InvalidCertificate else Ok ()
   | None \<Rightarrow> Ok ())"

text \<open>The match on the signature algorithm, its result the new value of \<open>verified\<close>.\<close>

definition certificate_verified ::
  "PkiFeatures \<Rightarrow> PkiCrypto \<Rightarrow> AlgorithmIdentifier \<Rightarrow> bytes \<Rightarrow> BitStringRef \<Rightarrow> bytes \<Rightarrow> (bool, TlsError) result" where
  "certificate_verified F C alg ca_public_key sg certificate_data =
     (let verify = (\<lambda>crate. crate_verify crate (Err DecodeError)
            (ParseError PE_InvalidData) ca_public_key sg certificate_data) in
      if alg = ECDSA_SHA256 then verify (pc_p256 C)
      else if feat_p384 F \<and> alg = ECDSA_SHA384 then verify (pc_p384 C)
      else if feat_ed25519 F \<and> alg = ED25519 then
        (if length ca_public_key \<noteq> 32 then Panic else verify (pc_ed25519 C))
      else if feat_rsa F \<and> alg = RSA_PKCS1_SHA256 then verify (pc_rsa_pkcs1 C 256)
      else if feat_rsa F \<and> alg = RSA_PKCS1_SHA384 then verify (pc_rsa_pkcs1 C 384)
      else if feat_rsa F \<and> alg = RSA_PKCS1_SHA512 then verify (pc_rsa_pkcs1 C 512)
      else Err InvalidSignatureScheme)"

definition opt_then ::
  "('a, 'e) result option \<Rightarrow> ('a \<Rightarrow> ('b, 'e) result option) \<Rightarrow> ('b, 'e) result option" where
  "opt_then m f = (case m of
     None \<Rightarrow> None | Some (Ok a) \<Rightarrow> f a | Some (Err e) \<Rightarrow> Some (Err e) | Some Panic \<Rightarrow> Some Panic)"

definition verify_x509 ::
  "PkiFeatures \<Rightarrow> PkiCrypto \<Rightarrow> 'r Der \<Rightarrow> DecodedCertificate \<Rightarrow> bytes \<Rightarrow> u64 option \<Rightarrow>
     (CertificateNames, TlsError) result option" where
  "verify_x509 F C D ca_certificate certificate now =
     opt_then (Some (decode_err (Certificate_from_der D certificate))) (\<lambda>parsed.
     let tbs = dc_tbs_certificate parsed in
     opt_then (Some (or_err DecodeError
         (spki_public_key (tbs_subject_public_key_info (dc_tbs_certificate ca_certificate))))) (\<lambda>ca_public_key.
     opt_then (Some (decode_err (extract_common_name tbs))) (\<lambda>cn.
     opt_then (map_option decode_err (extract_san_dns_names D tbs)) (\<lambda>sans.
     opt_then (Some (check_validity (tbs_validity tbs) now)) (\<lambda>_.
     opt_then (Some (decode_err (get_certificate_tlv_bytes D certificate))) (\<lambda>certificate_data.
     opt_then (Some (certificate_verified F C (dc_signature_algorithm parsed) ca_public_key
         (dc_signature parsed) certificate_data)) (\<lambda>verified.
     Some (if \<not> verified then Err InvalidCertificate
           else Ok \<lparr>common_name = cn, san_dns_names = sans\<rparr>))))))))"

definition pki_verify_certificate ::
  "PkiFeatures \<Rightarrow> PkiCrypto \<Rightarrow> 'r Der \<Rightarrow> CertificateEntryRef \<Rightarrow> CertificateEntryRef \<Rightarrow> u64 option \<Rightarrow>
     (CertificateNames, TlsError) result option" where
  "pki_verify_certificate F C D verifier certificate now = (case verifier of
     CER_X509 v \<Rightarrow>
       opt_then (Some (decode_err (Certificate_from_der D v))) (\<lambda>ca_certificate.
       case certificate of
         CER_X509 c \<Rightarrow> verify_x509 F C D ca_certificate c now
       | CER_RawPublicKey _ \<Rightarrow> Some (Err InvalidCertificate))
   | CER_RawPublicKey _ \<Rightarrow> Some (Err DecodeError))"

section \<open>The chain\<close>

record CertificateChain =
  chain_prev :: CertificateEntryRef
  chain_entries :: "CertificateEntryRef list"
  chain_idx :: int

definition CertificateChain_new :: "CertificateEntryRef \<Rightarrow> CertificateRef \<Rightarrow> CertificateChain" where
  "CertificateChain_new ca chain =
     \<lparr>chain_prev = ca, chain_entries = cr_entries chain, chain_idx = int (length (cr_entries chain)) - 1\<rparr>"

definition CertificateChain_next ::
  "CertificateChain \<Rightarrow> (CertificateEntryRef \<times> CertificateEntryRef) option \<times> CertificateChain" where
  "CertificateChain_next it =
     (if chain_idx it < 0 then (None, it)
      else let cur = chain_entries it ! nat (chain_idx it) in
        (Some (chain_prev it, cur), it\<lparr>chain_prev := cur, chain_idx := chain_idx it - 1\<rparr>))"

text \<open>The loop of \<open>CertVerifier::verify_certificate\<close>; \<open>n\<close> counts its iterations, each of which reads the clock.\<close>

function verify_chain ::
  "(nat \<Rightarrow> CertificateEntryRef \<Rightarrow> CertificateEntryRef \<Rightarrow> (CertificateNames, TlsError) result option) \<Rightarrow>
     CertificateChain \<Rightarrow> nat \<Rightarrow> CertificateNames \<Rightarrow> (CertificateNames, TlsError) result option" where
  "verify_chain verify it n found = (case CertificateChain_next it of
     (None, _) \<Rightarrow> Some (Ok found)
   | (Some (p, q), it') \<Rightarrow> opt_then (verify n p q) (\<lambda>found'. verify_chain verify it' (Suc n) found'))"
  by pat_completeness auto
termination
  by (relation "measure (\<lambda>(_, it, _, _). nat (chain_idx it + 1))")
    (auto simp: CertificateChain_next_def Let_def split: if_splits)

declare verify_chain.simps [simp del]

section \<open>The verifier\<close>

record 'h CertVerifier =
  cv_ca :: Certificate
  cv_host :: "bytes option"
  cv_certificate_transcript :: "'h option"
  cv_certificate :: "OwnedCertificate option"

definition CertVerifier_new :: "Certificate \<Rightarrow> 'h CertVerifier" where
  "CertVerifier_new ca = \<lparr>cv_ca = ca, cv_host = None, cv_certificate_transcript = None, cv_certificate = None\<rparr>"

definition CertVerifier_set_hostname_verification :: "bytes \<Rightarrow> ('h CertVerifier, unit, TlsError) prog" where
  "CertVerifier_set_hostname_verification hostname = (\<lambda>cv. case vec_extend 64 [] hostname of
     Some host \<Rightarrow> (Ok (), cv\<lparr>cv_host := Some host\<rparr>) | None \<Rightarrow> (Err InsufficientSpace, cv))"

text \<open>\<open>CERT_SIZE\<close> is the size \<open>N\<close>, \<open>now i\<close> the clock's reading for the link that is verified as number \<open>i\<close>.\<close>

definition CertVerifier_verify_certificate ::
  "PkiFeatures \<Rightarrow> PkiCrypto \<Rightarrow> 'r Der \<Rightarrow> nat \<Rightarrow> (nat \<Rightarrow> u64 option) \<Rightarrow> 'h \<Rightarrow> CertificateRef \<Rightarrow> 'h CertVerifier \<Rightarrow>
     ((unit, TlsError) result \<times> 'h CertVerifier) option" where
  "CertVerifier_verify_certificate F C D N now transcript cert = (\<lambda>cv.
     case verify_chain (\<lambda>i p q. pki_verify_certificate F C D p q (now i))
            (CertificateChain_new (CertificateEntryRef_from (cv_ca cv)) cert) 0
            \<lparr>common_name = None, san_dns_names = []\<rparr> of
       None \<Rightarrow> None
     | Some (Ok found) \<Rightarrow>
         if \<not> tls_hostname_match found (cv_host cv) then Some (Err InvalidCertificate, cv)
         else (case OwnedCertificate_try_from N cert of
             Ok owned \<Rightarrow> Some (Ok (), cv\<lparr>cv_certificate := Some owned, cv_certificate_transcript := Some transcript\<rparr>)
           | Err e \<Rightarrow> Some (Err e, cv)
           | Panic \<Rightarrow> Some (Panic, cv))
     | Some (Err e) \<Rightarrow> Some (Err e, cv)
     | Some Panic \<Rightarrow> Some (Panic, cv))"

text \<open>The signed content, put together in a vector of \<open>N\<close> bytes.\<close>

definition server_verify_msg :: "nat \<Rightarrow> bytes \<Rightarrow> (bytes, TlsError) result" where
  "server_verify_msg N digest =
     and_then (or_err EncodeError (vec_extend N [] (replicate 64 0x20))) (\<lambda>msg.
     and_then (or_err EncodeError (vec_extend N msg (ascii ''TLS 1.3, server CertificateVerify'' @ [0]))) (\<lambda>msg.
     or_err EncodeError (vec_extend N msg digest)))"

definition CertVerifier_verify_signature ::
  "PkiFeatures \<Rightarrow> PkiCrypto \<Rightarrow> 'r Der \<Rightarrow> ('h, 'k) TlsCipherSuite \<Rightarrow> CertificateVerify \<Rightarrow>
     ('h CertVerifier, unit, TlsError) prog" where
  "CertVerifier_verify_signature F C D cs verify = (\<lambda>cv. case cv_certificate_transcript cv of
     None \<Rightarrow> (Panic, cv)
   | Some handshake_hash \<Rightarrow>
       (and_then (server_verify_msg 146 (digest_finalize cs handshake_hash)) (\<lambda>msg.
        case cv_certificate cv of
          None \<Rightarrow> Panic
        | Some owned \<Rightarrow>
            and_then (CertificateRef_try_from owned) (\<lambda>certificate.
            pki_verify_signature F C D msg certificate verify)),
        cv\<lparr>cv_certificate_transcript := None\<rparr>))"

section \<open>What a verified link is\<close>

lemma opt_then_Ok_iff: "opt_then m f = Some (Ok b) \<longleftrightarrow> (\<exists>a. m = Some (Ok a) \<and> f a = Some (Ok b))"
  by (auto simp: opt_then_def split: option.splits result.splits)

lemma opt_then_returns: "\<exists>r. m = Some r \<Longrightarrow> (\<And>a. \<exists>r. f a = Some r) \<Longrightarrow> \<exists>r. opt_then m f = Some r"
  by (auto simp: opt_then_def split: result.splits)

lemma res_map_err_Ok_iff [simp]: "res_map_err g r = Ok a \<longleftrightarrow> r = Ok a"
  by (cases r) simp_all

lemma or_err_Ok_iff [simp]: "or_err e x = Ok a \<longleftrightarrow> x = Some a"
  by (cases x) simp_all

lemma crate_verify_True_iff:
  "crate_verify crate on_key e key sg m = Ok True \<longleftrightarrow>
     (if sc_key_ok crate key then \<exists>s. sg = Some s \<and> sc_sig_ok crate s \<and> sc_verify crate key m s else on_key = Ok True)"
  by (auto simp: crate_verify_def split: option.splits)

text \<open>The crate that an algorithm of a certificate selects, and that a scheme of CertificateVerify selects.\<close>

definition algorithm_crate :: "PkiFeatures \<Rightarrow> PkiCrypto \<Rightarrow> AlgorithmIdentifier \<Rightarrow> SigCrate option" where
  "algorithm_crate F C alg =
     (if alg = ECDSA_SHA256 then Some (pc_p256 C)
      else if feat_p384 F \<and> alg = ECDSA_SHA384 then Some (pc_p384 C)
      else if feat_ed25519 F \<and> alg = ED25519 then Some (pc_ed25519 C)
      else if feat_rsa F \<and> alg = RSA_PKCS1_SHA256 then Some (pc_rsa_pkcs1 C 256)
      else if feat_rsa F \<and> alg = RSA_PKCS1_SHA384 then Some (pc_rsa_pkcs1 C 384)
      else if feat_rsa F \<and> alg = RSA_PKCS1_SHA512 then Some (pc_rsa_pkcs1 C 512)
      else None)"

definition scheme_crate :: "PkiFeatures \<Rightarrow> PkiCrypto \<Rightarrow> SignatureScheme \<Rightarrow> SigCrate option" where
  "scheme_crate F C scheme = (case scheme of
     SS_EcdsaSecp256r1Sha256 \<Rightarrow> Some (pc_p256 C)
   | SS_EcdsaSecp384r1Sha384 \<Rightarrow> if feat_p384 F then Some (pc_p384 C) else None
   | SS_Ed25519 \<Rightarrow> if feat_ed25519 F then Some (pc_ed25519 C) else None
   | SS_RsaPssRsaeSha256 \<Rightarrow> if feat_rsa F then Some (pc_rsa_pss C 256) else None
   | SS_RsaPssRsaeSha384 \<Rightarrow> if feat_rsa F then Some (pc_rsa_pss C 384) else None
   | SS_RsaPssRsaeSha512 \<Rightarrow> if feat_rsa F then Some (pc_rsa_pss C 512) else None
   | _ \<Rightarrow> None)"

lemma certificate_verified_crate:
  "certificate_verified F C alg key sg m = (case algorithm_crate F C alg of
     None \<Rightarrow> Err InvalidSignatureScheme
   | Some crate \<Rightarrow> if alg = ED25519 \<and> length key \<noteq> 32 then Panic
       else crate_verify crate (Err DecodeError) (ParseError PE_InvalidData) key sg m)"
proof -
  have *: "(case if c then Some x else y of None \<Rightarrow> a | Some z \<Rightarrow> f z) = (if c then f x else case y of None \<Rightarrow> a | Some z \<Rightarrow> f z)"
    for c and x :: SigCrate and y and a :: "(bool, TlsError) result" and f by simp
  show ?thesis
  proof (cases "alg = ED25519")
    case True
    have "ED25519 \<noteq> ECDSA_SHA256" "ED25519 \<noteq> ECDSA_SHA384" "ED25519 \<noteq> RSA_PKCS1_SHA256" "ED25519 \<noteq> RSA_PKCS1_SHA384"
      "ED25519 \<noteq> RSA_PKCS1_SHA512"
      by (simp_all add: ED25519_def ECDSA_SHA256_def ECDSA_SHA384_def RSA_PKCS1_SHA256_def RSA_PKCS1_SHA384_def
          RSA_PKCS1_SHA512_def)
    with True show ?thesis by (simp only: certificate_verified_def algorithm_crate_def * Let_def) simp
  next
    case False
    then show ?thesis
      by (simp only: certificate_verified_def algorithm_crate_def * Let_def simp_thms if_False option.case)
  qed
qed

lemma certificate_verified_True:
  "certificate_verified F C alg key sg m = Ok True \<longleftrightarrow>
     (\<exists>crate s. algorithm_crate F C alg = Some crate \<and> sg = Some s \<and> (alg = ED25519 \<longrightarrow> length key = 32) \<and>
        sc_key_ok crate key \<and> sc_sig_ok crate s \<and> sc_verify crate key m s)"
  by (auto simp: certificate_verified_crate crate_verify_True_iff split: option.splits if_splits)

lemma scheme_verified_True:
  assumes "scheme_verified F C scheme key sg m = Ok True"
  shows "\<exists>crate. scheme_crate F C scheme = Some crate \<and> sc_verify crate key m sg"
  using assms
  by (cases scheme) (auto simp: scheme_verified_def scheme_crate_def crate_verify_True_iff Let_def split: if_splits)

text \<open>\<open>issued_by\<close>: the certificate and the issuer's decode, the key and the signature are ones that the crate of
  the algorithm reads, the certificate's signature verifies under the issuer's key over the bytes of its first
  element, the clock, if there is one, is within its validity, and the names are those of the certificate. Of
  the issuer only the public key occurs.\<close>

definition issued_by ::
  "PkiFeatures \<Rightarrow> PkiCrypto \<Rightarrow> 'r Der \<Rightarrow> CertificateEntryRef \<Rightarrow> CertificateEntryRef \<Rightarrow> u64 option \<Rightarrow> CertificateNames \<Rightarrow> bool" where
  "issued_by F C D issuer cert now found \<longleftrightarrow> (\<exists>i ca c parsed key data crate s.
     issuer = CER_X509 i \<and> Certificate_from_der D i = Ok ca \<and> cert = CER_X509 c \<and> Certificate_from_der D c = Ok parsed \<and>
     spki_public_key (tbs_subject_public_key_info (dc_tbs_certificate ca)) = Some key \<and>
     get_certificate_tlv_bytes D c = Ok data \<and> algorithm_crate F C (dc_signature_algorithm parsed) = Some crate \<and>
     dc_signature parsed = Some s \<and> sc_verify crate key data s \<and>
     (dc_signature_algorithm parsed = ED25519 \<longrightarrow> length key = 32) \<and> sc_key_ok crate key \<and> sc_sig_ok crate s \<and>
     (case now of None \<Rightarrow> True | Some t \<Rightarrow>
        get_cert_time (not_before (tbs_validity (dc_tbs_certificate parsed))) \<le> t \<and>
        t \<le> get_cert_time (not_after (tbs_validity (dc_tbs_certificate parsed)))) \<and>
     extract_common_name (dc_tbs_certificate parsed) = Ok (common_name found) \<and>
     extract_san_dns_names D (dc_tbs_certificate parsed) = Some (Ok (san_dns_names found)))"

lemma verify_certificate_issued:
  assumes "pki_verify_certificate F C D p q now = Some (Ok found)"
  shows "issued_by F C D p q now found"
proof -
  obtain i ca c where pq: "p = CER_X509 i" "Certificate_from_der D i = Ok ca" "q = CER_X509 c"
    "verify_x509 F C D ca c now = Some (Ok found)"
    using assms by (cases p; cases q) (auto simp: pki_verify_certificate_def opt_then_Ok_iff)
  from pq(4) obtain parsed key cn sans data where
    v: "Certificate_from_der D c = Ok parsed" "extract_common_name (dc_tbs_certificate parsed) = Ok cn"
      "spki_public_key (tbs_subject_public_key_info (dc_tbs_certificate ca)) = Some key"
      "extract_san_dns_names D (dc_tbs_certificate parsed) = Some (Ok sans)"
      "check_validity (tbs_validity (dc_tbs_certificate parsed)) now = Ok ()"
      "get_certificate_tlv_bytes D c = Ok data"
      "certificate_verified F C (dc_signature_algorithm parsed) key (dc_signature parsed) data = Ok True"
      "found = \<lparr>common_name = cn, san_dns_names = sans\<rparr>"
    by (auto simp: verify_x509_def opt_then_Ok_iff Let_def split: if_splits)
  from v(5) have "case now of None \<Rightarrow> True | Some t \<Rightarrow>
        get_cert_time (not_before (tbs_validity (dc_tbs_certificate parsed))) \<le> t \<and>
        t \<le> get_cert_time (not_after (tbs_validity (dc_tbs_certificate parsed)))"
    by (auto simp: check_validity_def not_less split: option.splits if_splits)
  with pq v v(7) [unfolded certificate_verified_True] show ?thesis unfolding issued_by_def by auto
qed

text \<open>Nothing else is checked: whatever is \<open>issued_by\<close> passes.\<close>

lemma issued_verify_certificate:
  assumes "issued_by F C D p q now found"
  shows "pki_verify_certificate F C D p q now = Some (Ok found)"
proof -
  from assms obtain i ca c parsed key data crate s where
    d: "p = CER_X509 i" "Certificate_from_der D i = Ok ca" "q = CER_X509 c" "Certificate_from_der D c = Ok parsed"
      "spki_public_key (tbs_subject_public_key_info (dc_tbs_certificate ca)) = Some key"
      "get_certificate_tlv_bytes D c = Ok data"
      "extract_common_name (dc_tbs_certificate parsed) = Ok (common_name found)"
      "extract_san_dns_names D (dc_tbs_certificate parsed) = Some (Ok (san_dns_names found))"
    and v: "algorithm_crate F C (dc_signature_algorithm parsed) = Some crate" "dc_signature parsed = Some s"
      "dc_signature_algorithm parsed = ED25519 \<longrightarrow> length key = 32" "sc_key_ok crate key" "sc_sig_ok crate s"
      "sc_verify crate key data s"
    and t: "case now of None \<Rightarrow> True | Some t \<Rightarrow>
        get_cert_time (not_before (tbs_validity (dc_tbs_certificate parsed))) \<le> t \<and>
        t \<le> get_cert_time (not_after (tbs_validity (dc_tbs_certificate parsed)))"
    unfolding issued_by_def by blast
  have "certificate_verified F C (dc_signature_algorithm parsed) key (dc_signature parsed) data = Ok True"
    using v unfolding certificate_verified_True by blast
  moreover have "check_validity (tbs_validity (dc_tbs_certificate parsed)) now = Ok ()"
    using t by (auto simp: check_validity_def not_less [symmetric] split: option.splits)
  ultimately show ?thesis
    using d by (simp add: pki_verify_certificate_def verify_x509_def opt_then_def Let_def)
qed

lemma verify_certificate_iff:
  "pki_verify_certificate F C D p q now = Some (Ok found) \<longleftrightarrow> issued_by F C D p q now found"
  using verify_certificate_issued issued_verify_certificate by metis

section \<open>What the walk over the chain verifies\<close>

text \<open>The issuer of entry \<open>i\<close> is the entry after it, of the last entry the configured CA.\<close>

definition issuer_of :: "CertificateEntryRef \<Rightarrow> CertificateEntryRef list \<Rightarrow> nat \<Rightarrow> CertificateEntryRef" where
  "issuer_of ca entries i = (if Suc i < length entries then entries ! Suc i else ca)"

lemma verify_chain_done: "verify_chain v \<lparr>chain_prev = p, chain_entries = es, chain_idx = - 1\<rparr> n found = Some (Ok found)"
  by (subst verify_chain.simps) (simp add: CertificateChain_next_def)

lemma verify_chain_step:
  "verify_chain v \<lparr>chain_prev = p, chain_entries = es, chain_idx = int k\<rparr> n found =
     opt_then (v n p (es ! k)) (\<lambda>found'. verify_chain v \<lparr>chain_prev = es ! k, chain_entries = es, chain_idx = int k - 1\<rparr> (Suc n) found')"
  by (subst verify_chain.simps) (simp add: CertificateChain_next_def Let_def)

text \<open>From entry \<open>k\<close> on, every entry down to the first is verified by the one before it in the walk.\<close>

lemma verify_chain_links:
  assumes "verify_chain v \<lparr>chain_prev = p, chain_entries = es, chain_idx = int k\<rparr> n found = Some (Ok found')" "i \<le> k"
  shows "\<exists>f. v (n + (k - i)) (if i = k then p else es ! Suc i) (es ! i) = Some (Ok f) \<and> (i = 0 \<longrightarrow> f = found')"
  using assms
proof (induction k arbitrary: p n found)
  case 0
  have "opt_then (v n p (es ! 0)) (\<lambda>f. Some (Ok f)) = Some (Ok found')"
    using 0 verify_chain_step [of v p es 0 n found] by (simp add: verify_chain_done)
  with 0 show ?case by (simp add: opt_then_Ok_iff)
next
  case (Suc k)
  have "opt_then (v n p (es ! Suc k)) (\<lambda>f. verify_chain v
      \<lparr>chain_prev = es ! Suc k, chain_entries = es, chain_idx = int k\<rparr> (Suc n) f) = Some (Ok found')"
    using Suc.prems(1) verify_chain_step [of v p es "Suc k" n found] by simp
  then obtain f where f: "v n p (es ! Suc k) = Some (Ok f)"
    "verify_chain v \<lparr>chain_prev = es ! Suc k, chain_entries = es, chain_idx = int k\<rparr> (Suc n) f = Some (Ok found')"
    by (auto simp: opt_then_Ok_iff)
  show ?case
  proof (cases "i = Suc k")
    case False
    with Suc.prems(2) have i: "i \<le> k" by simp
    from Suc.IH [OF f(2) i] i show ?thesis by (cases "i = k") (auto simp: Suc_diff_le)
  qed (use f(1) in simp)
qed

lemma verify_chain_new:
  assumes "verify_chain v (CertificateChain_new ca cert) 0 found = Some (Ok found')" "i < length (cr_entries cert)"
  shows "\<exists>f. v (length (cr_entries cert) - 1 - i) (issuer_of ca (cr_entries cert) i) (cr_entries cert ! i) = Some (Ok f) \<and>
    (i = 0 \<longrightarrow> f = found')"
proof -
  obtain k where k: "length (cr_entries cert) = Suc k" using assms(2) by (cases "cr_entries cert") auto
  then have "CertificateChain_new ca cert = \<lparr>chain_prev = ca, chain_entries = cr_entries cert, chain_idx = int k\<rparr>"
    by (simp add: CertificateChain_new_def)
  with verify_chain_links [of v ca "cr_entries cert" k 0 found found' i] assms k show ?thesis
    by (cases "i = k") (auto simp: issuer_of_def)
qed

text \<open>Conversely a walk all of whose links verify ends with the names of the first entry.\<close>

lemma verify_chain_complete:
  assumes "\<And>i. i \<le> k \<Longrightarrow> v (n + (k - i)) (if i = k then p else es ! Suc i) (es ! i) = Some (Ok (f i))"
  shows "verify_chain v \<lparr>chain_prev = p, chain_entries = es, chain_idx = int k\<rparr> n found = Some (Ok (f 0))"
  using assms
proof (induction k arbitrary: p n found)
  case 0
  from 0 [of 0] show ?case
    using verify_chain_step [of v p es 0 n found] by (simp add: verify_chain_done opt_then_def)
next
  case (Suc k)
  have "verify_chain v \<lparr>chain_prev = es ! Suc k, chain_entries = es, chain_idx = int k\<rparr> (Suc n) (f (Suc k)) = Some (Ok (f 0))"
  proof (rule Suc.IH)
    fix i assume "i \<le> k"
    with Suc.prems [of i] show "v (Suc n + (k - i)) (if i = k then es ! Suc k else es ! Suc i) (es ! i) = Some (Ok (f i))"
      by (cases "i = k") (simp_all add: Suc_diff_le)
  qed
  with Suc.prems [of "Suc k"] show ?case
    using verify_chain_step [of v p es "Suc k" n found] by (simp add: opt_then_def)
qed

lemma verify_chain_new_complete:
  assumes "cr_entries cert \<noteq> []"
    and "\<And>i. i < length (cr_entries cert) \<Longrightarrow>
      v (length (cr_entries cert) - 1 - i) (issuer_of ca (cr_entries cert) i) (cr_entries cert ! i) = Some (Ok (f i))"
  shows "verify_chain v (CertificateChain_new ca cert) 0 found = Some (Ok (f 0))"
proof -
  obtain k where k: "length (cr_entries cert) = Suc k" using assms(1) by (cases "cr_entries cert") auto
  then have "CertificateChain_new ca cert = \<lparr>chain_prev = ca, chain_entries = cr_entries cert, chain_idx = int k\<rparr>"
    by (simp add: CertificateChain_new_def)
  moreover have "v (0 + (k - i)) (if i = k then ca else cr_entries cert ! Suc i) (cr_entries cert ! i) = Some (Ok (f i))"
    if "i \<le> k" for i using assms(2) [of i] that k by (auto simp: issuer_of_def split: if_splits)
  ultimately show ?thesis using verify_chain_complete [of k v 0 ca "cr_entries cert" f] by metis
qed

text \<open>A walk returns when every verification of a link does.\<close>

lemma verify_chain_total:
  assumes "\<And>n p q. \<exists>r. v n p q = Some r"
  shows "\<exists>r. verify_chain v it n found = Some r"
  using assms
proof (induction v it n found rule: verify_chain.induct)
  case (1 v it n found)
  obtain x it' where nx: "CertificateChain_next it = (x, it')" by fastforce
  show ?case
  proof (cases x)
    case (Some pq)
    obtain p q where pq: "pq = (p, q)" by fastforce
    have "\<exists>r. opt_then (v n p q) (\<lambda>f. verify_chain v it' (Suc n) f) = Some r"
      using 1 nx Some pq by (intro opt_then_returns) auto
    with nx Some pq show ?thesis by (subst verify_chain.simps) simp
  qed (use nx in \<open>subst verify_chain.simps, simp\<close>)
qed

lemma pki_verify_certificate_total:
  assumes "der_slice_reader D rest"
  shows "\<exists>r. pki_verify_certificate F C D p q now = Some r"
proof -
  have x: "\<exists>r. map_option decode_err (extract_san_dns_names D tbs) = Some r" for tbs
    using der_slice_reader.extract_san_total [OF assms, of tbs] by auto
  have "\<exists>r. verify_x509 F C D ca c now = Some r" for ca c
    unfolding verify_x509_def Let_def by (intro opt_then_returns x) auto
  then have "\<exists>r. opt_then m (\<lambda>ca. case q of CER_X509 c \<Rightarrow> verify_x509 F C D ca c now
      | CER_RawPublicKey _ \<Rightarrow> Some (Err InvalidCertificate)) = Some r" if "\<exists>r. m = Some r" for m
    using that by (intro opt_then_returns) (auto split: CertificateEntryRef.splits)
  then show ?thesis by (cases p) (simp_all add: pki_verify_certificate_def)
qed

lemma server_verify_msg_value:
  "server_verify_msg N digest =
     (if 98 + length digest \<le> N
      then Ok (replicate 64 0x20 @ ascii ''TLS 1.3, server CertificateVerify'' @ [0] @ digest) else Err EncodeError)"
  by (simp add: server_verify_msg_def vec_extend_def or_err_def ascii_def)

section \<open>Two names at the edge\<close>

text \<open>Two names that the tests of the module do not try: the empty label behind a final dot
  counts as one of the three labels that a wildcard needs, and a star stands for an empty label too.\<close>

lemma wildcard_trailing_dot:
  "tls_hostname_match_impl (ascii ''*.com.'') (ascii ''example.com.'')"
  "tls_hostname_match_impl (ascii ''*.ex.com'') (ascii ''.ex.com'')"
  by code_simp+

section \<open>A toy hierarchy\<close>

text \<open>Certificates of five bytes: key \<open>[k]\<close>, signed by key \<open>[k + 1]\<close>, for the host name \<open>a\<close>.\<close>

definition toy_cert :: "u8 \<Rightarrow> bytes" where
  "toy_cert k = [0x30, 3, 0x30, 1, k]"

definition toy_decode :: "bytes \<Rightarrow> (DecodedCertificate, DerError) result" where
  "toy_decode bs = (if length bs = 5 then
     Ok \<lparr>dc_tbs_certificate = (example_tbs [(0x82, [97])])
           \<lparr>tbs_subject_public_key_info := \<lparr>spki_algorithm = ECDSA_SHA256, spki_public_key = Some [bs ! 4]\<rparr>\<rparr>,
         dc_signature_algorithm = ECDSA_SHA256, dc_signature = Some [bs ! 4 + 1]\<rparr>
     else Err (DE_Other 0))"

definition toy_der :: "bytes Der" where
  "toy_der = slice_der toy_decode"

definition toy_crate :: SigCrate where
  "toy_crate = \<lparr>sc_key_ok = (\<lambda>_. True), sc_sig_ok = (\<lambda>_. True), sc_verify = (\<lambda>key m s. s = key)\<rparr>"

definition toy_pki :: PkiCrypto where
  "toy_pki = \<lparr>pc_p256 = toy_crate, pc_p384 = toy_crate, pc_ed25519 = toy_crate,
     pc_rsa_pss = (\<lambda>_. toy_crate), pc_rsa_pkcs1 = (\<lambda>_. toy_crate)\<rparr>"

definition no_features :: PkiFeatures where
  "no_features = \<lparr>feat_p384 = False, feat_ed25519 = False, feat_rsa = False\<rparr>"

definition toy_names :: CertificateNames where
  "toy_names = \<lparr>common_name = Some [99], san_dns_names = [[97]]\<rparr>"

definition toy_chain :: "bytes list \<Rightarrow> CertificateRef" where
  "toy_chain certs = \<lparr>cr_raw_entries = concat (map entry_wire (map CER_X509 certs)), cr_request_context = [], cr_entries = map CER_X509 certs\<rparr>"

lemma toy_decode_cert:
  "Certificate_from_der toy_der (toy_cert k) =
     Ok \<lparr>dc_tbs_certificate = (example_tbs [(0x82, [97])])
           \<lparr>tbs_subject_public_key_info := \<lparr>spki_algorithm = ECDSA_SHA256, spki_public_key = Some [k]\<rparr>\<rparr>,
         dc_signature_algorithm = ECDSA_SHA256, dc_signature = Some [k + 1]\<rparr>"
  by (simp add: toy_der_def slice_der_def toy_decode_def toy_cert_def)

lemma toy_sans:
  "extract_san_dns_names toy_der ((example_tbs [(0x82, [97])])\<lparr>tbs_subject_public_key_info := i\<rparr>) = Some (Ok [[97]])"
proof -
  let ?gns = "[(0x82, [97])] :: (u8 \<times> bytes) list"
  let ?tbs = "(example_tbs ?gns)\<lparr>tbs_subject_public_key_info := i\<rparr>"
  have "list_all (name_ok der_tag_of) ?gns" by (simp add: name_ok_def der_tag_of_def)
  moreover have "length (any_value (san_value der_hdr ?gns)) < 65536" by (simp add: san_value_def name_enc_def der_hdr_def)
  moreover have "take 3 (dns_of ?gns) = [[97]]" "dns_ok [97]" by code_simp+
  ultimately show ?thesis
    using slice_encoding.extract_san_names [of ?tbs
        "[\<lparr>extn_id = [2, 5, 29, 15], extn_critical = None, extn_value = AnyRef_NULL\<rparr>]" _ "[]" ?gns toy_decode]
    by (simp add: example_tbs_def SUBJECT_ALT_NAME_OID_def toy_der_def)
qed

lemma toy_tbs:
  "extract_common_name ((example_tbs gns)\<lparr>tbs_subject_public_key_info := i\<rparr>) = Ok (Some [99])"
  "tbs_validity (example_tbs gns) = \<lparr>not_before = UtcTime 0, not_after = GeneralTime 100\<rparr>"
  by (simp_all add: extract_common_name_def example_tbs_def vec_extend_def HOSTNAME_MAXLEN_def)

lemma toy_tlv: "get_certificate_tlv_bytes toy_der (toy_cert k) = Ok [0x30, 1, k]"
  by (simp add: get_certificate_tlv_bytes_def toy_der_def slice_der_def toy_cert_def bnd_def der_header_def
      der_tag_of_def der_take_def)

lemma toy_link:
  "pki_verify_certificate no_features toy_pki toy_der (CER_X509 (toy_cert (k + 1))) (CER_X509 (toy_cert k)) None =
     Some (Ok toy_names)"
  "pki_verify_certificate no_features toy_pki toy_der (CER_X509 (toy_cert (k + 1))) (CER_X509 (toy_cert k)) (Some 50) =
     Some (Ok toy_names)"
  by (simp_all add: pki_verify_certificate_def verify_x509_def toy_decode_cert opt_then_def Let_def toy_sans toy_tlv
      certificate_verified_def crate_verify_def toy_pki_def toy_crate_def check_validity_def toy_names_def toy_tbs)

lemma toy_walk:
  "verify_chain (\<lambda>i p q. pki_verify_certificate no_features toy_pki toy_der p q (Some 50))
     (CertificateChain_new (CER_X509 (toy_cert 9)) (toy_chain [toy_cert 7, toy_cert 8])) 0 found = Some (Ok toy_names)"
  using toy_link(2) [of 8] toy_link(2) [of 7]
  by (simp add: CertificateChain_new_def toy_chain_def verify_chain.simps CertificateChain_next_def opt_then_def Let_def)

definition toy_verifier :: "bytes CertVerifier" where
  "toy_verifier = \<lparr>cv_ca = Cert_X509 (toy_cert 9), cv_host = Some [97], cv_certificate_transcript = None, cv_certificate = None\<rparr>"

lemma toy_chain_accepted:
  assumes "cr_entries cert = map CER_X509 [toy_cert 7, toy_cert 8]" and "OwnedCertificate_try_from 100 cert = Ok owned"
  shows "CertVerifier_verify_certificate no_features toy_pki toy_der 100 (\<lambda>_. Some 50) h cert toy_verifier =
     Some (Ok (), toy_verifier\<lparr>cv_certificate := Some owned, cv_certificate_transcript := Some h\<rparr>)"
proof -
  have h: "tls_hostname_match toy_names (Some [97])" by code_simp
  have "CertificateChain_new ca cert = CertificateChain_new ca (toy_chain [toy_cert 7, toy_cert 8])" for ca
    using assms(1) by (simp add: CertificateChain_new_def toy_chain_def)
  with toy_walk h assms(2) show ?thesis
    by (simp add: CertVerifier_verify_certificate_def toy_verifier_def)
qed

lemma toy_owned:
  "OwnedCertificate_try_from 100 (toy_chain [toy_cert 7, toy_cert 8]) =
     Ok \<lparr>oc_request_context = [], oc_entries_data = cr_raw_entries (toy_chain [toy_cert 7, toy_cert 8])\<rparr>"
  by (simp add: OwnedCertificate_try_from_def toy_chain_def vec_extend_def toy_cert_def prefixed24_def)

lemma toy_accepts:
  "CertVerifier_verify_certificate no_features toy_pki toy_der 100 (\<lambda>_. Some 50) h (toy_chain [toy_cert 7, toy_cert 8]) toy_verifier =
     Some (Ok (), toy_verifier\<lparr>cv_certificate := Some \<lparr>oc_request_context = [],
       oc_entries_data = cr_raw_entries (toy_chain [toy_cert 7, toy_cert 8])\<rparr>, cv_certificate_transcript := Some h\<rparr>)"
  by (rule toy_chain_accepted [OF _ toy_owned]) (simp add: toy_chain_def)

lemma verify_certificate_keeps:
  assumes "CertVerifier_verify_certificate F C D N now transcript cert cv = Some (Ok (), cv')"
  shows "\<exists>owned. OwnedCertificate_try_from N cert = Ok owned \<and>
    cv' = cv\<lparr>cv_certificate := Some owned, cv_certificate_transcript := Some transcript\<rparr>"
  using assms by (auto simp: CertVerifier_verify_certificate_def split: option.splits result.splits if_splits)

section \<open>What the verifier guarantees\<close>

text \<open>The links of an accepted list, from the CA to the first entry, whose names match the host.\<close>

definition chain_verified ::
  "PkiFeatures \<Rightarrow> PkiCrypto \<Rightarrow> 'r Der \<Rightarrow> (nat \<Rightarrow> u64 option) \<Rightarrow> Certificate \<Rightarrow> bytes option \<Rightarrow> CertificateRef \<Rightarrow> bool" where
  "chain_verified F C D now ca host cert \<longleftrightarrow>
     (\<forall>i < length (cr_entries cert). \<exists>found.
        issued_by F C D (issuer_of (CertificateEntryRef_from ca) (cr_entries cert) i) (cr_entries cert ! i)
          (now (length (cr_entries cert) - 1 - i)) found \<and> (i = 0 \<longrightarrow> tls_hostname_match found host)) \<and>
     (host \<noteq> None \<longrightarrow> cr_entries cert \<noteq> [])"

lemma verify_certificate_chain:
  assumes "CertVerifier_verify_certificate F C D N now transcript cert cv = Some (Ok (), cv')"
  shows "chain_verified F C D now (cv_ca cv) (cv_host cv) cert"
  unfolding chain_verified_def
proof (intro conjI impI)
  let ?ca = "CertificateEntryRef_from (cv_ca cv)"
  from assms obtain found where found:
    "verify_chain (\<lambda>i p q. pki_verify_certificate F C D p q (now i)) (CertificateChain_new ?ca cert) 0
       \<lparr>common_name = None, san_dns_names = []\<rparr> = Some (Ok found)"
    "tls_hostname_match found (cv_host cv)"
    by (auto simp: CertVerifier_verify_certificate_def split: option.splits result.splits if_splits)
  show "\<forall>i < length (cr_entries cert). \<exists>found. issued_by F C D (issuer_of ?ca (cr_entries cert) i) (cr_entries cert ! i)
        (now (length (cr_entries cert) - 1 - i)) found \<and> (i = 0 \<longrightarrow> tls_hostname_match found (cv_host cv))"
    using verify_chain_new [OF found(1)] found(2) verify_certificate_issued by blast
  show "cr_entries cert \<noteq> []" if host: "cv_host cv \<noteq> None"
  proof
    assume "cr_entries cert = []"
    then have "found = \<lparr>common_name = None, san_dns_names = []\<rparr>"
      using found(1) by (simp add: CertificateChain_new_def verify_chain_done)
    with found(2) host show False by (auto simp: tls_hostname_match_def)
  qed
qed

lemma chain_verified_accepted:
  assumes "chain_verified F C D now (cv_ca cv) (cv_host cv) cert" and "OwnedCertificate_try_from N cert = Ok owned"
  shows "CertVerifier_verify_certificate F C D N now transcript cert cv =
    Some (Ok (), cv\<lparr>cv_certificate := Some owned, cv_certificate_transcript := Some transcript\<rparr>)"
proof -
  let ?es = "cr_entries cert" and ?ca = "CertificateEntryRef_from (cv_ca cv)"
    and ?v = "\<lambda>i p q. pki_verify_certificate F C D p q (now i)"
  have "\<forall>i. \<exists>found. i < length ?es \<longrightarrow> issued_by F C D (issuer_of ?ca ?es i) (?es ! i) (now (length ?es - 1 - i)) found \<and>
      (i = 0 \<longrightarrow> tls_hostname_match found (cv_host cv))"
    using assms(1) unfolding chain_verified_def by blast
  then obtain f where f: "\<And>i. i < length ?es \<Longrightarrow> issued_by F C D (issuer_of ?ca ?es i) (?es ! i) (now (length ?es - 1 - i)) (f i)"
    "?es \<noteq> [] \<Longrightarrow> tls_hostname_match (f 0) (cv_host cv)"
    by (metis length_greater_0_conv)
  obtain found where "verify_chain ?v (CertificateChain_new ?ca cert) 0 \<lparr>common_name = None, san_dns_names = []\<rparr> = Some (Ok found)"
    "tls_hostname_match found (cv_host cv)"
  proof (cases "?es = []")
    case True
    then have "cv_host cv = None" using assms(1) by (auto simp: chain_verified_def)
    with True that [of "\<lparr>common_name = None, san_dns_names = []\<rparr>"] show thesis
      by (simp add: CertificateChain_new_def verify_chain_done tls_hostname_match_def)
  next
    case False
    with that verify_chain_new_complete [of cert ?v ?ca f] f show thesis by (auto simp: verify_certificate_iff)
  qed
  with assms(2) show ?thesis by (simp add: CertVerifier_verify_certificate_def)
qed



text \<open>Verification of a certificate message always returns: the walk ends with the chain and the extraction of the
  names with the bytes.\<close>

theorem verify_certificate_terminates:
  assumes "der_slice_reader D rest"
  shows "\<exists>r cv'. CertVerifier_verify_certificate F C D N now transcript cert cv = Some (r, cv')"
proof -
  obtain r where "verify_chain (\<lambda>i p q. pki_verify_certificate F C D p q (now i))
      (CertificateChain_new (CertificateEntryRef_from (cv_ca cv)) cert) 0
      \<lparr>common_name = None, san_dns_names = []\<rparr> = Some r"
    using verify_chain_total pki_verify_certificate_total [OF assms] by metis
  then show ?thesis
    by (cases r) (auto simp: CertVerifier_verify_certificate_def split: result.splits)
qed

theorem verify_certificate_terminates_witness:
  "\<exists>r cv'. CertVerifier_verify_certificate no_features toy_pki (slice_der toy_decode) 3 (\<lambda>_. None) [1]
     (toy_chain [toy_cert 1, [0x30]]) toy_verifier = Some (r, cv')"
  by (rule verify_certificate_terminates [OF slice_encoding.der_slice_reader_axioms])

text \<open>C35. The verifier accepts exactly the certificate lists that are chains up to the configured CA, match the host
  name and fit the buffer, and then keeps the certificate and the transcript. The condition is all that counts: of the
  issuer of a link it names the public key only, so a certificate for a host, which is not one of a CA, passes
  as the issuer of another, and neither the names of the issuer and the certificate nor the validity and the
  extensions of the configured CA are looked at.\<close>

theorem chain_accepted_exact:
  "CertVerifier_verify_certificate F C D N now transcript cert cv = Some (Ok (), cv') \<longleftrightarrow>
     chain_verified F C D now (cv_ca cv) (cv_host cv) cert \<and>
     (\<exists>owned. OwnedCertificate_try_from N cert = Ok owned \<and>
       cv' = cv\<lparr>cv_certificate := Some owned, cv_certificate_transcript := Some transcript\<rparr>)"
  using verify_certificate_chain verify_certificate_keeps chain_verified_accepted by metis

text \<open>C36. Without a host name an empty certificate list is accepted: nothing is verified.\<close>

theorem empty_chain_accepted:
  assumes "cr_entries cert = []" and "cv_host cv = None" and "OwnedCertificate_try_from N cert = Ok owned"
  shows "CertVerifier_verify_certificate F C D N now transcript cert cv =
    Some (Ok (), cv\<lparr>cv_certificate := Some owned, cv_certificate_transcript := Some transcript\<rparr>)"
  using assms by (simp add: CertVerifier_verify_certificate_def CertificateChain_new_def verify_chain_done tls_hostname_match_def)

theorem empty_chain_accepted_witness:
  "CertVerifier_verify_certificate no_features toy_pki toy_der 10 (\<lambda>_. None) [1] (toy_chain []) (CertVerifier_new (Cert_X509 (toy_cert 9))) =
    Some (Ok (), (CertVerifier_new (Cert_X509 (toy_cert 9)))\<lparr>cv_certificate := Some \<lparr>oc_request_context = [], oc_entries_data = []\<rparr>,
       cv_certificate_transcript := Some [1]\<rparr>)"
  by (rule empty_chain_accepted) (simp_all add: toy_chain_def CertVerifier_new_def OwnedCertificate_try_from_def vec_extend_def)

text \<open>The kept certificate is read again for CertificateVerify. A Certificate message that the parser delivers has the
  entries that its bytes encode, whatever the extensions of the entries; so the copy that the verifier keeps
  is read back as the message that was checked.\<close>

definition cert_parsed :: "CertificateRef \<Rightarrow> bool" where
  "cert_parsed cert \<longleftrightarrow> CertificateEntryRef_parse_vector 16 (pb_new (cr_raw_entries cert)) = Ok (cr_entries cert)"

lemma owned_parsed:
  assumes "OwnedCertificate_try_from N cert = Ok owned" "cert_parsed cert"
  shows "CertificateRef_try_from owned = Ok cert"
  using assms by (auto simp: OwnedCertificate_try_from_def CertificateRef_try_from_def cert_parsed_def and_then_Ok_iff
      vec_extend_def split: if_splits)

lemma CertificateRef_parse_parsed: "CertificateRef_parse b = (Ok cert, b') \<Longrightarrow> cert_parsed cert"
  by (auto simp: CertificateRef_parse_def bnd_Ok_iff map_err_Ok_iff cert_parsed_def pb_slice_value pb_as_slice_def pb_new_def
      split: if_splits)

lemma wire_entries_parsed:
  assumes "cr_raw_entries cert = concat (map entry_wire (cr_entries cert))"
    and "list_all entry_dom (cr_entries cert)" "length (cr_entries cert) \<le> 16"
  shows "cert_parsed cert"
  using cert_entries_loop_complete [OF assms(2,3) took_whole, of "[]"] assms(1)
  by (simp add: cert_parsed_def CertificateEntryRef_parse_vector_def pb_is_empty_def)

lemma verify_signature_signed:
  assumes "CertVerifier_verify_signature F C D cs verify cv = (Ok (), cv')"
    and "cv_certificate_transcript cv = Some h" "cv_certificate cv = Some owned" "CertificateRef_try_from owned = Ok cert"
  shows "\<exists>c rest decoded key crate. cr_entries cert = CER_X509 c # rest \<and> Certificate_from_der D c = Ok decoded \<and>
    spki_public_key (tbs_subject_public_key_info (dc_tbs_certificate decoded)) = Some key \<and>
    scheme_crate F C (signature_scheme verify) = Some crate \<and>
    sc_verify crate key (replicate 64 0x20 @ ascii ''TLS 1.3, server CertificateVerify'' @ [0] @ digest_finalize cs h)
      (signature verify)"
proof -
  from assms obtain msg where v: "server_verify_msg 146 (digest_finalize cs h) = Ok msg"
    "pki_verify_signature F C D msg cert verify = Ok ()"
    by (auto simp: CertVerifier_verify_signature_def and_then_Ok_iff split: option.splits)
  from v(2) obtain c rest decoded key where s: "cr_entries cert = CER_X509 c # rest"
    "Certificate_from_der D c = Ok decoded" "spki_public_key (tbs_subject_public_key_info (dc_tbs_certificate decoded)) = Some key"
    "scheme_verified F C (signature_scheme verify) key (signature verify) msg = Ok True"
    by (auto simp: pki_verify_signature_def and_then_Ok_iff split: list.splits CertificateEntryRef.splits if_splits)
  from v(1) have "msg = replicate 64 0x20 @ ascii ''TLS 1.3, server CertificateVerify'' @ [0] @ digest_finalize cs h"
    by (simp add: server_verify_msg_value split: if_splits)
  with s scheme_verified_True [OF s(4)] show ?thesis by auto
qed

text \<open>C12. The two messages that authenticate the server fit together: when \<open>CertVerifier\<close> accepts a Certificate message
  off the wire, with any extensions in its entries, and then a CertificateVerify, the first certificate of the
  message was issued by the next entry or the configured CA, its names match the configured host name, and the signature
  verifies under the key of that certificate over the content of RFC 8446, section 4.4.3: 64 spaces, the server's
  context string, a zero byte and the hash of the transcript at the Certificate.\<close>

theorem server_authenticated:
  assumes "CertificateRef_parse b = (Ok cert, b')"
    and "CertVerifier_verify_certificate F C D N now transcript cert cv = Some (Ok (), cv1)"
    and "CertVerifier_verify_signature F C D cs verify cv1 = (Ok (), cv2)"
  shows "\<exists>c rest found decoded key crate. cr_entries cert = CER_X509 c # rest \<and>
    issued_by F C D (issuer_of (CertificateEntryRef_from (cv_ca cv)) (cr_entries cert) 0) (CER_X509 c) (now (length rest)) found \<and>
    tls_hostname_match found (cv_host cv) \<and>
    Certificate_from_der D c = Ok decoded \<and>
    spki_public_key (tbs_subject_public_key_info (dc_tbs_certificate decoded)) = Some key \<and>
    scheme_crate F C (signature_scheme verify) = Some crate \<and>
    sc_verify crate key
      (replicate 64 0x20 @ ascii ''TLS 1.3, server CertificateVerify'' @ [0] @ digest_finalize cs transcript)
      (signature verify)"
proof -
  obtain owned where o: "OwnedCertificate_try_from N cert = Ok owned"
    "cv1 = cv\<lparr>cv_certificate := Some owned, cv_certificate_transcript := Some transcript\<rparr>"
    using verify_certificate_keeps [OF assms(2)] by blast
  have "CertificateRef_try_from owned = Ok cert"
    by (rule owned_parsed [OF o(1) CertificateRef_parse_parsed [OF assms(1)]])
  from verify_signature_signed [OF assms(3) _ _ this] o(2)
  obtain c rest decoded key crate where s: "cr_entries cert = CER_X509 c # rest" "Certificate_from_der D c = Ok decoded"
    "spki_public_key (tbs_subject_public_key_info (dc_tbs_certificate decoded)) = Some key"
    "scheme_crate F C (signature_scheme verify) = Some crate"
    "sc_verify crate key (replicate 64 0x20 @ ascii ''TLS 1.3, server CertificateVerify'' @ [0] @ digest_finalize cs transcript)
      (signature verify)"
    by auto
  from verify_certificate_chain [OF assms(2)] s(1) obtain found where
    "issued_by F C D (issuer_of (CertificateEntryRef_from (cv_ca cv)) (cr_entries cert) 0) (CER_X509 c) (now (length rest)) found"
    "tls_hostname_match found (cv_host cv)"
    by (auto simp: chain_verified_def dest!: spec [of _ 0])
  with s show ?thesis by blast
qed

lemma toy_signature:
  assumes "CertificateRef_try_from owned = Ok cert" and "cr_entries cert = map CER_X509 [toy_cert 7, toy_cert 8]"
  shows "CertVerifier_verify_signature no_features toy_pki toy_der toy_suite
      \<lparr>signature_scheme = SS_EcdsaSecp256r1Sha256, signature = [7]\<rparr>
      (toy_verifier\<lparr>cv_certificate := Some owned, cv_certificate_transcript := Some h\<rparr>) =
    (Ok (), toy_verifier\<lparr>cv_certificate := Some owned, cv_certificate_transcript := None\<rparr>)"
  using assms
  by (simp add: CertVerifier_verify_signature_def server_verify_msg_value pki_verify_signature_def
      toy_decode_cert scheme_verified_def crate_verify_def toy_pki_def toy_crate_def)

text \<open>A message whose first entry carries an extension of an unknown type.\<close>

definition toy_message :: bytes where
  "toy_message = [0] @ [0, 0, 25] @ ([0, 0, 5] @ toy_cert 7 @ [0, 5, 0, 99, 0, 1, 9]) @ ([0, 0, 5] @ toy_cert 8 @ [0, 0])"

definition toy_message_cert :: CertificateRef where
  "toy_message_cert = \<lparr>cr_raw_entries = drop 4 toy_message, cr_request_context = [],
     cr_entries = map CER_X509 [toy_cert 7, toy_cert 8]\<rparr>"

lemma toy_message_entries:
  "CertificateEntryRef_parse (pb_new (drop 4 toy_message)) = (Ok (CER_X509 (toy_cert 7)), \<lparr>pos = 15, buffer = drop 4 toy_message\<rparr>)"
  "CertificateEntryRef_parse \<lparr>pos = 15, buffer = drop 4 toy_message\<rparr> =
     (Ok (CER_X509 (toy_cert 8)), \<lparr>pos = 25, buffer = drop 4 toy_message\<rparr>)"
proof -
  have "CertificateExtension_parse_vector 2 \<lparr>pos = 8, buffer = drop 4 toy_message\<rparr> =
      (Ok [], \<lparr>pos = 15, buffer = drop 4 toy_message\<rparr>)"
    and "CertificateExtension_parse_vector 2 \<lparr>pos = 23, buffer = drop 4 toy_message\<rparr> =
      (Ok [], \<lparr>pos = 25, buffer = drop 4 toy_message\<rparr>)"
    by code_simp+
  then show
    "CertificateEntryRef_parse (pb_new (drop 4 toy_message)) = (Ok (CER_X509 (toy_cert 7)), \<lparr>pos = 15, buffer = drop 4 toy_message\<rparr>)"
    "CertificateEntryRef_parse \<lparr>pos = 15, buffer = drop 4 toy_message\<rparr> =
       (Ok (CER_X509 (toy_cert 8)), \<lparr>pos = 25, buffer = drop 4 toy_message\<rparr>)"
    by (simp_all add: CertificateEntryRef_parse_def bnd_def map_err_def pb_read_u24_value pb_slice_value toy_message_def
        toy_cert_def unat_u24_from pb_new_def slice_of_def pb_as_slice_def)
qed

lemma toy_message_parses: "CertificateRef_parse (pb_new toy_message) = (Ok toy_message_cert, \<lparr>pos = 29, buffer = toy_message\<rparr>)"
proof -
  have e: "\<not> pb_is_empty (pb_new (drop 4 toy_message))" "\<not> pb_is_empty \<lparr>pos = 15, buffer = drop 4 toy_message\<rparr>"
    "pb_is_empty \<lparr>pos = 25, buffer = drop 4 toy_message\<rparr>"
    by code_simp+
  have "cert_entries_loop (Suc (Suc n)) (pb_new (drop 4 toy_message)) [] = Ok (map CER_X509 [toy_cert 7, toy_cert 8])" for n
    by (simp add: cert_entries_loop.simps [of "Suc (Suc n)"] cert_entries_loop.simps [of "Suc n"] cert_entries_loop.simps [of n]
        e toy_message_entries)
  from this [of 14] have "cert_entries_loop 16 (pb_new (drop 4 toy_message)) [] = Ok (map CER_X509 [toy_cert 7, toy_cert 8])"
    by simp
  then show ?thesis
    by (simp add: CertificateRef_parse_def bnd_def map_err_def pb_read_u8_value pb_read_u24_value pb_slice_value toy_message_def
        toy_cert_def unat_u24_from pb_new_def slice_of_def pb_as_slice_def CertificateEntryRef_parse_vector_def toy_message_cert_def)
qed

theorem server_authenticated_witness:
  "\<exists>crate. scheme_crate no_features toy_pki SS_EcdsaSecp256r1Sha256 = Some crate \<and>
     sc_verify crate [7] (replicate 64 0x20 @ ascii ''TLS 1.3, server CertificateVerify'' @ [0] @ toy_fix 4 [1, 2]) [7]"
proof -
  let ?o = "\<lparr>oc_request_context = [], oc_entries_data = drop 4 toy_message\<rparr>"
  have e: "cr_entries toy_message_cert = map CER_X509 [toy_cert 7, toy_cert 8]" by (simp add: toy_message_cert_def)
  have o: "OwnedCertificate_try_from 100 toy_message_cert = Ok ?o"
    by (simp add: OwnedCertificate_try_from_def toy_message_cert_def vec_extend_def toy_message_def toy_cert_def)
  have "CertVerifier_verify_signature no_features toy_pki toy_der toy_suite \<lparr>signature_scheme = SS_EcdsaSecp256r1Sha256, signature = [7]\<rparr>
      (toy_verifier\<lparr>cv_certificate := Some ?o, cv_certificate_transcript := Some [1, 2]\<rparr>) =
    (Ok (), toy_verifier\<lparr>cv_certificate := Some ?o, cv_certificate_transcript := None\<rparr>)"
    by (rule toy_signature [OF owned_parsed [OF o CertificateRef_parse_parsed [OF toy_message_parses]] e])
  from server_authenticated [OF toy_message_parses toy_chain_accepted [OF e o] this]
  show ?thesis by (auto simp: e toy_decode_cert)
qed

end
