(* ===== verification/Webpki.thy ===== *)
theory Webpki
  imports Pki
begin

text \<open>
  The certificate verifier on top of the \<open>webpki\<close> crate, \<open>src/src/webpki.rs\<close>: the mapping of signature
  schemes to the crate's algorithms in its two variants, \<open>CertVerifier\<close> and its two functions. The crate is
  the record \<open>WebpkiCrate\<close>: its trust anchors, end entity certificates, host names and checks.
\<close>

section \<open>The crate\<close>

datatype WebpkiAlgorithm =
    WA_ECDSA_P256_SHA256 | WA_ECDSA_P256_SHA384 | WA_ECDSA_P384_SHA256 | WA_ECDSA_P384_SHA384 | WA_ED25519
  | WA_RSA_PKCS1_2048_8192_SHA256 | WA_RSA_PKCS1_2048_8192_SHA384 | WA_RSA_PKCS1_2048_8192_SHA512
  | WA_RSA_PSS_2048_8192_SHA256_LEGACY_KEY | WA_RSA_PSS_2048_8192_SHA384_LEGACY_KEY
  | WA_RSA_PSS_2048_8192_SHA512_LEGACY_KEY

text \<open>\<open>verify_for_usage\<close> is called for \<open>server_auth\<close> with one trust anchor, no intermediates and no revocation lists.\<close>

record ('ta, 'ee, 'n) WebpkiCrate =
  try_from_cert_der :: "bytes \<Rightarrow> 'ta option"
  EndEntityCert_try_from :: "bytes \<Rightarrow> 'ee option"
  verify_for_usage :: "WebpkiAlgorithm list \<Rightarrow> 'ta \<Rightarrow> u64 \<Rightarrow> 'ee \<Rightarrow> bool"
  SubjectNameRef_try_from_ascii :: "bytes \<Rightarrow> 'n option"
  verify_is_valid_for_subject_name :: "'n \<Rightarrow> 'ee \<Rightarrow> bool"
  EndEntityCert_verify_signature :: "WebpkiAlgorithm \<Rightarrow> bytes \<Rightarrow> bytes \<Rightarrow> 'ee \<Rightarrow> bool"

section \<open>Signature schemes\<close>

fun SignatureScheme_try_into_no_alloc :: "SignatureScheme \<Rightarrow> (WebpkiAlgorithm, TlsError) result" where
  "SignatureScheme_try_into_no_alloc SS_EcdsaSecp256r1Sha256 = Ok WA_ECDSA_P256_SHA256"
| "SignatureScheme_try_into_no_alloc SS_EcdsaSecp384r1Sha384 = Ok WA_ECDSA_P384_SHA384"
| "SignatureScheme_try_into_no_alloc SS_Ed25519 = Ok WA_ED25519"
| "SignatureScheme_try_into_no_alloc _ = Err InvalidSignatureScheme"

fun SignatureScheme_try_into_alloc :: "SignatureScheme \<Rightarrow> (WebpkiAlgorithm, TlsError) result" where
  "SignatureScheme_try_into_alloc SS_RsaPkcs1Sha256 = Ok WA_RSA_PKCS1_2048_8192_SHA256"
| "SignatureScheme_try_into_alloc SS_RsaPkcs1Sha384 = Ok WA_RSA_PKCS1_2048_8192_SHA384"
| "SignatureScheme_try_into_alloc SS_RsaPkcs1Sha512 = Ok WA_RSA_PKCS1_2048_8192_SHA512"
| "SignatureScheme_try_into_alloc SS_EcdsaSecp256r1Sha256 = Ok WA_ECDSA_P256_SHA256"
| "SignatureScheme_try_into_alloc SS_EcdsaSecp384r1Sha384 = Ok WA_ECDSA_P384_SHA384"
| "SignatureScheme_try_into_alloc SS_RsaPssRsaeSha256 = Ok WA_RSA_PSS_2048_8192_SHA256_LEGACY_KEY"
| "SignatureScheme_try_into_alloc SS_RsaPssRsaeSha384 = Ok WA_RSA_PSS_2048_8192_SHA384_LEGACY_KEY"
| "SignatureScheme_try_into_alloc SS_RsaPssRsaeSha512 = Ok WA_RSA_PSS_2048_8192_SHA512_LEGACY_KEY"
| "SignatureScheme_try_into_alloc SS_Ed25519 = Ok WA_ED25519"
| "SignatureScheme_try_into_alloc _ = Err InvalidSignatureScheme"

definition SignatureScheme_try_into :: "bool \<Rightarrow> SignatureScheme \<Rightarrow> (WebpkiAlgorithm, TlsError) result" where
  "SignatureScheme_try_into alloc s =
     (if alloc then SignatureScheme_try_into_alloc s else SignatureScheme_try_into_no_alloc s)"

definition ALL_SIGALGS :: "WebpkiAlgorithm list" where
  "ALL_SIGALGS = [WA_ECDSA_P256_SHA256, WA_ECDSA_P256_SHA384, WA_ECDSA_P384_SHA256, WA_ECDSA_P384_SHA384, WA_ED25519]"

section \<open>The two functions\<close>

definition webpki_verify_signature ::
  "bool \<Rightarrow> ('ta, 'ee, 'n) WebpkiCrate \<Rightarrow> bytes \<Rightarrow> CertificateRef \<Rightarrow> CertificateVerify \<Rightarrow> (unit, TlsError) result" where
  "webpki_verify_signature alloc W message certificate verify =
     and_then (case cr_entries certificate of
         CER_X509 c # _ \<Rightarrow>
           and_then (or_err DecodeError (EndEntityCert_try_from W c)) (\<lambda>cert.
           and_then (SignatureScheme_try_into alloc (signature_scheme verify)) (\<lambda>pkisig.
           Ok (EndEntityCert_verify_signature W pkisig message (signature verify) cert)))
       | _ \<Rightarrow> Ok False) (\<lambda>verified.
     if \<not> verified then Err InvalidSignature else Ok ())"

definition webpki_verify_certificate ::
  "('ta, 'ee, 'n) WebpkiCrate \<Rightarrow> bytes option \<Rightarrow> Certificate \<Rightarrow> CertificateRef \<Rightarrow> u64 option \<Rightarrow> (unit, TlsError) result" where
  "webpki_verify_certificate W verify_host ca certificate now =
     and_then (case ca of
         Cert_X509 ca \<Rightarrow>
           and_then (or_err DecodeError (try_from_cert_der W ca)) (\<lambda>trust.
           case cr_entries certificate of
             CER_X509 c # _ \<Rightarrow>
               and_then (or_err DecodeError (EndEntityCert_try_from W c)) (\<lambda>cert.
               let time = (case now of Some now \<Rightarrow> now | None \<Rightarrow> 0);
                   verified = verify_for_usage W ALL_SIGALGS trust time cert;
                   host_verified = (case verify_host of
                       Some server_name \<Rightarrow>
                         (case SubjectNameRef_try_from_ascii W server_name of
                            Some subject \<Rightarrow> verify_is_valid_for_subject_name W subject cert
                          | None \<Rightarrow> False)
                     | None \<Rightarrow> False) in
               Ok (verified, host_verified))
           | _ \<Rightarrow> Ok (False, False))
       | Cert_RawPublicKey _ \<Rightarrow> Ok (False, False)) (\<lambda>(verified, host_verified).
     if \<not> verified then Err InvalidCertificate
     else if \<not> host_verified \<and> verify_host \<noteq> None then Err InvalidCertificate
     else Ok ())"

section \<open>The verifier\<close>

record 'h WebpkiVerifier =
  wv_ca :: Certificate
  wv_host :: "bytes option"
  wv_certificate_transcript :: "'h option"
  wv_certificate :: "OwnedCertificate option"

definition WebpkiVerifier_new :: "Certificate \<Rightarrow> 'h WebpkiVerifier" where
  "WebpkiVerifier_new ca = \<lparr>wv_ca = ca, wv_host = None, wv_certificate_transcript = None, wv_certificate = None\<rparr>"

definition WebpkiVerifier_set_hostname_verification :: "bytes \<Rightarrow> ('h WebpkiVerifier, unit, TlsError) prog" where
  "WebpkiVerifier_set_hostname_verification hostname = (\<lambda>wv. case vec_extend 64 [] hostname of
     Some host \<Rightarrow> (Ok (), wv\<lparr>wv_host := Some host\<rparr>) | None \<Rightarrow> (Err InsufficientSpace, wv))"

definition WebpkiVerifier_verify_certificate ::
  "('ta, 'ee, 'n) WebpkiCrate \<Rightarrow> nat \<Rightarrow> u64 option \<Rightarrow> 'h \<Rightarrow> CertificateRef \<Rightarrow> ('h WebpkiVerifier, unit, TlsError) prog" where
  "WebpkiVerifier_verify_certificate W N now transcript cert = (\<lambda>wv.
     case and_then (webpki_verify_certificate W (wv_host wv) (wv_ca wv) cert now) (\<lambda>_. OwnedCertificate_try_from N cert) of
       Ok owned \<Rightarrow> (Ok (), wv\<lparr>wv_certificate := Some owned, wv_certificate_transcript := Some transcript\<rparr>)
     | Err e \<Rightarrow> (Err e, wv)
     | Panic \<Rightarrow> (Panic, wv))"

definition WebpkiVerifier_verify_signature ::
  "bool \<Rightarrow> ('ta, 'ee, 'n) WebpkiCrate \<Rightarrow> ('h, 'k) TlsCipherSuite \<Rightarrow> CertificateVerify \<Rightarrow>
     ('h WebpkiVerifier, unit, TlsError) prog" where
  "WebpkiVerifier_verify_signature alloc W cs verify = (\<lambda>wv. case wv_certificate_transcript wv of
     None \<Rightarrow> (Panic, wv)
   | Some handshake_hash \<Rightarrow>
       (and_then (server_verify_msg 130 (digest_finalize cs handshake_hash)) (\<lambda>msg.
        case wv_certificate wv of
          None \<Rightarrow> Panic
        | Some owned \<Rightarrow>
            and_then (CertificateRef_try_from owned) (\<lambda>certificate.
            webpki_verify_signature alloc W msg certificate verify)),
        wv\<lparr>wv_certificate_transcript := None\<rparr>))"

section \<open>What it guarantees\<close>

text \<open>The variant with \<open>alloc\<close> accepts every scheme of the other, with the same algorithm.\<close>

lemma try_into_alloc_extends: "SignatureScheme_try_into False s = Ok a \<Longrightarrow> SignatureScheme_try_into True s = Ok a"
  by (cases s) (simp_all add: SignatureScheme_try_into_def)

text \<open>A certificate that the \<open>webpki\<close> verifier accepts is the first of the message, an end entity certificate that
  the crate verifies for the configured CA, at the clock's time, or at the epoch without a clock, with one of
  the listed algorithms; when a host name is configured, the crate also finds it valid for that name.\<close>

theorem webpki_accepts_verified:
  assumes "WebpkiVerifier_verify_certificate W N now transcript cert wv = (Ok (), wv')"
  shows "\<exists>ca trust c rest ee. wv_ca wv = Cert_X509 ca \<and> try_from_cert_der W ca = Some trust \<and>
    cr_entries cert = CER_X509 c # rest \<and> EndEntityCert_try_from W c = Some ee \<and>
    verify_for_usage W ALL_SIGALGS trust (case now of Some t \<Rightarrow> t | None \<Rightarrow> 0) ee \<and>
    (\<forall>host. wv_host wv = Some host \<longrightarrow> (\<exists>name. SubjectNameRef_try_from_ascii W host = Some name \<and>
       verify_is_valid_for_subject_name W name ee))"
proof -
  from assms have v: "webpki_verify_certificate W (wv_host wv) (wv_ca wv) cert now = Ok ()"
    by (auto simp: WebpkiVerifier_verify_certificate_def and_then_Ok_iff split: result.splits)
  then obtain ca where ca: "wv_ca wv = Cert_X509 ca"
    by (cases "wv_ca wv") (auto simp: webpki_verify_certificate_def)
  with v obtain c rest where c: "cr_entries cert = CER_X509 c # rest"
    by (cases "cr_entries cert" rule: list.exhaust; cases "hd (cr_entries cert)")
      (auto simp: webpki_verify_certificate_def and_then_Ok_iff)
  show ?thesis
    using v ca c
    by (cases "wv_host wv") (auto simp: webpki_verify_certificate_def and_then_Ok_iff Let_def split: if_splits option.splits)
qed

definition toy_webpki :: "(bytes, bytes, bytes) WebpkiCrate" where
  "toy_webpki = \<lparr>try_from_cert_der = Some, EndEntityCert_try_from = Some, verify_for_usage = (\<lambda>_ ta t ee. ta = ee),
     SubjectNameRef_try_from_ascii = Some, verify_is_valid_for_subject_name = (\<lambda>n ee. n = ee),
     EndEntityCert_verify_signature = (\<lambda>_ m s ee. s = ee)\<rparr>"

theorem webpki_accepts_verified_witness:
  "\<exists>ca trust. verify_for_usage toy_webpki ALL_SIGALGS trust 0 ca \<and> try_from_cert_der toy_webpki ca = Some trust"
proof -
  let ?wv = "(WebpkiVerifier_new (Cert_X509 [1]))\<lparr>wv_host := Some [1]\<rparr> :: bytes WebpkiVerifier"
  have "WebpkiVerifier_verify_certificate toy_webpki 100 None [5] (toy_chain [[1], [2]]) ?wv =
     (Ok (), ?wv\<lparr>wv_certificate := Some \<lparr>oc_request_context = [], oc_entries_data = cr_raw_entries (toy_chain [[1], [2]])\<rparr>,
        wv_certificate_transcript := Some [5]\<rparr>)"
    by (simp add: WebpkiVerifier_verify_certificate_def webpki_verify_certificate_def WebpkiVerifier_new_def toy_webpki_def
        toy_chain_def OwnedCertificate_try_from_def vec_extend_def Let_def prefixed24_def)
  from webpki_accepts_verified [OF this] show ?thesis by (auto simp: toy_webpki_def WebpkiVerifier_new_def)
qed

text \<open>The signed content is put together in 130 bytes, which a hash of 32 bytes just fills: with a hash of more, as the
  48 bytes of SHA-384 in \<open>Aes256GcmSha384\<close>, every CertificateVerify is answered with an encoding error.\<close>

theorem webpki_long_hash_fails:
  assumes "wv_certificate_transcript wv = Some h" and "32 < length (digest_finalize cs h)"
  shows "WebpkiVerifier_verify_signature alloc W cs verify wv =
    (Err EncodeError, wv\<lparr>wv_certificate_transcript := None\<rparr>)"
  using assms by (simp add: WebpkiVerifier_verify_signature_def server_verify_msg_value)

theorem webpki_long_hash_fails_witness:
  "fst (WebpkiVerifier_verify_signature True toy_webpki (toy_suite\<lparr>digest_finalize := toy_fix 48\<rparr>)
     \<lparr>signature_scheme = SS_EcdsaSecp384r1Sha384, signature = [1]\<rparr>
     ((WebpkiVerifier_new (Cert_X509 [1]))\<lparr>wv_certificate_transcript := Some [5]\<rparr>)) = Err EncodeError"
  using webpki_long_hash_fails [of "(WebpkiVerifier_new (Cert_X509 [1]))\<lparr>wv_certificate_transcript := Some [5]\<rparr>" "[5]"
      "toy_suite\<lparr>digest_finalize := toy_fix 48\<rparr>" True toy_webpki]
  by simp

end
