(* ===== verification/Providers.thy ===== *)
theory Providers
  imports Connection Webpki
begin

text \<open>
  The providers and verifiers of \<open>src/src/config.rs\<close>: the two cipher suites, \<open>NoVerify\<close>, \<open>NoClock\<close>, \<open>NoSign\<close>, the default
  methods of \<open>CryptoProvider\<close>, \<open>UnsecureProvider\<close> and \<open>TlsContext\<close>; and a provider whose verifier is the
  \<open>CertVerifier\<close> of \<open>pki.rs\<close>.
\<close>

section \<open>Cipher suites\<close>

text \<open>The operations of a suite come from the crates \<open>aes_gcm\<close>, \<open>sha2\<close>, \<open>hkdf\<close> and \<open>hmac\<close>, given as a suite; the constants
  and sizes are those of the source, a GCM tag has 16 bytes.\<close>

definition Aes128GcmSha256 :: "('h, 'k) TlsCipherSuite \<Rightarrow> ('h, 'k) TlsCipherSuite" where
  "Aes128GcmSha256 crates = crates\<lparr>CODE_POINT := CipherSuite_as_u16 CS_TlsAes128GcmSha256, KeyLen := 16, IvLen := 12,
     TagSize := 16, HashOutputSize := 32, LabelBufferSize := LabelBuffer 32\<rparr>"

definition Aes256GcmSha384 :: "('h, 'k) TlsCipherSuite \<Rightarrow> ('h, 'k) TlsCipherSuite" where
  "Aes256GcmSha384 crates = crates\<lparr>CODE_POINT := CipherSuite_as_u16 CS_TlsAes256GcmSha384, KeyLen := 32, IvLen := 12,
     TagSize := 16, HashOutputSize := 48, LabelBufferSize := LabelBuffer 48\<rparr>"

section \<open>Null implementations and defaults\<close>

definition NoVerify_set_hostname_verification :: "bytes \<Rightarrow> (unit, unit, TlsError) prog" where
  "NoVerify_set_hostname_verification hostname = ret ()"

definition NoVerify_verify_certificate :: "'h \<Rightarrow> CertificateRef \<Rightarrow> (unit, unit, TlsError) prog" where
  "NoVerify_verify_certificate transcript cert = ret ()"

definition NoVerify_verify_signature :: "CertificateVerify \<Rightarrow> (unit, unit, TlsError) prog" where
  "NoVerify_verify_signature verify = ret ()"

definition NoClock_now :: "u64 option" where
  "NoClock_now = None"

definition NoSign_try_sign :: "bytes \<Rightarrow> (bytes, unit) result" where
  "NoSign_try_sign msg = Panic"

text \<open>The default methods: no verifier, no signer, no client certificate.\<close>

definition default_verifier :: "(unit, TlsError) result" where
  "default_verifier = Err Unimplemented"

definition default_signer :: "('p, SignatureScheme, TlsError) prog" where
  "default_signer = fail Unimplemented"

definition default_client_cert :: "'p \<Rightarrow> Certificate option \<times> 'p" where
  "default_client_cert = (\<lambda>p. (None, p))"

section \<open>UnsecureProvider\<close>

text \<open>The random generator, the key exchange and the ECDSA keys are those of external crates.\<close>

record ('rng, 's, 'sk) EcCrates =
  ec_fill_bytes :: "nat \<Rightarrow> 'rng \<Rightarrow> bytes \<times> 'rng"
  ec_random :: "'rng \<Rightarrow> 's \<times> 'rng"
  ec_public_key :: "'s \<Rightarrow> bytes"
  ec_diffie_hellman :: "'s \<Rightarrow> bytes \<Rightarrow> bytes option"
  ec_from_sec1_der :: "bytes \<Rightarrow> 'sk option"
  ec_sign :: "'sk \<Rightarrow> bytes \<Rightarrow> bytes"

record 'rng UnsecureProvider =
  up_rng :: 'rng
  up_priv_key :: "bytes option"
  up_client_cert :: "Certificate option"

definition UnsecureProvider_new :: "'rng \<Rightarrow> 'rng UnsecureProvider" where
  "UnsecureProvider_new rng = \<lparr>up_rng = rng, up_priv_key = None, up_client_cert = None\<rparr>"

definition UnsecureProvider_with_priv_key :: "bytes \<Rightarrow> 'rng UnsecureProvider \<Rightarrow> 'rng UnsecureProvider" where
  "UnsecureProvider_with_priv_key priv_key p = p\<lparr>up_priv_key := Some priv_key\<rparr>"

definition UnsecureProvider_with_cert :: "Certificate \<Rightarrow> 'rng UnsecureProvider \<Rightarrow> 'rng UnsecureProvider" where
  "UnsecureProvider_with_cert cert p = p\<lparr>up_client_cert := Some cert\<rparr>"

definition UnsecureProvider_key :: "('rng, 's, 'sk) EcCrates \<Rightarrow> 'rng UnsecureProvider \<Rightarrow> ('sk, TlsError) result" where
  "UnsecureProvider_key E p =
     and_then (or_err InvalidPrivateKey (up_priv_key p)) (\<lambda>key_der.
     or_err InvalidPrivateKey (ec_from_sec1_der E key_der))"

definition UnsecureProvider_signer ::
  "('rng, 's, 'sk) EcCrates \<Rightarrow> ('rng UnsecureProvider, SignatureScheme, TlsError) prog" where
  "UnsecureProvider_signer E = (\<lambda>p.
     (and_then (UnsecureProvider_key E p) (\<lambda>secret_key. Ok SS_EcdsaSecp256r1Sha256), p))"

definition UnsecureProvider_client_cert :: "'rng UnsecureProvider \<Rightarrow> Certificate option \<times> 'rng UnsecureProvider" where
  "UnsecureProvider_client_cert = (\<lambda>p. (up_client_cert p, p))"

text \<open>\<open>impl CryptoProvider for UnsecureProvider\<close>: \<open>verifier\<close> is the default, so there is none.\<close>

definition UnsecureProvider_ops ::
  "('rng, 's, 'sk) EcCrates \<Rightarrow> ('rng UnsecureProvider, 's, 'h) CryptoProvider" where
  "UnsecureProvider_ops E = \<lparr>
     rng_fill_bytes = (\<lambda>n p. case ec_fill_bytes E n (up_rng p) of (bs, r) \<Rightarrow> (bs, p\<lparr>up_rng := r\<rparr>)),
     ephemeral_random = (\<lambda>p. case ec_random E (up_rng p) of (s, r) \<Rightarrow> (s, p\<lparr>up_rng := r\<rparr>)),
     public_key = ec_public_key E,
     diffie_hellman = ec_diffie_hellman E,
     prov_verifier = (\<lambda>_. default_verifier = Ok ()),
     set_hostname_verification = (\<lambda>_. from_result default_verifier),
     verify_certificate = (\<lambda>_ _. from_result default_verifier),
     verify_signature = (\<lambda>_. from_result default_verifier),
     prov_signer = UnsecureProvider_signer E,
     prov_sign = (\<lambda>msg p. case UnsecureProvider_key E p of Ok sk \<Rightarrow> (ec_sign E sk msg, p) | _ \<Rightarrow> ([], p)),
     prov_client_cert = UnsecureProvider_client_cert\<rparr>"

section \<open>TlsContext\<close>

record 'p TlsContext =
  tctx_config :: TlsConfig
  tctx_crypto_provider :: 'p

definition TlsContext_new :: "TlsConfig \<Rightarrow> 'p \<Rightarrow> 'p TlsContext" where
  "TlsContext_new config crypto_provider = \<lparr>tctx_config = config, tctx_crypto_provider = crypto_provider\<rparr>"

section \<open>The crypto engine\<close>

text \<open>\<open>CryptoEngine\<close> is an empty struct; \<open>initialize_crypto_engine\<close>, which nothing calls, makes one exactly when there is a shared
  secret.\<close>

datatype CryptoEngine = CryptoEngine

definition CryptoEngine_new :: "NamedGroup \<Rightarrow> bytes \<Rightarrow> CryptoEngine" where
  "CryptoEngine_new g shared_secret = CryptoEngine"

definition CryptoEngine_decrypt :: "CryptoEngine \<Rightarrow> ApplicationData \<Rightarrow> unit" where
  "CryptoEngine_decrypt e d = ()"

definition initialize_crypto_engine ::
  "('s \<Rightarrow> bytes \<Rightarrow> bytes option) \<Rightarrow> 's \<Rightarrow> ServerHello \<Rightarrow> CryptoEngine option" where
  "initialize_crypto_engine dh secret x = (case ServerHello_key_share x of
     None \<Rightarrow> None
   | Some e \<Rightarrow> (case dh secret (opaque e) of
       None \<Rightarrow> None
     | Some k \<Rightarrow> Some (CryptoEngine_new (group e) k)))"

lemma initialize_crypto_engine_iff:
  "(\<exists>e. initialize_crypto_engine dh secret x = Some e) \<longleftrightarrow> (\<exists>k. ServerHello_calculate_shared_secret dh secret x = Some k)"
  by (auto simp: initialize_crypto_engine_def ServerHello_calculate_shared_secret_def split: option.splits)

section \<open>A provider with a CertVerifier\<close>

text \<open>The state of the provider is the verifier and the state of another provider for the rest. Verifying a certificate
  message returns whenever the reader of slices makes progress; that it does not is not a state the handshake
  goes on from, so it is no success here either.\<close>

definition with_cert_verifier ::
  "PkiFeatures \<Rightarrow> PkiCrypto \<Rightarrow> 'r Der \<Rightarrow> nat \<Rightarrow> (nat \<Rightarrow> u64 option) \<Rightarrow> ('h, 'k) TlsCipherSuite \<Rightarrow>
     ('p, 's, 'h) CryptoProvider \<Rightarrow> ('h CertVerifier \<times> 'p, 's, 'h) CryptoProvider" where
  "with_cert_verifier F C D N now cs P = \<lparr>
     rng_fill_bytes = (\<lambda>n (v, p). case rng_fill_bytes P n p of (bs, p') \<Rightarrow> (bs, v, p')),
     ephemeral_random = (\<lambda>(v, p). case ephemeral_random P p of (s, p') \<Rightarrow> (s, v, p')),
     public_key = public_key P,
     diffie_hellman = diffie_hellman P,
     prov_verifier = (\<lambda>_. True),
     set_hostname_verification = (\<lambda>host (v, p).
       case CertVerifier_set_hostname_verification host v of (r, v') \<Rightarrow> (r, v', p)),
     verify_certificate = (\<lambda>transcript cert (v, p).
       case CertVerifier_verify_certificate F C D N now transcript cert v of
         Some (r, v') \<Rightarrow> (r, v', p) | None \<Rightarrow> (Panic, v, p)),
     verify_signature = (\<lambda>verify (v, p). case CertVerifier_verify_signature F C D cs verify v of (r, v') \<Rightarrow> (r, v', p)),
     prov_signer = (\<lambda>(v, p). case prov_signer P p of (r, p') \<Rightarrow> (r, v, p')),
     prov_sign = (\<lambda>msg (v, p). case prov_sign P msg p of (s, p') \<Rightarrow> (s, v, p')),
     prov_client_cert = (\<lambda>(v, p). case prov_client_cert P p of (c, p') \<Rightarrow> (c, v, p'))\<rparr>"

section \<open>The handshake without a verifier\<close>

text \<open>With \<open>UnsecureProvider\<close> the server is not authenticated: whatever Certificate and CertificateVerify it sends
  are passed over.\<close>

theorem unsecure_provider_accepts_all:
  "server_verify_cb cs (UnsecureProvider_ops E) (SR_Handshake (SH_Certificate cert)) (rks, st, hs, p) =
     (Ok (), rks, st, hs, p)"
  "server_verify_cb cs (UnsecureProvider_ops E) (SR_Handshake (SH_CertificateVerify verify)) (rks, st, hs, p) =
     (Ok (), rks, st, hs, p)"
  by (simp_all add: server_verify_cb_def UnsecureProvider_ops_def default_verifier_def)

end
