(* ===== verification/Server_Verify.thy ===== *)
theory Server_Verify
  imports Providers Toy_Server
begin

text \<open>
  The ServerVerify state on a protected record: \<open>process_server_verify\<close> of \<open>src/src/connection.rs\<close> as a run over the messages
  that the record carries, which Finished it accepts, and what a verifier's refusal of a Certificate or a
  CertificateVerify does to the handshake.
\<close>

section \<open>Records with a flight\<close>

text \<open>The record \<open>ad\<close> is sealed under the read key, the next nonce and its header, and its content is the encodings
  of the messages \<open>fl\<close>, the content type of a handshake and padding.\<close>

definition carries_flight ::
  "('h, 'k) TlsCipherSuite \<Rightarrow> (bytes \<Rightarrow> bytes \<Rightarrow> bytes \<Rightarrow> bytes \<Rightarrow> bytes) \<Rightarrow> ('h, 'k) ReadKeySchedule \<Rightarrow> ApplicationData \<Rightarrow>
     (bytes \<times> ServerHandshake) list \<Rightarrow> bool" where
  "carries_flight cs seal rks ad fl \<longleftrightarrow> cb_ok (app_data ad) \<and> (\<forall>(w, m) \<in> set fl. parses (ServerHandshake_parse cs) w m) \<and>
     (\<exists>n. cb_view (app_data ad) = seal (enc_key (r_state rks))
        (rfc_nonce (counter (r_state rks)) (enc_iv (r_state rks))) (header_data (app_header ad))
        (concat (map fst fl) @ [ContentType_as_u8 CT_Handshake] @ replicate n 0))"

lemma server_verify_flight:
  assumes "aead_laws cs seal" and "length (enc_iv (r_state (server_state (co_keys c)))) = IvLen cs" and "8 \<le> IvLen cs"
    and "carries_flight cs seal (server_state (co_keys c)) ad fl"
    and "run_flight cs (server_verify_cb cs P) fl (server_state (co_keys c), ST_ServerVerify, co_handshake c, co_provider c) =
      (r, rks', st, hs', p')"
  shows "\<exists>c'. process_server_verify cs P (SR_ApplicationData ad) c =
      (and_then (case r of Ok _ \<Rightarrow> fst (read_increment_counter rks') | _ \<Rightarrow> r) (\<lambda>_. Ok st), c') \<and>
    co_handshake c' = hs' \<and> co_provider c' = p' \<and> co_transport c' = co_transport c"
proof -
  from assms(4) obtain n where ad: "cb_ok (app_data ad)" "\<forall>(w, m) \<in> set fl. parses (ServerHandshake_parse cs) w m"
    "cb_view (app_data ad) = seal (enc_key (r_state (server_state (co_keys c))))
        (rfc_nonce (counter (r_state (server_state (co_keys c)))) (enc_iv (r_state (server_state (co_keys c)))))
        (header_data (app_header ad)) (concat (map fst fl) @ [ContentType_as_u8 CT_Handshake] @ replicate n 0)"
    unfolding carries_flight_def by blast
  from decrypt_flight [OF assms(1-3) ad, where cb = "server_verify_cb cs P" and mem = "rr_buf (co_reader c)" and
      u = "(ST_ServerVerify, co_handshake c, co_provider c)"] assms(5)
  show ?thesis by (cases r; cases "read_increment_counter rks'") (auto simp: process_server_verify_def)
qed

text \<open>The messages before the one in question, and the transcript up to it.\<close>

lemma flight_step:
  assumes "digest_laws cs"
    and "run_flight cs (server_verify_cb cs P) pre (rks, ST_ServerVerify, hs, p) = (Ok (), rks1, st1, hs1, p1)"
  shows "run_flight cs (server_verify_cb cs P) (pre @ (w, m) # post) (rks, ST_ServerVerify, hs, p) =
    seq (server_verify_cb cs P (SR_Handshake (with_hash cs (digest_update cs (transcript_hash rks) (concat (map fst pre))) m)))
      (run_flight cs (server_verify_cb cs P) post)
      (rks\<lparr>transcript_hash := digest_update cs (transcript_hash rks) (concat (map fst pre) @ w)\<rparr>, st1, hs1, p1)"
  using run_flight_transcript [OF assms(1) server_verify_reads_only assms(2)] assms(2)
  by (simp add: run_flight_append bnd_def digest_update_append [OF assms(1)])

section \<open>A connection in the ServerVerify state\<close>

definition verify_rks :: "(bytes, bytes) ReadKeySchedule" where
  "verify_rks = \<lparr>r_state = (r_state toy_rks)\<lparr>traffic_secret := Initialized [1, 2, 3, 4]\<rparr>, transcript_hash = [7]\<rparr>"

definition verify_conn :: "'p \<Rightarrow> (unit, bytes, bytes, bytes, 'p) Conn" where
  "verify_conn p = \<lparr>co_transport = (), co_handshake = Handshake_new, co_reader = RecordReader_new (replicate 60 0),
     co_tx = \<lparr>wb_buffer = [], wb_pos = 0, wb_current_header = None\<rparr>,
     co_keys = (KeySchedule_new toy_suite)\<lparr>server_state := verify_rks\<rparr>, co_provider = p\<rparr>"

lemma verify_conn_sel:
  "server_state (co_keys (verify_conn p)) = verify_rks" "co_handshake (verify_conn p) = Handshake_new"
  "co_provider (verify_conn p) = p" "traffic_secret (r_state verify_rks) = Initialized [1, 2, 3, 4]"
  "length (enc_iv (r_state verify_rks)) = IvLen toy_suite" "counter (r_state verify_rks) = 0"
  "transcript_hash verify_rks = [7]"
  by (simp_all add: verify_conn_def verify_rks_def toy_rks_def)

lemma toy_carries_flight:
  assumes "\<forall>(w, m) \<in> set fl. parses (ServerHandshake_parse toy_suite) w m"
  shows "carries_flight toy_suite toy_seal verify_rks (toy_app (concat (map fst fl) @ [22])) fl"
  unfolding carries_flight_def using assms toy_app_data [of "concat (map fst fl) @ [22]"]
  by (auto simp: verify_rks_def toy_rks_def toy_seal_def intro!: exI [of _ 0])

section \<open>Properties\<close>

text \<open>C23. The Finished of the server is checked against the transcript that the client has seen: when a protected record brings
  messages that are handled without error and then a Finished with the verify data \<open>v\<close>, the handshake goes on exactly
  when \<open>v\<close> is the HMAC, under the finished key of the server's traffic secret, of the hash of the transcript before
  the record together with these messages and without the Finished; with any other verify data it fails with
  \<open>InvalidSignature\<close>.\<close>

theorem server_finished_exact:
  fixes c :: "('t, 'h, 'k, 's, 'p) Conn"
  assumes "kdf_laws cs" and "digest_laws cs" and "aead_laws cs seal" and "8 \<le> IvLen cs" and "rks = server_state (co_keys c)"
    and "traffic_secret (r_state rks) = Initialized ts" and "length (enc_iv (r_state rks)) = IvLen cs"
    and "unat (counter (r_state rks)) + 1 < 2 ^ 64"
    and "carries_flight cs seal rks ad (pre @ [(finished_wire v, SH_Finished \<lparr>fin_verify = v, fin_hash = None\<rparr>)])"
    and "run_flight cs (server_verify_cb cs P) pre (rks, ST_ServerVerify, co_handshake c, co_provider c) = (Ok (), rks1, st1, hs1, p1)"
  shows "\<exists>mac. hmac_new cs (rfc_expand_label cs ts (ascii ''finished'') [] (HashOutputSize cs)) = Some mac \<and>
    fst (process_server_verify cs P (SR_ApplicationData ad) c) =
      (if v = mac (digest_finalize cs (digest_update cs (transcript_hash rks) (concat (map fst pre))))
       then Ok (if hs_certificate_request hs1 = None then ST_ClientFinished else ST_ClientCert)
       else Err InvalidSignature)"
proof -
  let ?h = "digest_finalize cs (digest_update cs (transcript_hash rks) (concat (map fst pre)))"
  let ?k = "rks\<lparr>transcript_hash := digest_update cs (transcript_hash rks) (concat (map fst pre) @ finished_wire v)\<rparr>"
  obtain mac where mac: "hmac_new cs (rfc_expand_label cs ts (ascii ''finished'') [] (HashOutputSize cs)) = Some mac"
    using assms(1) unfolding kdf_laws_def by blast
  define fits where "fits \<longleftrightarrow> v = mac ?h"
  have "make_expanded_hkdf_label cs (HashOutputSize cs) (Initialized ts) (ascii ''finished'') CT_None =
      Ok (rfc_expand_label cs ts (ascii ''finished'') [] (HashOutputSize cs))"
    using make_expanded_rfc [OF assms(1), of "ascii ''finished''" CT_None] by (simp add: context_bytes_def)
  then have f: "verify_server_finished cs \<lparr>fin_verify = v, fin_hash = Some ?h\<rparr> ?k = Ok fits"
    using assms(6) mac by (auto simp: verify_server_finished_def fits_def)
  define r where "r = (if fits then Ok () else Err InvalidSignature)"
  define st where "st = (if \<not> fits then st1 else if hs_certificate_request hs1 = None then ST_ClientFinished else ST_ClientCert)"
  obtain hs' p' where run: "run_flight cs (server_verify_cb cs P)
      (pre @ [(finished_wire v, SH_Finished \<lparr>fin_verify = v, fin_hash = None\<rparr>)])
      (server_state (co_keys c), ST_ServerVerify, co_handshake c, co_provider c) = (r, ?k, st, hs', p')"
    unfolding assms(5) [symmetric] flight_step [OF assms(2,10)]
    by (cases fits; cases "hs_certificate_request hs1 = None")
      (simp_all add: f server_verify_cb_def bnd_def with_hash_def r_def st_def)
  from server_verify_flight [OF assms(3) _ assms(4) assms(9) [unfolded assms(5)] run] assms(5,7,8) mac
  show ?thesis
    by (auto simp: r_def st_def fits_def read_increment_counter_def zoom_def state_increment_counter_def)
qed

theorem server_finished_exact_witness:
  "fst (process_server_verify toy_suite toy_provider
     (SR_ApplicationData (toy_app (([8] @ prefixed24 [0, 0]) @ finished_wire [7, 8, 0, 0] @ [22]))) (verify_conn ())) = Ok ST_ClientFinished \<and>
   fst (process_server_verify toy_suite toy_provider
     (SR_ApplicationData (toy_app (([8] @ prefixed24 [0, 0]) @ finished_wire [7, 8, 0, 1] @ [22]))) (verify_conn ())) = Err InvalidSignature"
proof -
  have "fst (process_server_verify toy_suite toy_provider
      (SR_ApplicationData (toy_app (([8] @ prefixed24 [0, 0]) @ finished_wire v @ [22]))) (verify_conn ())) =
      (if v = [7, 8, 0, 0] then Ok ST_ClientFinished else Err InvalidSignature)" if v: "length v = 4" for v
  proof -
    let ?fl = "toy_pre @ [(finished_wire v, SH_Finished \<lparr>fin_verify = v, fin_hash = None\<rparr>)]"
    have "\<forall>(w, m) \<in> set ?fl. parses (ServerHandshake_parse toy_suite) w m"
      using toy_pre_parses Finished_message_parses [of v toy_suite] v by (simp add: finished_wire_def)
    note c = toy_carries_flight [OF this]
    have r: "run_flight toy_suite (server_verify_cb toy_suite toy_provider) toy_pre
        (verify_rks, ST_ServerVerify, co_handshake (verify_conn ()), co_provider (verify_conn ())) =
        (Ok (), verify_rks\<lparr>transcript_hash := [7] @ [8] @ prefixed24 [0, 0]\<rparr>, ST_ServerVerify, Handshake_new, ())"
      by (simp add: toy_pre_def encrypted_extensions_flight verify_conn_sel del: run_flight.simps)
    have m: "toy_fix 4 (toy_fix 4 ([7] @ [8] @ prefixed24 [0, 0]) @ k) = [7, 8, 0, 0]" for k
      by (simp add: toy_fix_def prefixed24_def u32_to_be_bytes_def)
    show ?thesis
      using server_finished_exact [OF toy_kdf_laws toy_digest_laws toy_seal_laws _ _ verify_conn_sel(4,5) _ c r] m
      by (simp add: verify_conn_sel toy_pre_def toy_suite_def Handshake_new_def)
  qed
  from this [of "[7, 8, 0, 0]"] this [of "[7, 8, 0, 1]"] show ?thesis by simp
qed

text \<open>C37. What the \<open>CertVerifier\<close> refuses ends the handshake: when, in a protected record, the messages before it are handled and a
  Certificate is refused, or a CertificateVerify, \<open>process_server_verify\<close> returns the verifier's error and handles no message behind
  it. The verifier gets the transcript that ends with the Certificate. A CertificateVerify that comes when no Certificate
  was accepted since the last one, as one that the server sends first, ends in a panic, not in an error.\<close>

theorem verifier_refusal_ends_handshake:
  fixes c :: "('t, 'h, 'k, 's, 'h CertVerifier \<times> 'p) Conn"
  assumes "digest_laws cs" and "aead_laws cs seal" and "8 \<le> IvLen cs" and "rks = server_state (co_keys c)"
    and "length (enc_iv (r_state rks)) = IvLen cs" and "P' = with_cert_verifier F C D N now cs P"
    and "carries_flight cs seal rks ad (pre @ (w, m) # post)"
    and "run_flight cs (server_verify_cb cs P') pre (rks, ST_ServerVerify, co_handshake c, co_provider c) =
      (Ok (), rks1, st1, hs1, v1, p1)"
    and "h = digest_update cs (transcript_hash rks) (concat (map fst pre) @ w)"
  shows "(\<forall>cert e v2. m = SH_Certificate cert \<and> CertVerifier_verify_certificate F C D N now h cert v1 = Some (Err e, v2) \<longrightarrow>
      (\<exists>c'. process_server_verify cs P' (SR_ApplicationData ad) c = (Err e, c') \<and> co_provider c' = (v2, p1))) \<and>
    (\<forall>verify e v2. m = SH_CertificateVerify verify \<and> CertVerifier_verify_signature F C D cs verify v1 = (Err e, v2) \<longrightarrow>
      (\<exists>c'. process_server_verify cs P' (SR_ApplicationData ad) c = (Err e, c') \<and> co_provider c' = (v2, p1))) \<and>
    (\<forall>verify. m = SH_CertificateVerify verify \<and> cv_certificate_transcript v1 = None \<longrightarrow>
      fst (process_server_verify cs P' (SR_ApplicationData ad) c) = Panic)"
proof -
  note step = flight_step [OF assms(1,8), of w m post, folded assms(9)]
  note runs = server_verify_flight [OF assms(2) assms(5) [unfolded assms(4)] assms(3) assms(7) [unfolded assms(4)], folded assms(4), of P']
  have "\<exists>c'. process_server_verify cs P' (SR_ApplicationData ad) c = (Err e, c') \<and> co_provider c' = (v2, p1)"
    if "m = SH_Certificate cert" "CertVerifier_verify_certificate F C D N now h cert v1 = Some (Err e, v2)" for cert e v2
    using runs [of "Err e" "rks\<lparr>transcript_hash := h\<rparr>" st1 hs1 "(v2, p1)"] step that assms(6)
    by (auto simp: server_verify_cb_def with_hash_def bnd_def with_cert_verifier_def)
  moreover have "\<exists>c'. process_server_verify cs P' (SR_ApplicationData ad) c = (Err e, c') \<and> co_provider c' = (v2, p1)"
    if "m = SH_CertificateVerify verify" "CertVerifier_verify_signature F C D cs verify v1 = (Err e, v2)" for verify e v2
    using runs [of "Err e" "rks\<lparr>transcript_hash := h\<rparr>" st1 hs1 "(v2, p1)"] step that assms(6)
    by (auto simp: server_verify_cb_def with_hash_def bnd_def with_cert_verifier_def)
  moreover have "fst (process_server_verify cs P' (SR_ApplicationData ad) c) = Panic"
    if "m = SH_CertificateVerify verify" "cv_certificate_transcript v1 = None" for verify
    using runs [of Panic "rks\<lparr>transcript_hash := h\<rparr>" st1 hs1 "(v1, p1)"] step that assms(6)
    by (auto simp: server_verify_cb_def with_hash_def bnd_def with_cert_verifier_def CertVerifier_verify_signature_def)
  ultimately show ?thesis by blast
qed

text \<open>A certificate that the CA did not sign, and a CertificateVerify that comes first.\<close>

lemma toy_refused:
  "CertVerifier_verify_certificate no_features toy_pki toy_der 100 (\<lambda>_. NoClock_now) h (toy_chain [toy_cert 3])
     (CertVerifier_new (Cert_X509 (toy_cert 9))) = Some (Err InvalidCertificate, CertVerifier_new (Cert_X509 (toy_cert 9)))"
  by (simp add: CertVerifier_verify_certificate_def CertVerifier_new_def CertificateChain_new_def toy_chain_def verify_chain.simps
      CertificateChain_next_def pki_verify_certificate_def verify_x509_def toy_decode_cert opt_then_def Let_def toy_sans toy_tlv
      certificate_verified_def crate_verify_def toy_pki_def toy_crate_def check_validity_def toy_tbs NoClock_now_def)

theorem verifier_refusal_ends_handshake_witness:
  "fst (process_server_verify toy_suite (with_cert_verifier no_features toy_pki toy_der 100 (\<lambda>_. NoClock_now) toy_suite toy_provider)
     (SR_ApplicationData (toy_app (([8] @ prefixed24 [0, 0]) @ ([11] @ prefixed24 (CertificateRef_wire (toy_chain [toy_cert 3]))) @ [22])))
     (verify_conn (CertVerifier_new (Cert_X509 (toy_cert 9)), ()))) = Err InvalidCertificate \<and>
   fst (process_server_verify toy_suite (with_cert_verifier no_features toy_pki toy_der 100 (\<lambda>_. NoClock_now) toy_suite toy_provider)
     (SR_ApplicationData (toy_app (([8] @ prefixed24 [0, 0]) @
        ([15] @ prefixed24 (SignatureScheme_wire SS_Ed25519 @ prefixed16 [1])) @ [22])))
     (verify_conn (CertVerifier_new (Cert_X509 (toy_cert 9)), ()))) = Panic"
proof -
  let ?P = "with_cert_verifier no_features toy_pki toy_der 100 (\<lambda>_. NoClock_now) toy_suite toy_provider"
  let ?v = "\<lparr>signature_scheme = SS_Ed25519, signature = [1]\<rparr>" and ?c = "verify_conn (CertVerifier_new (Cert_X509 (toy_cert 9)), ())"
  let ?w = "[15] @ prefixed24 (SignatureScheme_wire (signature_scheme ?v) @ prefixed16 (signature ?v))"
  let ?x = "[11] @ prefixed24 (CertificateRef_wire (toy_chain [toy_cert 3]))"
  have "\<forall>(w, m) \<in> set (toy_pre @ [(?w, SH_CertificateVerify ?v)]). parses (ServerHandshake_parse toy_suite) w m"
    using toy_pre_parses CertificateVerify_message_parses [of ?v toy_suite] by simp
  note c1 = toy_carries_flight [OF this]
  have "CertificateRef_dom (toy_chain [toy_cert 3])" "length (CertificateRef_wire (toy_chain [toy_cert 3])) < 16777216"
    by (simp_all add: CertificateRef_dom_def CertificateRef_wire_def toy_chain_def toy_cert_def prefixed24_def prefixed8_def)
  then have "\<forall>(w, m) \<in> set (toy_pre @ [(?x, SH_Certificate (toy_chain [toy_cert 3]))]). parses (ServerHandshake_parse toy_suite) w m"
    using toy_pre_parses Certificate_message_parses [of "toy_chain [toy_cert 3]" toy_suite] by (simp add: toy_chain_def)
  note c2 = toy_carries_flight [OF this]
  have r: "run_flight toy_suite (server_verify_cb toy_suite ?P) toy_pre
      (verify_rks, ST_ServerVerify, co_handshake ?c, co_provider ?c) =
      (Ok (), verify_rks\<lparr>transcript_hash := [7] @ [8] @ prefixed24 [0, 0]\<rparr>, ST_ServerVerify, Handshake_new,
        CertVerifier_new (Cert_X509 (toy_cert 9)), ())"
    by (simp add: toy_pre_def encrypted_extensions_flight verify_conn_sel del: run_flight.simps)
  have n: "cv_certificate_transcript (CertVerifier_new (Cert_X509 (toy_cert 9)) :: bytes CertVerifier) = None"
    by (simp add: CertVerifier_new_def)
  show ?thesis
  proof
    show "fst (process_server_verify toy_suite ?P (SR_ApplicationData (toy_app (([8] @ prefixed24 [0, 0]) @ ?x @ [22]))) ?c) =
        Err InvalidCertificate"
      using verifier_refusal_ends_handshake [OF toy_digest_laws toy_seal_laws _ _ verify_conn_sel(5) refl c2 r refl, THEN conjunct1]
      by (auto simp: verify_conn_sel toy_pre_def toy_refused)
    show "fst (process_server_verify toy_suite ?P (SR_ApplicationData (toy_app (([8] @ prefixed24 [0, 0]) @
        ([15] @ prefixed24 (SignatureScheme_wire SS_Ed25519 @ prefixed16 [1])) @ [22]))) ?c) = Panic"
      using verifier_refusal_ends_handshake [OF toy_digest_laws toy_seal_laws _ _ verify_conn_sel(5) refl c1 r refl, THEN conjunct2] n
      by (simp add: verify_conn_sel toy_pre_def)
  qed
qed

end
