(* ===== verification/Server_Identity.thy ===== *)
theory Server_Identity
  imports Server_Verify Blocking_Session
begin

text \<open>
  The verifier of \<open>src/src/pki.rs\<close> inside \<open>open\<close>: what its state says of the server after a handshake. The locale
  \<open>kept_by_handshake\<close> carries an invariant of the provider's state through every step of the state machine, from the
  operations of the provider that a step may call; it is interpreted for a provider with a \<open>CertVerifier\<close>.
\<close>

section \<open>Certificates off the wire\<close>

text \<open>The certificates that a record delivers are parsed ones, of which the verifier keeps a copy that reads back.\<close>

fun record_parsed :: "ServerRecord \<Rightarrow> bool" where
  "record_parsed (SR_Handshake (SH_Certificate cert)) = cert_parsed cert"
| "record_parsed _ = True"

lemma handshake_read_parsed:
  assumes "ServerHandshake_read cs (b, h) = (Ok m, b', h')"
  shows "record_parsed (SR_Handshake m)"
proof -
  from assms obtain m0 where m0: "ServerHandshake_parse cs b = (Ok m0, b')"
    "m = (case m0 of SH_Finished f \<Rightarrow> SH_Finished (f\<lparr>fin_hash := Some (digest_finalize cs h)\<rparr>) | m \<Rightarrow> m)"
    by (auto simp: ServerHandshake_read_def Let_def split: prod.splits result.splits if_splits)
  show ?thesis
  proof (cases m0)
    case (SH_Certificate cert)
    from m0(1) obtain t b1 n b2 where "map_err (\<lambda>_. InvalidHandshake) HandshakeType_parse b = (Ok t, b1)"
      "map_err (\<lambda>_. InvalidHandshake) pb_read_u24 b1 = (Ok n, b2)"
      by (auto simp: ServerHandshake_parse_def bnd_Ok_iff)
    with m0 SH_Certificate show ?thesis
      by (cases t) (auto simp: ServerHandshake_parse_def bnd_def dest: CertificateRef_parse_parsed
          split: prod.split_asm result.split_asm)
  qed (use m0 in simp_all)
qed

lemma read_blocking_parsed:
  assumes "read_blocking cs rd (r, t, rks) = (Ok rec, s)"
  shows "record_parsed rec"
proof -
  from assms obtain header base data d d' where "ServerRecord_decode cs header base data d = (Ok rec, d')"
    by (auto simp: read_blocking_def rr_consume_def Let_def split: prod.splits result.splits if_splits)
  then show ?thesis
    by (auto simp: ServerRecord_decode_def bnd_Ok_iff dest: handshake_read_parsed
        split: if_splits result.splits ContentType.splits prod.splits)
qed

text \<open>What a record logs.\<close>

definition log_parsed :: "(ServerRecord \<times> ('h, 'k) ReadKeySchedule) list \<Rightarrow> bool" where
  "log_parsed log \<longleftrightarrow> (\<forall>(rec, _) \<in> set log. record_parsed rec)"

lemma log_cb_parsed: "record_parsed rec \<Longrightarrow> log_parsed l \<Longrightarrow> log_parsed (snd (snd (log_cb rec (rks, l))))"
  by (simp add: log_parsed_def log_cb_def)

lemma handshake_loop_parsed:
  "log_parsed l \<Longrightarrow> log_parsed (snd (snd (handshake_loop cs log_cb b (rks, l))))"
proof (induction "length (buffer b) - pos b" arbitrary: b rks l rule: less_induct)
  case less
  obtain q b' h where q: "ServerHandshake_read cs (b, transcript_hash rks) = (q, b', h)" by (metis prod.exhaust)
  show ?case
  proof (cases "pos b < length (buffer b) \<and> (\<exists>m. q = Ok m)")
    case True
    then obtain m where m: "q = Ok m" "pos b < length (buffer b)" by blast
    let ?l = "l @ [(SR_Handshake m, rks\<lparr>transcript_hash := h\<rparr>)]"
    have "log_parsed ?l" using less.prems handshake_read_parsed [OF q [unfolded m(1)]] by (simp add: log_parsed_def)
    from less.hyps [OF ServerHandshake_read_progress [OF q [unfolded m(1)] m(2)] this]
    show ?thesis using q m by (simp add: handshake_loop.simps [of cs log_cb b] log_cb_def)
  next
    case False
    then show ?thesis using q less.prems by (cases q) (auto simp: handshake_loop.simps [of cs log_cb b])
  qed
qed

lemma record_log_parsed:
  assumes "record_parsed rec"
  shows "log_parsed (record_log cs rec mem rks)"
proof -
  have n: "log_parsed ([] :: (ServerRecord \<times> ('a, 'b) ReadKeySchedule) list)" by (simp add: log_parsed_def)
  have i: "log_parsed (snd (snd (dispatch_inner cs log_cb ad ct d (rks, []))))" for ad ct d
    using handshake_loop_parsed [OF n] n
    by (auto simp: dispatch_inner_def bnd_def log_cb_def log_parsed_def split: result.splits ContentType.splits prod.splits)
  show ?thesis
    using i [of _ _ ] n assms log_cb_parsed [OF assms n, of rks]
    by (cases rec) (auto simp: record_log_def decrypt_record_def decrypt_app_def split: result.splits prod.splits,
      (metis snd_conv)+)
qed

section \<open>Invariants of the provider\<close>

text \<open>\<open>seen h cert\<close>: the Certificate message \<open>cert\<close> was delivered when the transcript hash was \<open>h\<close>.\<close>

locale kept_by_handshake =
  fixes P :: "('p, 's, 'h) CryptoProvider" and seen :: "'h \<Rightarrow> CertificateRef \<Rightarrow> bool" and I :: "'p \<Rightarrow> bool"
  assumes rng_keeps: "I p \<Longrightarrow> rng_fill_bytes P n p = (bs, p') \<Longrightarrow> I p'"
    and ephemeral_keeps: "I p \<Longrightarrow> ephemeral_random P p = (s, p') \<Longrightarrow> I p'"
    and certificate_keeps: "seen h cert \<Longrightarrow> cert_parsed cert \<Longrightarrow> I p \<Longrightarrow> verify_certificate P h cert p = (Ok (), p') \<Longrightarrow> I p'"
    and signature_keeps: "I p \<Longrightarrow> verify_signature P verify p = (Ok (), p') \<Longrightarrow> I p'"
    and signer_keeps: "I p \<Longrightarrow> prov_signer P p = (r, p') \<Longrightarrow> I p'"
    and sign_keeps: "I p \<Longrightarrow> prov_sign P msg p = (sg, p') \<Longrightarrow> I p'"
    and client_cert_keeps: "I p \<Longrightarrow> prov_client_cert P p = (c, p') \<Longrightarrow> I p'"
begin

lemma verify_cb_keeps:
  assumes "server_verify_cb cs P rec (rks, st, hs, p) = (Ok (), rks', st', hs', p')" "I p" "record_parsed rec"
    and "\<And>cert. rec = SR_Handshake (SH_Certificate cert) \<Longrightarrow> seen (transcript_hash rks) cert"
  shows "I p'"
proof (cases rec)
  case (SR_Handshake m)
  with assms show ?thesis
    by (cases m) (auto simp: server_verify_cb_def dest: certificate_keeps signature_keeps
        split: result.split_asm bool.split_asm prod.split_asm if_split_asm)
qed (use assms in \<open>simp_all add: server_verify_cb_def\<close>)

lemma run_log_keeps:
  assumes "run_log (server_verify_cb cs P) log (st, hs, p) = Ok (st', hs', p')" "I p" "log_parsed log"
    and "\<And>cert rks. (SR_Handshake (SH_Certificate cert), rks) \<in> set log \<Longrightarrow> seen (transcript_hash rks) cert"
  shows "I p'"
  using assms
proof (induction log arbitrary: st hs p)
  case (Cons x log)
  obtain rec rks where x: "x = (rec, rks)" by fastforce
  obtain r k st1 hs1 p1 where c: "server_verify_cb cs P rec (rks, st, hs, p) = (r, k, st1, hs1, p1)" by (metis prod.exhaust)
  with Cons.prems(1) x have r: "r = Ok ()" "run_log (server_verify_cb cs P) log (st1, hs1, p1) = Ok (st', hs', p')"
    by (cases r; simp)+
  have "I p1" by (rule verify_cb_keeps [OF c [unfolded r(1)] Cons.prems(2)]) (use Cons.prems(3,4) x in \<open>auto simp: log_parsed_def\<close>)
  with Cons.IH [OF r(2)] Cons.prems(3,4) show ?case by (auto simp: log_parsed_def)
qed simp

end

text \<open>The record that the client reads next in the ServerVerify state delivers a Certificate message, and some record
  of the handshake does.\<close>

definition cert_delivered ::
  "('h, 'k) TlsCipherSuite \<Rightarrow> 't Transport \<Rightarrow> ('t, 'h, 'k, 's, 'p) Conn \<Rightarrow> 'h \<Rightarrow> CertificateRef \<Rightarrow> bool" where
  "cert_delivered cs T c h cert \<longleftrightarrow> (\<exists>rec c' rks. rx_read_record cs T c = (Ok rec, c') \<and>
     (SR_Handshake (SH_Certificate cert), rks) \<in> set (record_log cs rec (rr_buf (co_reader c')) (server_state (co_keys c'))) \<and>
     transcript_hash rks = h)"

definition handshake_delivers ::
  "bool \<Rightarrow> ('h, 'k) TlsCipherSuite \<Rightarrow> ('p, 's, 'h) CryptoProvider \<Rightarrow> 't Transport \<Rightarrow> TlsConfig \<Rightarrow>
     ('t, 'h, 'k, 's, 'p) Conn \<Rightarrow> 'h \<Rightarrow> CertificateRef \<Rightarrow> bool" where
  "handshake_delivers rsa cs P T config start h cert \<longleftrightarrow>
     (\<exists>c. hs_reach rsa cs P T config (ST_ClientHello, start) (ST_ServerVerify, c) \<and> cert_delivered cs T c h cert)"

lemma tx_write_provider: "tx_write_record cs pk rec c = (r, c') \<Longrightarrow> co_provider c' = co_provider c"
  by (auto simp: tx_write_record_def split: prod.splits)

lemma rx_read_provider: "rx_read_record cs T c = (r, c') \<Longrightarrow> co_provider c' = co_provider c"
  by (auto simp: rx_read_record_def split: prod.splits)

lemma respond_provider: "respond_blocking T tx c = (Ok (), c') \<Longrightarrow> co_provider c' = co_provider c"
  by (auto simp: respond_blocking_def bnd_Ok_iff map_err_def zoom_def split: prod.splits result.splits)

lemma server_hello_provider: "process_server_hello cs P rec c = (Ok st, c') \<Longrightarrow> co_provider c' = co_provider c"
  by (clarsimp simp: process_server_hello_def bnd_Ok_iff split: ServerRecord.split_asm ServerHandshake.split_asm)
    (auto simp: bnd_Ok_iff zoom_def split: prod.splits)

lemma finalize_provider: "client_finished_finalize cs c = (Ok st, c') \<Longrightarrow> co_provider c' = co_provider c"
  by (cases "initialize_master_secret cs (replace_transcript_hash (the (hs_traffic_hash (co_handshake c))) (co_keys c))")
    (auto simp: client_finished_finalize_def bnd_Ok_iff zoom_def)

lemma client_finished_provider: "client_finished cs pk c = (Ok tx, c') \<Longrightarrow> co_provider c' = co_provider c"
  by (auto simp: client_finished_def bnd_Ok_iff map_err_def dest!: tx_write_provider split: result.splits)

context kept_by_handshake
begin

lemma hello_record_keeps: "ClientRecord_client_hello P config p = (rec, p') \<Longrightarrow> I p \<Longrightarrow> I p'"
  by (auto simp: ClientRecord_client_hello_def ClientHello_new_def Let_def intro: ephemeral_keeps [OF rng_keeps] split: prod.split_asm)

lemma client_hello_keeps:
  assumes "client_hello cs P config c = (Ok (st, tx), c')" "I (co_provider c)"
  shows "I (co_provider c')"
proof -
  from assms(1) obtain ks rec p1 c1 where c1: "ClientRecord_client_hello P config (co_provider c) = (rec, p1)"
    "tx_write_record cs (public_key P) rec (c\<lparr>co_keys := ks, co_provider := p1\<rparr>) = (Ok tx, c1)" "co_provider c' = co_provider c1"
    by (auto simp: client_hello_def bnd_Ok_iff zoom_def split: prod.split_asm ClientRecord.split_asm ClientHandshake.split_asm)
  with hello_record_keeps [OF c1(1) assms(2)] tx_write_provider [OF c1(2)] show ?thesis by simp
qed

lemma process_server_verify_keeps:
  assumes "process_server_verify cs P rec c = (Ok st, c')" "I (co_provider c)" "record_parsed rec"
    and "\<And>cert rks. (SR_Handshake (SH_Certificate cert), rks) \<in>
      set (record_log cs rec (rr_buf (co_reader c)) (server_state (co_keys c))) \<Longrightarrow> seen (transcript_hash rks) cert"
  shows "I (co_provider c')"
proof -
  obtain r mem rks st1 hs p where d: "decrypt_record cs rec (server_verify_cb cs P)
      (rr_buf (co_reader c), server_state (co_keys c), ST_ServerVerify, co_handshake c, co_provider c) = (r, mem, rks, st1, hs, p)"
    by (metis prod.exhaust)
  with assms(1) have r: "r = Ok ()" "co_provider c' = p" by (cases r; auto simp: process_server_verify_def)+
  from decrypt_record_log [OF server_verify_reads_only d [unfolded r]]
  have "run_log (server_verify_cb cs P) (record_log cs rec (rr_buf (co_reader c)) (server_state (co_keys c)))
      (ST_ServerVerify, co_handshake c, co_provider c) = Ok (st1, hs, p)" by blast
  from run_log_keeps [OF this assms(2) record_log_parsed [OF assms(3)]] assms(4) r(2) show ?thesis by blast
qed

lemma client_cert_keeps_state: "client_cert cs P c = (Ok (st, tx), c') \<Longrightarrow> I (co_provider c) \<Longrightarrow> I (co_provider c')"
  by (clarsimp simp: client_cert_def bnd_Ok_iff zoom_def split: prod.split_asm option.split_asm)
    (auto simp: bnd_Ok_iff dest!: tx_write_provider dest: client_cert_keeps split: option.split_asm result.split_asm prod.split_asm)

lemma cert_verify_keeps: "client_cert_verify rsa cs P c = (Ok (r, tx), c') \<Longrightarrow> I (co_provider c) \<Longrightarrow> I (co_provider c')"
  by (clarsimp simp: client_cert_verify_def bnd_Ok_iff attempt_Ok_iff zoom_def split: prod.split_asm)
    (auto simp: bnd_Ok_iff zoom_def dest!: tx_write_provider
      intro: signer_keeps sign_keeps [OF signer_keeps] split: option.split_asm result.split_asm prod.split_asm)

lemma step_keeps:
  assumes "process_blocking rsa cs P T config st c = (Ok st', c')" "I (co_provider c)"
    and "\<And>h cert. st = ST_ServerVerify \<Longrightarrow> cert_delivered cs T c h cert \<Longrightarrow> seen h cert"
  shows "I (co_provider c')"
proof (cases "st = ST_ServerVerify")
  case True
  with assms(1) obtain rec c1 where c1: "rx_read_record cs T c = (Ok rec, c1)" "process_server_verify cs P rec c1 = (Ok st', c')"
    using server_verify_step_iff by metis
  have "record_parsed rec" using c1(1) by (auto simp: rx_read_record_def dest: read_blocking_parsed split: prod.split_asm)
  from process_server_verify_keeps [OF c1(2) _ this] c1(1) rx_read_provider [OF c1(1)] assms(2,3) True
  show ?thesis unfolding cert_delivered_def by metis
next
  case False
  with assms(1,2) show ?thesis
    by (cases st) (auto simp: process_blocking_def bnd_Ok_iff handle_processing_Ok_iff attempt_Ok_Ok_iff
      dest!: respond_provider rx_read_provider server_hello_provider finalize_provider client_finished_provider
      dest: client_hello_keeps client_cert_keeps_state cert_verify_keeps)
qed

text \<open>An invariant that holds when the handshake starts holds when \<open>open\<close> has succeeded.\<close>

lemma open_keeps:
  assumes "TlsConnection_open rsa cs P T config (k, p) = Some (Ok (), k', p')"
    and "open_hostname P config p = (Ok (), p0)" "I p0"
    and "\<And>h cert. handshake_delivers rsa cs P T config (open_borrow k p0) h cert \<Longrightarrow> seen h cert"
  shows "I p'"
proof -
  obtain c where c: "p' = co_provider c" "open_loop rsa cs P T config ST_ClientHello (open_borrow k p0) = Some (Ok (), c)"
    using assms(1,2) by (auto simp: TlsConnection_open_def split: result.split_asm option.split_asm)
  let ?y = "(ST_ClientHello, open_borrow k p0)"
  have "I (co_provider (snd z))" if "hs_reach rsa cs P T config ?y z" for z
    using that
  proof (induction rule: rtranclp_induct)
    case base
    show ?case using assms(3) by (simp add: open_borrow_def)
  next
    case (step y z)
    from step.hyps(2) obtain st c st' c' where s: "y = (st, c)" "z = (st', c')"
      "process_blocking rsa cs P T config st c = (Ok st', c')" by (auto elim!: hs_step.cases)
    have "handshake_delivers rsa cs P T config (open_borrow k p0) h cert"
      if "st = ST_ServerVerify" "cert_delivered cs T c h cert" for h cert
      using that step.hyps(1) s(1) unfolding handshake_delivers_def by blast
    with step_keeps [OF s(3)] step.IH s(1,2) assms(4) show ?case by simp
  qed
  from this [OF reach_open_loop [OF c(2)]] c(1) show ?thesis by simp
qed

end

section \<open>What the verifier knows\<close>

text \<open>The signature of a CertificateVerify under the key of the first certificate, over the content of RFC 8446 for the
  transcript \<open>h\<close>.\<close>

definition server_signed ::
  "PkiFeatures \<Rightarrow> PkiCrypto \<Rightarrow> 'r Der \<Rightarrow> ('h, 'k) TlsCipherSuite \<Rightarrow> CertificateRef \<Rightarrow> 'h \<Rightarrow> bool" where
  "server_signed F C D cs cert h \<longleftrightarrow> (\<exists>(verify :: CertificateVerify) c rest decoded key crate.
     cr_entries cert = CER_X509 c # rest \<and> Certificate_from_der D c = Ok decoded \<and>
     spki_public_key (tbs_subject_public_key_info (dc_tbs_certificate decoded)) = Some key \<and>
     scheme_crate F C (signature_scheme verify) = Some crate \<and>
     sc_verify crate key (replicate 64 0x20 @ ascii ''TLS 1.3, server CertificateVerify'' @ [0] @ digest_finalize cs h)
       (signature verify))"

text \<open>The state of the verifier during a handshake: nothing was accepted yet, or a Certificate message of the handshake was,
  and when its transcript was used up, a signature verified.\<close>

definition server_known ::
  "PkiFeatures \<Rightarrow> PkiCrypto \<Rightarrow> 'r Der \<Rightarrow> nat \<Rightarrow> (nat \<Rightarrow> u64 option) \<Rightarrow> ('h, 'k) TlsCipherSuite \<Rightarrow> Certificate \<Rightarrow> bytes option \<Rightarrow>
     ('h \<Rightarrow> CertificateRef \<Rightarrow> bool) \<Rightarrow> 'h CertVerifier \<Rightarrow> bool" where
  "server_known F C D N now cs ca host seen v \<longleftrightarrow> cv_ca v = ca \<and> cv_host v = host \<and>
     (case cv_certificate v of
        None \<Rightarrow> cv_certificate_transcript v = None
      | Some owned \<Rightarrow> (\<exists>cert h. OwnedCertificate_try_from N cert = Ok owned \<and> cert_parsed cert \<and> seen h cert \<and>
          chain_verified F C D now ca host cert \<and>
          (case cv_certificate_transcript v of Some h' \<Rightarrow> h' = h | None \<Rightarrow> server_signed F C D cs cert h)))"

lemma signature_known:
  assumes "server_known F C D N now cs ca host seen v" "CertVerifier_verify_signature F C D cs verify v = (Ok (), v')"
  shows "server_known F C D N now cs ca host seen v'"
proof -
  from assms(2) obtain h owned where v: "cv_certificate_transcript v = Some h" "cv_certificate v = Some owned"
    "v' = v\<lparr>cv_certificate_transcript := None\<rparr>"
    by (auto simp: CertVerifier_verify_signature_def and_then_Ok_iff split: option.splits)
  with assms(1) obtain cert where c: "OwnedCertificate_try_from N cert = Ok owned" "cert_parsed cert" "seen h cert"
    "chain_verified F C D now ca host cert" by (auto simp: server_known_def)
  from verify_signature_signed [OF assms(2) v(1,2) owned_parsed [OF c(1,2)]]
  have "server_signed F C D cs cert h" unfolding server_signed_def by blast
  with c v assms(1) show ?thesis by (auto simp: server_known_def)
qed

interpretation known_server: kept_by_handshake "with_cert_verifier F C D N now cs P" seen
  "\<lambda>(v, p). server_known F C D N now cs ca host seen v"
  for F :: PkiFeatures and C :: PkiCrypto and D :: "'r Der" and N :: nat and now :: "nat \<Rightarrow> u64 option"
    and cs :: "('h, 'k) TlsCipherSuite" and P :: "('p, 's, 'h) CryptoProvider" and seen ca host
proof (unfold_locales, goal_cases)
  case (3 h cert p p')
  obtain v q v' q' where p: "p = (v, q)" "p' = (v', q')" by fastforce
  with 3(4) have a: "CertVerifier_verify_certificate F C D N now h cert v = Some (Ok (), v')"
    by (auto simp: with_cert_verifier_def split: option.split_asm prod.split_asm)
  from verify_certificate_keeps [OF a] verify_certificate_chain [OF a] 3(1-3) p show ?case
    by (auto simp: server_known_def)
next
  case (4 p verify p')
  then show ?case by (auto simp: with_cert_verifier_def intro: signature_known split: prod.split_asm)
qed (auto simp: with_cert_verifier_def split: prod.split_asm)

section \<open>Properties\<close>

text \<open>C3. After \<open>open\<close> has succeeded with a fresh \<open>CertVerifier\<close>, its state tells what the server has shown. It knows the
  configured CA and, when one is configured, the server name. When it keeps no certificate, it keeps no transcript either. When it keeps
  one, this is a Certificate message that the handshake delivered, its list is verified from the CA to a first certificate for
  the server name, and if its transcript was taken, a CertificateVerify verified under the key of that first
  certificate over the transcript up to and with the Certificate message.\<close>

theorem open_server_identity:
  assumes "TlsConnection_open rsa cs (with_cert_verifier F C D N now cs P) T config (k, CertVerifier_new ca, p) =
      Some (Ok (), k', v, p')"
    and "start = open_borrow k (\<lparr>cv_ca = ca, cv_host = cfg_server_name config, cv_certificate_transcript = None,
        cv_certificate = None\<rparr>, p)"
  shows "cv_ca v = ca \<and> cv_host v = cfg_server_name config \<and>
    (case cv_certificate v of
       None \<Rightarrow> cv_certificate_transcript v = None
     | Some owned \<Rightarrow> (\<exists>cert h. CertificateRef_try_from owned = Ok cert \<and>
         handshake_delivers rsa cs (with_cert_verifier F C D N now cs P) T config start h cert \<and>
         chain_verified F C D now ca (cfg_server_name config) cert \<and>
         (cv_certificate_transcript v = None \<longrightarrow> server_signed F C D cs cert h)))"
proof -
  let ?P = "with_cert_verifier F C D N now cs P"
  let ?v0 = "\<lparr>cv_ca = ca, cv_host = cfg_server_name config, cv_certificate_transcript = None, cv_certificate = None\<rparr>"
  let ?seen = "handshake_delivers rsa cs ?P T config start"
  have o: "open_hostname ?P config (CertVerifier_new ca, p) = (Ok (), ?v0, p)"
    using assms(1) by (auto simp: TlsConnection_open_def open_hostname_def with_cert_verifier_def CertVerifier_new_def
        CertVerifier_set_hostname_verification_def vec_extend_def split: option.splits if_splits)
  have "server_known F C D N now cs ca (cfg_server_name config) ?seen v"
    using known_server.open_keeps [OF assms(1) o, where seen = ?seen and ca = ca and host = "cfg_server_name config"] assms(2)
    by (simp add: server_known_def)
  note known = this [unfolded server_known_def]
  show ?thesis
  proof (cases "cv_certificate v")
    case (Some owned)
    with known obtain cert h where c: "OwnedCertificate_try_from N cert = Ok owned" "cert_parsed cert" "?seen h cert"
      "chain_verified F C D now ca (cfg_server_name config) cert"
      "cv_certificate_transcript v = None \<Longrightarrow> server_signed F C D cs cert h" by (auto split: option.splits)
    from owned_parsed [OF c(1,2)] c(3-5) known Some show ?thesis by auto
  qed (use known in simp)
qed

section \<open>A handshake with certificates\<close>

text \<open>The toy server with the host name \<open>a\<close>, a chain of two certificates and a CertificateVerify.\<close>

definition id_provider :: "(bytes CertVerifier \<times> unit, bytes, bytes) CryptoProvider" where
  "id_provider = with_cert_verifier no_features toy_pki toy_der 100 (\<lambda>_. Some 50) toy_suite toy_provider"

definition id_config :: TlsConfig where
  "id_config = plain_config\<lparr>cfg_server_name := Some [97]\<rparr>"

definition id_hello :: "bytes ClientHello" where
  "id_hello = \<lparr>ch_config = id_config, ch_random = replicate 32 7, ch_secret = [4]\<rparr>"

definition id_ch :: bytes where
  "id_ch = client_handshake_wire toy_suite id (CH_ClientHello id_hello)"

abbreviation id_chain :: CertificateRef where
  "id_chain \<equiv> toy_chain [toy_cert 7, toy_cert 8]"

definition id_verify :: CertificateVerify where
  "id_verify = \<lparr>signature_scheme = SS_EcdsaSecp256r1Sha256, signature = [7]\<rparr>"

definition id_pre :: "(bytes \<times> ServerHandshake) list" where
  "id_pre = [([8] @ prefixed24 [0, 0], SH_EncryptedExtensions EncryptedExtensions),
     ([11] @ prefixed24 (CertificateRef_wire id_chain), SH_Certificate id_chain),
     ([15] @ prefixed24 (SignatureScheme_wire (signature_scheme id_verify) @ prefixed16 (signature id_verify)),
      SH_CertificateVerify id_verify)]"

definition id_h1 :: bytes where
  "id_h1 = digest_update toy_suite (digest_new toy_suite) (id_ch @ toy_sh)"

definition id_key :: "string \<Rightarrow> bytes KeyScheduleState" where
  "id_key label = rfc_traffic toy_suite (rfc_handshake toy_suite None [4, 5]) (ascii label) id_h1"

definition id_fin :: bytes where
  "id_fin = finished_wire (finished_mac toy_suite (id_key ''s hs traffic'')
     (digest_update toy_suite id_h1 (concat (map fst id_pre))))"

definition id_answer :: bytes where
  "id_answer = record_header 22 3 3 toy_sh @ toy_sh @
     sealed_record toy_suite toy_seal (id_key ''s hs traffic'') (concat (map fst id_pre) @ id_fin @ [22])"

lemma id_provider_sel:
  "public_key id_provider = id" "diffie_hellman id_provider = (\<lambda>s p. Some (s @ p))" "prov_verifier id_provider p"
  by (simp_all add: id_provider_def with_cert_verifier_def toy_provider_def)

lemma id_hello_new: "ClientHello_new id_provider id_config (v, ()) = (id_hello, v, ())"
  by (simp add: ClientHello_new_def id_provider_def with_cert_verifier_def toy_provider_def id_hello_def)

lemma id_hostname:
  "open_hostname id_provider id_config (CertVerifier_new (Cert_X509 (toy_cert 9)), ()) = (Ok (), toy_verifier, ())"
  by (simp add: open_hostname_def id_config_def id_provider_def with_cert_verifier_def CertVerifier_set_hostname_verification_def
      vec_extend_def CertVerifier_new_def toy_verifier_def)

lemma id_pre_parses: "\<forall>(w, m) \<in> set id_pre. parses (ServerHandshake_parse toy_suite) w m"
proof -
  have d: "CertificateRef_dom id_chain" "length (CertificateRef_wire id_chain) < 16777216"
    "id_chain\<lparr>cr_raw_entries := concat (map entry_wire (cr_entries id_chain))\<rparr> = id_chain"
    by (simp_all add: CertificateRef_dom_def CertificateRef_wire_def toy_chain_def toy_cert_def prefixed24_def prefixed8_def)
  have v: "length (signature id_verify) < 65536" by (simp add: id_verify_def)
  from toy_pre_parses Certificate_message_parses [OF d(1,2), of toy_suite] CertificateVerify_message_parses [OF v, of toy_suite] d(3)
  show ?thesis by (simp add: id_pre_def toy_pre_def)
qed

lemma id_lengths: "length id_ch \<le> 250" "length (concat (map fst id_pre) @ id_fin @ [22]) \<le> 90"
proof -
  show "length id_ch \<le> 250"
    by (simp add: id_ch_def client_handshake_wire_def client_hello_wire_def client_hello_extensions_def id_hello_def id_config_def
      plain_config_def option_list_def prefixed24_def prefixed16_def prefixed8_def ClientHelloExtension_wire_def ext_wire_def
      wire_size_simps ServerNameList_wire_def ServerNameList_single_def ServerName_wire_def NameType_wire_def)
  obtain ts where ts: "traffic_secret (id_key ''s hs traffic'') = Initialized ts"
    using rfc_traffic_secret [of toy_suite "rfc_handshake toy_suite None [4, 5]" "ascii ''s hs traffic''" id_h1]
    unfolding id_key_def by blast
  have "length (finished_mac toy_suite (id_key ''s hs traffic'') h) = 4" for h
    by (simp add: finished_mac_def ts toy_suite_def)
  then show "length (concat (map fst id_pre) @ id_fin @ [22]) \<le> 90"
    by (simp add: id_pre_def id_fin_def finished_wire_def prefixed24_def prefixed16_def prefixed8_def CertificateRef_wire_def
        toy_chain_def toy_cert_def SignatureScheme_wire_def id_verify_def)
qed

lemma id_run:
  "\<exists>rks. run_flight toy_suite (server_verify_cb toy_suite id_provider) id_pre
     (\<lparr>r_state = id_key ''s hs traffic'', transcript_hash = id_h1\<rparr>, ST_ServerVerify, Handshake_new, toy_verifier, ()) =
   (Ok (), rks, ST_ServerVerify, Handshake_new, toy_verifier\<lparr>cv_certificate := Some \<lparr>oc_request_context = [],
       oc_entries_data = cr_raw_entries id_chain\<rparr>\<rparr>, ())"
proof -
  let ?o = "\<lparr>oc_request_context = [], oc_entries_data = cr_raw_entries id_chain\<rparr>"
  have r: "CertificateRef_try_from ?o = Ok id_chain"
    by (rule owned_parsed [OF toy_owned wire_entries_parsed]) (simp_all add: toy_chain_def toy_cert_def)
  have c: "verify_certificate id_provider h id_chain (toy_verifier, ()) =
      (Ok (), toy_verifier\<lparr>cv_certificate := Some ?o, cv_certificate_transcript := Some h\<rparr>, ())" for h
    by (simp add: id_provider_def with_cert_verifier_def toy_accepts)
  have v: "verify_signature id_provider id_verify (toy_verifier\<lparr>cv_certificate := Some ?o, cv_certificate_transcript := Some h\<rparr>, ()) =
      (Ok (), toy_verifier\<lparr>cv_certificate := Some ?o\<rparr>, ())" for h
    using toy_signature [OF r, of h]
    by (simp add: toy_chain_def id_provider_def with_cert_verifier_def id_verify_def) (simp add: toy_verifier_def)
  show ?thesis
    by (simp add: id_pre_def bnd_def server_verify_cb_def with_hash_def id_provider_sel(3) c v)
qed

lemma id_opens:
  "\<exists>k'. TlsConnection_open False toy_suite id_provider chunk_transport id_config
      (toy_conn (id_answer @ []), CertVerifier_new (Cert_X509 (toy_cert 9)), ()) =
    Some (Ok (), k', toy_verifier\<lparr>cv_certificate := Some \<lparr>oc_request_context = [], oc_entries_data = cr_raw_entries id_chain\<rparr>\<rparr>, ())"
proof -
  obtain rks where r: "run_flight toy_suite (server_verify_cb toy_suite id_provider) id_pre
     (\<lparr>r_state = id_key ''s hs traffic'', transcript_hash = id_h1\<rparr>, ST_ServerVerify, Handshake_new, toy_verifier, ()) =
   (Ok (), rks, ST_ServerVerify, Handshake_new, toy_verifier\<lparr>cv_certificate := Some \<lparr>oc_request_context = [],
       oc_entries_data = cr_raw_entries id_chain\<rparr>\<rparr>, ())" using id_run by blast
  have x: "cfg_psk id_config = None" "id_ch = client_handshake_wire toy_suite (public_key id_provider) (CH_ClientHello id_hello)"
    "ServerHello_calculate_shared_secret (diffie_hellman id_provider) (ch_secret id_hello) (ServerHello [toy_share]) = Some [4, 5]"
    "chunk_data (cd_in (toy_socket (id_answer @ []))) = record_header 22 3 3 toy_sh @ toy_sh @
      sealed_record toy_suite toy_seal (id_key ''s hs traffic'') (concat (map fst id_pre) @ id_fin @ [22]) @ []"
    using toy_shared by (simp_all add: id_config_def plain_config_def id_ch_def id_provider_sel id_hello_def toy_socket_sel id_answer_def
        toy_provider_def)
  have room: "5 + length id_ch \<le> length (replicate 300 0 :: bytes)"
    "length (concat (map fst id_pre) @ id_fin @ [22]) + TagSize toy_suite \<le> length (replicate 300 0 :: bytes)"
    "length (concat (map fst id_pre) @ id_fin @ [22]) + TagSize toy_suite < 65536"
    using id_lengths by (simp_all del: length_append)
  show ?thesis
    using chunk_duplex.open_runs [OF toy_kdf_laws toy_digest_laws toy_seal_laws toy_run(5) toy_conn_new toy_socket_sel(1)
        id_hostname x(1) id_hello_new x(2) toy_sh_parses x(3) id_h1_def id_key_def id_key_def id_fin_def refl id_pre_parses r
        toy_run(3) x(4) room(1) toy_room(3,2,4,5) room(2,3), of False] by blast
qed

theorem open_server_identity_witness:
  "\<exists>cert h. CertificateRef_try_from \<lparr>oc_request_context = [], oc_entries_data = cr_raw_entries id_chain\<rparr> = Ok cert \<and>
     chain_verified no_features toy_pki toy_der (\<lambda>_. Some 50) (Cert_X509 (toy_cert 9)) (Some [97]) cert \<and>
     server_signed no_features toy_pki toy_der toy_suite cert h"
proof -
  obtain k' where "TlsConnection_open False toy_suite id_provider chunk_transport id_config
      (toy_conn (id_answer @ []), CertVerifier_new (Cert_X509 (toy_cert 9)), ()) =
    Some (Ok (), k', toy_verifier\<lparr>cv_certificate := Some \<lparr>oc_request_context = [], oc_entries_data = cr_raw_entries id_chain\<rparr>\<rparr>, ())"
    using id_opens by blast
  from open_server_identity [OF this [unfolded id_provider_def] refl] show ?thesis
    by (auto simp: toy_verifier_def id_config_def)
qed

end
