(* ===== verification/Client_Auth.thy ===== *)
theory Client_Auth
  imports Toy_Server
begin

text \<open>
  Client authentication and aborts in the handshake of \<open>src/src/connection.rs\<close>: what the client sends in the
  states ClientCert and ClientCertVerify, and what it does when the server's messages make it
  abort.
\<close>

section \<open>The signed message\<close>

text \<open>RFC 8446, section 4.4.3: 64 spaces, the context string, a zero byte and the transcript hash.\<close>

definition rfc_signed :: "bytes \<Rightarrow> bytes" where
  "rfc_signed digest = replicate 64 0x20 @ ascii ''TLS 1.3, client CertificateVerify'' @ [0] @ digest"

lemma cert_verify_msg_value:
  "cert_verify_msg digest = (if length digest \<le> 48 then Ok (rfc_signed digest) else Err EncodeError)"
  by (simp add: cert_verify_msg_def vec_extend_def cert_verify_ctx_def rfc_signed_def or_err_def ascii_def)

context duplex
begin

lemma sealed_handshake_step:
  assumes laws: "aead_laws cs seal" "8 \<le> IvLen cs" "length (enc_iv (w_state (client_state (co_keys c)))) = IvLen cs"
    and w: "wb_idle (co_tx c)" "client_handshake_ok m"
      "6 + length (client_handshake_wire cs pk m) + TagSize cs \<le> length (wb_buffer (co_tx c))"
  shows "\<exists>c'. tx_write_record cs pk (CR_Handshake m True) c =
      (Ok (sealed_record cs seal (w_state (client_state (co_keys c))) (client_handshake_wire cs pk m @ [22])), c') \<and>
    co_transport c' = co_transport c \<and> co_handshake c' = co_handshake c \<and> co_provider c' = co_provider c \<and>
    client_state (co_keys c') = client_state (co_keys c) \<and>
    transcript_hash (server_state (co_keys c')) =
      digest_update cs (transcript_hash (server_state (co_keys c))) (client_handshake_wire cs pk m) \<and> wb_idle (co_tx c')"
proof -
  obtain w' where "write_record cs pk (CR_Handshake m True) (client_state (co_keys c))
      (co_tx c, Some (transcript_hash (server_state (co_keys c)))) =
      (Ok (sealed_record cs seal (w_state (client_state (co_keys c))) (client_handshake_wire cs pk m @ [22])), w',
       Some (digest_update cs (transcript_hash (server_state (co_keys c))) (client_handshake_wire cs pk m)))" "wb_idle w'"
    using write_handshake_sealed [OF laws(1,3,2) w refl] by (auto simp: sealed_record_def Let_def)
  then show ?thesis by (simp add: tx_write_record_def replace_transcript_hash_def)
qed

lemma client_cert_verify_runs:
  fixes P :: "('p, 's, 'h) CryptoProvider"
  assumes laws: "aead_laws cs seal" "8 \<le> IvLen cs"
    and c: "length (enc_iv (w_state (client_state (co_keys c)))) = IvLen cs" "wb_idle (co_tx c)" "good (co_transport c)"
      "unat (counter (w_state (client_state (co_keys c)))) + 1 < 2 ^ 64"
    and s: "prov_signer P (co_provider c) = (Ok scheme, p1)"
      "digest = digest_finalize cs (transcript_hash (server_state (co_keys c)))" "length digest \<le> 48"
      "prov_sign P (rfc_signed digest) p1 = (sig, p2)" "length sig \<le> SIGNATURE_SIZE rsa"
    and m: "m = client_handshake_wire cs (public_key P) (CH_ClientCertVerify \<lparr>signature_scheme = scheme, signature = sig\<rparr>)"
      "6 + length m + TagSize cs \<le> length (wb_buffer (co_tx c))"
  shows "\<exists>c'. process_blocking rsa cs P T config ST_ClientCertVerify c = (Ok ST_ClientFinished, c') \<and>
    sent (co_transport c') = sent (co_transport c) @ sealed_record cs seal (w_state (client_state (co_keys c))) (m @ [22]) \<and>
    transcript_hash (server_state (co_keys c')) = digest_update cs (transcript_hash (server_state (co_keys c))) m \<and>
    co_provider c' = p2 \<and> stream (co_transport c') = stream (co_transport c)"
proof -
  let ?m = "CH_ClientCertVerify \<lparr>signature_scheme = scheme, signature = sig\<rparr> :: 's ClientHandshake"
  let ?c = "c\<lparr>co_provider := p2\<rparr>"
  let ?tx = "sealed_record cs seal (w_state (client_state (co_keys c))) (m @ [22])"
  have room: "6 + length (client_handshake_wire cs (public_key P) ?m) + TagSize cs \<le> length (wb_buffer (co_tx ?c))"
    using m by simp
  have ok: "client_handshake_ok ?m" by simp
  obtain c1 where c1: "tx_write_record cs (public_key P) (CR_Handshake ?m True) ?c = (Ok ?tx, c1)"
    "co_transport c1 = co_transport c" "client_state (co_keys c1) = client_state (co_keys c)" "co_provider c1 = p2"
    "transcript_hash (server_state (co_keys c1)) = digest_update cs (transcript_hash (server_state (co_keys c))) m"
    using sealed_handshake_step [OF laws, of ?c ?m "public_key P"] c(1,2) ok room m(1) by auto
  have v: "client_cert_verify rsa cs P c = (Ok (Ok ST_ClientFinished, ?tx), c1)"
    using s c1(1) by (simp add: client_cert_verify_def bnd_def attempt_def zoom_def cert_verify_msg_value vec_extend_def)
  obtain t' where "respond_blocking T ?tx c1 = (Ok (), c1\<lparr>co_keys := bump_write (co_keys c1), co_transport := t'\<rparr>)"
    "stream t' = stream (co_transport c)" "sent t' = sent (co_transport c) @ ?tx"
    using respond_sends [of c1 ?tx] c1(2,3) c(3,4) by auto
  with v c1 show ?thesis
    by (intro exI [of _ "c1\<lparr>co_keys := bump_write (co_keys c1), co_transport := t'\<rparr>"])
      (simp add: process_blocking_def bnd_def bump_write_def)
qed

lemma client_cert_runs:
  fixes P :: "('p, 's, 'h) CryptoProvider"
  assumes laws: "aead_laws cs seal" "8 \<le> IvLen cs"
    and c: "length (enc_iv (w_state (client_state (co_keys c)))) = IvLen cs" "wb_idle (co_tx c)" "good (co_transport c)"
      "unat (counter (w_state (client_state (co_keys c)))) + 1 < 2 ^ 64"
    and r: "hs_certificate_request (co_handshake c) = Some req" "prov_client_cert P (co_provider c) = (cert, p1)"
    and es: "es = (case cert of None \<Rightarrow> [] | Some crt \<Rightarrow> [CertificateEntryRef_from crt])" "list_all entry_dom es"
    and m: "m = [11] @ prefixed24 (prefixed8 (creq_request_context req) @ prefixed24 (concat (map entry_wire es)))"
      "6 + length m + TagSize cs \<le> length (wb_buffer (co_tx c))"
  shows "\<exists>c'. process_blocking rsa cs P T config ST_ClientCert c =
      (Ok (if cert = None then ST_ClientFinished else ST_ClientCertVerify), c') \<and>
    sent (co_transport c') = sent (co_transport c) @ sealed_record cs seal (w_state (client_state (co_keys c))) (m @ [22]) \<and>
    transcript_hash (server_state (co_keys c')) = digest_update cs (transcript_hash (server_state (co_keys c))) m \<and>
    hs_traffic_hash (co_handshake c') = Some (transcript_hash (server_state (co_keys c))) \<and>
    co_provider c' = p1 \<and> stream (co_transport c') = stream (co_transport c)"
proof -
  let ?crt = "(CertificateRef_with_context (creq_request_context req))\<lparr>cr_entries := es\<rparr>"
  let ?m = "CH_ClientCert ?crt :: 's ClientHandshake"
  let ?c = "c\<lparr>co_handshake := (co_handshake c)\<lparr>hs_traffic_hash := Some (transcript_hash (server_state (co_keys c)))\<rparr>, co_provider := p1\<rparr>"
  let ?tx = "sealed_record cs seal (w_state (client_state (co_keys c))) (m @ [22])"
  have wire: "client_handshake_wire cs (public_key P) ?m = m"
    using m(1) by (simp add: client_handshake_wire_def CertificateRef_wire_def CertificateRef_with_context_def)
  have ok: "client_handshake_ok ?m" using es(2) by simp
  have room: "6 + length (client_handshake_wire cs (public_key P) ?m) + TagSize cs \<le> length (wb_buffer (co_tx ?c))"
    unfolding wire using m(2) by simp
  obtain c1 where c1: "tx_write_record cs (public_key P) (CR_Handshake ?m True) ?c = (Ok ?tx, c1)"
    "co_transport c1 = co_transport c" "client_state (co_keys c1) = client_state (co_keys c)" "co_provider c1 = p1"
    "co_handshake c1 = co_handshake ?c"
    "transcript_hash (server_state (co_keys c1)) = digest_update cs (transcript_hash (server_state (co_keys c))) m"
    using sealed_handshake_step [OF laws _ _ ok room] c(1,2) wire by auto
  have "client_cert cs P c = (Ok (if cert = None then ST_ClientFinished else ST_ClientCertVerify, ?tx), c1)"
    using r c1(1) es(1)
    by (cases cert) (simp_all add: client_cert_def bnd_def zoom_def CertificateRef_add_def vec_push_def CertificateRef_with_context_def)
  moreover obtain t' where "respond_blocking T ?tx c1 = (Ok (), c1\<lparr>co_keys := bump_write (co_keys c1), co_transport := t'\<rparr>)"
    "stream t' = stream (co_transport c)" "sent t' = sent (co_transport c) @ ?tx"
    using respond_sends [of c1 ?tx] c1(2,3) c(3,4) by auto
  ultimately show ?thesis
    using c1 by (intro exI [of _ "c1\<lparr>co_keys := bump_write (co_keys c1), co_transport := t'\<rparr>"])
      (simp add: process_blocking_def bnd_def bump_write_def)
qed

end

section \<open>Aborting\<close>

text \<open>A program that never fails with \<open>AbortHandshake\<close>, and what is one.\<close>

definition no_abort :: "('s, 'a, TlsError) prog \<Rightarrow> bool" where
  "no_abort m \<longleftrightarrow> (\<forall>s l d. fst (m s) \<noteq> Err (AbortHandshake l d))"

definition abort_free :: "('a, TlsError) result \<Rightarrow> bool" where
  "abort_free r \<longleftrightarrow> (\<forall>l d. r \<noteq> Err (AbortHandshake l d))"

lemma no_abort_bnd: "no_abort m \<Longrightarrow> (\<And>a. no_abort (f a)) \<Longrightarrow> no_abort (bnd m f)"
  by (auto simp: no_abort_def bnd_def split: prod.splits result.splits) (metis fst_conv)+

lemma no_abort_value: "(\<And>s. abort_free (g s)) \<Longrightarrow> no_abort (\<lambda>s. (g s, h s))"
  by (simp add: no_abort_def abort_free_def)

lemma no_abort_zoom: "no_abort m \<Longrightarrow> no_abort (zoom get put m)"
  by (auto simp: no_abort_def zoom_def split: prod.splits) (metis fst_conv)

lemma no_abort_at: "(\<And>s. no_abort (f s)) \<Longrightarrow> no_abort (\<lambda>s. f s s)"
  by (simp add: no_abort_def)

lemma no_abort_modify: "no_abort (modify f)" "no_abort (ret x)" "no_abort (\<lambda>s. (Ok (g s), f s))"
  by (simp_all add: no_abort_def)

lemma no_abort_ok_or: "no_abort (ok_or InternalError x)" "no_abort (ok_or InvalidHandshake x)" "no_abort (ok_or InvalidKeyShare x)"
  by (cases x; simp add: no_abort_def ok_or_def)+

lemma no_abort_from_result: "abort_free r \<Longrightarrow> no_abort (from_result r)"
  by (simp add: no_abort_def abort_free_def)

lemma abort_free_and_then: "abort_free r \<Longrightarrow> (\<And>a. abort_free (f a)) \<Longrightarrow> abort_free (and_then r f)"
  by (cases r) (simp_all add: abort_free_def)

lemma abort_free_or_err: "abort_free (or_err InternalError x)" "abort_free (or_err CryptoError x)"
  by (cases x; simp add: abort_free_def)+

lemma abort_free_label: "abort_free (make_expanded_hkdf_label cs N k label ctx)"
proof -
  have e: "abort_free (label_extend cs x b)" for x b
    unfolding label_extend_def by (intro abort_free_or_err)
  have c: "abort_free (label_context cs ctx b)" for b
    by (auto simp: label_context_def intro: abort_free_or_err abort_free_and_then e split: ContextType.splits)
  have p: "abort_free (Panic :: (bytes, TlsError) result)" by (simp add: abort_free_def)
  have h: "abort_free (hkdf_label cs N label ctx)"
    unfolding hkdf_label_def Let_def by (intro abort_free_and_then e) (auto intro!: abort_free_and_then e c p)
  have s: "abort_free (Secret_as_ref k)" by (cases k) (simp_all add: abort_free_def)
  show ?thesis unfolding make_expanded_hkdf_label_def by (intro abort_free_and_then h s abort_free_or_err)
qed

lemmas no_abort_intros = no_abort_bnd no_abort_zoom no_abort_modify no_abort_ok_or no_abort_from_result abort_free_label

lemma no_abort_derived: "no_abort (SharedState_derived cs)"
proof -
  have "abort_free (SharedState_derive_secret cs label ctx s)" for label ctx s
    unfolding SharedState_derive_secret_def by (rule abort_free_label)
  then show ?thesis by (auto simp: no_abort_def SharedState_derived_def abort_free_def split: result.splits)
qed

lemma no_abort_handshake_secret: "no_abort (initialize_handshake_secret cs ikm)"
proof -
  have v: "no_abort (\<lambda>s. (make_expanded_hkdf_label cs n (traffic_secret s) label ctx, s))" for n label ctx
    by (rule no_abort_value) (rule abort_free_label)
  have t: "no_abort (calculate_traffic_secret cs label sh h)" for label sh h
    unfolding calculate_traffic_secret_def SharedState_derive_secret_def by (intro no_abort_intros v)
  have "no_abort (calculate_traffic_secrets cs cl sl)" for cl sl
    unfolding calculate_traffic_secrets_def by (rule no_abort_bnd; rule no_abort_at; intro no_abort_zoom t)
  then show ?thesis unfolding initialize_handshake_secret_def by (intro no_abort_intros no_abort_derived)
qed

text \<open>Processing a ServerHello never aborts, and processing a record does not touch the transport.\<close>

lemma process_server_hello_no_abort: "process_server_hello cs P rec c \<noteq> (Err (AbortHandshake l d), c')"
proof -
  have "no_abort (process_server_hello cs P rec)"
    unfolding process_server_hello_def
    by (cases rec; (simp split: ServerHandshake.split)?)
      (auto intro!: no_abort_intros no_abort_handshake_secret simp: no_abort_def [of "fail _"])
  then show ?thesis by (metis no_abort_def fst_conv)
qed

lemma server_hello_step_transport: "process_server_hello cs P rec c = (q, c') \<Longrightarrow> co_transport c' = co_transport c"
  by (auto simp: process_server_hello_def bnd_def zoom_def ok_or_def split: ServerRecord.splits ServerHandshake.splits option.splits
      prod.splits result.splits)

lemma server_verify_step_keeps:
  "process_server_verify cs P rec c = (q, c') \<Longrightarrow>
     co_transport c' = co_transport c \<and> co_tx c' = co_tx c \<and> client_state (co_keys c') = client_state (co_keys c)"
  by (auto simp: process_server_verify_def split: prod.splits)

context duplex
begin

lemma abort_runs:
  assumes "wb_idle (co_tx c)" "7 \<le> length (wb_buffer (co_tx c))" "good (co_transport c)"
    "unat (counter (w_state (client_state (co_keys c)))) + 1 < 2 ^ 64"
  shows "\<exists>c'. handle_processing_error_blocking cs pk T (Err (AbortHandshake l d)) c = (Err (AbortHandshake l d), c') \<and>
    sent (co_transport c') = sent (co_transport c) @ [20, 3, 1, 0, 2] @ Alert_wire \<lparr>alert_level = l, alert_description = d\<rparr>"
proof -
  let ?a = "\<lparr>alert_level = l, alert_description = d\<rparr>"
  let ?tx = "[20, 3, 1, 0, 2] @ Alert_wire ?a" and ?h = "transcript_hash (server_state (co_keys c))"
  obtain w' where "write_record cs pk (CR_Alert ?a False) (client_state (co_keys c)) (co_tx c, Some ?h) = (Ok ?tx, w', Some ?h)"
    using write_alert_plain [OF assms(1,2), of cs pk ?a "client_state (co_keys c)" ?h] by auto
  then have w: "tx_write_record cs pk (CR_Alert ?a False) c = (Ok ?tx, c\<lparr>co_tx := w'\<rparr>)"
    by (simp add: tx_write_record_def replace_transcript_hash_def)
  obtain t' where "respond_blocking T ?tx (c\<lparr>co_tx := w'\<rparr>) =
      (Ok (), c\<lparr>co_tx := w', co_keys := bump_write (co_keys c), co_transport := t'\<rparr>)" "sent t' = sent (co_transport c) @ ?tx"
    using respond_sends [of "c\<lparr>co_tx := w'\<rparr>" ?tx] assms(3,4) by auto
  with w show ?thesis by (simp add: handle_processing_error_blocking_def bnd_def)
qed

text \<open>Reading a record sends nothing, and a record that was read leaves the transport in a good state.\<close>

lemma rx_read_sends_nothing:
  assumes "rx_read_record cs T c = (q, c1)"
  shows "sent (co_transport c1) = sent (co_transport c) \<and> co_tx c1 = co_tx c \<and> client_state (co_keys c1) = client_state (co_keys c) \<and>
    (good (co_transport c) \<longrightarrow> (\<exists>rec. q = Ok rec) \<longrightarrow> good (co_transport c1))"
proof -
  obtain rr t rks where r: "read_blocking cs (t_read T) (co_reader c, co_transport c, server_state (co_keys c)) = (q, rr, t, rks)"
    and c1: "c1 = c\<lparr>co_reader := rr, co_transport := t, co_keys := (co_keys c)\<lparr>server_state := rks\<rparr>\<rparr>"
    using assms by (auto simp: rx_read_record_def split: prod.splits)
  have "sent t = sent (co_transport c)"
    by (rule read_blocking_keeps [OF _ _ r, where I = "\<lambda>u. sent u = sent (co_transport c)"])
      (use read_keeps_sent in \<open>auto, metis prod.collapse\<close>)
  with c1 r show ?thesis by (auto dest: read_blocking_shrinks)
qed

text \<open>The alert is sent exactly for an abort that \<open>process_server_verify\<close> raised.\<close>

lemma server_step_sends:
  assumes "wb_idle (co_tx c)" "7 \<le> length (wb_buffer (co_tx c))" "good (co_transport c)"
    and "unat (counter (w_state (client_state (co_keys c)))) + 1 < 2 ^ 64"
    and st: "st = ST_ServerHello \<or> st = ST_ServerVerify" and r: "process_blocking rsa cs P T config st c = (q, c')"
  shows "sent (co_transport c') = sent (co_transport c) @ (case q of
      Err (AbortHandshake l d) \<Rightarrow> if \<exists>rec. fst (rx_read_record cs T c) = Ok rec
        then [20, 3, 1, 0, 2] @ Alert_wire \<lparr>alert_level = l, alert_description = d\<rparr> else []
    | _ \<Rightarrow> [])"
proof -
  obtain rq c1 where rx: "rx_read_record cs T c = (rq, c1)" by fastforce
  note c1 = rx_read_sends_nothing [OF rx]
  show ?thesis
  proof (cases rq)
    case (Ok rec)
    obtain f where f: "process_blocking rsa cs P T config st c = bnd (attempt f) (handle_processing_error_blocking cs (public_key P) T) c1"
      and "f = process_server_hello cs P rec \<or> f = process_server_verify cs P rec"
      using st rx Ok that by (auto simp: process_blocking_def bnd_def)
    then have keep: "co_transport c2 = co_transport c1 \<and> (\<forall>l d. fq = Err (AbortHandshake l d) \<longrightarrow>
        co_tx c2 = co_tx c1 \<and> client_state (co_keys c2) = client_state (co_keys c1))" if "f c1 = (fq, c2)" for fq c2
      using that process_server_hello_no_abort server_hello_step_transport server_verify_step_keeps by metis
    obtain fq c2 where c2: "f c1 = (fq, c2)" by fastforce
    show ?thesis
    proof (cases "\<exists>l d. fq = Err (AbortHandshake l d)")
      case True
      then obtain l d where fq: "fq = Err (AbortHandshake l d)" by blast
      with keep [OF c2] c1 Ok assms(1-4) obtain c3 where
        "handle_processing_error_blocking cs (public_key P) T fq c2 = (fq, c3)"
        "sent (co_transport c3) = sent (co_transport c) @ [20, 3, 1, 0, 2] @ Alert_wire \<lparr>alert_level = l, alert_description = d\<rparr>"
        using abort_runs [of c2 cs "public_key P" l d] by auto
      with r f c2 fq rx Ok show ?thesis by (simp add: bnd_def attempt_def)
    next
      case False
      then have "handle_processing_error_blocking cs (public_key P) T fq c2 = (fq, c2)"
        by (auto simp: handle_processing_error_blocking_def split: result.splits TlsError.splits)
      with r f c2 have "q = fq" "c' = c2" by (cases fq; auto simp: bnd_def attempt_def)+
      with False keep [OF c2] c1 show ?thesis by (auto split: result.splits TlsError.splits)
    qed
  qed (use r st rx c1 in \<open>auto simp: process_blocking_def bnd_def split: TlsError.splits\<close>)
qed

end

section \<open>Properties\<close>

text \<open>Client authentication, the certificate: asked for a certificate, the client sends a protected Certificate
  message with the context of the request and its certificate, or none, as the provider gives it; it goes on to
  CertificateVerify exactly when it sent one, keeps the transcript hash of the server's Finished for the
  application keys, and adds the message to the transcript.\<close>

theorem client_certificate_sent:
  assumes "duplex T stream good sent" and "aead_laws cs seal" and "8 \<le> IvLen cs"
    and "length (enc_iv (w_state (client_state (co_keys c)))) = IvLen cs" and "wb_idle (co_tx c)" and "good (co_transport c)"
    and "unat (counter (w_state (client_state (co_keys c)))) + 1 < 2 ^ 64"
    and "hs_certificate_request (co_handshake c) = Some req" and "prov_client_cert P (co_provider c) = (cert, p1)"
    and "es = (case cert of None \<Rightarrow> [] | Some crt \<Rightarrow> [CertificateEntryRef_from crt])" and "list_all entry_dom es"
    and "m = [11] @ prefixed24 (prefixed8 (creq_request_context req) @ prefixed24 (concat (map entry_wire es)))"
    and "6 + length m + TagSize cs \<le> length (wb_buffer (co_tx c))"
  shows "\<exists>c'. process_blocking rsa cs P T config ST_ClientCert c =
      (Ok (if cert = None then ST_ClientFinished else ST_ClientCertVerify), c') \<and>
    sent (co_transport c') = sent (co_transport c) @ sealed_record cs seal (w_state (client_state (co_keys c))) (m @ [22]) \<and>
    transcript_hash (server_state (co_keys c')) = digest_update cs (transcript_hash (server_state (co_keys c))) m \<and>
    hs_traffic_hash (co_handshake c') = Some (transcript_hash (server_state (co_keys c))) \<and>
    co_provider c' = p1 \<and> stream (co_transport c') = stream (co_transport c)"
  by (rule duplex.client_cert_runs [OF assms])

text \<open>A connection in the middle of the handshake, and a provider with a certificate and a key.\<close>

definition toy_mid :: "(ChunkDuplex, bytes, bytes, bytes, unit) Conn" where
  "toy_mid = \<lparr>co_transport = toy_socket [], co_handshake = Handshake_new\<lparr>hs_certificate_request :=
       Some (CertificateRequest [6])\<rparr>, co_reader = RecordReader_new [],
     co_tx = \<lparr>wb_buffer = replicate 300 0, wb_pos = 0, wb_current_header = None\<rparr>,
     co_keys = (KeySchedule_new toy_suite)\<lparr>client_state := toy_wks, server_state := toy_rks\<rparr>, co_provider = ()\<rparr>"

definition auth_provider :: "(unit, bytes, bytes) CryptoProvider" where
  "auth_provider = toy_provider\<lparr>prov_client_cert := (\<lambda>p. (Some (Cert_X509 [1, 2]), p)),
     prov_signer := ret SS_Ed25519, prov_sign := (\<lambda>m p. (take 8 m, p))\<rparr>"

lemma toy_mid_sel: "length (enc_iv (w_state (client_state (co_keys toy_mid)))) = IvLen toy_suite" "wb_idle (co_tx toy_mid)"
  "0 < chunk_size (cd_in (co_transport toy_mid))" "unat (counter (w_state (client_state (co_keys toy_mid)))) + 1 < 2 ^ 64"
  "hs_certificate_request (co_handshake toy_mid) = Some (CertificateRequest [6])" "length (wb_buffer (co_tx toy_mid)) = 300"
  "cd_out (co_transport toy_mid) = []" "transcript_hash (server_state (co_keys toy_mid)) = []"
  "w_state (client_state (co_keys toy_mid)) = r_state toy_rks" "8 \<le> IvLen toy_suite"
  by (simp_all add: toy_mid_def wb_idle_def toy_socket_def toy_wks_sel toy_rks_def)

theorem client_certificate_sent_witness:
  "\<exists>c'. process_blocking False toy_suite auth_provider chunk_transport plain_config ST_ClientCert toy_mid = (Ok ST_ClientCertVerify, c') \<and>
    cd_out (co_transport c') = sealed_record toy_suite toy_seal (r_state toy_rks)
      (([11] @ prefixed24 (prefixed8 [6] @ prefixed24 ([0, 0, 2, 1, 2, 0, 0]))) @ [22])"
proof -
  have w: "concat (map entry_wire [CER_X509 [1, 2]]) = [0, 0, 2, 1, 2, 0, 0]"
    by (simp add: prefixed24_def u32_to_be_bytes_def)
  have p: "prov_client_cert auth_provider (co_provider toy_mid) = (Some (Cert_X509 [1, 2]), ())"
    by (simp add: auth_provider_def)
  have es: "[CER_X509 [1, 2]] = (case Some (Cert_X509 [1, 2]) of None \<Rightarrow> [] | Some crt \<Rightarrow> [CertificateEntryRef_from crt])"
    by simp
  have d: "list_all entry_dom [CER_X509 [1, 2]]" by simp
  let ?m = "[11] @ prefixed24 (prefixed8 (creq_request_context (CertificateRequest [6])) @ prefixed24 (concat (map entry_wire [CER_X509 [1, 2]])))"
  have r: "6 + length ?m + TagSize toy_suite \<le> length (wb_buffer (co_tx toy_mid))"
    unfolding w by (simp add: toy_mid_sel prefixed24_def prefixed8_def)
  from client_certificate_sent [OF chunk_duplex.duplex_axioms toy_seal_laws toy_mid_sel(10,1-5) p es d refl r, of False plain_config]
  show ?thesis unfolding w toy_mid_sel(7,9) by auto
qed

text \<open>C30. Client authentication, the signature: the client signs exactly the content of RFC 8446, section 4.4.3, over the
  hash of the transcript so far, and sends the scheme and the signature as a protected CertificateVerify, which
  joins the transcript.\<close>

theorem client_signature_rfc8446:
  assumes "duplex T stream good sent" and "aead_laws cs seal" and "8 \<le> IvLen cs"
    and "length (enc_iv (w_state (client_state (co_keys c)))) = IvLen cs" and "wb_idle (co_tx c)" and "good (co_transport c)"
    and "unat (counter (w_state (client_state (co_keys c)))) + 1 < 2 ^ 64"
    and "prov_signer P (co_provider c) = (Ok scheme, p1)"
    and "digest = digest_finalize cs (transcript_hash (server_state (co_keys c)))" and "length digest \<le> 48"
    and "prov_sign P (rfc_signed digest) p1 = (sig, p2)" and "length sig \<le> SIGNATURE_SIZE rsa"
    and "m = client_handshake_wire cs (public_key P) (CH_ClientCertVerify \<lparr>signature_scheme = scheme, signature = sig\<rparr>)"
    and "6 + length m + TagSize cs \<le> length (wb_buffer (co_tx c))"
  shows "\<exists>c'. process_blocking rsa cs P T config ST_ClientCertVerify c = (Ok ST_ClientFinished, c') \<and>
    sent (co_transport c') = sent (co_transport c) @ sealed_record cs seal (w_state (client_state (co_keys c))) (m @ [22]) \<and>
    transcript_hash (server_state (co_keys c')) = digest_update cs (transcript_hash (server_state (co_keys c))) m \<and>
    co_provider c' = p2 \<and> stream (co_transport c') = stream (co_transport c)"
  by (rule duplex.client_cert_verify_runs [OF assms])

theorem client_signature_rfc8446_witness:
  "\<exists>c'. process_blocking False toy_suite auth_provider chunk_transport plain_config ST_ClientCertVerify toy_mid =
     (Ok ST_ClientFinished, c') \<and> cd_out (co_transport c') = sealed_record toy_suite toy_seal (r_state toy_rks)
      (client_handshake_wire toy_suite id (CH_ClientCertVerify \<lparr>signature_scheme = SS_Ed25519, signature = replicate 8 32\<rparr>) @ [22])"
proof -
  let ?d = "digest_finalize toy_suite (transcript_hash (server_state (co_keys toy_mid)))"
  have s: "prov_signer auth_provider (co_provider toy_mid) = (Ok SS_Ed25519, ())" by (simp add: auth_provider_def)
  have g: "prov_sign auth_provider (rfc_signed ?d) () = (replicate 8 32, ())" by (simp add: auth_provider_def rfc_signed_def)
  have pk: "public_key auth_provider = id" by (simp add: auth_provider_def toy_provider_def)
  have l: "length ?d \<le> 48" "length (replicate 8 32 :: bytes) \<le> SIGNATURE_SIZE False" by (simp_all add: SIGNATURE_SIZE_def)
  let ?m = "client_handshake_wire toy_suite (public_key auth_provider)
    (CH_ClientCertVerify \<lparr>signature_scheme = SS_Ed25519, signature = replicate 8 32\<rparr>)"
  have r: "6 + length ?m + TagSize toy_suite \<le> length (wb_buffer (co_tx toy_mid))"
    by (simp add: toy_mid_sel client_handshake_wire_def prefixed24_def prefixed16_def SignatureScheme_wire_def)
  from client_signature_rfc8446 [OF chunk_duplex.duplex_axioms toy_seal_laws toy_mid_sel(10,1-4) s refl l(1) g l(2) refl r, of plain_config]
  show ?thesis unfolding toy_mid_sel(7,9) pk by auto
qed

text \<open>C40. Aborting while the server's messages are read, in the states ServerHello and ServerVerify. When handling a record that was
  read ends in \<open>AbortHandshake\<close>, the client sends the alert before it returns the error, always in the clear and under
  the content type of ChangeCipherSpec, also when the handshake keys are in place. When reading the record
  itself ends in \<open>AbortHandshake\<close>, as for a bad extension in an unprotected ServerHello, no alert is sent, and neither
  is anything for any other outcome.\<close>

theorem abort_sends_plain_alert:
  assumes "duplex T stream good sent" and "wb_idle (co_tx c)" and "7 \<le> length (wb_buffer (co_tx c))" and "good (co_transport c)"
    and "unat (counter (w_state (client_state (co_keys c)))) + 1 < 2 ^ 64" and "st = ST_ServerHello \<or> st = ST_ServerVerify"
    and "process_blocking rsa cs P T config st c = (q, c')"
  shows "sent (co_transport c') = sent (co_transport c) @ (case q of
      Err (AbortHandshake l d) \<Rightarrow> if \<exists>rec. fst (rx_read_record cs T c) = Ok rec
        then [20, 3, 1, 0, 2] @ Alert_wire \<lparr>alert_level = l, alert_description = d\<rparr> else []
    | _ \<Rightarrow> [])"
  by (rule duplex.server_step_sends [OF assms])

text \<open>EncryptedExtensions with a key share, which has no place there: sent in the clear instead of the ServerHello, and
  protected in the server's flight.\<close>

definition bad_ee :: bytes where
  "bad_ee = [8, 0, 0, 6, 0, 4, 0, 51, 0, 0]"

definition abort_conn :: "bytes \<Rightarrow> (ChunkDuplex, bytes, bytes, bytes, unit) Conn" where
  "abort_conn bs = toy_mid\<lparr>co_transport := toy_socket bs, co_reader := RecordReader_new (replicate 30 0)\<rparr>"

lemma bad_ee_aborts:
  "ServerHandshake_read toy_suite (\<lparr>pos = 0, buffer = bad_ee\<rparr>, h) =
     (Err (AbortHandshake AL_Fatal AD_IllegalParameter), \<lparr>pos = 10, buffer = bad_ee\<rparr>, h)"
proof -
  have t: "HandshakeType_parse \<lparr>pos = 0, buffer = bad_ee\<rparr> = (Ok HT_EncryptedExtensions, \<lparr>pos = 1, buffer = bad_ee\<rparr>)" by code_simp
  have "EncryptedExtensionsExtension_parse_vector 16 \<lparr>pos = 4, buffer = bad_ee\<rparr> =
      (Err (AbortHandshake AL_Fatal AD_IllegalParameter), \<lparr>pos = 10, buffer = bad_ee\<rparr>)"
    by code_simp
  moreover have "pb_read_u24 \<lparr>pos = 1, buffer = bad_ee\<rparr> = (Ok (u32_from_be_bytes 0 0 0 6), \<lparr>pos = 4, buffer = bad_ee\<rparr>)"
    by (simp add: pb_read_u24_value bad_ee_def)
  ultimately show ?thesis
    by (simp add: ServerHandshake_read_def ServerHandshake_parse_def EncryptedExtensions_parse_def bnd_def map_err_def t Let_def)
qed

lemma abort_conn_sel:
  "wb_idle (co_tx (abort_conn bs))" "7 \<le> length (wb_buffer (co_tx (abort_conn bs)))"
  "0 < chunk_size (cd_in (co_transport (abort_conn bs)))" "unat (counter (w_state (client_state (co_keys (abort_conn bs))))) + 1 < 2 ^ 64"
  "chunk_data (cd_in (co_transport (abort_conn bs))) = bs" "cd_out (co_transport (abort_conn bs)) = []"
  "rr_ok (co_reader (abort_conn bs))" "rr_pending (co_reader (abort_conn bs)) = 0" "length (rr_buf (co_reader (abort_conn bs))) = 30"
  "server_state (co_keys (abort_conn bs)) = toy_rks"
  using toy_mid_sel by (simp_all add: abort_conn_def toy_socket_def RecordReader_new_def rr_ok_def toy_mid_def)

lemma plain_abort:
  "\<exists>c'. rx_read_record toy_suite chunk_transport (abort_conn (record_header 22 3 3 bad_ee @ bad_ee)) =
     (Err (AbortHandshake AL_Fatal AD_IllegalParameter), c')"
proof -
  let ?h = "RecordHeader (record_header 22 3 3 bad_ee)"
  have ct: "ContentType_of 22 = Some CT_Handshake" by (simp add: ContentType_of_def)
  have l: "length bad_ee < 65536" "length bad_ee \<le> 30" by (simp_all add: bad_ee_def)
  have "RecordHeader_content_type ?h = Ok CT_Handshake" by (simp add: RecordHeader_content_type_def record_header_def ContentType_of_def)
  then have "ServerRecord_decode toy_suite ?h base bad_ee h = (Err (AbortHandshake AL_Fatal AD_IllegalParameter), h)" for base h
    using record_header_content_length [OF l(1), of 22 3 3] by (simp add: ServerRecord_decode_def pb_new_def bad_ee_aborts)
  then show ?thesis
    using chunk_duplex.rx_reads [OF abort_conn_sel(3) _ record_header_length record_header_decodes [OF ct]
        record_header_content_length [OF l(1)] abort_conn_sel(7,8), of "record_header 22 3 3 bad_ee @ bad_ee" 3 3 "[]" toy_suite]
      abort_conn_sel(5,9) l(2) by auto
qed

lemma protected_abort:
  assumes "c = abort_conn (sealed_record toy_suite toy_seal (r_state toy_rks) (bad_ee @ [22]))"
  shows "\<exists>rec c1 c2. rx_read_record toy_suite chunk_transport c = (Ok rec, c1) \<and>
    process_server_verify toy_suite P rec c1 = (Err (AbortHandshake AL_Fatal AD_IllegalParameter), c2)"
proof -
  obtain payload where p: "sealed_record toy_suite toy_seal (r_state toy_rks) (bad_ee @ [22]) = record_header 23 3 3 payload @ payload"
    "payload = toy_seal (enc_key (r_state toy_rks)) (rfc_nonce (counter (r_state toy_rks)) (enc_iv (r_state toy_rks)))
       (record_header 23 3 3 payload) (bad_ee @ [22])" "length payload = length (bad_ee @ [22]) + TagSize toy_suite"
    by (rule sealed_record_split [OF toy_seal_laws])
  have l: "length payload < 65536" "length payload \<le> 30" using p(3) by (simp_all add: bad_ee_def)
  have ct: "ContentType_of 23 = Some CT_ApplicationData" by (simp add: ContentType_of_def)
  have st: "chunk_data (cd_in (co_transport c)) = record_header 23 3 3 payload @ payload @ []"
    using abort_conn_sel(5) p(1) assms by simp
  obtain c1 base where rx: "rx_read_record toy_suite chunk_transport c =
      (Ok (SR_ApplicationData \<lparr>app_header = RecordHeader (record_header 23 3 3 payload),
         app_data = cb_wrap_with_pos payload (length payload), app_base = base\<rparr>), c1)" "server_state (co_keys c1) = toy_rks"
    using chunk_duplex.rx_reads [OF _ st record_header_length record_header_decodes [OF ct] record_header_content_length [OF l(1)],
        of toy_suite] abort_conn_sel(3,7-10) l(2) assms by (auto simp: decode_protected_record [OF l(1)])
  let ?ad = "\<lparr>app_header = RecordHeader (record_header 23 3 3 payload), app_data = cb_wrap_with_pos payload (length payload), app_base = base\<rparr>"
  have ad: "cb_ok (app_data ?ad)" "cb_view (app_data ?ad) = toy_seal (enc_key (r_state toy_rks))
      (rfc_nonce (counter (r_state toy_rks)) (enc_iv (r_state toy_rks))) (header_data (app_header ?ad))
      (bad_ee @ [ContentType_as_u8 CT_Handshake] @ replicate 0 0)"
    using p(2) by (simp_all add: cb_wrap_with_pos_def cb_ok_def cb_view_def slice_of_def)
  have ne: "CT_Handshake \<noteq> CT_Invalid" by simp
  obtain d where d: "cb_ok d" "cb_view d = bad_ee" "decrypt_record toy_suite (SR_ApplicationData ?ad) (server_verify_cb toy_suite P)
      (rr_buf (co_reader c1), toy_rks, ST_ServerVerify, co_handshake c1, co_provider c1) =
      (case dispatch_inner toy_suite (server_verify_cb toy_suite P) ?ad CT_Handshake d
          (toy_rks, ST_ServerVerify, co_handshake c1, co_provider c1) of
         (Ok _, rks', u') \<Rightarrow> (case read_increment_counter rks' of (r, rks'') \<Rightarrow> (r, app_store ?ad d (rr_buf (co_reader c1)), rks'', u'))
       | (Err e, rks', u') \<Rightarrow> (Err e, app_store ?ad d (rr_buf (co_reader c1)), rks', u')
       | (Panic, rks', u') \<Rightarrow> (Panic, app_store ?ad d (rr_buf (co_reader c1)), rks', u'))"
    using decrypt_sealed [OF toy_seal_laws toy_rks_sel(1,2) ad(1) ne ad(2), of "server_verify_cb toy_suite P"
        "rr_buf (co_reader c1)" "(ST_ServerVerify, co_handshake c1, co_provider c1)"] by blast
  have "handshake_loop toy_suite (server_verify_cb toy_suite P) (pb_new bad_ee) (toy_rks, u) =
      (Err (AbortHandshake AL_Fatal AD_IllegalParameter), toy_rks, u)" for u
    by (subst handshake_loop.simps) (simp add: pb_new_def bad_ee_aborts, simp add: bad_ee_def)
  then have "\<exists>mem. decrypt_record toy_suite (SR_ApplicationData ?ad) (server_verify_cb toy_suite P)
      (rr_buf (co_reader c1), toy_rks, ST_ServerVerify, co_handshake c1, co_provider c1) =
      (Err (AbortHandshake AL_Fatal AD_IllegalParameter), mem, toy_rks, ST_ServerVerify, co_handshake c1, co_provider c1)"
    using d by (simp add: dispatch_inner_def)
  then obtain c2 where "process_server_verify toy_suite P (SR_ApplicationData ?ad) c1 =
      (Err (AbortHandshake AL_Fatal AD_IllegalParameter), c2)"
    using rx(2) by (auto simp: process_server_verify_def)
  with rx(1) show ?thesis by blast
qed

theorem abort_sends_plain_alert_witness:
  "cd_out (co_transport (snd (process_blocking False toy_suite toy_provider chunk_transport plain_config ST_ServerHello
      (abort_conn (record_header 22 3 3 bad_ee @ bad_ee))))) = [] \<and>
   cd_out (co_transport (snd (process_blocking False toy_suite toy_provider chunk_transport plain_config ST_ServerVerify
      (abort_conn (sealed_record toy_suite toy_seal (r_state toy_rks) (bad_ee @ [22])))))) = [20, 3, 1, 0, 2, 2, 47]"
proof -
  note sends = abort_sends_plain_alert [OF chunk_duplex.duplex_axioms abort_conn_sel(1-4)]
  let ?a = "abort_conn (record_header 22 3 3 bad_ee @ bad_ee)"
  let ?b = "abort_conn (sealed_record toy_suite toy_seal (r_state toy_rks) (bad_ee @ [22]))"
  obtain q a' where a: "process_blocking False toy_suite toy_provider chunk_transport plain_config ST_ServerHello ?a = (q, a')" by fastforce
  obtain r b' where b: "process_blocking False toy_suite toy_provider chunk_transport plain_config ST_ServerVerify ?b = (r, b')" by fastforce
  have "cd_out (co_transport a') = []"
    using sends [OF _ a] plain_abort by (auto simp: abort_conn_sel split: result.splits TlsError.splits)
  moreover have "r = Err (AbortHandshake AL_Fatal AD_IllegalParameter) \<and> (\<exists>rec. fst (rx_read_record toy_suite chunk_transport ?b) = Ok rec)"
  proof -
    obtain rec c1 c2 where c: "rx_read_record toy_suite chunk_transport ?b = (Ok rec, c1)"
      "process_server_verify toy_suite toy_provider rec c1 = (Err (AbortHandshake AL_Fatal AD_IllegalParameter), c2)"
      using protected_abort [OF refl] by blast
    have c1: "wb_idle (co_tx c2)" "7 \<le> length (wb_buffer (co_tx c2))" "0 < chunk_size (cd_in (co_transport c2))"
      "unat (counter (w_state (client_state (co_keys c2)))) + 1 < 2 ^ 64"
      using chunk_duplex.rx_read_sends_nothing [OF c(1)] server_verify_step_keeps [OF c(2)] abort_conn_sel(1-4) by auto
    with chunk_duplex.abort_runs [OF c1, of toy_suite "public_key toy_provider" AL_Fatal AD_IllegalParameter] b c show ?thesis
      by (auto simp: process_blocking_def bnd_def attempt_def)
  qed
  then have "cd_out (co_transport b') = [20, 3, 1, 0, 2, 2, 47]"
    using sends [OF _ b] by (auto simp: abort_conn_sel Alert_wire_def)
  ultimately show ?thesis using a b by simp
qed

end
