(* ===== verification/Async_Io.thy ===== *)
theory Async_Io
  imports Connection
begin

text \<open>
  The asynchronous halves of \<open>src/src/record_reader.rs\<close> and \<open>src/src/connection.rs\<close>. A transport operation of
  \<open>embedded_io_async\<close> is a future: each poll either is pending, after which it is polled again, or is ready with
  the result. An \<open>async fn\<close> is run to its end: its model is a program whose outcome is an option, \<^const>\<open>None\<close>
  when it waits forever. \<open>await\<close> polls, \<open>abnd\<close> is \<open>let x = m.await?; f(x)\<close>, \<open>sync\<close> is code without an \<open>await\<close>.
  The locale \<open>async_transport\<close> relates an asynchronous transport to the blocking one with the same outcomes and
  carries the equivalence of every \<open>async fn\<close> with its blocking twin.
\<close>

section \<open>Futures\<close>

datatype ('a, 'e) poll = Pending | Ready "('a, 'e) result"

type_synonym ('t, 'a, 'e) future = "'t \<Rightarrow> ('a, 'e) poll \<times> 't"
type_synonym ('s, 'a, 'e) aprog = "'s \<Rightarrow> (('a, 'e) result \<times> 's) option"

partial_function (option) await :: "('t, 'a, 'e) future \<Rightarrow> ('t, 'a, 'e) aprog" where
  "await f t = (case f t of (Ready r, t') \<Rightarrow> Some (r, t') | (Pending, t') \<Rightarrow> await f t')"

definition sync :: "('s, 'a, 'e) prog \<Rightarrow> ('s, 'a, 'e) aprog" where
  "sync m = (\<lambda>s. Some (m s))"

definition abnd :: "('s, 'a, 'e) aprog \<Rightarrow> ('a \<Rightarrow> ('s, 'b, 'e) aprog) \<Rightarrow> ('s, 'b, 'e) aprog" where
  "abnd m f = (\<lambda>s. case m s of
      None \<Rightarrow> None
    | Some (Ok a, s') \<Rightarrow> f a s'
    | Some (Err e, s') \<Rightarrow> Some (Err e, s')
    | Some (Panic, s') \<Rightarrow> Some (Panic, s'))"

abbreviation aseq :: "('s, 'a, 'e) aprog \<Rightarrow> ('s, 'b, 'e) aprog \<Rightarrow> ('s, 'b, 'e) aprog" where
  "aseq m n \<equiv> abnd m (\<lambda>_. n)"

definition amap_err :: "('e \<Rightarrow> 'f) \<Rightarrow> ('s, 'a, 'e) aprog \<Rightarrow> ('s, 'a, 'f) aprog" where
  "amap_err g m = (\<lambda>s. map_option (\<lambda>(r, s'). (res_map_err g r, s')) (m s))"

definition azoom :: "('s \<Rightarrow> 'f) \<Rightarrow> ('f \<Rightarrow> 's \<Rightarrow> 's) \<Rightarrow> ('f, 'a, 'e) aprog \<Rightarrow> ('s, 'a, 'e) aprog" where
  "azoom get put m = (\<lambda>s. map_option (\<lambda>(r, x). (r, put x s)) (m (get s)))"

record 't AsyncTransport =
  at_read :: "nat \<Rightarrow> ('t, bytes, ErrorKind) future"
  at_write_all :: "bytes \<Rightarrow> ('t, unit, ErrorKind) future"
  at_flush :: "('t, unit, ErrorKind) future"

type_synonym 't areader = "nat \<Rightarrow> ('t, bytes, ErrorKind) aprog"

abbreviation reads :: "'t AsyncTransport \<Rightarrow> 't areader" where
  "reads A n \<equiv> await (at_read A n)"

section \<open>The record reader\<close>

function async_header_loop :: "'t areader \<Rightarrow> bytes \<Rightarrow> ('t, bytes, TlsError) aprog" where
  "async_header_loop rd got t =
     (if length got = RecordHeader_LEN then Some (Ok got, t)
      else if RecordHeader_LEN < length got then Some (Panic, t)
      else case rd (RecordHeader_LEN - length got) t of
        None \<Rightarrow> None
      | Some (Ok bs, t') \<Rightarrow> if bs = [] then Some (Err IoError, t') else async_header_loop rd (got @ bs) t'
      | Some (Err k, t') \<Rightarrow> Some (Err (Io k), t')
      | Some (Panic, t') \<Rightarrow> Some (Panic, t'))"
  by pat_completeness auto
termination
  by (relation "measure (\<lambda>(rd, got, t). RecordHeader_LEN - length got)") (auto simp: length_greater_0_conv diff_less_mono2)

declare async_header_loop.simps [simp del]

definition next_record_header :: "'t areader \<Rightarrow> ('t, RecordHeader, TlsError) aprog" where
  "next_record_header rd = abnd (async_header_loop rd []) (\<lambda>buf. sync (from_result (RecordHeader_decode buf)))"

function async_advance_loop :: "'t areader \<Rightarrow> nat \<Rightarrow> nat \<Rightarrow> (RecordReader \<times> 't, unit, TlsError) aprog" where
  "async_advance_loop rd amount remain (r, t) =
     (if amount \<le> rr_pending r then Some (Ok (), r, t)
      else if length (rr_buf r) < rr_decoded r + rr_pending r + remain then Some (Panic, r, t)
      else case rd remain t of
        None \<Rightarrow> None
      | Some (Ok bs, t') \<Rightarrow>
          if bs = [] then Some (Err IoError, r, t')
          else if remain < length bs then Some (Panic, r, t')
          else async_advance_loop rd amount (remain - length bs)
                 (r\<lparr>rr_buf := write_at (rr_buf r) (rr_decoded r + rr_pending r) bs,
                    rr_pending := rr_pending r + length bs\<rparr>, t')
      | Some (Err k, t') \<Rightarrow> Some (Err (Io k), r, t')
      | Some (Panic, t') \<Rightarrow> Some (Panic, r, t'))"
  by pat_completeness auto
termination
  by (relation "measure (\<lambda>(rd, amount, remain, s). remain)") (auto simp: neq_Nil_conv)

declare async_advance_loop.simps [simp del]

definition advance :: "'t areader \<Rightarrow> nat \<Rightarrow> (RecordReader \<times> 't, unit, TlsError) aprog" where
  "advance rd amount = (\<lambda>(r, t).
     case ensure_contiguous amount r of
       (Ok _, r') \<Rightarrow> async_advance_loop rd amount amount (r', t)
     | (Err e, r') \<Rightarrow> Some (Err e, r', t)
     | (Panic, r') \<Rightarrow> Some (Panic, r', t))"

definition read_record ::
  "('h, 'k) TlsCipherSuite \<Rightarrow> 't areader \<Rightarrow>
     (RecordReader \<times> 't \<times> ('h, 'k) ReadKeySchedule, ServerRecord, TlsError) aprog" where
  "read_record cs rd = (\<lambda>(r, t, rks).
     case next_record_header rd t of
       None \<Rightarrow> None
     | Some (Err e, t1) \<Rightarrow> Some (Err e, r, t1, rks)
     | Some (Panic, t1) \<Rightarrow> Some (Panic, r, t1, rks)
     | Some (Ok header, t1) \<Rightarrow>
         (case advance rd (RecordHeader_content_length header) (r, t1) of
            None \<Rightarrow> None
          | Some (Err e, r1, t2) \<Rightarrow> Some (Err e, r1, t2, rks)
          | Some (Panic, r1, t2) \<Rightarrow> Some (Panic, r1, t2, rks)
          | Some (Ok _, r1, t2) \<Rightarrow>
              (case rr_consume cs header (r1, transcript_hash rks) of
                 (res, r2, h) \<Rightarrow> Some (res, r2, t2, rks\<lparr>transcript_hash := h\<rparr>))))"

section \<open>The handshake\<close>

abbreviation aon_transport :: "('t, 'a, 'e) aprog \<Rightarrow> (('t, 'h, 'k, 's, 'p) Conn, 'a, 'e) aprog" where
  "aon_transport \<equiv> azoom co_transport (\<lambda>x c. c\<lparr>co_transport := x\<rparr>)"

text \<open>\<open>record_reader.read(transport, key_schedule.read_state()).await\<close>.\<close>

definition async_rx_read_record ::
  "('h, 'k) TlsCipherSuite \<Rightarrow> 't AsyncTransport \<Rightarrow> (('t, 'h, 'k, 's, 'p) Conn, ServerRecord, TlsError) aprog" where
  "async_rx_read_record cs A = (\<lambda>c.
     map_option (\<lambda>(r, rr, t, rks).
         (r, c\<lparr>co_reader := rr, co_transport := t, co_keys := (co_keys c)\<lparr>server_state := rks\<rparr>\<rparr>))
       (read_record cs (reads A) (co_reader c, co_transport c, server_state (co_keys c))))"

definition respond :: "'t AsyncTransport \<Rightarrow> bytes \<Rightarrow> (('t, 'h, 'k, 's, 'p) Conn, unit, TlsError) aprog" where
  "respond A tx =
     aseq (amap_err Io (aon_transport (await (at_write_all A tx)))) (
     aseq (sync (on_keys (on_client write_increment_counter))) (
     amap_err Io (aon_transport (await (at_flush A)))))"

definition handle_processing_error ::
  "('h, 'k) TlsCipherSuite \<Rightarrow> ('s \<Rightarrow> bytes) \<Rightarrow> 't AsyncTransport \<Rightarrow> (State, TlsError) result \<Rightarrow>
     (('t, 'h, 'k, 's, 'p) Conn, State, TlsError) aprog" where
  "handle_processing_error cs pk A res = (case res of
     Err (AbortHandshake level description) \<Rightarrow>
       abnd (sync (tx_write_record cs pk
              (CR_Alert \<lparr>alert_level = level, alert_description = description\<rparr> False))) (\<lambda>tx.
       aseq (respond A tx) (
       sync (from_result res)))
   | _ \<Rightarrow> sync (from_result res))"

definition process ::
  "bool \<Rightarrow> ('h, 'k) TlsCipherSuite \<Rightarrow> ('p, 's, 'h) CryptoProvider \<Rightarrow> 't AsyncTransport \<Rightarrow> TlsConfig \<Rightarrow> State \<Rightarrow>
     (('t, 'h, 'k, 's, 'p) Conn, State, TlsError) aprog" where
  "process rsa cs P A config self = (case self of
     ST_ClientHello \<Rightarrow>
       abnd (sync (client_hello cs P config)) (\<lambda>(state, tx).
       aseq (respond A tx) (
       sync (ret state)))
   | ST_ServerHello \<Rightarrow>
       abnd (async_rx_read_record cs A) (\<lambda>rec.
       abnd (sync (attempt (process_server_hello cs P rec))) (\<lambda>result.
       handle_processing_error cs (public_key P) A result))
   | ST_ServerVerify \<Rightarrow>
       abnd (async_rx_read_record cs A) (\<lambda>rec.
       abnd (sync (attempt (process_server_verify cs P rec))) (\<lambda>result.
       handle_processing_error cs (public_key P) A result))
   | ST_ClientCert \<Rightarrow>
       abnd (sync (client_cert cs P)) (\<lambda>(state, tx).
       aseq (respond A tx) (
       sync (ret state)))
   | ST_ClientCertVerify \<Rightarrow>
       abnd (sync (client_cert_verify rsa cs P)) (\<lambda>(result, tx).
       aseq (respond A tx) (
       sync (from_result result)))
   | ST_ClientFinished \<Rightarrow>
       abnd (sync (client_finished cs (public_key P))) (\<lambda>tx.
       aseq (respond A tx) (
       sync (client_finished_finalize cs)))
   | ST_ApplicationData \<Rightarrow> sync (ret ST_ApplicationData))"

section \<open>Awaiting is blocking\<close>

lemma sync_apply [simp]: "sync m s = Some (m s)"
  by (simp add: sync_def)

lemma sync_bnd: "abnd (sync m) (\<lambda>a. sync (f a)) = sync (bnd m f)"
  by (simp add: fun_eq_iff abnd_def sync_def bnd_def split: prod.splits result.splits)

lemma sync_map_err: "amap_err g (sync m) = sync (map_err g m)"
  by (auto simp: fun_eq_iff amap_err_def sync_def map_err_def split: prod.splits result.splits)

lemma sync_zoom: "azoom get put (sync m) = sync (zoom get put m)"
  by (auto simp: fun_eq_iff azoom_def sync_def zoom_def split: prod.splits)

lemma sync_bnd_pair: "abnd (sync m) (\<lambda>(a, b). sync (f a b)) = sync (bnd m (\<lambda>(a, b). f a b))"
  by (simp add: fun_eq_iff abnd_def bnd_def split: prod.splits result.splits)

lemma sync_if: "(if b then sync m else sync n) = sync (if b then m else n)"
  by simp

named_theorems sync_simps \<open>an asynchronous program with the outcomes of a blocking one\<close>

lemmas [sync_simps] = sync_bnd sync_bnd_pair sync_map_err sync_zoom sync_if

lemma async_header_loop_Some:
  assumes "\<And>n t. ard n t = Some (rd n t)"
  shows "async_header_loop ard got t = Some (header_loop rd got t)"
  using assms
proof (induction rd got t rule: header_loop.induct)
  case (1 rd got t)
  show ?case
    unfolding async_header_loop.simps [of ard got t] header_loop.simps [of rd got t]
      1(2) [of "RecordHeader_LEN - length got" t]
    using 1(1) [OF _ _ _ _ _ 1(2)] by (auto split: prod.splits result.splits)
qed

lemma async_advance_loop_Some:
  assumes "\<And>n t. ard n t = Some (rd n t)"
  shows "async_advance_loop ard amount remain s = Some (advance_loop rd amount remain s)"
  using assms
proof (induction rd amount remain s rule: advance_loop.induct)
  case (1 rd amount remain r t)
  show ?case
    unfolding async_advance_loop.simps [of ard amount remain r t] advance_loop.simps [of rd amount remain r t]
      1(2) [of remain t]
    using 1(1) [OF _ _ _ _ _ _ 1(2)] by (auto split: prod.splits result.splits)
qed

lemma async_loops_sync [sync_simps]:
  "async_header_loop (\<lambda>n. sync (rd n)) got = sync (header_loop rd got)"
  "async_advance_loop (\<lambda>n. sync (rd n)) amount remain = sync (advance_loop rd amount remain)"
  by (simp_all add: fun_eq_iff async_header_loop_Some async_advance_loop_Some)

lemma read_record_sync [sync_simps]: "read_record cs (\<lambda>n. sync (rd n)) = sync (read_blocking cs rd)"
proof -
  have h: "next_record_header (\<lambda>n. sync (rd n)) = sync (next_record_header_blocking rd)"
    by (simp add: next_record_header_def next_record_header_blocking_def sync_simps)
  have a: "advance (\<lambda>n. sync (rd n)) amount = sync (advance_blocking rd amount)" for amount
    by (auto simp: advance_def advance_blocking_def sync_simps fun_eq_iff split: prod.splits result.splits)
  show ?thesis
    by (auto simp: fun_eq_iff read_record_def read_blocking_def h a split: prod.splits result.splits)
qed

text \<open>A transport all of whose futures complete, with the outcomes of a blocking transport.\<close>

locale async_transport =
  fixes A :: "'t AsyncTransport" and T :: "'t Transport"
  assumes read_completes: "await (at_read A n) t = Some (t_read T n t)"
    and write_completes: "await (at_write_all A bs) t = Some (t_write_all T bs t)"
    and flush_completes: "await (at_flush A) t = Some (t_flush T t)"
begin

lemma awaits: "reads A n = sync (t_read T n)" "await (at_write_all A bs) = sync (t_write_all T bs)"
  "await (at_flush A) = sync (t_flush T)"
  by (simp_all add: fun_eq_iff sync_def read_completes write_completes flush_completes)

lemma rx_read_record_sync: "async_rx_read_record cs A = sync (rx_read_record cs T)"
  by (auto simp: fun_eq_iff async_rx_read_record_def rx_read_record_def awaits sync_simps split: prod.splits)

lemma respond_sync: "respond A tx = sync (respond_blocking T tx)"
  by (simp add: respond_def respond_blocking_def awaits sync_simps)

lemma handle_processing_error_sync:
  "handle_processing_error cs pk A = (\<lambda>res. sync (handle_processing_error_blocking cs pk T res))"
proof
  show "handle_processing_error cs pk A res = sync (handle_processing_error_blocking cs pk T res)" for res
    by (cases res) (auto simp: handle_processing_error_def handle_processing_error_blocking_def respond_sync sync_simps split: TlsError.splits)
qed

lemma process_sync: "process rsa cs P A config st = sync (process_blocking rsa cs P T config st)"
  by (cases st)
    (auto simp: process_def process_blocking_def rx_read_record_sync respond_sync handle_processing_error_sync
      sync_simps)

end

end
