(* ===== verification/Async_Connection.thy ===== *)
theory Async_Connection
  imports Async_Io Blocking Toy_Server
begin

text \<open>
  The asynchronous connection of \<open>src/src/asynch.rs\<close>: \<open>TlsConnection\<close> with its halves \<open>TlsReader\<close> and \<open>TlsWriter\<close>,
  over an asynchronous transport. The structures have the fields of those of \<open>blocking.rs\<close> and share their records.
  Over a transport whose futures complete, every operation has the outcome and the effects of the
  blocking one.
\<close>

section \<open>The connection\<close>

type_synonym ('t, 'h, 'k) AsyncConnection = "('t, 'h, 'k) TlsConnection"
type_synonym ('t, 'h, 'k) AsyncReader = "('t, 'h, 'k) TlsReader"
type_synonym ('t, 'k) AsyncWriter = "('t, 'k) TlsWriter"

definition async_new ::
  "('h, 'k) TlsCipherSuite \<Rightarrow> 't \<Rightarrow> bytes \<Rightarrow> bytes \<Rightarrow> (('t, 'h, 'k) AsyncConnection, TlsError) result" where
  "async_new cs delegate record_read_buf record_write_buf =
     and_then (WriteBuffer_new record_write_buf) (\<lambda>w. Ok \<lparr>
       tc_delegate = delegate, tc_opened = False, tc_key_schedule = KeySchedule_new cs,
       tc_record_reader = RecordReader_new record_read_buf, tc_record_write_buf = w,
       tc_decrypted = DecryptedBufferInfo_default, tc_flush_policy = FlushPolicy_default\<rparr>)"

definition async_set_flush_policy ::
  "FlushPolicy \<Rightarrow> ('t, 'h, 'k) AsyncConnection \<Rightarrow> ('t, 'h, 'k) AsyncConnection" where
  "async_set_flush_policy policy k = k\<lparr>tc_flush_policy := policy\<rparr>"

abbreviation aon_delegate :: "('t, 'a, 'e) aprog \<Rightarrow> (('t, 'h, 'k) AsyncConnection, 'a, 'e) aprog" where
  "aon_delegate \<equiv> azoom tc_delegate (\<lambda>x k. k\<lparr>tc_delegate := x\<rparr>)"

subsection \<open>Opening\<close>

partial_function (option) async_open_loop ::
  "bool \<Rightarrow> ('h, 'k) TlsCipherSuite \<Rightarrow> ('p, 's, 'h) CryptoProvider \<Rightarrow> 't AsyncTransport \<Rightarrow> TlsConfig \<Rightarrow>
     State \<Rightarrow> ('t, 'h, 'k, 's, 'p) Conn \<Rightarrow> ((unit, TlsError) result \<times> ('t, 'h, 'k, 's, 'p) Conn) option" where
  "async_open_loop rsa cs P A config state c =
     (if state = ST_ApplicationData then Some (Ok (), c)
      else case process rsa cs P A config state c of
        None \<Rightarrow> None
      | Some (Ok st, c') \<Rightarrow> async_open_loop rsa cs P A config st c'
      | Some (Err e, c') \<Rightarrow> Some (Err e, c')
      | Some (Panic, c') \<Rightarrow> Some (Panic, c'))"

definition async_open ::
  "bool \<Rightarrow> ('h, 'k) TlsCipherSuite \<Rightarrow> ('p, 's, 'h) CryptoProvider \<Rightarrow> 't AsyncTransport \<Rightarrow> TlsConfig \<Rightarrow>
     ('t, 'h, 'k) AsyncConnection \<times> 'p \<Rightarrow> ((unit, TlsError) result \<times> ('t, 'h, 'k) AsyncConnection \<times> 'p) option" where
  "async_open rsa cs P A config = (\<lambda>(k, p).
     case open_hostname P config p of
       (Ok _, p1) \<Rightarrow>
         (case async_open_loop rsa cs P A config ST_ClientHello (open_borrow k p1) of
            None \<Rightarrow> None
          | Some (Ok _, c) \<Rightarrow> Some (Ok (), (open_return c k)\<lparr>tc_opened := True\<rparr>, co_provider c)
          | Some (Err e, c) \<Rightarrow> Some (Err e, open_return c k, co_provider c)
          | Some (Panic, c) \<Rightarrow> Some (Panic, open_return c k, co_provider c))
     | (Err e, p1) \<Rightarrow> Some (Err e, k, p1)
     | (Panic, p1) \<Rightarrow> Some (Panic, k, p1))"

subsection \<open>Writing\<close>

definition async_flush_transport :: "'t AsyncTransport \<Rightarrow> (('t, 'h, 'k) AsyncConnection, unit, TlsError) aprog" where
  "async_flush_transport A = amap_err Io (aon_delegate (await (at_flush A)))"

definition async_flush ::
  "('h, 'k) TlsCipherSuite \<Rightarrow> 't AsyncTransport \<Rightarrow> (('t, 'h, 'k) AsyncConnection, unit, TlsError) aprog" where
  "async_flush cs A = (\<lambda>k.
     if wb_is_empty (tc_record_write_buf k) then Some (Ok (), k)
     else
       (abnd (sync (on_write_buf (close_record cs (client_state (tc_key_schedule k))))) (\<lambda>slice.
        aseq (amap_err Io (aon_delegate (await (at_write_all A slice)))) (
        aseq (sync (on_schedule (on_client write_increment_counter))) (
        abnd (sync (gets tc_flush_policy)) (\<lambda>policy.
        if FlushPolicy_flush_transport policy then async_flush_transport A else sync (ret ())))))) k)"

definition async_write ::
  "('h, 'k) TlsCipherSuite \<Rightarrow> 't AsyncTransport \<Rightarrow> bytes \<Rightarrow> (('t, 'h, 'k) AsyncConnection, nat, TlsError) aprog" where
  "async_write cs A buf =
     abnd (sync (gets tc_opened)) (\<lambda>opened.
     if opened then
       abnd (sync (gets tc_record_write_buf)) (\<lambda>w.
       aseq (if \<not> wb_contains RH_ApplicationData w
             then aseq (async_flush cs A) (sync (on_write_buf (start_record RH_ApplicationData)))
             else sync (ret ())) (
       abnd (sync (on_write_buf (wb_append buf))) (\<lambda>buffered.
       abnd (sync (gets tc_record_write_buf)) (\<lambda>w.
       abnd (sync (from_result (wb_is_full w))) (\<lambda>full.
       aseq (if full then async_flush cs A else sync (ret ())) (
       sync (ret buffered)))))))
     else sync (fail MissingHandshake))"

subsection \<open>Reading\<close>

definition async_read_application_data ::
  "('h, 'k) TlsCipherSuite \<Rightarrow> 't AsyncTransport \<Rightarrow> (('t, 'h, 'k) AsyncConnection, unit, TlsError) aprog" where
  "async_read_application_data cs A = (\<lambda>k.
     let src_len = length (rr_buf (tc_record_reader k)) in
     case read_record cs (reads A) (tc_record_reader k, tc_delegate k, server_state (tc_key_schedule k)) of
       None \<Rightarrow> None
     | Some (q, rr, t, rks) \<Rightarrow>
         let k1 = k\<lparr>tc_record_reader := rr, tc_delegate := t,
                    tc_key_schedule := (tc_key_schedule k)\<lparr>server_state := rks\<rparr>\<rparr> in
         (case q of
           Ok rec \<Rightarrow>
             (case decrypt_record cs rec (handler_cb src_len) (rr_buf rr, rks, tc_decrypted k, tc_opened k) of
                (r, mem, rks', i, opened) \<Rightarrow>
                  Some (r, k1\<lparr>tc_record_reader := rr\<lparr>rr_buf := mem\<rparr>,
                         tc_key_schedule := (tc_key_schedule k)\<lparr>server_state := rks'\<rparr>,
                         tc_decrypted := i, tc_opened := opened\<rparr>))
         | Err e \<Rightarrow> Some (Err e, k1)
         | Panic \<Rightarrow> Some (Panic, k1)))"

partial_function (option) async_read_loop ::
  "('h, 'k) TlsCipherSuite \<Rightarrow> 't AsyncTransport \<Rightarrow> ('t, 'h, 'k) AsyncConnection \<Rightarrow>
     ((unit, TlsError) result \<times> ('t, 'h, 'k) AsyncConnection) option" where
  "async_read_loop cs A k = (case di_is_empty (tc_decrypted k) of
     Ok is_empty \<Rightarrow>
       if \<not> is_empty then Some (Ok (), k)
       else (case async_read_application_data cs A k of
           None \<Rightarrow> None
         | Some (Ok _, k') \<Rightarrow> async_read_loop cs A k'
         | Some (Err e, k') \<Rightarrow> Some (Err e, k')
         | Some (Panic, k') \<Rightarrow> Some (Panic, k'))
   | Err e \<Rightarrow> Some (Err e, k)
   | Panic \<Rightarrow> Some (Panic, k))"

definition async_create_read_buffer :: "('t, 'h, 'k) AsyncConnection \<Rightarrow> (ReadBuffer, TlsError) result" where
  "async_create_read_buffer k = di_create_read_buffer (rr_buf (tc_record_reader k)) (tc_decrypted k)"

definition async_read_buffered ::
  "('h, 'k) TlsCipherSuite \<Rightarrow> 't AsyncTransport \<Rightarrow> ('t, 'h, 'k) AsyncConnection \<Rightarrow>
     ((ReadBuffer, TlsError) result \<times> ('t, 'h, 'k) AsyncConnection) option" where
  "async_read_buffered cs A k =
     (if tc_opened k then
        (case async_read_loop cs A k of
           None \<Rightarrow> None
         | Some (Ok _, k') \<Rightarrow> Some (async_create_read_buffer k', k')
         | Some (Err e, k') \<Rightarrow> Some (Err e, k')
         | Some (Panic, k') \<Rightarrow> Some (Panic, k'))
      else Some (Err MissingHandshake, k))"

definition async_read ::
  "('h, 'k) TlsCipherSuite \<Rightarrow> 't AsyncTransport \<Rightarrow> bytes \<Rightarrow> ('t, 'h, 'k) AsyncConnection \<Rightarrow>
     ((nat \<times> bytes, TlsError) result \<times> ('t, 'h, 'k) AsyncConnection) option" where
  "async_read cs A buf k =
     (if buf = [] then Some (Ok (0, buf), k)
      else with_read_buffer (rb_pop_into buf) (async_read_buffered cs A k))"

definition async_fill_buf ::
  "('h, 'k) TlsCipherSuite \<Rightarrow> 't AsyncTransport \<Rightarrow> ('t, 'h, 'k) AsyncConnection \<Rightarrow>
     ((bytes, TlsError) result \<times> ('t, 'h, 'k) AsyncConnection) option" where
  "async_fill_buf cs A k = with_read_buffer rb_peek_all (async_read_buffered cs A k)"

definition async_consume :: "nat \<Rightarrow> (('t, 'h, 'k) AsyncConnection, unit, TlsError) prog" where
  "async_consume amt = (\<lambda>k. case async_create_read_buffer k of
     Ok b \<Rightarrow> (case rb_pop amt b of
         (Ok _, b') \<Rightarrow> (Ok (), drop_read_buffer b' k)
       | (Err e, b') \<Rightarrow> (Err e, drop_read_buffer b' k)
       | (Panic, b') \<Rightarrow> (Panic, drop_read_buffer b' k))
   | Err e \<Rightarrow> (Err e, k)
   | Panic \<Rightarrow> (Panic, k))"

subsection \<open>Closing\<close>

definition async_close_internal ::
  "('h, 'k) TlsCipherSuite \<Rightarrow> 't AsyncTransport \<Rightarrow> (('t, 'h, 'k) AsyncConnection, unit, TlsError) aprog" where
  "async_close_internal cs A =
     aseq (async_flush cs A) (
     abnd (sync (gets tc_opened)) (\<lambda>is_opened.
     abnd (sync (tc_write_record cs (ClientRecord_close_notify is_opened))) (\<lambda>slice.
     aseq (amap_err Io (aon_delegate (await (at_write_all A slice)))) (
     aseq (sync (on_schedule (on_client write_increment_counter))) (
     async_flush_transport A)))))"

definition async_close ::
  "('h, 'k) TlsCipherSuite \<Rightarrow> 't AsyncTransport \<Rightarrow> ('t, 'h, 'k) AsyncConnection \<Rightarrow> ('t, 't \<times> TlsError) result option" where
  "async_close cs A k = (case async_close_internal cs A k of
     None \<Rightarrow> None
   | Some (Ok _, k') \<Rightarrow> Some (Ok (tc_delegate k'))
   | Some (Err e, k') \<Rightarrow> Some (Err (tc_delegate k', e))
   | Some (Panic, _) \<Rightarrow> Some Panic)"

section \<open>The halves of a split connection\<close>

definition async_split ::
  "('t, 'h, 'k) AsyncConnection \<Rightarrow> ('t, 'h, 'k) AsyncReader \<times> ('t, 'k) AsyncWriter" where
  "async_split k =
     (\<lparr>tr_opened = tc_opened k, tr_delegate = tc_delegate k, tr_key_schedule = server_state (tc_key_schedule k),
       tr_record_reader = tc_record_reader k, tr_decrypted = tc_decrypted k\<rparr>,
      \<lparr>tw_opened = tc_opened k, tw_delegate = tc_delegate k, tw_key_schedule = client_state (tc_key_schedule k),
       tw_record_write_buf = tc_record_write_buf k, tw_flush_policy = tc_flush_policy k\<rparr>)"

subsection \<open>The reader\<close>

definition areader_create_read_buffer :: "('t, 'h, 'k) AsyncReader \<Rightarrow> (ReadBuffer, TlsError) result" where
  "areader_create_read_buffer k = di_create_read_buffer (rr_buf (tr_record_reader k)) (tr_decrypted k)"

definition areader_read_application_data ::
  "('h, 'k) TlsCipherSuite \<Rightarrow> 't AsyncTransport \<Rightarrow> (('t, 'h, 'k) AsyncReader, unit, TlsError) aprog" where
  "areader_read_application_data cs A = (\<lambda>k.
     let src_len = length (rr_buf (tr_record_reader k)) in
     case read_record cs (reads A) (tr_record_reader k, tr_delegate k, tr_key_schedule k) of
       None \<Rightarrow> None
     | Some (q, rr, t, rks) \<Rightarrow>
         let k1 = k\<lparr>tr_record_reader := rr, tr_delegate := t, tr_key_schedule := rks\<rparr> in
         (case q of
           Ok rec \<Rightarrow>
             let opened = tr_opened k in
             (case decrypt_record cs rec (handler_cb src_len) (rr_buf rr, rks, tr_decrypted k, opened) of
                (result, mem, rks', i, opened') \<Rightarrow>
                  let k2 = k1\<lparr>tr_record_reader := rr\<lparr>rr_buf := mem\<rparr>, tr_key_schedule := rks', tr_decrypted := i\<rparr> in
                  Some (result, if \<not> opened' then k2\<lparr>tr_opened := False\<rparr> else k2))
         | Err e \<Rightarrow> Some (Err e, k1)
         | Panic \<Rightarrow> Some (Panic, k1)))"

partial_function (option) areader_loop ::
  "('h, 'k) TlsCipherSuite \<Rightarrow> 't AsyncTransport \<Rightarrow> ('t, 'h, 'k) AsyncReader \<Rightarrow>
     ((unit, TlsError) result \<times> ('t, 'h, 'k) AsyncReader) option" where
  "areader_loop cs A k = (case di_is_empty (tr_decrypted k) of
     Ok is_empty \<Rightarrow>
       if \<not> is_empty then Some (Ok (), k)
       else (case areader_read_application_data cs A k of
           None \<Rightarrow> None
         | Some (Ok _, k') \<Rightarrow> areader_loop cs A k'
         | Some (Err e, k') \<Rightarrow> Some (Err e, k')
         | Some (Panic, k') \<Rightarrow> Some (Panic, k'))
   | Err e \<Rightarrow> Some (Err e, k)
   | Panic \<Rightarrow> Some (Panic, k))"

definition areader_read_buffered ::
  "('h, 'k) TlsCipherSuite \<Rightarrow> 't AsyncTransport \<Rightarrow> ('t, 'h, 'k) AsyncReader \<Rightarrow>
     ((ReadBuffer, TlsError) result \<times> ('t, 'h, 'k) AsyncReader) option" where
  "areader_read_buffered cs A k =
     (if tr_opened k then
        (case areader_loop cs A k of
           None \<Rightarrow> None
         | Some (Ok _, k') \<Rightarrow> Some (areader_create_read_buffer k', k')
         | Some (Err e, k') \<Rightarrow> Some (Err e, k')
         | Some (Panic, k') \<Rightarrow> Some (Panic, k'))
      else Some (Err MissingHandshake, k))"

definition areader_read ::
  "('h, 'k) TlsCipherSuite \<Rightarrow> 't AsyncTransport \<Rightarrow> bytes \<Rightarrow> ('t, 'h, 'k) AsyncReader \<Rightarrow>
     ((nat \<times> bytes, TlsError) result \<times> ('t, 'h, 'k) AsyncReader) option" where
  "areader_read cs A buf k =
     (if buf = [] then Some (Ok (0, buf), k)
      else with_reader_buffer (rb_pop_into buf) (areader_read_buffered cs A k))"

definition areader_fill_buf ::
  "('h, 'k) TlsCipherSuite \<Rightarrow> 't AsyncTransport \<Rightarrow> ('t, 'h, 'k) AsyncReader \<Rightarrow>
     ((bytes, TlsError) result \<times> ('t, 'h, 'k) AsyncReader) option" where
  "areader_fill_buf cs A k = with_reader_buffer rb_peek_all (areader_read_buffered cs A k)"

definition areader_consume :: "nat \<Rightarrow> (('t, 'h, 'k) AsyncReader, unit, TlsError) prog" where
  "areader_consume amt = (\<lambda>k. case areader_create_read_buffer k of
     Ok b \<Rightarrow> (case rb_pop amt b of
         (Ok _, b') \<Rightarrow> (Ok (), drop_reader_buffer b' k)
       | (Err e, b') \<Rightarrow> (Err e, drop_reader_buffer b' k)
       | (Panic, b') \<Rightarrow> (Panic, drop_reader_buffer b' k))
   | Err e \<Rightarrow> (Err e, k)
   | Panic \<Rightarrow> (Panic, k))"

subsection \<open>The writer\<close>

abbreviation aon_writer_delegate :: "('t, 'a, 'e) aprog \<Rightarrow> (('t, 'k) AsyncWriter, 'a, 'e) aprog" where
  "aon_writer_delegate \<equiv> azoom tw_delegate (\<lambda>x k. k\<lparr>tw_delegate := x\<rparr>)"

definition awriter_flush_transport :: "'t AsyncTransport \<Rightarrow> (('t, 'k) AsyncWriter, unit, TlsError) aprog" where
  "awriter_flush_transport A = amap_err Io (aon_writer_delegate (await (at_flush A)))"

definition awriter_flush ::
  "('h, 'k) TlsCipherSuite \<Rightarrow> 't AsyncTransport \<Rightarrow> (('t, 'k) AsyncWriter, unit, TlsError) aprog" where
  "awriter_flush cs A = (\<lambda>k.
     if wb_is_empty (tw_record_write_buf k) then Some (Ok (), k)
     else
       (abnd (sync (on_writer_buf (close_record cs (tw_key_schedule k)))) (\<lambda>slice.
        aseq (amap_err Io (aon_writer_delegate (await (at_write_all A slice)))) (
        aseq (sync (zoom tw_key_schedule (\<lambda>x k. k\<lparr>tw_key_schedule := x\<rparr>) write_increment_counter)) (
        abnd (sync (gets tw_flush_policy)) (\<lambda>policy.
        if FlushPolicy_flush_transport policy then awriter_flush_transport A else sync (ret ())))))) k)"

definition awriter_write ::
  "('h, 'k) TlsCipherSuite \<Rightarrow> 't AsyncTransport \<Rightarrow> bytes \<Rightarrow> (('t, 'k) AsyncWriter, nat, TlsError) aprog" where
  "awriter_write cs A buf =
     abnd (sync (gets tw_opened)) (\<lambda>opened.
     if opened then
       abnd (sync (gets tw_record_write_buf)) (\<lambda>w.
       aseq (if \<not> wb_contains RH_ApplicationData w
             then aseq (awriter_flush cs A) (sync (on_writer_buf (start_record RH_ApplicationData)))
             else sync (ret ())) (
       abnd (sync (on_writer_buf (wb_append buf))) (\<lambda>buffered.
       abnd (sync (gets tw_record_write_buf)) (\<lambda>w.
       abnd (sync (from_result (wb_is_full w))) (\<lambda>full.
       aseq (if full then awriter_flush cs A else sync (ret ())) (
       sync (ret buffered)))))))
     else sync (fail MissingHandshake))"

section \<open>Equivalence with the blocking connection\<close>

context async_transport
begin

lemma flush_transport_sync: "async_flush_transport A = sync (TlsConnection_flush_transport T)"
  by (simp add: async_flush_transport_def TlsConnection_flush_transport_def awaits sync_simps)

lemma flush_sync: "async_flush cs A = sync (TlsConnection_flush cs T)"
  by (simp add: fun_eq_iff async_flush_def TlsConnection_flush_def awaits flush_transport_sync sync_simps cong: if_cong)

lemma write_sync: "async_write cs A buf = sync (TlsConnection_write cs T buf)"
  by (simp add: async_write_def TlsConnection_write_def flush_sync sync_simps cong: if_cong)

lemma close_sync: "async_close_internal cs A = sync (TlsConnection_close_internal cs T)"
  by (simp add: async_close_internal_def TlsConnection_close_internal_def flush_sync flush_transport_sync awaits sync_simps)

lemma read_application_data_sync:
  "async_read_application_data cs A = sync (TlsConnection_read_application_data cs T)"
  by (auto simp: fun_eq_iff async_read_application_data_def TlsConnection_read_application_data_def awaits sync_simps Let_def
      split: prod.splits result.splits)

lemma reader_read_application_data_sync:
  "areader_read_application_data cs A = sync (TlsReader_read_application_data cs T)"
  by (auto simp: fun_eq_iff areader_read_application_data_def TlsReader_read_application_data_def awaits sync_simps Let_def
      split: prod.splits result.splits)

lemma writer_flush_sync: "awriter_flush cs A = sync (TlsWriter_flush cs T)"
  by (simp add: fun_eq_iff awriter_flush_def TlsWriter_flush_def awriter_flush_transport_def TlsWriter_flush_transport_def
      awaits sync_simps cong: if_cong)

lemma writer_write_sync: "awriter_write cs A buf = sync (TlsWriter_write cs T buf)"
  by (simp add: awriter_write_def TlsWriter_write_def writer_flush_sync sync_simps cong: if_cong)

end

text \<open>The loops: what one finds, the other does.\<close>

lemma open_loop_finds:
  assumes "open_loop rsa cs P T config st c = Some y"
  shows "async_transport A T \<longrightarrow> async_open_loop rsa cs P A config st c = Some y"
proof (rule open_loop.raw_induct [OF _ assms, of "\<lambda>((((((rsa, cs), P), T), config), st), c) y.
    async_transport A T \<longrightarrow> async_open_loop rsa cs P A config st c = Some y", unfolded case_prod_conv], goal_cases)
  case (1 f rsa cs P T config st c y)
  show ?case
  proof
    assume a: "async_transport A T"
    obtain r c1 where p: "process_blocking rsa cs P T config st c = (r, c1)" by fastforce
    with a have q: "process rsa cs P A config st c = Some (r, c1)" by (simp add: async_transport.process_sync)
    have ih: "f rsa cs P T config st1 c1 = Some y \<Longrightarrow> async_open_loop rsa cs P A config st1 c1 = Some y" for st1
      using 1(1) a by blast
    show "async_open_loop rsa cs P A config st c = Some y"
      unfolding async_open_loop.simps [of rsa cs P A config st c]
      using 1(2) ih p q by (cases r) (simp_all split: if_splits)
  qed
qed

lemma async_open_loop_finds:
  assumes "async_open_loop rsa cs P A config st c = Some y"
  shows "async_transport A T \<longrightarrow> open_loop rsa cs P T config st c = Some y"
proof (rule async_open_loop.raw_induct [OF _ assms, of "\<lambda>((((((rsa, cs), P), A), config), st), c) y.
    async_transport A T \<longrightarrow> open_loop rsa cs P T config st c = Some y", unfolded case_prod_conv], goal_cases)
  case (1 f rsa cs P A config st c y)
  show ?case
  proof
    assume a: "async_transport A T"
    obtain r c1 where p: "process_blocking rsa cs P T config st c = (r, c1)" by fastforce
    with a have q: "process rsa cs P A config st c = Some (r, c1)" by (simp add: async_transport.process_sync)
    have ih: "f rsa cs P A config st1 c1 = Some y \<Longrightarrow> open_loop rsa cs P T config st1 c1 = Some y" for st1
      using 1(1) a by blast
    show "open_loop rsa cs P T config st c = Some y"
      unfolding open_loop.simps [of rsa cs P T config st c]
      using 1(2) ih p q by (cases r) (simp_all split: if_splits)
  qed
qed

lemma read_loop_finds:
  assumes "read_loop cs T k = Some y"
  shows "async_transport A T \<longrightarrow> async_read_loop cs A k = Some y"
proof (rule read_loop.raw_induct [OF _ assms, of "\<lambda>cs T k y. async_transport A T \<longrightarrow> async_read_loop cs A k = Some y"],
    goal_cases)
  case (1 f cs T k y)
  show ?case
    using 1 by (subst async_read_loop.simps)
      (auto simp: async_transport.read_application_data_sync split: if_splits prod.splits result.splits)
qed

lemma async_read_loop_finds:
  assumes "async_read_loop cs A k = Some y"
  shows "async_transport A T \<longrightarrow> read_loop cs T k = Some y"
proof (rule async_read_loop.raw_induct [OF _ assms, of "\<lambda>cs A k y. async_transport A T \<longrightarrow> read_loop cs T k = Some y"],
    goal_cases)
  case (1 f cs A k y)
  show ?case
    using 1 by (cases y, subst read_loop.simps)
      (auto simp: async_transport.read_application_data_sync split: if_splits prod.splits result.splits)
qed

lemma reader_loop_finds:
  assumes "reader_loop cs T k = Some y"
  shows "async_transport A T \<longrightarrow> areader_loop cs A k = Some y"
proof (rule reader_loop.raw_induct [OF _ assms, of "\<lambda>cs T k y. async_transport A T \<longrightarrow> areader_loop cs A k = Some y"],
    goal_cases)
  case (1 f cs T k y)
  show ?case
    using 1 by (subst areader_loop.simps)
      (auto simp: async_transport.reader_read_application_data_sync split: if_splits prod.splits result.splits)
qed

lemma areader_loop_finds:
  assumes "areader_loop cs A k = Some y"
  shows "async_transport A T \<longrightarrow> reader_loop cs T k = Some y"
proof (rule areader_loop.raw_induct [OF _ assms, of "\<lambda>cs A k y. async_transport A T \<longrightarrow> reader_loop cs T k = Some y"],
    goal_cases)
  case (1 f cs A k y)
  show ?case
    using 1 by (cases y, subst reader_loop.simps)
      (auto simp: async_transport.reader_read_application_data_sync split: if_splits prod.splits result.splits)
qed

context async_transport
begin

lemma loops_equal:
  "async_open_loop rsa cs P A config st c = open_loop rsa cs P T config st c"
  "async_read_loop cs A k = read_loop cs T k"
  "areader_loop cs A x = reader_loop cs T x"
  using open_loop_finds async_open_loop_finds read_loop_finds async_read_loop_finds reader_loop_finds areader_loop_finds
    async_transport_axioms
  by (metis not_Some_eq)+

lemma open_equal: "async_open rsa cs P A config = TlsConnection_open rsa cs P T config"
  unfolding async_open_def TlsConnection_open_def loops_equal ..

lemma read_equal: "async_read cs A buf = TlsConnection_read cs T buf" "async_fill_buf cs A = TlsConnection_fill_buf cs T"
  unfolding fun_eq_iff async_read_def TlsConnection_read_def async_fill_buf_def TlsConnection_fill_buf_def
    async_read_buffered_def TlsConnection_read_buffered_def loops_equal async_create_read_buffer_def
    TlsConnection_create_read_buffer_def by (intro allI refl)+

lemma reader_read_equal: "areader_read cs A buf = TlsReader_read cs T buf" "areader_fill_buf cs A = TlsReader_fill_buf cs T"
  unfolding fun_eq_iff areader_read_def TlsReader_read_def areader_fill_buf_def TlsReader_fill_buf_def
    areader_read_buffered_def TlsReader_read_buffered_def loops_equal areader_create_read_buffer_def
    TlsReader_create_read_buffer_def by (intro allI refl)+

lemma close_equal: "async_close cs A k = Some (TlsConnection_close cs T k)"
  by (simp add: async_close_def TlsConnection_close_def close_sync split: prod.splits result.splits)

end

section \<open>A transport that makes its user wait\<close>

text \<open>The transport in memory, with every operation pending twice before it is ready.\<close>

record DelayedDuplex =
  dd_duplex :: ChunkDuplex
  dd_wait :: nat

definition delayed :: "(ChunkDuplex, 'a, 'e) prog \<Rightarrow> (DelayedDuplex, 'a, 'e) future" where
  "delayed m d = (if 0 < dd_wait d then (Pending, d\<lparr>dd_wait := dd_wait d - 1\<rparr>)
     else case m (dd_duplex d) of (r, x) \<Rightarrow> (Ready r, \<lparr>dd_duplex = x, dd_wait = 2\<rparr>))"

definition delayed_done :: "(ChunkDuplex, 'a, 'e) prog \<Rightarrow> (DelayedDuplex, 'a, 'e) prog" where
  "delayed_done m d = (case m (dd_duplex d) of (r, x) \<Rightarrow> (r, \<lparr>dd_duplex = x, dd_wait = 2\<rparr>))"

definition delayed_transport :: "DelayedDuplex AsyncTransport" where
  "delayed_transport = \<lparr>at_read = (\<lambda>n. delayed (t_read chunk_transport n)),
     at_write_all = (\<lambda>bs. delayed (t_write_all chunk_transport bs)), at_flush = delayed (t_flush chunk_transport)\<rparr>"

definition patient_transport :: "DelayedDuplex Transport" where
  "patient_transport = \<lparr>t_read = (\<lambda>n. delayed_done (t_read chunk_transport n)),
     t_write_all = (\<lambda>bs. delayed_done (t_write_all chunk_transport bs)), t_flush = delayed_done (t_flush chunk_transport)\<rparr>"

lemma await_delayed: "await (delayed m) d = Some (delayed_done m d)"
proof (induction "dd_wait d" arbitrary: d)
  case 0
  then show ?case by (subst await.simps) (simp add: delayed_def delayed_done_def split: prod.splits)
next
  case (Suc n)
  let ?d = "d\<lparr>dd_wait := n\<rparr>"
  have "await (delayed m) d = await (delayed m) ?d"
    using Suc.hyps(2) [symmetric] by (subst await.simps) (simp add: delayed_def)
  also have "\<dots> = Some (delayed_done m ?d)" by (rule Suc.hyps(1)) simp
  finally show ?case by (simp add: delayed_done_def)
qed

interpretation delayed_io: async_transport delayed_transport patient_transport
  by unfold_locales (simp_all add: delayed_transport_def patient_transport_def await_delayed)

text \<open>The blocking twin keeps the promises of a byte stream, so the theorems on the handshake and the session over such a
  transport hold of the asynchronous connection too.\<close>

interpretation patient_duplex: duplex patient_transport "\<lambda>d. chunk_data (cd_in (dd_duplex d))"
    "\<lambda>d. 0 < chunk_size (cd_in (dd_duplex d))" "\<lambda>d. cd_out (dd_duplex d)"
  by unfold_locales
    (auto simp: patient_transport_def delayed_done_def chunk_transport_def zoom_def ChunkRead_read_def Let_def split: prod.splits)

section \<open>Properties\<close>

text \<open>C14. The asynchronous connection is the blocking one: over a transport whose futures complete, however often they are
  pending first, opening (with the whole handshake), writing, flushing, reading, filling the buffer and closing
  have the result and leave the state of the blocking operations over the transport with the same outcomes; in
  particular they return exactly when those do. The same holds of the reader and writer halves.\<close>

theorem async_is_blocking:
  assumes "async_transport A T"
  shows "async_open rsa cs P A config = TlsConnection_open rsa cs P T config \<and>
    async_write cs A buf k = Some (TlsConnection_write cs T buf k) \<and>
    async_flush cs A k = Some (TlsConnection_flush cs T k) \<and>
    async_read cs A buf = TlsConnection_read cs T buf \<and>
    async_fill_buf cs A = TlsConnection_fill_buf cs T \<and>
    async_close cs A k = Some (TlsConnection_close cs T k) \<and>
    areader_read cs A buf = TlsReader_read cs T buf \<and>
    areader_fill_buf cs A = TlsReader_fill_buf cs T \<and>
    awriter_write cs A buf w = Some (TlsWriter_write cs T buf w) \<and>
    awriter_flush cs A w = Some (TlsWriter_flush cs T w)"
  by (simp_all add: async_transport.open_equal [OF assms] async_transport.write_sync [OF assms] async_transport.flush_sync [OF assms]
      async_transport.read_equal [OF assms] async_transport.close_equal [OF assms]
      async_transport.reader_read_equal [OF assms] async_transport.writer_write_sync [OF assms]
      async_transport.writer_flush_sync [OF assms])

theorem async_is_blocking_witness:
  "\<exists>k. async_new toy_suite \<lparr>dd_duplex = \<lparr>cd_in = \<lparr>chunk_data = [23, 3], chunk_size = 1\<rparr>, cd_out = []\<rparr>, dd_wait = 5\<rparr>
       (replicate 300 0) (replicate 300 0) = Ok k \<and>
     async_open False toy_suite toy_provider delayed_transport plain_config (k, ()) =
       TlsConnection_open False toy_suite toy_provider patient_transport plain_config (k, ())"
proof -
  obtain w where "WriteBuffer_new (replicate 300 0) = Ok w"
    by (simp add: WriteBuffer_new_def TLS_RECORD_OVERHEAD_def)
  then show ?thesis
    by (simp add: async_new_def async_is_blocking [OF delayed_io.async_transport_axioms])
qed

end
