(* ===== verification/Source_Tests.thy ===== *)
theory Source_Tests
  imports Read_Buffer Record_Reader Hostname
begin

text \<open>
  The unit tests of the source, run on the model: those of \<open>src/src/buffer.rs\<close>, \<open>src/src/read_buffer.rs\<close>,
  \<open>src/src/extensions/extension_data/key_share.rs\<close>, \<open>src/src/record_reader.rs\<close> and \<open>src/src/pki.rs\<close>. A test is a
  program whose assertions panic, as in the source, and passes when it returns. The tests of the record reader, which
  the source runs for the chunk sizes 1 to 16, pass for every chunk size.
\<close>

definition assert_that :: "bool \<Rightarrow> ('s, unit, TlsError) prog" where
  "assert_that b = (if b then ret () else panic)"

definition unwrapped :: "('s, 'a, 'e) prog \<Rightarrow> ('s, 'a, TlsError) prog" where
  "unwrapped m = (\<lambda>s. case m s of
     (Ok a, s') \<Rightarrow> (Ok a, s') | (Err _, s') \<Rightarrow> (Panic, s') | (Panic, s') \<Rightarrow> (Panic, s'))"

definition passes :: "('s, unit, TlsError) prog \<Rightarrow> 's \<Rightarrow> bool" where
  "passes test s \<longleftrightarrow> fst (test s) = Ok ()"

fun in_order :: "('s, unit, TlsError) prog list \<Rightarrow> ('s, unit, TlsError) prog" where
  "in_order [] = ret ()"
| "in_order (m # ms) = seq m (in_order ms)"

lemma assert_that_True [simp]: "assert_that True = ret ()"
  by (simp add: assert_that_def)

lemma unwrapped_Ok: "m s = (Ok a, s') \<Longrightarrow> unwrapped m s = (Ok a, s')"
  by (simp add: unwrapped_def)

section \<open>The tests of buffer.rs\<close>

definition slice_is :: "bytes \<Rightarrow> unit encoder" where
  "slice_is bs = bnd (gets cb_as_slice) (\<lambda>r. assert_that (r = (Ok bs :: (bytes, TlsError) result)))"

definition test_encode :: bool where
  "test_encode =
     (let (r1, c1) = unwrapped (cb_push_u24 1027) (cb_wrap [0, 0, 0, 0]);
          (r2, c2) = seq (unwrapped (cb_push_u24 0)) (unwrapped (cb_set_u24 0 1027)) (cb_wrap [0, 0, 0, 0]);
          buf1 = cb_buf c1
      in r1 = Ok () \<and> r2 = Ok () \<and> buf1 = cb_buf c2 \<and>
         u32_from_be_bytes 0 (buf1 ! 0) (buf1 ! 1) (buf1 ! 2) = 1027)"

definition test_offset_calc :: "unit encoder" where
  "test_offset_calc = in_order [
     unwrapped (cb_push 1), unwrapped (cb_push 2), unwrapped (cb_push 3),
     slice_is [1, 2, 3],
     bnd (gets cb_len) cb_at_offset,
     unwrapped (cb_push 4), unwrapped (cb_push 5), unwrapped (cb_push 6),
     slice_is [4, 5, 6],
     cb_at_offset 0,
     unwrapped (cb_push 7), unwrapped (cb_push 8),
     slice_is [1, 2, 3, 4, 5, 6, 7, 8],
     cb_at_offset 6,
     unwrapped (cb_set 0 14), unwrapped (cb_set 1 15),
     cb_at_offset 0,
     slice_is [1, 2, 3, 4, 5, 6, 14, 15],
     cb_at_offset 4,
     cb_truncate 0, unwrapped (cb_extend_from_slice [10, 11, 12, 13]),
     slice_is [10, 11, 12, 13],
     cb_at_offset 0,
     slice_is [1, 2, 3, 4, 10, 11, 12, 13]]"

lemmas buffer_eval = cb_push_def cb_push_u24_def cb_set_def cb_set_u24_def cb_extend_from_slice_def cb_truncate_def
  cb_at_offset_def cb_space_def cb_as_slice_def cb_capacity_def cb_wrap_def slice_is_def gets_def write_at_def slice_of_def

theorem test_encode_passes: "test_encode"
  by (simp add: test_encode_def Let_def unwrapped_def bnd_def buffer_eval u32_to_be_bytes_def u32_from_be_bytes_def)

theorem test_offset_calc_passes: "passes test_offset_calc (cb_wrap [0, 0, 0, 0, 0, 0, 0, 0])"
  by (simp add: passes_def test_offset_calc_def unwrapped_def bnd_def ret_def buffer_eval)

section \<open>The tests of read\_buffer.rs\<close>

definition pop_is :: "nat \<Rightarrow> bytes \<Rightarrow> (ReadBuffer, unit, TlsError) prog" where
  "pop_is n bs = bnd (rb_pop n) (\<lambda>r. assert_that (r = bs))"

definition peek_is :: "nat \<Rightarrow> bytes \<Rightarrow> (ReadBuffer, unit, TlsError) prog" where
  "peek_is n bs = bnd (rb_peek n) (\<lambda>r. assert_that (r = bs))"

definition dropped_is :: "nat \<Rightarrow> nat \<Rightarrow> (ReadBuffer, unit, TlsError) prog" where
  "dropped_is before after = bnd (gets (\<lambda>b. rb_drop b before)) (\<lambda>consumed. assert_that (consumed = after))"

definition dropping_unused_buffer_consumes_all :: "(ReadBuffer, unit, TlsError) prog" where
  "dropping_unused_buffer_consumes_all = dropped_is 1000 1004"

definition pop_moves_internal_cursor :: "(ReadBuffer, unit, TlsError) prog" where
  "pop_moves_internal_cursor = in_order [pop_is 1 [0], pop_is 1 [1], pop_is 1 [2]]"

definition dropping_consumes_as_many_bytes_as_used :: "(ReadBuffer, unit, TlsError) prog" where
  "dropping_consumes_as_many_bytes_as_used = in_order [pop_is 1 [0], pop_is 1 [1], pop_is 1 [2], dropped_is 0 3]"

definition pop_returns_fewer_bytes :: "(ReadBuffer, unit, TlsError) prog" where
  "pop_returns_fewer_bytes = in_order [pop_is 1 [0], pop_is 1 [1], pop_is 4 [2, 3], pop_is 1 [], dropped_is 0 4]"

definition peek_does_not_consume :: "(ReadBuffer, unit, TlsError) prog" where
  "peek_does_not_consume = in_order [peek_is 1 [0], peek_is 1 [0], dropped_is 0 0]"

definition revert_undoes_pop :: "(ReadBuffer, unit, TlsError) prog" where
  "revert_undoes_pop = in_order [pop_is 4 [0, 1, 2, 3],
     bnd (gets (\<lambda>b. rb_revert b 0)) (\<lambda>consumed. assert_that (consumed = 0))]"

theorem read_buffer_tests_pass:
  "list_all (\<lambda>test. passes test (ReadBuffer_new [0, 1, 2, 3]))
     [dropping_unused_buffer_consumes_all, pop_moves_internal_cursor, dropping_consumes_as_many_bytes_as_used,
      pop_returns_fewer_bytes, peek_does_not_consume, revert_undoes_pop]"
  by (simp add: passes_def bnd_def ret_def gets_def slice_of_def pop_is_def peek_is_def dropped_is_def rb_pop_def rb_peek_def
      rb_len_def rb_drop_def rb_revert_def ReadBuffer_new_def dropping_unused_buffer_consumes_all_def pop_moves_internal_cursor_def
      dropping_consumes_as_many_bytes_as_used_def pop_returns_fewer_bytes_def peek_does_not_consume_def revert_undoes_pop_def)

section \<open>The tests of key\_share.rs\<close>

definition entry_is :: "NamedGroup \<Rightarrow> bytes \<Rightarrow> (ParseBuffer, unit, TlsError) prog" where
  "entry_is g bs = bnd (unwrapped KeyShareEntry_parse) (\<lambda>x. assert_that (group x = g \<and> opaque x = bs))"

definition test_parse_empty :: bool where
  "test_parse_empty = passes (entry_is NG_Secp256r1 []) (pb_new [0x00, 0x17, 0x00, 0x00])"

definition test_parse :: bool where
  "test_parse = passes (entry_is NG_Secp256r1 [0xAA, 0xBB]) (pb_new [0x00, 0x17, 0x00, 0x02, 0xAA, 0xBB])"

theorem key_share_tests_pass: "test_parse_empty" "test_parse"
  by code_simp+

section \<open>The tests of record\_reader.rs\<close>

type_synonym reader_state = "RecordReader \<times> ChunkRead \<times> (bytes, bytes) ReadKeySchedule"

text \<open>One block of the tests: the next record is application data with the given bytes, and then the cursors are as given.\<close>

definition read_is :: "bytes \<Rightarrow> nat \<Rightarrow> (reader_state, unit, TlsError) prog" where
  "read_is bs decoded = bnd (unwrapped (read_blocking toy_suite ChunkRead_read)) (\<lambda>rec. case rec of
     SR_ApplicationData d \<Rightarrow>
       bnd (from_result (cb_as_slice (app_data d))) (\<lambda>data.
       seq (assert_that (data = bs)) (
       bnd (gets fst) (\<lambda>reader.
       assert_that (rr_decoded reader = decoded \<and> rr_pending reader = 0))))
   | _ \<Rightarrow> panic)"

definition two_records :: bytes where
  "two_records = [23, 3, 3, 0, 4, 0xde, 0xad, 0xbe, 0xef, 23, 3, 3, 0, 2, 0xaa, 0xbb]"

definition test_start :: "nat \<Rightarrow> bytes \<Rightarrow> nat \<Rightarrow> reader_state" where
  "test_start room transport chunk = (RecordReader_new (replicate room 0),
     \<lparr>chunk_data = transport, chunk_size = chunk\<rparr>, server_state (KeySchedule_new toy_suite))"

definition can_read_blocking_case :: "nat \<Rightarrow> bool" where
  "can_read_blocking_case chunk =
     passes (seq (read_is [0xde, 0xad, 0xbe, 0xef] 4) (read_is [0xaa, 0xbb] 6)) (test_start 32 two_records chunk)"

text \<open>The other tests read from a slice, which gives as many bytes as are asked for: a chunk as long as the data.\<close>

definition can_read_blocking_must_rotate_buffer :: bool where
  "can_read_blocking_must_rotate_buffer =
     passes (seq (read_is [0xde, 0xad, 0xbe, 0xef] 4) (read_is [0xaa, 0xbb] 2))
       (test_start 4 two_records (length two_records))"

definition can_read_empty_record :: bool where
  "can_read_empty_record =
     (let transport = [23, 3, 3, 0, 0, 23, 3, 3, 0, 0] in
      passes (seq (read_is [] 0) (read_is [] 0)) (test_start 32 transport (length transport)))"

lemma read_is_value:
  assumes "0 < chunk_size t" "chunk_data t = [23, 3, 3, 0, n] @ payload @ rest" "length payload = unat n"
    and "rr_ok r" "rr_pending r = 0" "length payload \<le> length (rr_buf r)"
    and "base = (if length (rr_buf r) < rr_decoded r + length payload then 0 else rr_decoded r)"
  shows "\<exists>t'. read_is payload (base + length payload) (r, t, rks) =
      (Ok (), \<lparr>rr_buf = write_at (rr_buf r) base payload, rr_decoded = base + length payload, rr_pending = 0\<rparr>, t', rks) \<and>
    chunk_data t' = rest \<and> 0 < chunk_size t'"
proof -
  have h: "RecordHeader_decode [23, 3, 3, 0, n] = Ok (RecordHeader [23, 3, 3, 0, n])"
    "RecordHeader_content_length (RecordHeader [23, 3, 3, 0, n]) = unat n"
    by (simp_all add: RecordHeader_decode_def ContentType_of_def RecordHeader_content_length_def unat_u16_from)
  have d: "ServerRecord_decode toy_suite (RecordHeader [23, 3, 3, 0, n]) base payload d =
      (Ok (SR_ApplicationData \<lparr>app_header = RecordHeader [23, 3, 3, 0, n],
            app_data = cb_wrap_with_pos payload (unat n), app_base = base\<rparr>), d)" for d
    using assms(3) by (simp add: ServerRecord_decode_def h(2) RecordHeader_content_type_def ContentType_of_def
        cb_wrap_with_pos_def)
  obtain t' where t: "read_blocking toy_suite ChunkRead_read (r, t, rks) =
      (Ok (SR_ApplicationData \<lparr>app_header = RecordHeader [23, 3, 3, 0, n],
            app_data = cb_wrap_with_pos payload (unat n), app_base = base\<rparr>),
       \<lparr>rr_buf = write_at (rr_buf r) base payload, rr_decoded = base + length payload, rr_pending = 0\<rparr>, t', rks)"
    "chunk_data t' = rest" "0 < chunk_size t'"
    using chunk_read.read_record [OF assms(1,2) _ h(1) _ assms(4-7), of toy_suite rks] assms(3)
    by (auto simp: RecordHeader_LEN_def h d)
  then show ?thesis
    using assms(3) by (simp add: read_is_def bnd_def unwrapped_Ok from_result_def gets_def ret_def cb_as_slice_def
        cb_wrap_with_pos_def cb_capacity_def slice_of_def)
qed

lemma read_test_start:
  assumes "0 < chunk" "transport = [23, 3, 3, 0, n] @ payload @ rest" "length payload = unat n" "unat n \<le> room"
  shows "\<exists>t'. read_is payload (unat n) (test_start room transport chunk) =
      (Ok (), \<lparr>rr_buf = write_at (replicate room 0) 0 payload, rr_decoded = unat n, rr_pending = 0\<rparr>, t',
       server_state (KeySchedule_new toy_suite)) \<and> chunk_data t' = rest \<and> 0 < chunk_size t'"
proof -
  have "\<exists>t'. read_is payload (0 + length payload) (RecordReader_new (replicate room 0),
      \<lparr>chunk_data = transport, chunk_size = chunk\<rparr>, server_state (KeySchedule_new toy_suite)) =
      (Ok (), \<lparr>rr_buf = write_at (rr_buf (RecordReader_new (replicate room 0))) 0 payload,
         rr_decoded = 0 + length payload, rr_pending = 0\<rparr>, t', server_state (KeySchedule_new toy_suite)) \<and>
      chunk_data t' = rest \<and> 0 < chunk_size t'"
    by (rule read_is_value [where n = n]) (use assms in \<open>simp_all add: RecordReader_new_def rr_ok_def\<close>)
  then show ?thesis by (simp add: test_start_def assms(3) RecordReader_new_def)
qed

text \<open>Two records are read one after the other, whatever the chunks.\<close>

lemma two_reads_pass:
  assumes "0 < chunk" "transport = [23, 3, 3, 0, n] @ payload @ [23, 3, 3, 0, m] @ payload'"
    and "length payload = unat n" "length payload' = unat m" "unat n \<le> room" "unat m \<le> room"
    and "fin = (if room < unat n + unat m then unat m else unat n + unat m)"
  shows "passes (seq (read_is payload (unat n)) (read_is payload' fin)) (test_start room transport chunk)"
proof -
  let ?k = "server_state (KeySchedule_new toy_suite)"
  let ?r = "\<lparr>rr_buf = write_at (replicate room 0) 0 payload, rr_decoded = unat n, rr_pending = 0\<rparr>"
  obtain t' where t: "read_is payload (unat n) (test_start room transport chunk) = (Ok (), ?r, t', ?k)"
    "chunk_data t' = [23, 3, 3, 0, m] @ payload' @ []" "0 < chunk_size t'"
    using read_test_start [OF assms(1,2,3,5)] by auto
  have "length (rr_buf ?r) = room" using assms(3,5) by simp
  then show ?thesis
    using read_is_value [OF t(3,2) assms(4), of ?r "if room < unat n + unat m then 0 else unat n" ?k] assms(3-7)
    by (auto simp: passes_def bnd_def t(1) rr_ok_def)
qed

lemma test_lengths: "unat (4 :: u8) = 4" "unat (2 :: u8) = 2" "unat (0 :: u8) = 0"
  by simp_all

theorem can_read_blocking_any_chunk:
  assumes "0 < chunk"
  shows "can_read_blocking_case chunk"
proof -
  have "passes (seq (read_is [0xde, 0xad, 0xbe, 0xef] (unat (4 :: u8))) (read_is [0xaa, 0xbb] 6)) (test_start 32 two_records chunk)"
    by (rule two_reads_pass [OF assms, where m = 2]) (simp_all only: two_records_def test_lengths, simp_all)
  then show ?thesis by (simp only: can_read_blocking_case_def test_lengths)
qed

theorem must_rotate_buffer_passes: "can_read_blocking_must_rotate_buffer"
proof -
  have "passes (seq (read_is [0xde, 0xad, 0xbe, 0xef] (unat (4 :: u8))) (read_is [0xaa, 0xbb] 2))
      (test_start 4 two_records (length two_records))"
    by (rule two_reads_pass [where m = 2]) (simp_all only: two_records_def test_lengths, simp_all)
  then show ?thesis by (simp only: can_read_blocking_must_rotate_buffer_def test_lengths)
qed

theorem can_read_empty_record_passes: "can_read_empty_record"
proof -
  have "passes (seq (read_is [] (unat (0 :: u8))) (read_is [] 0))
      (test_start 32 [23, 3, 3, 0, 0, 23, 3, 3, 0, 0] (length [23, 3, 3, 0, 0, 23, 3, 3, 0, 0 :: u8]))"
    by (rule two_reads_pass [where m = 0]) (simp_all only: test_lengths, simp_all)
  then show ?thesis by (simp only: can_read_empty_record_def Let_def test_lengths)
qed

section \<open>The tests of pki.rs\<close>

definition exact_match :: bool where
  "exact_match \<longleftrightarrow>
     tls_hostname_match_impl (ascii ''example.com'') (ascii ''example.com'') \<and>
     tls_hostname_match_impl (ascii ''EXAMPLE.COM'') (ascii ''example.com'') \<and>
     tls_hostname_match_impl (ascii ''example.com'') (ascii ''EXAMPLE.COM'')"

definition exact_mismatch :: bool where
  "exact_mismatch \<longleftrightarrow>
     \<not> tls_hostname_match_impl (ascii ''example.com'') (ascii ''example.org'') \<and>
     \<not> tls_hostname_match_impl (ascii ''example.com'') (ascii ''sub.example.com'')"

definition valid_wildcard_match :: bool where
  "valid_wildcard_match \<longleftrightarrow>
     tls_hostname_match_impl (ascii ''*.example.com'') (ascii ''api.example.com'') \<and>
     tls_hostname_match_impl (ascii ''*.example.com'') (ascii ''WWW.example.com'')"

definition wildcard_single_label_only :: bool where
  "wildcard_single_label_only \<longleftrightarrow>
     \<not> tls_hostname_match_impl (ascii ''*.example.com'') (ascii ''a.b.example.com'')"

definition wildcard_requires_same_label_count :: bool where
  "wildcard_requires_same_label_count \<longleftrightarrow>
     \<not> tls_hostname_match_impl (ascii ''*.example.com'') (ascii ''example.com'') \<and>
     \<not> tls_hostname_match_impl (ascii ''*.example.com'') (ascii ''deep.api.example.com'')"

definition wildcard_must_be_leftmost_label :: bool where
  "wildcard_must_be_leftmost_label \<longleftrightarrow>
     \<not> tls_hostname_match_impl (ascii ''api.*.example.com'') (ascii ''api.test.example.com'') \<and>
     \<not> tls_hostname_match_impl (ascii ''foo*.example.xx'') (ascii ''foobar.example.xx'')"

definition wildcard_requires_minimum_three_labels :: bool where
  "wildcard_requires_minimum_three_labels \<longleftrightarrow>
     \<not> tls_hostname_match_impl (ascii ''*.com'') (ascii ''example.com'') \<and>
     \<not> tls_hostname_match_impl (ascii ''*.org'') (ascii ''test.org'')"

definition multiple_wildcards_rejected :: bool where
  "multiple_wildcards_rejected \<longleftrightarrow>
     \<not> tls_hostname_match_impl (ascii ''*.*.example.com'') (ascii ''a.b.example.com'') \<and>
     \<not> tls_hostname_match_impl (ascii ''**.example.com'') (ascii ''api.example.com'')"

definition idna_a_label_supported :: bool where
  "idna_a_label_supported \<longleftrightarrow>
     tls_hostname_match_impl (ascii ''xn--bcher-kva.example'') (ascii ''xn--bcher-kva.example'') \<and>
     tls_hostname_match_impl (ascii ''*.xn--bcher-kva.example'') (ascii ''api.xn--bcher-kva.example'')"

text \<open>The name with an umlaut in UTF-8, where it has two bytes.\<close>

definition buecher :: bytes where
  "buecher = ascii ''b'' @ [0xc3, 0xbc] @ ascii ''cher.example''"

definition unicode_rejected :: bool where
  "unicode_rejected \<longleftrightarrow>
     \<not> tls_hostname_match_impl buecher buecher \<and>
     \<not> tls_hostname_match_impl (ascii ''*.'' @ buecher) (ascii ''api.'' @ buecher)"

definition invalid_characters_rejected :: bool where
  "invalid_characters_rejected \<longleftrightarrow>
     \<not> tls_hostname_match_impl (ascii ''example!.com'') (ascii ''example!.com'') \<and>
     \<not> tls_hostname_match_impl (ascii ''example.com'') (ascii ''exa mple.com'')"

theorem hostname_tests_pass:
  "exact_match"
  "exact_mismatch"
  "valid_wildcard_match"
  "wildcard_single_label_only"
  "wildcard_requires_same_label_count"
  "wildcard_must_be_leftmost_label"
  "wildcard_requires_minimum_three_labels"
  "multiple_wildcards_rejected"
  "idna_a_label_supported"
  "unicode_rejected"
  "invalid_characters_rejected"
  by code_simp+

end
