(* ===== verification/Unwrap.thy ===== *)
theory Unwrap
  imports Config Key_Schedule Tls_Record Pki
begin

text \<open>
  The macro \<open>unwrap!\<close> of \<open>src/src/fmt.rs\<close>, as it is without the \<open>defmt\<close> feature: \<open>Try::into_result\<close> makes a
  \<open>Result\<close> of its argument, and an error panics. The components write the two outcomes of
  an \<open>unwrap!\<close> out as branches; the lemmas below show that these branches are the macro. The
  logging macros of the file have no effect on the state and are left out.
\<close>

section \<open>The macro\<close>

datatype NoneError = NoneError

definition Option_into_result :: "'a option \<Rightarrow> ('a, NoneError) result" where
  "Option_into_result x = (case x of Some t \<Rightarrow> Ok t | None \<Rightarrow> Err NoneError)"

definition Result_into_result :: "('a, 'e) result \<Rightarrow> ('a, 'e) result" where
  "Result_into_result r = r"

definition unwrap :: "('a, 'x) result \<Rightarrow> ('a, 'e) result" where
  "unwrap into_result = (case into_result of Ok t \<Rightarrow> Ok t | Err _ \<Rightarrow> Panic | Panic \<Rightarrow> Panic)"

lemma unwrap_Ok_iff: "unwrap r = Ok t \<longleftrightarrow> r = Ok t" "unwrap r \<noteq> Err e"
  by (cases r; simp add: unwrap_def)+

lemma unwrap_option: "unwrap (Option_into_result x) = (case x of Some t \<Rightarrow> Ok t | None \<Rightarrow> Panic)"
  by (cases x) (simp_all add: unwrap_def Option_into_result_def)

section \<open>Its uses\<close>

text \<open>\<open>u64::checked_add\<close>.\<close>

definition checked_add :: "u64 \<Rightarrow> u64 \<Rightarrow> u64 option" where
  "checked_add a b = (if unat a + unat b < 2 ^ 64 then Some (a + b) else None)"

lemma increment_counter_unwraps:
  "state_increment_counter = bnd (\<lambda>s. (unwrap (Option_into_result (checked_add (counter s) 1)), s))
     (\<lambda>c. modify (\<lambda>s. s\<lparr>counter := c\<rparr>))"
  by (rule ext) (simp add: state_increment_counter_def unwrap_option checked_add_def bnd_def)

lemma content_type_unwraps:
  "RecordHeader_content_type h = unwrap (Option_into_result (ContentType_of (header_data h ! 0)))"
  by (simp add: RecordHeader_content_type_def unwrap_option split: option.split)

lemma push_scheme_unwraps:
  "cfg_push_scheme s = bnd (\<lambda>c. (unwrap (Option_into_result (vec_push 25 (cfg_signature_schemes c) s)), c))
     (\<lambda>v. modify (\<lambda>c. c\<lparr>cfg_signature_schemes := v\<rparr>))"
  by (rule ext) (simp add: cfg_push_scheme_def unwrap_option bnd_def split: option.split)

text \<open>The push of a group is unwrapped without \<open>ok()\<close>: a full vector gives the group back as the error.\<close>

lemma push_group_unwraps:
  "cfg_push_group g = bnd (\<lambda>c. (unwrap (Result_into_result
       (case vec_push 13 (cfg_named_groups c) g of Some v \<Rightarrow> Ok v | None \<Rightarrow> Err g)), c))
     (\<lambda>v. modify (\<lambda>c. c\<lparr>cfg_named_groups := v\<rparr>))"
  by (rule ext) (simp add: cfg_push_group_def Result_into_result_def unwrap_def bnd_def split: option.split)

lemma with_psk_unwraps:
  "TlsConfig_with_psk psk slices = bnd (\<lambda>c. (unwrap (Option_into_result (vec_extend 4 [] slices)), c))
     (\<lambda>ids. modify (\<lambda>c. c\<lparr>cfg_psk := Some (psk, ids)\<rparr>))"
  by (rule ext) (simp add: TlsConfig_with_psk_def unwrap_option bnd_def split: option.split)

text \<open>\<open>self.certificate_transcript.take()\<close>: the failed macro leaves the taken option, which was empty.\<close>

lemma verify_signature_unwraps:
  "CertVerifier_verify_signature F C D cs verify =
     bnd (\<lambda>cv. (unwrap (Option_into_result (cv_certificate_transcript cv)), cv\<lparr>cv_certificate_transcript := None\<rparr>)) (\<lambda>handshake_hash.
     bnd (from_result (server_verify_msg 146 (digest_finalize cs handshake_hash))) (\<lambda>msg.
     bnd (\<lambda>cv. (unwrap (Option_into_result (cv_certificate cv)), cv)) (\<lambda>owned.
     from_result (and_then (CertificateRef_try_from owned) (\<lambda>certificate. pki_verify_signature F C D msg certificate verify)))))"
proof (rule ext, goal_cases)
  case (1 cv)
  have "cv_certificate_transcript cv = None \<Longrightarrow> cv\<lparr>cv_certificate_transcript := None\<rparr> = cv" by (cases cv) simp
  then show ?case by (auto simp: CertVerifier_verify_signature_def unwrap_option bnd_def split: option.split result.split)
qed

end
