(* ===== verification/Spec2Isabelle.thy ===== *)
theory Spec2Isabelle
  imports Read_Integrity Server_Identity Client_Auth Async_Connection Source_Tests Unwrap
begin

text \<open>
  A verification of \<open>embedded-tls\<close>, a TLS 1.3 client without allocation for embedded devices
  (\<open>src/src\<close>). The program is a stack. At the bottom, byte cursors read and write messages
  (\<open>parse_buffer.rs\<close>, \<open>buffer.rs\<close>); above them stand the extensions (\<open>extensions/\<close>), the handshake
  messages (\<open>handshake/\<close>) and the records (\<open>record.rs\<close>); the key schedule (\<open>key_schedule.rs\<close>)
  derives the keys; \<open>record_reader.rs\<close>, \<open>write_buffer.rs\<close> and the functions \<open>encrypt\<close> and
  \<open>decrypt_record\<close> of \<open>connection.rs\<close> move protected records; the state machine of
  \<open>connection.rs\<close> performs the handshake; \<open>blocking.rs\<close> and \<open>asynch.rs\<close> are the connection the application
  sees. Beside the stack stand the verifiers of the server's certificates, \<open>pki.rs\<close> with \<open>der_certificate.rs\<close> and
  \<open>webpki.rs\<close>, which the crypto provider hands to the handshake.

  How the code is modelled. A function that mutates its arguments is a program: a function from a state to an
  outcome and the new state (\<open>prog\<close> in \<open>Prelude\<close>). An outcome is \<open>Ok\<close>, \<open>Err\<close> or \<open>Panic\<close>; the question
  mark operator is \<open>bnd\<close>. The cursor of \<open>parse_buffer.rs\<close> indexes with a panic of its own behind each bounds check, so that
  freedom from panics rests on the checks. Machine integers are words, \<open>usize\<close> is \<^typ>\<open>nat\<close> with the panics of checked
  arithmetic written out. Structs are records, enums are datatypes, with the names of the source.
  What the code takes from other crates is a parameter: the cipher suite with its hash, HKDF,
  HMAC and AEAD is the record \<open>TlsCipherSuite\<close>, the crypto provider with its random generator, key
  exchange, verifier and signer is \<open>CryptoProvider\<close>, the transport is \<open>Transport\<close> or, with futures,
  \<open>AsyncTransport\<close>; the reader and decoder of the \<open>der\<close> crate is \<open>Der\<close>, a signature crate is \<open>SigCrate\<close>, the \<open>webpki\<close> crate
  is \<open>WebpkiCrate\<close>, keys and random numbers of \<open>UnsecureProvider\<close> are \<open>EcCrates\<close>. What is
  documented of them is a named hypothesis of the theorems that need it: \<open>kdf_laws\<close>, \<open>digest_laws\<close>,
  \<open>aead_laws\<close>, \<open>decrypts_in_place\<close>, \<open>writes_return\<close> and the locales \<open>duplex\<close>, \<open>der_slice_reader\<close>, \<open>der_encoding\<close> and \<open>async_transport\<close>. A toy suite, a
  reader of DER headers, and transports in memory, blocking and with futures that are pending for a while, satisfy all of them
  and run in the witnesses.

  The theories, bottom up, with the source each models.

    \<^item> \<open>Prelude\<close>: outcomes, programs, big-endian integers, slices, bounded vectors.
    \<^item> \<open>Tls_Error\<close>: \<open>lib.rs\<close>, \<open>alert.rs\<close>, the conversions of errors.
    \<^item> \<open>Parse_Buffer\<close>: \<open>parse_buffer.rs\<close>. \<open>Crypto_Buffer\<close>: \<open>buffer.rs\<close>. \<open>Wire_Codec\<close>: the contract between an
      encoder and a parser (locale \<open>wire_codec\<close>).
    \<^item> \<open>Extension_Data\<close>, \<open>Extensions\<close>, \<open>Extension_Messages\<close>: \<open>extensions/\<close>; the macro
      \<open>extension_group!\<close> is a locale, interpreted for its seven uses.
    \<^item> \<open>Config\<close>: \<open>config.rs\<close>, \<open>cipher_suites.rs\<close>, \<open>flush_policy.rs\<close>.
    \<^item> \<open>Key_Schedule\<close>: \<open>key_schedule.rs\<close>, \<open>handshake/finished.rs\<close>, \<open>handshake/binder.rs\<close>; it refines the
      key schedule of RFC 8446, written as \<open>rfc_early\<close>, \<open>rfc_handshake\<close>, \<open>rfc_master\<close>, \<open>rfc_traffic\<close>.
    \<^item> \<open>Handshake_Messages\<close>, \<open>Client_Hello\<close>: \<open>handshake/\<close>. \<open>Tls_Record\<close>: \<open>record.rs\<close>,
      \<open>content_types.rs\<close>, \<open>change_cipher_spec.rs\<close>, \<open>application_data.rs\<close>.
    \<^item> \<open>Record_Reader\<close>: the blocking half of \<open>record_reader.rs\<close>; the locale \<open>stream_reader\<close> is a transport over a
      byte stream that may be cut into any chunks.
    \<^item> \<open>Record_Protection\<close>: \<open>encrypt\<close> and \<open>decrypt_record\<close> of \<open>connection.rs\<close>. \<open>Server_Flight\<close>: coalesced handshake
      messages in one protected record.
    \<^item> \<open>Write_Buffer\<close>: \<open>write_buffer.rs\<close>. \<open>Read_Buffer\<close>: \<open>read_buffer.rs\<close> and \<open>common/\<close>.
    \<^item> \<open>Connection\<close>: the handshake state machine of \<open>connection.rs\<close>, each state's function and
      \<open>process_blocking\<close>, with the step relation \<open>hs_step\<close>. \<open>Handshake_Run\<close>: what each step sends and
      computes over a transport (locale \<open>duplex\<close>), put together to a complete run.
      \<open>Client_Auth\<close>: client certificates, signatures and aborts. \<open>Toy_Server\<close>: a concrete handshake.
    \<^item> \<open>Blocking\<close>: \<open>blocking.rs\<close>. \<open>Split_Halves\<close>: the halves of \<open>split\<close> do what the connection does (locale
      \<open>part\<close>). \<open>Blocking_Open\<close>: the loop of \<open>open\<close>. \<open>Blocking_Writes\<close> and \<open>Blocking_Reads\<close>: the record streams
      of an open connection. \<open>Blocking_Session\<close>: the properties of whole sessions.
    \<^item> \<open>Connection_Invariant\<close>: the well-formedness \<open>conn_ok\<close> of a connection, the calls of a client as the relation \<open>conn_step\<close>
      over a transport that may fail anywhere, and what failures leave behind. \<open>Read_Integrity\<close>: from the bytes that a read returns back to the sealed record of the stream they
      came in, and what records without protection do.
    \<^item> \<open>Async_Io\<close>: the async functions of \<open>record_reader.rs\<close> and \<open>connection.rs\<close>; a future is a function to \<open>Pending\<close> or
      \<open>Ready\<close> and \<open>await\<close> polls it until it is ready. \<open>Async_Connection\<close>: \<open>asynch.rs\<close>, and that it does what \<open>Blocking\<close> does.
    \<^item> \<open>Hostname\<close>: the host name check of \<open>pki.rs\<close>, against a definition by labels. \<open>Der_Certificate\<close>:
      \<open>der_certificate.rs\<close>. \<open>Pki\<close>: the rest of \<open>pki.rs\<close>, the links of a chain, the walk and the signature of
      CertificateVerify. \<open>Webpki\<close>: \<open>webpki.rs\<close>. \<open>Providers\<close>: the cipher suites, the default
      methods and \<open>UnsecureProvider\<close> of \<open>config.rs\<close>, the empty \<open>crypto_engine.rs\<close>, and a provider with a \<open>CertVerifier\<close>.
      \<open>Server_Verify\<close>: \<open>process_server_verify\<close> on a protected record, which Finished it accepts and what a refusal of the
      verifier does. \<open>Server_Identity\<close>: what the state of that verifier says after \<open>open\<close>; the locale \<open>kept_by_handshake\<close> carries an
      invariant of a provider through the handshake.
    \<^item> \<open>Unwrap\<close>: the macro \<open>unwrap!\<close> of \<open>fmt.rs\<close>, and that the panics written out in the components are its panics.
    \<^item> \<open>Source_Tests\<close>: the unit tests of the source as definitions, and that they pass.

  What the theorems show. Parsers never panic and read back what the encoders write; the ClientHello has exactly the
  specified bytes and its binders are those of the RFC; the key schedule, nonces and Finished values are
  those of the RFC, and no nonce of a direction repeats; a protected record is delivered exactly as it was sealed and a forged one is
  refused without effect; reading is independent of how the transport cuts the stream, and does not panic before a read has
  failed. The handshake completes
  with an honest server, ends on every finite stream, and succeeds only through a Finished that
  verifies. An open connection delivers the written bytes in order, once each, to a peer with the
  matching keys, split or not, until it is closed, and the async connection does the same. A certificate list that the
  verifier of \<open>pki.rs\<close> accepts for a host is exactly a chain of valid, verified links from the configured CA to a certificate for that
  host, whose key then signs the transcript; what the verifier refuses ends the handshake; after \<open>open\<close> the certificate that the verifier keeps is one of the handshake and checked so.
  Every sequence of calls on an open connection, with failures of the transport anywhere, leaves it well formed; on it
  writing does not panic and reading ends on every finite stream. Whatever the stream holds, what a read returns was sealed under the read
  key and a sequence number not used before. The theorems of kind error give what the code does in the cases
  where that is not what it should do: they are listed as findings.

  Bounds. Sequence numbers are 64-bit words and the theorems about runs assume that they do not reach the
  maximum, where the code panics. Records are below 65536 bytes and fit into the buffers, as the
  documentation of the buffers asks. The loops of \<open>open\<close> and \<open>read_buffered\<close>, of
  \<open>await\<close> and of the general names in a certificate are partial functions into \<^typ>\<open>'a option\<close>; that they return is proved,
  for \<open>await\<close> from the hypothesis that the futures of the transport complete. All other loops are total functions.

  Not modelled. The logging macros of \<open>fmt.rs\<close> and the \<open>Format\<close> implementations
  forward log messages and have no state. Methods that only delegate to a method of the same name (of the borrowed buffers and of the
  \<open>embedded_io\<close> traits) are the definition they delegate to. Decoding a certificate from its DER bytes is derived by macros of the \<open>der\<close>
  crate and is the parameter \<open>Certificate_from_der\<close>; AES-GCM, SHA-2, the elliptic curves and RSA are those of other
  crates. The halves of a split connection are used one after the other: each has the value of
  the flag they share through an atomic, and that they may run on two threads is not modelled. A future that is dropped before it completes is not modelled.
\<close>

end
